(* ===== verification/Prelude.thy ===== *)
theory Prelude
  imports Main "HOL-Library.Word"
begin

unbundle bit_operations_syntax

text \<open>
  Prelude: what every component of the development shares.  The machine integer types of the
  C and C++ sources, the error monad in which fallible code is written (an \<open>Inl\<close> is a failed
  CHECK, an error return or an abort, an \<open>Inr\<close> is the value the code goes on with), the theorem
  collections the component proofs use, and generic lemmas on words and lists.
\<close>

section \<open>Machine integers\<close>

type_synonym u8 = "8 word"
type_synonym u16 = "16 word"
type_synonym u32 = "32 word"
type_synonym u64 = "64 word"

named_theorems bpf_consts \<open>the numeric constants of linux_filter.h and linux_seccomp.h\<close>
named_theorems monad_simps \<open>unfolding of the error monad\<close>

section \<open>The error monad\<close>

type_synonym ('e, 'a) result = "'e + 'a"

definition bindE :: "'e + 'a \<Rightarrow> ('a \<Rightarrow> 'e + 'b) \<Rightarrow> 'e + 'b" where
  "bindE m f = (case m of Inl e \<Rightarrow> Inl e | Inr x \<Rightarrow> f x)"

definition check :: "bool \<Rightarrow> 'e \<Rightarrow> 'e + unit" where
  "check b e = (if b then Inr () else Inl e)"

lemma bindE_Inr [simp]: "bindE (Inr x) f = f x"
  by (simp add: bindE_def)

lemma bindE_Inl [simp]: "bindE (Inl e) f = Inl e"
  by (simp add: bindE_def)

lemma bindE_eq_Inr [monad_simps]: "bindE m f = Inr y \<longleftrightarrow> (\<exists>x. m = Inr x \<and> f x = Inr y)"
  by (cases m) auto

lemma bindE_eq_Inl [monad_simps]:
  "bindE m f = Inl e \<longleftrightarrow> m = Inl e \<or> (\<exists>x. m = Inr x \<and> f x = Inl e)"
  by (cases m) auto

lemma check_eq_Inr [simp]: "check b e = Inr u \<longleftrightarrow> b"
  by (simp add: check_def)

lemma check_eq_Inl [simp]: "check b e = Inl e' \<longleftrightarrow> \<not> b \<and> e' = e"
  by (auto simp: check_def)

lemma check_True [simp]: "check True e = Inr ()"
  by (simp add: check_def)

lemma check_False [simp]: "check False e = Inl e"
  by (simp add: check_def)

lemma bindE_check [simp]: "bindE (check b e) f = (if b then f () else Inl e)"
  by (simp add: check_def)

lemma bindE_assoc: "bindE (bindE m f) g = bindE m (\<lambda>x. bindE (f x) g)"
  by (cases m) simp_all

section \<open>The two 32-bit halves of a 64-bit value\<close>

definition lo32 :: "u64 \<Rightarrow> u32" where
  "lo32 w = ucast w"

definition hi32 :: "u64 \<Rightarrow> u32" where
  "hi32 w = ucast (drop_bit 32 w)"

lemma bit_lo32: "bit (lo32 w) n \<longleftrightarrow> n < 32 \<and> bit w n"
  by (auto simp: lo32_def bit_simps)

lemma bit_hi32: "bit (hi32 w) n \<longleftrightarrow> n < 32 \<and> bit w (n + 32)"
  by (auto simp: hi32_def bit_simps add.commute)

lemma lo32_and: "lo32 (a AND b) = lo32 a AND lo32 b"
  by (rule bit_word_eqI) (auto simp: bit_lo32 bit_simps)

lemma hi32_and: "hi32 (a AND b) = hi32 a AND hi32 b"
  by (rule bit_word_eqI) (auto simp: bit_hi32 bit_simps)

lemma halves_eq: "a = b \<longleftrightarrow> hi32 a = hi32 b \<and> lo32 a = lo32 b"
proof
  assume h: "hi32 a = hi32 b \<and> lo32 a = lo32 b"
  show "a = b"
  proof (rule bit_word_eqI)
    fix n :: nat
    assume n: "n < LENGTH(64)"
    show "bit a n \<longleftrightarrow> bit b n"
    proof (cases "n < 32")
      case True
      with h bit_lo32 [of a n] bit_lo32 [of b n] show ?thesis by simp
    next
      case False
      with n have "n - 32 < 32" and "n - 32 + 32 = n" by auto
      with h bit_hi32 [of a "n - 32"] bit_hi32 [of b "n - 32"] show ?thesis by simp
    qed
  qed
qed simp

lemma halves_0 [simp]: "lo32 0 = 0" "hi32 0 = 0"
  by (simp_all add: lo32_def hi32_def)

section \<open>Conversions that do not wrap\<close>

lemma unat_of_nat_u32: "m < 2 ^ 32 \<Longrightarrow> unat (of_nat m :: u32) = m"
  by (simp add: unsigned_of_nat take_bit_nat_eq_self)

lemma unat_of_nat_u8: "m < 256 \<Longrightarrow> unat (of_nat m :: u8) = m"
  by (simp add: unsigned_of_nat take_bit_nat_eq_self)

section \<open>Lists read from the end\<close>

lemma nth_append_prefix: "n < length xs \<Longrightarrow> (xs @ ys) ! n = xs ! n"
  by (simp add: nth_append)

lemma rev_take_nth:
  assumes "h < length xs" and "n \<le> h"
  shows "rev (take (Suc h) xs) ! (h - n) = xs ! n"
  using assms by (simp add: rev_nth)

lemma bit_le_unat: "bit w n \<Longrightarrow> 2 ^ n \<le> unat w" for w :: "'a :: len word"
proof -
  assume "bit w n"
  then have "bit (unat w) n" by (simp add: bit_unsigned_iff)
  then have "odd (unat w div 2 ^ n)" by (simp add: bit_iff_odd)
  then have "0 < unat w div 2 ^ n" by (rule odd_pos)
  then show ?thesis by (simp add: div_greater_zero_iff)
qed

end
