(* ===== verification/BPF.thy ===== *)
theory BPF
  imports Prelude
begin

text \<open>
  The BPF virtual machine of sandbox/linux/bpf_dsl/verifier.cc: the instruction encoding of
  system_headers/linux_filter.h, the seccomp return codes of system_headers/linux_seccomp.h, the
  input record arch_seccomp_data of bpf_dsl/trap_registry.h, the operand offsets of
  bpf_dsl/seccomp_macros.h and the interpreter Verifier::EvaluateBPF with its instruction classes
  Ld, Jmp, Ret and Alu.  The lemmas show that the interpreter always stops.
\<close>

section \<open>Instruction encoding\<close>

record sock_filter =
  insn_code :: u16
  insn_jt :: u8
  insn_jf :: u8
  insn_k :: u32

definition BPF_CLASS :: "u16 \<Rightarrow> u16" where "BPF_CLASS c = c AND 0x07"
definition BPF_LD :: u16 where [bpf_consts]: "BPF_LD = 0x00"
definition BPF_ALU :: u16 where [bpf_consts]: "BPF_ALU = 0x04"
definition BPF_JMP :: u16 where [bpf_consts]: "BPF_JMP = 0x05"
definition BPF_RET :: u16 where [bpf_consts]: "BPF_RET = 0x06"
definition BPF_SIZE :: "u16 \<Rightarrow> u16" where "BPF_SIZE c = c AND 0x18"
definition BPF_W :: u16 where [bpf_consts]: "BPF_W = 0x00"
definition BPF_MODE :: "u16 \<Rightarrow> u16" where "BPF_MODE c = c AND 0xe0"
definition BPF_ABS :: u16 where [bpf_consts]: "BPF_ABS = 0x20"
definition BPF_OP :: "u16 \<Rightarrow> u16" where "BPF_OP c = c AND 0xf0"
definition BPF_ADD :: u16 where [bpf_consts]: "BPF_ADD = 0x00"
definition BPF_SUB :: u16 where [bpf_consts]: "BPF_SUB = 0x10"
definition BPF_MUL :: u16 where [bpf_consts]: "BPF_MUL = 0x20"
definition BPF_DIV :: u16 where [bpf_consts]: "BPF_DIV = 0x30"
definition BPF_OR :: u16 where [bpf_consts]: "BPF_OR = 0x40"
definition BPF_AND :: u16 where [bpf_consts]: "BPF_AND = 0x50"
definition BPF_LSH :: u16 where [bpf_consts]: "BPF_LSH = 0x60"
definition BPF_RSH :: u16 where [bpf_consts]: "BPF_RSH = 0x70"
definition BPF_NEG :: u16 where [bpf_consts]: "BPF_NEG = 0x80"
definition BPF_MOD :: u16 where [bpf_consts]: "BPF_MOD = 0x90"
definition BPF_XOR :: u16 where [bpf_consts]: "BPF_XOR = 0xA0"
definition BPF_JA :: u16 where [bpf_consts]: "BPF_JA = 0x00"
definition BPF_JEQ :: u16 where [bpf_consts]: "BPF_JEQ = 0x10"
definition BPF_JGT :: u16 where [bpf_consts]: "BPF_JGT = 0x20"
definition BPF_JGE :: u16 where [bpf_consts]: "BPF_JGE = 0x30"
definition BPF_JSET :: u16 where [bpf_consts]: "BPF_JSET = 0x40"
definition BPF_SRC :: "u16 \<Rightarrow> u16" where "BPF_SRC c = c AND 0x08"
definition BPF_K :: u16 where [bpf_consts]: "BPF_K = 0x00"
definition BPF_MAXINSNS :: nat where [bpf_consts]: "BPF_MAXINSNS = 4096"

lemmas bpf_decode = BPF_CLASS_def BPF_SIZE_def BPF_MODE_def BPF_OP_def BPF_SRC_def

section \<open>Seccomp return codes\<close>

definition SECCOMP_RET_KILL :: u32 where [bpf_consts]: "SECCOMP_RET_KILL = 0x00000000"
definition SECCOMP_RET_INVALID :: u32 where [bpf_consts]: "SECCOMP_RET_INVALID = 0x00010000"
definition SECCOMP_RET_TRAP :: u32 where [bpf_consts]: "SECCOMP_RET_TRAP = 0x00030000"
definition SECCOMP_RET_ERRNO :: u32 where [bpf_consts]: "SECCOMP_RET_ERRNO = 0x00050000"
definition SECCOMP_RET_TRACE :: u32 where [bpf_consts]: "SECCOMP_RET_TRACE = 0x7ff00000"
definition SECCOMP_RET_ALLOW :: u32 where [bpf_consts]: "SECCOMP_RET_ALLOW = 0x7fff0000"
definition SECCOMP_RET_ACTION :: u32 where [bpf_consts]: "SECCOMP_RET_ACTION = 0xffff0000"
definition SECCOMP_RET_DATA :: u32 where [bpf_consts]: "SECCOMP_RET_DATA = 0x0000ffff"

definition SECCOMP_MAX_PROGRAM_SIZE :: nat where
  [bpf_consts]: "SECCOMP_MAX_PROGRAM_SIZE = 2 ^ 30"

section \<open>The seccomp input record\<close>

text \<open>
  The C struct is \<open>{ int nr; uint32_t arch; uint64_t instruction_pointer; uint64_t args[6]; }\<close>.
  The array is a function of the index; only the indices 0 to 5 are ever read.
\<close>

record arch_seccomp_data =
  sd_nr :: u32
  sd_arch :: u32
  sd_ip :: u64
  sd_args :: "nat \<Rightarrow> u64"

definition sizeof_arch_seccomp_data :: nat where
  [bpf_consts]: "sizeof_arch_seccomp_data = 64"

definition SECCOMP_NR_IDX :: u32 where [bpf_consts]: "SECCOMP_NR_IDX = 0"
definition SECCOMP_ARCH_IDX :: u32 where [bpf_consts]: "SECCOMP_ARCH_IDX = 4"
definition SECCOMP_IP_MSB_IDX :: u32 where [bpf_consts]: "SECCOMP_IP_MSB_IDX = 8 + 4"
definition SECCOMP_IP_LSB_IDX :: u32 where [bpf_consts]: "SECCOMP_IP_LSB_IDX = 8 + 0"
definition SECCOMP_ARG_MSB_IDX :: "nat \<Rightarrow> u32" where
  "SECCOMP_ARG_MSB_IDX n = of_nat (16 + 8 * n + 4)"
definition SECCOMP_ARG_LSB_IDX :: "nat \<Rightarrow> u32" where
  "SECCOMP_ARG_LSB_IDX n = of_nat (16 + 8 * n + 0)"

text \<open>
  \<open>memcpy(&accumulator, (char* )&data + k, 4)\<close> for a 4-aligned offset on a little-endian machine:
  words 0 and 1 are nr and arch, then each 64-bit member gives its low half first.
\<close>

definition load_word :: "arch_seccomp_data \<Rightarrow> nat \<Rightarrow> u32" where
  "load_word d off =
     (let w = off div 4 in
      if w = 0 then sd_nr d
      else if w = 1 then sd_arch d
      else if w = 2 then lo32 (sd_ip d)
      else if w = 3 then hi32 (sd_ip d)
      else if even w then lo32 (sd_args d ((w - 4) div 2))
      else hi32 (sd_args d ((w - 4) div 2)))"

section \<open>The interpreter\<close>

datatype verifier_error =
    InvalidLd | InvalidLdOperand | InvalidJmp | InvalidRet | UnexpectedSource
  | DivisionByZero | IllegalShift | InvalidAluOp | InvalidLength | InvalidIp
  | UnexpectedReturn | UnexpectedInsn
  | UndefinedShift

record vstate =
  st_ip :: nat
  st_acc :: u32
  st_acc_is_valid :: bool

definition Ld :: "arch_seccomp_data \<Rightarrow> vstate \<Rightarrow> sock_filter \<Rightarrow> verifier_error + vstate" where
  "Ld d st insn =
     (if BPF_SIZE (insn_code insn) \<noteq> BPF_W \<or> BPF_MODE (insn_code insn) \<noteq> BPF_ABS \<or> insn_jt insn \<noteq> 0 \<or> insn_jf insn \<noteq> 0
      then Inl InvalidLd
      else if unat (insn_k insn) < sizeof_arch_seccomp_data \<and> insn_k insn AND 3 = 0
      then Inr (st\<lparr>st_acc := load_word d (unat (insn_k insn)), st_acc_is_valid := True\<rparr>)
      else Inl InvalidLdOperand)"

text \<open>
  Jump targets are computed in \<open>unsigned int\<close>: the sums wrap at 2^32, which is written out.
\<close>

definition u32_add :: "nat \<Rightarrow> nat \<Rightarrow> nat" where
  "u32_add a b = (a + b) mod 2 ^ 32"

definition Jmp :: "nat \<Rightarrow> vstate \<Rightarrow> sock_filter \<Rightarrow> verifier_error + vstate" where
  "Jmp psize st insn =
     (if BPF_OP (insn_code insn) = BPF_JA then
        (if u32_add (u32_add (st_ip st) (unat (insn_k insn))) 1 \<ge> psize
            \<or> u32_add (u32_add (st_ip st) (unat (insn_k insn))) 1 \<le> st_ip st
         then Inl InvalidJmp
         else Inr (st\<lparr>st_ip := u32_add (st_ip st) (unat (insn_k insn))\<rparr>))
      else if BPF_SRC (insn_code insn) \<noteq> BPF_K \<or> \<not> st_acc_is_valid st
              \<or> u32_add (u32_add (st_ip st) (unat (insn_jt insn))) 1 \<ge> psize
              \<or> u32_add (u32_add (st_ip st) (unat (insn_jf insn))) 1 \<ge> psize
      then Inl InvalidJmp
      else
        (let branch = (\<lambda>c. Inr (st\<lparr>st_ip := u32_add (st_ip st) (unat (if c then insn_jt insn else insn_jf insn))\<rparr>)) in
         if BPF_OP (insn_code insn) = BPF_JEQ then branch (st_acc st = insn_k insn)
         else if BPF_OP (insn_code insn) = BPF_JGT then branch (st_acc st > insn_k insn)
         else if BPF_OP (insn_code insn) = BPF_JGE then branch (st_acc st \<ge> insn_k insn)
         else if BPF_OP (insn_code insn) = BPF_JSET then branch (st_acc st AND insn_k insn \<noteq> 0)
         else Inl InvalidJmp))"

definition Ret :: "sock_filter \<Rightarrow> verifier_error + u32" where
  "Ret insn = (if BPF_SRC (insn_code insn) \<noteq> BPF_K then Inl InvalidRet else Inr (insn_k insn))"

text \<open>
  The arithmetic class.  A shift by exactly 32 passes the source's check \<open>k > 32\<close>, but shifting a
  32-bit value by 32 is undefined behaviour in C++: the model marks it \<open>UndefinedShift\<close>, which is
  no error code of the source.
\<close>

definition Alu :: "vstate \<Rightarrow> sock_filter \<Rightarrow> verifier_error + vstate" where
  "Alu st insn =
     (let a = st_acc st; op = BPF_OP (insn_code insn);
          put = (\<lambda>x. Inr (st\<lparr>st_acc := x\<rparr>)) in
      if op = BPF_NEG then put (- a)
      else if BPF_SRC (insn_code insn) \<noteq> BPF_K then Inl UnexpectedSource
      else if op = BPF_ADD then put (a + insn_k insn)
      else if op = BPF_SUB then put (a - insn_k insn)
      else if op = BPF_MUL then put (a * insn_k insn)
      else if op = BPF_DIV then (if insn_k insn = 0 then Inl DivisionByZero else put (a div insn_k insn))
      else if op = BPF_MOD then (if insn_k insn = 0 then Inl DivisionByZero else put (a mod insn_k insn))
      else if op = BPF_OR then put (a OR insn_k insn)
      else if op = BPF_XOR then put (a XOR insn_k insn)
      else if op = BPF_AND then put (a AND insn_k insn)
      else if op = BPF_LSH then
        (if insn_k insn > 32 then Inl IllegalShift
         else if insn_k insn = 32 then Inl UndefinedShift
         else put (push_bit (unat (insn_k insn)) a))
      else if op = BPF_RSH then
        (if insn_k insn > 32 then Inl IllegalShift
         else if insn_k insn = 32 then Inl UndefinedShift
         else put (drop_bit (unat (insn_k insn)) a))
      else Inl InvalidAluOp)"

definition known_action :: "u32 \<Rightarrow> bool" where
  "known_action r \<longleftrightarrow> r AND SECCOMP_RET_ACTION \<in>
     {SECCOMP_RET_ALLOW, SECCOMP_RET_ERRNO, SECCOMP_RET_KILL, SECCOMP_RET_TRACE, SECCOMP_RET_TRAP}"

text \<open>
  One turn of the loop of EvaluateBPF: either the loop goes on in a new state (before the
  \<open>++state.ip\<close> of the loop header) or the program has returned.
\<close>

datatype vnext = VReturn u32 | VContinue vstate

definition vstep ::
  "sock_filter list \<Rightarrow> arch_seccomp_data \<Rightarrow> vstate \<Rightarrow> verifier_error + vnext" where
  "vstep program d st =
     (if st_ip st \<ge> length program then Inl InvalidIp
      else
        (let insn = program ! st_ip st; cls = BPF_CLASS (insn_code insn) in
         if cls = BPF_LD then bindE (Ld d st insn) (\<lambda>st'. Inr (VContinue st'))
         else if cls = BPF_JMP then bindE (Jmp (length program) st insn) (\<lambda>st'. Inr (VContinue st'))
         else if cls = BPF_RET then
           bindE (Ret insn) (\<lambda>r. if known_action r then Inr (VReturn r) else Inl UnexpectedReturn)
         else if cls = BPF_ALU then bindE (Alu st insn) (\<lambda>st'. Inr (VContinue st'))
         else Inl UnexpectedInsn))"

text \<open>
  The loop, with a budget of turns; \<open>None\<close> is the budget running out.  EvaluateBPF gives one turn
  per instruction and one more, which \<open>evaluate_loop_enough\<close> shows is never used up.
\<close>

fun evaluate_loop ::
  "nat \<Rightarrow> sock_filter list \<Rightarrow> arch_seccomp_data \<Rightarrow> vstate \<Rightarrow> (verifier_error + u32) option" where
  "evaluate_loop 0 program d st = None"
| "evaluate_loop (Suc fuel) program d st =
     (case vstep program d st of
        Inl e \<Rightarrow> Some (Inl e)
      | Inr (VReturn r) \<Rightarrow> Some (Inr r)
      | Inr (VContinue st') \<Rightarrow> evaluate_loop fuel program d (st'\<lparr>st_ip := u32_add (st_ip st') 1\<rparr>))"

definition initial_vstate :: vstate where
  "initial_vstate = \<lparr>st_ip = 0, st_acc = 0, st_acc_is_valid = False\<rparr>"

definition EvaluateBPF ::
  "sock_filter list \<Rightarrow> arch_seccomp_data \<Rightarrow> (verifier_error + u32) option" where
  "EvaluateBPF program d =
     (if length program < 1 \<or> length program \<ge> SECCOMP_MAX_PROGRAM_SIZE
      then Some (Inl InvalidLength)
      else evaluate_loop (Suc (length program)) program d initial_vstate)"

section \<open>The interpreter stops\<close>

lemma u32_add_small [simp]: "a + b < 2 ^ 32 \<Longrightarrow> u32_add a b = a + b"
  by (simp add: u32_add_def)

lemma u32_add_less: "u32_add a b < 2 ^ 32"
  by (simp add: u32_add_def)

lemma u32_add_1_positive: "0 < u32_add a 1 \<Longrightarrow> a < 2 ^ 32 \<Longrightarrow> u32_add a 1 = a + 1"
  by (auto simp: u32_add_def mod_Suc split: if_splits)

lemma unat_u8_le: "unat (x :: u8) \<le> 255"
proof -
  have "unat x < 2 ^ LENGTH(8)" by (rule unsigned_less)
  then show ?thesis by simp
qed

lemma Ld_ip: "Ld d st insn = Inr st' \<Longrightarrow> st_ip st' = st_ip st"
  by (auto simp: Ld_def split: if_splits)

lemma Alu_ip: "Alu st insn = Inr st' \<Longrightarrow> st_ip st' = st_ip st"
  by (auto simp: Alu_def Let_def split: if_splits)

lemma Jmp_forward:
  assumes "Jmp psize st insn = Inr st'" and lt: "st_ip st < psize" and len: "psize < 2 ^ 30"
  shows "st_ip st < u32_add (st_ip st') 1"
proof (cases "BPF_OP (insn_code insn) = BPF_JA")
  case True
  with assms show ?thesis by (auto simp: Jmp_def split: if_splits)
next
  case False
  with assms(1) obtain x :: u8 where "st_ip st' = u32_add (st_ip st) (unat x)"
    by (auto simp: Jmp_def Let_def split: if_splits)
  with lt len unat_u8_le [of x] show ?thesis by simp
qed

text \<open>A turn that does not return moves the instruction pointer strictly forward.\<close>

lemma vstep_progress:
  assumes len: "length program < 2 ^ 30"
    and step: "vstep program d st = Inr (VContinue st')"
  shows "st_ip st < u32_add (st_ip st') 1" and "st_ip st < length program"
proof -
  from step show lt: "st_ip st < length program"
    by (auto simp: vstep_def split: if_splits)
  have same: "st_ip st' = st_ip st \<Longrightarrow> st_ip st < u32_add (st_ip st') 1"
    using lt len by simp
  from step lt show "st_ip st < u32_add (st_ip st') 1"
    by (auto simp: vstep_def Let_def monad_simps
        dest: Ld_ip Alu_ip intro: same Jmp_forward [OF _ lt len]
        simp del: One_nat_def split: if_splits)
qed

lemma evaluate_loop_enough:
  assumes len: "length program < 2 ^ 30" and "length program < fuel + st_ip st" and "0 < fuel"
  shows "evaluate_loop fuel program d st \<noteq> None"
  using assms(2,3)
proof (induction fuel arbitrary: st)
  case 0
  then show ?case by simp
next
  case (Suc fuel)
  show ?case
  proof (cases "vstep program d st")
    case (Inr nx)
    show ?thesis
    proof (cases nx)
      case (VContinue st')
      with Inr vstep_progress [OF len] have "st_ip st < u32_add (st_ip st') 1" "st_ip st < length program"
        by auto
      with Suc.prems Suc.IH [of "st'\<lparr>st_ip := u32_add (st_ip st') 1\<rparr>"] Inr VContinue
      show ?thesis by (cases fuel) auto
    qed (use Inr in simp)
  qed simp
qed

lemma EvaluateBPF_total: "EvaluateBPF program d \<noteq> None"
  using evaluate_loop_enough [of program "Suc (length program)" initial_vstate d]
  by (simp add: EvaluateBPF_def bpf_consts del: evaluate_loop.simps)

end
