(* ===== verification/CodeGen.thy ===== *)
theory CodeGen
  imports BPF
begin

text \<open>
  The assembler of sandbox/linux/bpf_dsl/codegen.cc.  A client builds a DAG of instructions bottom
  up; CodeGen keeps the program in reverse (a node is the index of its instruction, which never
  changes), memoizes instructions, and inserts unconditional jumps where a branch target is out of
  range.  \<open>node_exec\<close> gives the meaning of a node; the lemmas show that MakeInstruction yields a
  node with the meaning of the requested instruction, that its internal CHECKs never fail (only the
  limit on the program size can), and that the linearised program run by the verifier's
  interpreter computes the meaning of its head node.
\<close>

section \<open>State and operations\<close>

text \<open>The CHECKs of codegen.cc; a failed CHECK aborts the process.\<close>

datatype codegen_error =
    JaRequested | JfGiven | JtGiven | NextNotSetUp | BranchOutOfRange | ProgramTooLong
  | EquivalentSize | BogusOffset | EquivalentOutOfRange

type_synonym memo_key = "u16 \<times> u32 \<times> nat \<times> nat"

record codegen =
  cg_program :: "sock_filter list"
  cg_equivalent :: "nat list"
  cg_memos :: "memo_key \<Rightarrow> nat option"

definition kBranchRange :: nat where "kBranchRange = 255"

definition kNullNode :: nat where "kNullNode = 2 ^ 64 - 1"

definition new_codegen :: codegen where
  "new_codegen = \<lparr>cg_program = [], cg_equivalent = [], cg_memos = (\<lambda>_. None)\<rparr>"

definition Offset :: "codegen \<Rightarrow> nat \<Rightarrow> codegen_error + nat" where
  "Offset g target =
     bindE (check (target < length (cg_program g)) BogusOffset)
       (\<lambda>_. Inr ((length (cg_program g) - 1) - target))"

definition Append ::
  "codegen \<Rightarrow> u16 \<Rightarrow> u32 \<Rightarrow> nat \<Rightarrow> nat \<Rightarrow> codegen_error + nat \<times> codegen" where
  "Append g code k jt jf =
     bindE (if BPF_CLASS code = BPF_JMP \<and> BPF_OP code \<noteq> BPF_JA
            then check (jt \<le> kBranchRange \<and> jf \<le> kBranchRange) BranchOutOfRange
            else check (jt = 0 \<and> jf = 0) BranchOutOfRange)
     (\<lambda>_. bindE (check (length (cg_program g) < BPF_MAXINSNS) ProgramTooLong)
     (\<lambda>_. bindE (check (length (cg_program g) = length (cg_equivalent g)) EquivalentSize)
     (\<lambda>_. let res = length (cg_program g) in
        Inr (res, g\<lparr>cg_program := cg_program g @
                      [\<lparr>insn_code = code, insn_jt = of_nat jt, insn_jf = of_nat jf, insn_k = k\<rparr>],
                    cg_equivalent := cg_equivalent g @ [res]\<rparr>))))"

definition WithinRange :: "codegen \<Rightarrow> nat \<Rightarrow> nat \<Rightarrow> codegen_error + nat \<times> codegen" where
  "WithinRange g target limit =
     bindE (Offset g target) (\<lambda>off.
       if off \<le> limit then Inr (target, g)
       else bindE (check (target < length (cg_equivalent g)) EquivalentOutOfRange)
         (\<lambda>_. bindE (Offset g (cg_equivalent g ! target)) (\<lambda>off'.
           if off' \<le> limit then Inr (cg_equivalent g ! target, g)
           else bindE (Append g (BPF_JMP OR BPF_JA) (of_nat off) 0 0) (\<lambda>(jump, g').
             Inr (jump, g'\<lparr>cg_equivalent := (cg_equivalent g')[target := jump]\<rparr>)))))"

definition AppendInstruction ::
  "codegen \<Rightarrow> u16 \<Rightarrow> u32 \<Rightarrow> nat \<Rightarrow> nat \<Rightarrow> codegen_error + nat \<times> codegen" where
  "AppendInstruction g code k jt jf =
     (if BPF_CLASS code = BPF_JMP then
        bindE (check (BPF_OP code \<noteq> BPF_JA) JaRequested) (\<lambda>_.
        bindE (WithinRange g jt (kBranchRange - 1)) (\<lambda>(jt', g1).
        bindE (WithinRange g1 jf kBranchRange) (\<lambda>(jf', g2).
        bindE (Offset g2 jt') (\<lambda>ot.
        bindE (Offset g2 jf') (\<lambda>ofs.
          Append g2 code k ot ofs)))))
      else
        bindE (check (jf = kNullNode) JfGiven) (\<lambda>_.
        if BPF_CLASS code = BPF_RET then
          bindE (check (jt = kNullNode) JtGiven) (\<lambda>_. Append g code k 0 0)
        else
          bindE (WithinRange g jt 0) (\<lambda>(jt', g1).
          bindE (Offset g1 jt') (\<lambda>ot.
          bindE (check (ot = 0) NextNotSetUp) (\<lambda>_.
            Append g1 code k 0 0)))))"

definition MakeInstruction ::
  "codegen \<Rightarrow> u16 \<Rightarrow> u32 \<Rightarrow> nat \<Rightarrow> nat \<Rightarrow> codegen_error + nat \<times> codegen" where
  "MakeInstruction g code k jt jf =
     (case cg_memos g (code, k, jt, jf) of
        Some node \<Rightarrow> Inr (node, g)
      | None \<Rightarrow>
          bindE (AppendInstruction g code k jt jf) (\<lambda>(node, g').
            Inr (node, g'\<lparr>cg_memos := (cg_memos g')((code, k, jt, jf) \<mapsto> node)\<rparr>)))"

definition cg_Compile :: "codegen \<Rightarrow> nat \<Rightarrow> codegen_error + sock_filter list" where
  "cg_Compile g head = bindE (Offset g head) (\<lambda>off. Inr (drop off (rev (cg_program g))))"

section \<open>The meaning of a node\<close>

text \<open>
  \<open>insn_sem d n insn kont\<close> runs one instruction that stands at node \<open>n\<close>; \<open>kont o\<close> goes on after
  skipping \<open>o\<close> instructions.  It asks for what the verifier asks: both targets of a branch exist.
\<close>

definition vst :: "u32 \<Rightarrow> bool \<Rightarrow> vstate" where
  "vst a v = \<lparr>st_ip = 0, st_acc = a, st_acc_is_valid = v\<rparr>"

definition jump_cond :: "u16 \<Rightarrow> u32 \<Rightarrow> u32 \<Rightarrow> bool option" where
  "jump_cond code k a =
     (if BPF_OP code = BPF_JEQ then Some (a = k)
      else if BPF_OP code = BPF_JGT then Some (a > k)
      else if BPF_OP code = BPF_JGE then Some (a \<ge> k)
      else if BPF_OP code = BPF_JSET then Some (a AND k \<noteq> 0)
      else None)"

definition insn_sem ::
  "arch_seccomp_data \<Rightarrow> nat \<Rightarrow> sock_filter \<Rightarrow> (nat \<Rightarrow> u32 \<Rightarrow> bool \<Rightarrow> u32 option)
    \<Rightarrow> u32 \<Rightarrow> bool \<Rightarrow> u32 option" where
  "insn_sem d n insn kont a v =
     (let cls = BPF_CLASS (insn_code insn) in
      if cls = BPF_LD then
        (case Ld d (vst a v) insn of Inl _ \<Rightarrow> None
         | Inr st \<Rightarrow> kont 0 (st_acc st) (st_acc_is_valid st))
      else if cls = BPF_JMP then
        (if BPF_OP (insn_code insn) = BPF_JA then kont (unat (insn_k insn)) a v
         else if BPF_SRC (insn_code insn) \<noteq> BPF_K \<or> \<not> v
                 \<or> unat (insn_jt insn) \<ge> n \<or> unat (insn_jf insn) \<ge> n then None
         else (case jump_cond (insn_code insn) (insn_k insn) a of None \<Rightarrow> None
               | Some c \<Rightarrow> kont (unat (if c then insn_jt insn else insn_jf insn)) a v))
      else if cls = BPF_RET then
        (if BPF_SRC (insn_code insn) = BPF_K \<and> known_action (insn_k insn)
         then Some (insn_k insn) else None)
      else if cls = BPF_ALU then
        (case Alu (vst a v) insn of Inl _ \<Rightarrow> None
         | Inr st \<Rightarrow> kont 0 (st_acc st) (st_acc_is_valid st))
      else None)"

fun node_exec ::
  "sock_filter list \<Rightarrow> arch_seccomp_data \<Rightarrow> nat \<Rightarrow> u32 \<Rightarrow> bool \<Rightarrow> u32 option" where
  "node_exec P d 0 a v = insn_sem d 0 (P ! 0) (\<lambda>_ _ _. None) a v"
| "node_exec P d (Suc n) a v =
     insn_sem d (Suc n) (P ! Suc n)
       (\<lambda>skip a' v'. if skip \<le> n then node_exec P d (n - skip) a' v' else None) a v"

declare node_exec.simps [simp del]

text \<open>The meaning of the instruction a client asks for, given the meanings of its targets.\<close>

definition dag_sem ::
  "arch_seccomp_data \<Rightarrow> u16 \<Rightarrow> u32 \<Rightarrow> (u32 \<Rightarrow> bool \<Rightarrow> u32 option) \<Rightarrow> (u32 \<Rightarrow> bool \<Rightarrow> u32 option)
    \<Rightarrow> u32 \<Rightarrow> bool \<Rightarrow> u32 option" where
  "dag_sem d code k T E a v =
     (let cls = BPF_CLASS code;
          insn = \<lparr>insn_code = code, insn_jt = 0, insn_jf = 0, insn_k = k\<rparr> in
      if cls = BPF_LD then
        (case Ld d (vst a v) insn of Inl _ \<Rightarrow> None | Inr st \<Rightarrow> T (st_acc st) (st_acc_is_valid st))
      else if cls = BPF_JMP then
        (if BPF_SRC code \<noteq> BPF_K \<or> \<not> v then None
         else (case jump_cond code k a of None \<Rightarrow> None | Some c \<Rightarrow> (if c then T else E) a v))
      else if cls = BPF_RET then
        (if BPF_SRC code = BPF_K \<and> known_action k then Some k else None)
      else if cls = BPF_ALU then
        (case Alu (vst a v) insn of Inl _ \<Rightarrow> None | Inr st \<Rightarrow> T (st_acc st) (st_acc_is_valid st))
      else None)"

definition dnode ::
  "sock_filter list \<Rightarrow> arch_seccomp_data \<Rightarrow> nat \<Rightarrow> u32 \<Rightarrow> bool \<Rightarrow> u32 option" where
  "dnode P d n = (if n < length P then node_exec P d n else (\<lambda>_ _. None))"

definition node_equiv :: "sock_filter list \<Rightarrow> nat \<Rightarrow> nat \<Rightarrow> bool" where
  "node_equiv P m n \<longleftrightarrow> (\<forall>d. node_exec P d m = node_exec P d n)"

definition target_ok :: "sock_filter list \<Rightarrow> nat \<Rightarrow> bool" where
  "target_ok P n \<longleftrightarrow> n < length P \<or> n = kNullNode"

definition node_means :: "sock_filter list \<Rightarrow> memo_key \<Rightarrow> nat \<Rightarrow> bool" where
  "node_means P key n \<longleftrightarrow> (case key of (code, k, jt, jf) \<Rightarrow>
     n < length P \<and> target_ok P jt \<and> target_ok P jf \<and>
     (\<forall>d. node_exec P d n = dag_sem d code k (dnode P d jt) (dnode P d jf)))"

section \<open>The invariant\<close>

definition cg_inv :: "codegen \<Rightarrow> bool" where
  "cg_inv g \<longleftrightarrow>
     length (cg_equivalent g) = length (cg_program g) \<and>
     length (cg_program g) \<le> BPF_MAXINSNS \<and>
     (\<forall>i < length (cg_program g).
        cg_equivalent g ! i < length (cg_program g) \<and> node_equiv (cg_program g) (cg_equivalent g ! i) i) \<and>
     (\<forall>key n. cg_memos g key = Some n \<longrightarrow> node_means (cg_program g) key n)"

text \<open>What the CHECKs of AppendInstruction ask of the client.\<close>

definition cg_args :: "codegen \<Rightarrow> u16 \<Rightarrow> nat \<Rightarrow> nat \<Rightarrow> bool" where
  "cg_args g code jt jf \<longleftrightarrow>
     (if BPF_CLASS code = BPF_JMP then
        BPF_OP code \<noteq> BPF_JA \<and> jt < length (cg_program g) \<and> jf < length (cg_program g)
      else if BPF_CLASS code = BPF_RET then jt = kNullNode \<and> jf = kNullNode
      else jt < length (cg_program g) \<and> jf = kNullNode)"

definition cg_extends :: "codegen \<Rightarrow> codegen \<Rightarrow> bool" where
  "cg_extends g g' \<longleftrightarrow> (\<exists>Q. cg_program g' = cg_program g @ Q)"


section \<open>Meaning is stable under appending\<close>

lemma node_exec_append [simp]:
  "n < length P \<Longrightarrow> node_exec (P @ Q) d n = node_exec P d n"
proof (induction n rule: less_induct)
  case (less n)
  show ?case
  proof (cases n)
    case 0
    with less.prems show ?thesis
      by (simp add: fun_eq_iff node_exec.simps nth_append)
  next
    case (Suc m)
    have "(if skip \<le> m then node_exec (P @ Q) d (m - skip) a v else None)
        = (if skip \<le> m then node_exec P d (m - skip) a v else None)" for skip a v
      using less.IH [of "m - skip"] less.prems Suc by simp
    then show ?thesis
      using Suc less.prems by (simp add: fun_eq_iff node_exec.simps nth_append)
  qed
qed

lemma node_equiv_append:
  "m < length P \<Longrightarrow> n < length P \<Longrightarrow> node_equiv P m n \<Longrightarrow> node_equiv (P @ Q) m n"
  by (simp add: node_equiv_def)

lemma node_equiv_refl [simp]: "node_equiv P n n"
  by (simp add: node_equiv_def)

lemma kNullNode_big: "length P \<le> BPF_MAXINSNS \<Longrightarrow> \<not> kNullNode < length P"
  by (simp add: kNullNode_def bpf_consts)

lemma dnode_append:
  assumes "target_ok P n" and "length (P @ Q) \<le> BPF_MAXINSNS"
  shows "dnode (P @ Q) d n = dnode P d n"
  using assms kNullNode_big [of "P @ Q"] by (auto simp: dnode_def target_ok_def)

lemma target_ok_append: "target_ok P n \<Longrightarrow> target_ok (P @ Q) n"
  by (auto simp: target_ok_def)

lemma node_means_append:
  assumes "node_means P key n" and "length (P @ Q) \<le> BPF_MAXINSNS"
  shows "node_means (P @ Q) key n"
  using assms by (auto simp: node_means_def dnode_append target_ok_append)

section \<open>Running the linearised program\<close>

lemma vst_simps [simp]:
  "st_acc (vst a v) = a" "st_acc_is_valid (vst a v) = v" "st_ip (vst a v) = 0"
  by (simp_all add: vst_def)

lemma Ld_vst:
  "Ld d (vst a v) insn = Inr st \<Longrightarrow>
    Ld d s insn = Inr (s\<lparr>st_acc := st_acc st, st_acc_is_valid := st_acc_is_valid st\<rparr>)"
  by (auto simp: Ld_def split: if_splits)

lemma Alu_vst:
  assumes "st_acc s = a" and "st_acc_is_valid s = v" and "Alu (vst a v) insn = Inr st"
  shows "Alu s insn = Inr (s\<lparr>st_acc := st_acc st, st_acc_is_valid := st_acc_is_valid st\<rparr>)"
proof -
  have "Alu s insn = (case Alu (vst a v) insn of Inl e \<Rightarrow> Inl e
    | Inr st \<Rightarrow> Inr (s\<lparr>st_acc := st_acc st, st_acc_is_valid := st_acc_is_valid st\<rparr>))"
    using assms(1,2) unfolding Alu_def Let_def by (simp split: if_split)
  with assms(3) show ?thesis by simp
qed

lemma Jmp_always:
  assumes "BPF_OP (insn_code insn) = BPF_JA" and "unat (insn_k insn) \<le> m"
    and "st_ip s + Suc m = h" and "h < 2 ^ 30"
  shows "Jmp (Suc h) s insn = Inr (s\<lparr>st_ip := st_ip s + unat (insn_k insn)\<rparr>)"
proof -
  have t: "u32_add (st_ip s) (unat (insn_k insn)) = st_ip s + unat (insn_k insn)"
    and t1: "u32_add (st_ip s + unat (insn_k insn)) 1 = st_ip s + unat (insn_k insn) + 1"
    using assms(2-4) by simp_all
  have inside: "\<not> Suc h \<le> st_ip s + unat (insn_k insn) + 1"
    "\<not> st_ip s + unat (insn_k insn) + 1 \<le> st_ip s"
    using assms(2,3) by simp_all
  show ?thesis
    unfolding Jmp_def t t1 using assms(1) inside by (simp only: if_True if_False simp_thms)
qed

lemma Jmp_branch:
  assumes op: "BPF_OP (insn_code insn) \<noteq> BPF_JA" and src: "BPF_SRC (insn_code insn) = BPF_K"
    and valid: "st_acc_is_valid s"
    and cond: "jump_cond (insn_code insn) (insn_k insn) (st_acc s) = Some c"
    and jt: "unat (insn_jt insn) < Suc m" and jf: "unat (insn_jf insn) < Suc m"
    and ip: "st_ip s + Suc m = h" and h: "h < 2 ^ 30"
  shows "Jmp (Suc h) s insn
       = Inr (s\<lparr>st_ip := st_ip s + unat (if c then insn_jt insn else insn_jf insn)\<rparr>)"
proof -
  have t: "u32_add (st_ip s) (unat (insn_jt insn)) = st_ip s + unat (insn_jt insn)"
    and f: "u32_add (st_ip s) (unat (insn_jf insn)) = st_ip s + unat (insn_jf insn)"
    and t1: "u32_add (st_ip s + unat (insn_jt insn)) 1 = st_ip s + unat (insn_jt insn) + 1"
    and f1: "u32_add (st_ip s + unat (insn_jf insn)) 1 = st_ip s + unat (insn_jf insn) + 1"
    using jt jf ip h by simp_all
  have inside: "\<not> Suc h \<le> st_ip s + unat (insn_jt insn) + 1"
    "\<not> Suc h \<le> st_ip s + unat (insn_jf insn) + 1"
    using jt jf ip by simp_all
  show ?thesis
    unfolding Jmp_def t f t1 f1
    using op src valid inside cond
    by (cases c) (auto simp: jump_cond_def t f bpf_consts Let_def simp del: One_nat_def split: if_splits)
qed

lemma node_exec_eq:
  "node_exec P d n a v = insn_sem d n (P ! n)
     (\<lambda>skip a' v'. if skip < n then node_exec P d (n - Suc skip) a' v' else None) a v"
  by (cases n) (simp_all add: node_exec.simps less_Suc_eq_le cong: if_cong)

text \<open>One turn of the interpreter against one step of the meaning.\<close>

lemma vstep_insn_sem:
  assumes sem: "insn_sem d n insn kont a v = Some r"
    and at: "program ! st_ip st = insn" and len: "length program = Suc h"
    and ip: "st_ip st + n = h" and h: "h < 2 ^ 30"
    and st: "st_acc st = a" "st_acc_is_valid st = v"
    and kont: "\<And>skip a' v'. n \<le> skip \<Longrightarrow> kont skip a' v' = None"
  shows "vstep program d st = Inr (VReturn r) \<or>
    (\<exists>skip a' v'. skip < n \<and> kont skip a' v' = Some r \<and>
      vstep program d st = Inr (VContinue \<lparr>st_ip = st_ip st + skip, st_acc = a', st_acc_is_valid = v'\<rparr>))"
proof -
  have inside: "st_ip st < Suc h" using ip by simp
  have less: "skip < n" if "kont skip a' v' = Some r" for skip a' v'
    using that kont [of skip a' v'] by (cases "n \<le> skip") auto
  consider "BPF_CLASS (insn_code insn) = BPF_LD" | "BPF_CLASS (insn_code insn) = BPF_JMP"
    | "BPF_CLASS (insn_code insn) = BPF_RET" | "BPF_CLASS (insn_code insn) = BPF_ALU"
    using sem by (auto simp: insn_sem_def Let_def split: if_splits)
  then show ?thesis
  proof cases
    case 1
    with sem obtain st' where ld: "Ld d (vst a v) insn = Inr st'"
      and k: "kont 0 (st_acc st') (st_acc_is_valid st') = Some r"
      by (auto simp: insn_sem_def split: sum.splits)
    show ?thesis
      using 1 at len inside k less [OF k] Ld_vst [OF ld, of st]
      by (intro disjI2 exI [of _ 0] exI [of _ "st_acc st'"] exI [of _ "st_acc_is_valid st'"])
        (simp add: vstep_def)
  next
    case 2
    then have cls: "BPF_CLASS (insn_code insn) \<noteq> BPF_LD" by (simp add: bpf_consts)
    show ?thesis
    proof (cases "BPF_OP (insn_code insn) = BPF_JA")
      case True
      with 2 cls sem have k: "kont (unat (insn_k insn)) a v = Some r"
        by (simp add: insn_sem_def)
      then obtain m where n: "n = Suc m" and le: "unat (insn_k insn) \<le> m"
        using less [OF k] by (cases n) auto
      have "Jmp (Suc h) st insn = Inr (st\<lparr>st_ip := st_ip st + unat (insn_k insn)\<rparr>)"
        by (rule Jmp_always [OF True le _ h]) (use ip n in simp)
      then show ?thesis
        using 2 cls at len inside k less [OF k] st
        by (intro disjI2 exI [of _ "unat (insn_k insn)"] exI [of _ a] exI [of _ v])
          (simp add: vstep_def)
    next
      case False
      with 2 cls sem obtain c where src: "BPF_SRC (insn_code insn) = BPF_K" and v
        and jt: "unat (insn_jt insn) < n" and jf: "unat (insn_jf insn) < n"
        and cond: "jump_cond (insn_code insn) (insn_k insn) a = Some c"
        and k: "kont (unat (if c then insn_jt insn else insn_jf insn)) a v = Some r"
        by (auto simp: insn_sem_def split: if_splits option.splits)
      obtain m where n: "n = Suc m" using jt by (cases n) auto
      have "Jmp (Suc h) st insn
          = Inr (st\<lparr>st_ip := st_ip st + unat (if c then insn_jt insn else insn_jf insn)\<rparr>)"
        by (rule Jmp_branch [OF False src _ _ _ _ _ h, of _ _ m])
          (use \<open>v\<close> cond jt jf n ip st in auto)
      then show ?thesis
        using 2 cls at len inside k less [OF k] st
        by (intro disjI2 exI [of _ "unat (if c then insn_jt insn else insn_jf insn)"]
            exI [of _ a] exI [of _ v]) (simp add: vstep_def)
    qed
  next
    case 3
    with sem show ?thesis
      using at len inside
      by (auto simp: insn_sem_def vstep_def Ret_def bpf_consts split: if_splits)
  next
    case 4
    then have cls: "BPF_CLASS (insn_code insn) \<noteq> BPF_LD" "BPF_CLASS (insn_code insn) \<noteq> BPF_JMP"
      "BPF_CLASS (insn_code insn) \<noteq> BPF_RET" by (simp_all add: bpf_consts)
    with 4 sem obtain st' where alu: "Alu (vst a v) insn = Inr st'"
      and k: "kont 0 (st_acc st') (st_acc_is_valid st') = Some r"
      by (auto simp: insn_sem_def split: sum.splits)
    show ?thesis
      using 4 cls at len inside k less [OF k] Alu_vst [OF st alu]
      by (intro disjI2 exI [of _ 0] exI [of _ "st_acc st'"] exI [of _ "st_acc_is_valid st'"])
        (simp add: vstep_def)
  qed
qed

text \<open>
  The interpreter at instruction pointer \<open>h - n\<close> of the program linearised from head \<open>h\<close> is at
  node \<open>n\<close>.
\<close>

lemma evaluate_loop_node:
  assumes h: "h < length P" "h < 2 ^ 30" and n: "n \<le> h" and fuel: "n < fuel"
    and ex: "node_exec P d n a v = Some r"
    and st: "st_ip st = h - n" "st_acc st = a" "st_acc_is_valid st = v"
  shows "evaluate_loop fuel (rev (take (Suc h) P)) d st = Some (Inr r)"
  using n fuel ex st
proof (induction n arbitrary: fuel a v st rule: less_induct)
  case (less n)
  let ?prog = "rev (take (Suc h) P)"
  obtain f where f: "fuel = Suc f" using less.prems(2) by (cases fuel) auto
  have step: "vstep ?prog d st = Inr (VReturn r) \<or>
    (\<exists>skip a' v'. skip < n \<and> (if skip < n then node_exec P d (n - Suc skip) a' v' else None) = Some r \<and>
      vstep ?prog d st = Inr (VContinue \<lparr>st_ip = st_ip st + skip, st_acc = a', st_acc_is_valid = v'\<rparr>))"
  proof (rule vstep_insn_sem [where h = h and a = a and v = v])
    show "insn_sem d n (P ! n) (\<lambda>skip a' v'. if skip < n then node_exec P d (n - Suc skip) a' v' else None) a v
        = Some r"
      using less.prems(3) by (simp add: node_exec_eq [symmetric])
    show "?prog ! st_ip st = P ! n"
      using less.prems(1,4) h(1) rev_take_nth [of h P n] by simp
  qed (use less.prems h in auto)
  then show ?case
  proof (elim disjE exE conjE)
    assume "vstep ?prog d st = Inr (VReturn r)"
    with f show ?thesis by simp
  next
    fix skip a' v'
    assume skip: "skip < n" and k: "(if skip < n then node_exec P d (n - Suc skip) a' v' else None) = Some r"
      and vs: "vstep ?prog d st = Inr (VContinue \<lparr>st_ip = st_ip st + skip, st_acc = a', st_acc_is_valid = v'\<rparr>)"
    have ip: "u32_add (st_ip st + skip) 1 = h - (n - Suc skip)"
      using skip less.prems(1,4) h by simp
    have "evaluate_loop f ?prog d \<lparr>st_ip = u32_add (st_ip st + skip) 1, st_acc = a', st_acc_is_valid = v'\<rparr>
        = Some (Inr r)"
      by (rule less.IH [of "n - Suc skip" f a' v']) (use skip k ip less.prems(1,2) f in auto)
    with f vs show ?thesis by simp
  qed
qed

text \<open>The contract of CodeGen::Compile: the linearised program computes the meaning of its head.\<close>

lemma cg_Compile_correct:
  assumes comp: "cg_Compile g head = Inr prog" and len: "length (cg_program g) \<le> BPF_MAXINSNS"
    and ex: "node_exec (cg_program g) d head 0 False = Some r"
  shows "EvaluateBPF prog d = Some (Inr r)"
proof -
  let ?P = "cg_program g"
  have head: "head < length ?P" and prog: "prog = rev (take (Suc head) ?P)"
    using comp by (auto simp: cg_Compile_def Offset_def drop_rev monad_simps split: if_splits)
  have "evaluate_loop (Suc (length prog)) prog d initial_vstate = Some (Inr r)"
    unfolding prog
    by (rule evaluate_loop_node [OF head _ le_refl _ ex])
      (use head len in \<open>auto simp: initial_vstate_def bpf_consts\<close>)
  moreover have "length prog = Suc head" using head prog by simp
  ultimately show ?thesis
    using head len by (simp add: EvaluateBPF_def bpf_consts del: evaluate_loop.simps)
qed

section \<open>The operations keep the invariant\<close>

lemma cg_extends_refl [simp]: "cg_extends g g"
  by (simp add: cg_extends_def)

lemma cg_extends_trans: "cg_extends g1 g2 \<Longrightarrow> cg_extends g2 g3 \<Longrightarrow> cg_extends g1 g3"
  by (auto simp: cg_extends_def)

lemma cg_extends_length: "cg_extends g g' \<Longrightarrow> length (cg_program g) \<le> length (cg_program g')"
  by (auto simp: cg_extends_def)

lemma cg_extends_exec:
  "cg_extends g g' \<Longrightarrow> n < length (cg_program g) \<Longrightarrow>
    node_exec (cg_program g') d n = node_exec (cg_program g) d n"
  by (auto simp: cg_extends_def)

lemma cg_extends_equiv:
  "cg_extends g g' \<Longrightarrow> m < length (cg_program g) \<Longrightarrow> n < length (cg_program g) \<Longrightarrow>
    node_equiv (cg_program g) m n \<Longrightarrow> node_equiv (cg_program g') m n"
  by (auto simp: cg_extends_def node_equiv_append)

lemma cg_inv_new [simp]: "cg_inv new_codegen"
  by (simp add: cg_inv_def new_codegen_def)

lemma cg_inv_max: "cg_inv g \<Longrightarrow> length (cg_program g) \<le> BPF_MAXINSNS"
  by (simp add: cg_inv_def)

lemma Offset_Inr [simp]:
  "Offset g n = Inr off \<longleftrightarrow> n < length (cg_program g) \<and> off = length (cg_program g) - 1 - n"
  by (auto simp: Offset_def)

lemma Offset_known: "n < length (cg_program g) \<Longrightarrow> Offset g n = Inr (length (cg_program g) - 1 - n)"
  by simp

lemma Append_Inr:
  assumes "Append g code k jt jf = Inr (n, g')"
  shows "n = length (cg_program g)"
    and "g' = g\<lparr>cg_program := cg_program g @
                [\<lparr>insn_code = code, insn_jt = of_nat jt, insn_jf = of_nat jf, insn_k = k\<rparr>],
              cg_equivalent := cg_equivalent g @ [length (cg_program g)]\<rparr>"
    and "length (cg_program g) < BPF_MAXINSNS"
  using assms by (auto simp: Append_def Let_def split: if_splits)

lemma cg_inv_Append:
  assumes inv: "cg_inv g" and app: "Append g code k jt jf = Inr (n, g')"
  shows "cg_inv g'" and "cg_extends g g'"
proof -
  note g' = Append_Inr(2) [OF app] and max = Append_Inr(3) [OF app]
  show "cg_extends g g'" by (simp add: g' cg_extends_def)
  have len: "length (cg_equivalent g) = length (cg_program g)"
    using inv by (simp add: cg_inv_def)
  have "cg_equivalent g' ! i < length (cg_program g')
      \<and> node_equiv (cg_program g') (cg_equivalent g' ! i) i" if "i < length (cg_program g')" for i
  proof (cases "i < length (cg_program g)")
    case True
    with inv have "cg_equivalent g ! i < length (cg_program g)"
      "node_equiv (cg_program g) (cg_equivalent g ! i) i" by (auto simp: cg_inv_def)
    with True show ?thesis by (simp add: g' nth_append len node_equiv_append)
  next
    case False
    with that have "i = length (cg_program g)" by (simp add: g')
    then show ?thesis by (simp add: g' nth_append len)
  qed
  moreover have "node_means (cg_program g') key m" if "cg_memos g' key = Some m" for key m
  proof -
    have "node_means (cg_program g) key m"
      using inv that by (auto simp: g' cg_inv_def simp del: split_paired_All)
    then show ?thesis using max by (simp add: g' node_means_append)
  qed
  ultimately show "cg_inv g'"
    using max len unfolding cg_inv_def by (simp add: g')
qed

text \<open>The meaning of a freshly appended jump is the meaning of its target.\<close>

lemma node_exec_jump:
  assumes "t < length P" and "length P \<le> BPF_MAXINSNS"
  shows "node_exec (P @ [\<lparr>insn_code = BPF_JMP OR BPF_JA, insn_jt = 0, insn_jf = 0,
            insn_k = of_nat (length P - 1 - t)\<rparr>]) d (length P) = node_exec P d t"
proof -
  have "unat (of_nat (length P - 1 - t) :: u32) = length P - 1 - t"
    by (rule unat_of_nat_u32) (use assms in \<open>simp add: bpf_consts\<close>)
  then show ?thesis
    using assms(1) by (auto simp: fun_eq_iff node_exec_eq [of _ _ "length P"] nth_append insn_sem_def
        bpf_decode bpf_consts)
qed

lemma cg_inv_redirect:
  assumes inv: "cg_inv g" and "t < length (cg_program g)" and "j < length (cg_program g)"
    and "node_equiv (cg_program g) j t"
  shows "cg_inv (g\<lparr>cg_equivalent := (cg_equivalent g)[t := j]\<rparr>)"
  using assms by (auto simp: cg_inv_def nth_list_update)

lemma WithinRange_correct:
  assumes inv: "cg_inv g" and t: "t < length (cg_program g)"
    and wr: "WithinRange g t limit = Inr (n, g')"
  shows "cg_inv g'" and "cg_extends g g'" and "n < length (cg_program g')"
    and "node_equiv (cg_program g') n t" and "length (cg_program g') - 1 - n \<le> limit"
    and "length (cg_program g') \<le> Suc (length (cg_program g))"
proof -
  let ?e = "cg_equivalent g ! t" and ?L = "length (cg_program g)"
  have e: "?e < ?L" "node_equiv (cg_program g) ?e t" and len: "t < length (cg_equivalent g)"
    using inv t by (auto simp: cg_inv_def)
  consider (near) "?L - 1 - t \<le> limit" "n = t" "g' = g"
    | (equiv) "?L - 1 - ?e \<le> limit" "n = ?e" "g' = g"
    | (jump) g1 where "Append g (BPF_JMP OR BPF_JA) (of_nat (?L - 1 - t)) 0 0 = Inr (n, g1)"
        "g' = g1\<lparr>cg_equivalent := (cg_equivalent g1)[t := n]\<rparr>"
  proof (cases "?L - 1 - t \<le> limit")
    case True
    with wr t have "n = t \<and> g' = g" by (simp add: WithinRange_def Offset_def)
    with True near show ?thesis by blast
  next
    case far: False
    have wr': "bindE (Offset g ?e) (\<lambda>off'. if off' \<le> limit then Inr (?e, g)
        else bindE (Append g (BPF_JMP OR BPF_JA) (of_nat (?L - 1 - t)) 0 0)
          (\<lambda>(jump, g'). Inr (jump, g'\<lparr>cg_equivalent := (cg_equivalent g')[t := jump]\<rparr>))) = Inr (n, g')"
      using wr far t len unfolding WithinRange_def Offset_known [OF t]
      by (simp cong: if_cong del: of_nat_diff)
    show ?thesis
    proof (cases "?L - 1 - ?e \<le> limit")
      case True
      with wr' have "n = ?e \<and> g' = g" unfolding Offset_known [OF e(1)] by auto
      with True equiv show ?thesis by blast
    next
      case False
      with wr' have "\<exists>g1. Append g (BPF_JMP OR BPF_JA) (of_nat (?L - 1 - t)) 0 0 = Inr (n, g1)
          \<and> g' = g1\<lparr>cg_equivalent := (cg_equivalent g1)[t := n]\<rparr>"
        unfolding Offset_known [OF e(1)] by (auto simp: bindE_eq_Inr simp del: of_nat_diff)
      with jump show ?thesis by blast
    qed
  qed
  then have "cg_inv g' \<and> cg_extends g g' \<and> n < length (cg_program g')
    \<and> node_equiv (cg_program g') n t \<and> length (cg_program g') - 1 - n \<le> limit
    \<and> length (cg_program g') \<le> Suc ?L"
  proof cases
    case near
    with inv t show ?thesis by simp
  next
    case equiv
    with inv e show ?thesis by simp
  next
    case jump
    note g1 = Append_Inr [OF jump(1)] and keep = cg_inv_Append [OF inv jump(1)]
    have "node_equiv (cg_program g1) n t"
      using node_exec_jump [OF t cg_inv_max [OF inv]] t by (simp add: node_equiv_def g1)
    moreover have "t < length (cg_program g1)" "n < length (cg_program g1)"
      using t by (simp_all add: g1)
    ultimately show ?thesis
      using cg_inv_redirect [OF keep(1)] keep(2) jump(2) by (simp add: g1 cg_extends_def)
  qed
  then show "cg_inv g'" and "cg_extends g g'" and "n < length (cg_program g')"
    and "node_equiv (cg_program g') n t" and "length (cg_program g') - 1 - n \<le> limit"
    and "length (cg_program g') \<le> Suc ?L" by auto
qed

text \<open>The instruction AppendInstruction pushes has the meaning the client asked for.\<close>

lemma node_exec_last:
  "node_exec (P @ [insn]) d (length P) a v = insn_sem d (length P) insn
     (\<lambda>skip a' v'. if skip < length P then node_exec P d (length P - Suc skip) a' v' else None) a v"
proof -
  have "(if skip < length P then node_exec (P @ [insn]) d (length P - Suc skip) a' v' else None)
      = (if skip < length P then node_exec P d (length P - Suc skip) a' v' else None)" for skip a' v'
    by simp
  then show ?thesis by (simp add: node_exec_eq [of "P @ [insn]"])
qed

lemma node_exec_branch:
  assumes cls: "BPF_CLASS code = BPF_JMP" and op: "BPF_OP code \<noteq> BPF_JA"
    and t: "t < length P" "unat x = length P - Suc t" and f: "f < length P" "unat y = length P - Suc f"
  shows "node_exec (P @ [\<lparr>insn_code = code, insn_jt = x, insn_jf = y, insn_k = k\<rparr>]) d (length P)
       = dag_sem d code k (node_exec P d t) (node_exec P d f)"
proof (intro ext)
  fix a v
  have x: "unat x < length P" "length P - Suc (unat x) = t" "\<not> length P \<le> unat x"
    and y: "unat y < length P" "length P - Suc (unat y) = f" "\<not> length P \<le> unat y"
    using t f by auto
  have c: "BPF_CLASS code \<noteq> BPF_LD" using cls by (simp add: bpf_consts)
  show "node_exec (P @ [\<lparr>insn_code = code, insn_jt = x, insn_jf = y, insn_k = k\<rparr>]) d (length P) a v
      = dag_sem d code k (node_exec P d t) (node_exec P d f) a v"
    unfolding node_exec_last insn_sem_def dag_sem_def Let_def
    using cls c op x y by (simp split: option.split)
qed

lemma node_exec_straight:
  assumes cls: "BPF_CLASS code \<noteq> BPF_JMP" "BPF_CLASS code \<noteq> BPF_RET" and n: "Suc n = length P"
  shows "node_exec (P @ [\<lparr>insn_code = code, insn_jt = 0, insn_jf = 0, insn_k = k\<rparr>]) d (length P)
       = dag_sem d code k (node_exec P d n) E"
proof (intro ext)
  fix a v
  have len: "0 < length P" "length P - Suc 0 = n" using n by (auto simp del: length_greater_0_conv)
  show "node_exec (P @ [\<lparr>insn_code = code, insn_jt = 0, insn_jf = 0, insn_k = k\<rparr>]) d (length P) a v
      = dag_sem d code k (node_exec P d n) E a v"
    unfolding node_exec_last insn_sem_def dag_sem_def Let_def
    using cls len by (simp split: sum.split)
qed

lemma node_exec_return:
  assumes cls: "BPF_CLASS code = BPF_RET"
  shows "node_exec (P @ [\<lparr>insn_code = code, insn_jt = 0, insn_jf = 0, insn_k = k\<rparr>]) d (length P)
       = dag_sem d code k T E"
proof (intro ext)
  fix a v
  have c: "BPF_CLASS code \<noteq> BPF_LD" "BPF_CLASS code \<noteq> BPF_JMP" using cls by (simp_all add: bpf_consts)
  show "node_exec (P @ [\<lparr>insn_code = code, insn_jt = 0, insn_jf = 0, insn_k = k\<rparr>]) d (length P) a v
      = dag_sem d code k T E a v"
    unfolding node_exec_last insn_sem_def dag_sem_def Let_def using cls c by simp
qed

text \<open>AppendInstruction, by the class of the instruction.\<close>

lemma cg_args_targets:
  "cg_args g code jt jf \<Longrightarrow> cg_extends g g' \<Longrightarrow>
    target_ok (cg_program g') jt \<and> target_ok (cg_program g') jf"
  by (auto simp: cg_args_def cg_extends_def target_ok_def split: if_splits)

lemma AppendInstruction_branch:
  assumes inv: "cg_inv g" and cls: "BPF_CLASS code = BPF_JMP"
    and args: "cg_args g code jt jf"
    and app: "AppendInstruction g code k jt jf = Inr (n, g')"
  shows "cg_inv g' \<and> cg_extends g g' \<and> node_means (cg_program g') (code, k, jt, jf) n"
proof -
  have op: "BPF_OP code \<noteq> BPF_JA" and jt: "jt < length (cg_program g)" and jf: "jf < length (cg_program g)"
    using args cls by (auto simp: cg_args_def)
  from app cls op obtain jt' g1 jf' g2 where w1: "WithinRange g jt (kBranchRange - 1) = Inr (jt', g1)"
    and w2: "WithinRange g1 jf kBranchRange = Inr (jf', g2)"
    and ap: "Append g2 code k (length (cg_program g2) - 1 - jt') (length (cg_program g2) - 1 - jf')
      = Inr (n, g')"
    by (auto simp: AppendInstruction_def bindE_eq_Inr)
  note r1 = WithinRange_correct [OF inv jt w1]
  have jf1: "jf < length (cg_program g1)" using jf r1(2) cg_extends_length by fastforce
  note r2 = WithinRange_correct [OF r1(1) jf1 w2]
  note g' = Append_Inr [OF ap] and keep = cg_inv_Append [OF r2(1) ap]
  let ?P = "cg_program g2" and ?L = "length (cg_program g2)"
  have jt2: "jt < ?L" "jf < ?L" "jt' < ?L"
    using jt jf1 r1(3) cg_extends_length [OF r1(2)] cg_extends_length [OF r2(2)] by auto
  have off: "?L - 1 - jt' \<le> 255" "?L - 1 - jf' \<le> 255"
    using r1(5) r2(5,6) by (auto simp: kBranchRange_def)
  have ex: "cg_extends g g'"
    using r1(2) r2(2) keep(2) cg_extends_trans by blast
  have "node_equiv ?P jt' jt"
    using cg_extends_equiv [OF r2(2) r1(3) _ r1(4)] jt cg_extends_length [OF r1(2)] by simp
  then have eqv: "node_exec ?P d jt' = node_exec ?P d jt" "node_exec ?P d jf' = node_exec ?P d jf" for d
    using r2(4) by (simp_all add: node_equiv_def)
  have "node_exec (cg_program g') d n = dag_sem d code k (dnode (cg_program g') d jt) (dnode (cg_program g') d jf)"
    for d
  proof -
    have "unat (of_nat (?L - 1 - jt') :: u8) = ?L - Suc jt'" "unat (of_nat (?L - 1 - jf') :: u8) = ?L - Suc jf'"
      using off unat_of_nat_u8 [of "?L - 1 - jt'"] unat_of_nat_u8 [of "?L - 1 - jf'"] by simp_all
    from node_exec_branch [OF cls op jt2(3) this(1) r2(3) this(2)] show ?thesis
      using jt2 eqv by (simp add: g' dnode_def)
  qed
  then show ?thesis
    using keep(1) ex cg_args_targets [OF args ex] by (simp add: node_means_def g')
qed

lemma AppendInstruction_other:
  assumes inv: "cg_inv g" and cls: "BPF_CLASS code \<noteq> BPF_JMP"
    and args: "cg_args g code jt jf"
    and app: "AppendInstruction g code k jt jf = Inr (n, g')"
  shows "cg_inv g' \<and> cg_extends g g' \<and> node_means (cg_program g') (code, k, jt, jf) n"
proof (cases "BPF_CLASS code = BPF_RET")
  case True
  with app cls have ap: "Append g code k 0 0 = Inr (n, g')"
    by (auto simp: AppendInstruction_def split: if_splits)
  note g' = Append_Inr [OF ap] and keep = cg_inv_Append [OF inv ap]
  show ?thesis
    using keep cg_args_targets [OF args keep(2)] node_exec_return [OF True]
    by (simp add: node_means_def g')
next
  case False
  have jt: "jt < length (cg_program g)" and jf: "jf = kNullNode"
    using args cls False by (auto simp: cg_args_def)
  from app cls False jf obtain jt' g1 where w: "WithinRange g jt 0 = Inr (jt', g1)"
    and ap: "Append g1 code k 0 0 = Inr (n, g')"
    by (auto simp: AppendInstruction_def bindE_eq_Inr split: if_splits)
  note r = WithinRange_correct [OF inv jt w]
  note g' = Append_Inr [OF ap] and keep = cg_inv_Append [OF r(1) ap]
  have last: "Suc jt' = length (cg_program g1)" using r(3,5) by simp
  have jt1: "jt < length (cg_program g1)" using jt cg_extends_length [OF r(2)] by simp
  have ex: "cg_extends g g'" using r(2) keep(2) cg_extends_trans by blast
  have "node_exec (cg_program g') d n = dag_sem d code k (dnode (cg_program g') d jt) E" for d E
    using node_exec_straight [OF cls False last] r(4) jt1
    by (simp add: g' dnode_def node_equiv_def)
  then show ?thesis
    using keep(1) ex cg_args_targets [OF args ex] by (simp add: node_means_def g')
qed

text \<open>
  The contract of MakeInstruction: a new or an old node, in either case one that means the
  instruction the client asked for; no node that existed before changes.
\<close>

lemma MakeInstruction_correct:
  assumes inv: "cg_inv g" and args: "cg_args g code jt jf"
    and mk: "MakeInstruction g code k jt jf = Inr (n, g')"
  shows "cg_inv g'" and "cg_extends g g'" and "node_means (cg_program g') (code, k, jt, jf) n"
proof -
  have "cg_inv g' \<and> cg_extends g g' \<and> node_means (cg_program g') (code, k, jt, jf) n"
  proof (cases "cg_memos g (code, k, jt, jf)")
    case (Some m)
    with mk have "m = n" "g' = g" by (simp_all add: MakeInstruction_def)
    with Some inv show ?thesis by (auto simp: cg_inv_def simp del: split_paired_All)
  next
    case None
    with mk obtain g1 where app: "AppendInstruction g code k jt jf = Inr (n, g1)"
      and g': "g' = g1\<lparr>cg_memos := (cg_memos g1)((code, k, jt, jf) \<mapsto> n)\<rparr>"
      by (auto simp: MakeInstruction_def bindE_eq_Inr)
    have "cg_inv g1 \<and> cg_extends g g1 \<and> node_means (cg_program g1) (code, k, jt, jf) n"
      using AppendInstruction_branch [OF inv _ args app] AppendInstruction_other [OF inv _ args app]
      by blast
    then show ?thesis
      unfolding g' by (auto simp: cg_inv_def cg_extends_def simp del: split_paired_All)
  qed
  then show "cg_inv g'" and "cg_extends g g'" and "node_means (cg_program g') (code, k, jt, jf) n"
    by auto
qed

section \<open>The only CHECK that can fail\<close>

lemma Append_Inl:
  assumes inv: "cg_inv g"
    and ok: "if BPF_CLASS code = BPF_JMP \<and> BPF_OP code \<noteq> BPF_JA
        then jt \<le> kBranchRange \<and> jf \<le> kBranchRange else jt = 0 \<and> jf = 0"
    and err: "Append g code k jt jf = Inl e"
  shows "e = ProgramTooLong \<and> BPF_MAXINSNS \<le> length (cg_program g)"
  using inv ok err by (auto simp: cg_inv_def Append_def Let_def split: if_splits)

lemma WithinRange_Inl:
  assumes inv: "cg_inv g" and t: "t < length (cg_program g)"
    and err: "WithinRange g t limit = Inl e"
  shows "e = ProgramTooLong \<and> BPF_MAXINSNS \<le> length (cg_program g)"
proof -
  have e: "cg_equivalent g ! t < length (cg_program g)" and len: "t < length (cg_equivalent g)"
    using inv t by (auto simp: cg_inv_def)
  have "Append g (BPF_JMP OR BPF_JA) (of_nat (length (cg_program g) - 1 - t)) 0 0 = Inl e"
    using err t len unfolding WithinRange_def Offset_known [OF t] Offset_known [OF e]
    by (auto simp: bindE_eq_Inl simp del: of_nat_diff One_nat_def split: if_splits)
  then show ?thesis
    by (rule Append_Inl [OF inv, rotated]) (simp add: bpf_decode bpf_consts)
qed

lemma AppendInstruction_Inl:
  assumes inv: "cg_inv g" and args: "cg_args g code jt jf"
    and err: "AppendInstruction g code k jt jf = Inl e"
  shows "e = ProgramTooLong \<and> BPF_MAXINSNS \<le> length (cg_program g) + 2"
proof (cases "BPF_CLASS code = BPF_JMP")
  case True
  with args have op: "BPF_OP code \<noteq> BPF_JA" and jt: "jt < length (cg_program g)"
    and jf: "jf < length (cg_program g)" by (auto simp: cg_args_def)
  show ?thesis
  proof (cases "WithinRange g jt (kBranchRange - 1)")
    case (Inl e1)
    with err True op WithinRange_Inl [OF inv jt] show ?thesis
      by (fastforce simp: AppendInstruction_def)
  next
    case (Inr p1)
    obtain jt' g1 where w1: "WithinRange g jt (kBranchRange - 1) = Inr (jt', g1)"
      using Inr by (cases p1) auto
    note r1 = WithinRange_correct [OF inv jt w1]
    have jf1: "jf < length (cg_program g1)" using jf cg_extends_length [OF r1(2)] by simp
    show ?thesis
    proof (cases "WithinRange g1 jf kBranchRange")
      case (Inl e1)
      with err True op w1 WithinRange_Inl [OF r1(1) jf1] r1(6) show ?thesis
        by (fastforce simp: AppendInstruction_def)
    next
      case (Inr p2)
      obtain jf' g2 where w2: "WithinRange g1 jf kBranchRange = Inr (jf', g2)"
        using Inr by (cases p2) auto
      note r2 = WithinRange_correct [OF r1(1) jf1 w2]
      let ?L = "length (cg_program g2)"
      have jt2: "jt' < ?L" using r1(3) cg_extends_length [OF r2(2)] by simp
      have ap: "Append g2 code k (?L - 1 - jt') (?L - 1 - jf') = Inl e"
        using err True op w1 w2 jt2 r2(3) by (simp add: AppendInstruction_def Offset_known)
      have near: "?L - 1 - jt' \<le> kBranchRange" "?L - 1 - jf' \<le> kBranchRange"
        using r1(5) r2(5,6) by (auto simp: kBranchRange_def)
      have "e = ProgramTooLong \<and> BPF_MAXINSNS \<le> ?L"
        by (rule Append_Inl [OF r2(1) _ ap]) (use True op near in simp)
      then show ?thesis using r1(6) r2(6) by simp
    qed
  qed
next
  case other: False
  show ?thesis
  proof (cases "BPF_CLASS code = BPF_RET")
    case True
    with err other args have "Append g code k 0 0 = Inl e"
      by (auto simp: AppendInstruction_def cg_args_def)
    with Append_Inl [OF inv _ this] other show ?thesis by simp
  next
    case False
    with other args have jt: "jt < length (cg_program g)" and jf: "jf = kNullNode"
      by (auto simp: cg_args_def)
    show ?thesis
    proof (cases "WithinRange g jt 0")
      case (Inl e1)
      with err other False jf WithinRange_Inl [OF inv jt] show ?thesis
        by (fastforce simp: AppendInstruction_def)
    next
      case (Inr p)
      obtain jt' g1 where w: "WithinRange g jt 0 = Inr (jt', g1)" using Inr by (cases p) auto
      note r = WithinRange_correct [OF inv jt w]
      have "Append g1 code k 0 0 = Inl e"
        using err other False jf w r(3,5) by (simp add: AppendInstruction_def Offset_known)
      with Append_Inl [OF r(1) _ this] other r(6) show ?thesis by simp
    qed
  qed
qed

lemma MakeInstruction_Inl:
  assumes inv: "cg_inv g" and args: "cg_args g code jt jf"
    and err: "MakeInstruction g code k jt jf = Inl e"
  shows "e = ProgramTooLong \<and> BPF_MAXINSNS \<le> length (cg_program g) + 2"
proof -
  have "AppendInstruction g code k jt jf = Inl e"
    using err by (auto simp: MakeInstruction_def bindE_eq_Inl split: option.splits)
  with AppendInstruction_Inl [OF inv args] show ?thesis by blast
qed

end
