(* ===== verification/TrapRegistry.thy ===== *)
theory TrapRegistry
  imports BPF
begin

text \<open>
  Trap handlers: the interface of bpf_dsl/trap_registry.h as the locale \<open>trap_registry\<close>, and its
  implementation seccomp-bpf/trap.cc (Add, EnableUnsafeTraps, SandboxDebuggingAllowedByUser and the
  dispatch of the SIGSYS handler SigSys).  The invariant says that identifiers are the positions,
  from 1, of the keys in trap_array_; the interpretation at the end discharges the interface's laws
  for the implementation.
\<close>

section \<open>Trap keys\<close>

text \<open>
  A TrapFnc is a code address; the model has one constructor per handler the sources define, one for
  the null pointer and one for the handlers of other clients.
\<close>

datatype trap_fnc =
    NullFnc | ReturnErrno | CrashSIGSYS_Handler | SIGSYSCloneFailure | SIGSYSPrctlFailure
  | SIGSYSIoctlFailure | SIGSYSKillFailure | SIGSYSFutexFailure | SIGSYSSchedHandler
  | ClientFnc nat

record trap_key =
  key_fnc :: trap_fnc
  key_aux :: u64
  key_safe :: bool

definition default_trap_key :: trap_key where
  "default_trap_key = \<lparr>key_fnc = NullFnc, key_aux = 0, key_safe = False\<rparr>"

datatype trap_error = UnsafeTrapsNotAllowed | TooManyTraps

section \<open>The registry\<close>

record trap_state =
  debugging_env :: "string option"
  trap_ids :: "trap_key \<Rightarrow> u16 option"
  trap_array :: "trap_key list"
  trap_array_size :: nat
  trap_array_capacity :: nat
  trap_has_unsafe :: bool

definition kCapacityIncrement :: nat where "kCapacityIncrement = 20"

definition new_trap :: "string option \<Rightarrow> trap_state" where
  "new_trap env = \<lparr>debugging_env = env, trap_ids = (\<lambda>_. None), trap_array = [],
     trap_array_size = 0, trap_array_capacity = 0, trap_has_unsafe = False\<rparr>"

text \<open>\<open>getenv(...) && *getenv(...)\<close>: the variable is set and not empty.\<close>

definition SandboxDebuggingAllowedByUser :: "trap_state \<Rightarrow> bool" where
  "SandboxDebuggingAllowedByUser t =
     (case debugging_env t of None \<Rightarrow> False | Some flag \<Rightarrow> flag \<noteq> [])"

definition grow_trap_array :: "trap_state \<Rightarrow> trap_state" where
  "grow_trap_array t =
     (if trap_array_size t \<ge> trap_array_capacity t then
        let capacity = trap_array_capacity t + kCapacityIncrement in
        t\<lparr>trap_array_capacity := capacity,
          trap_array := take (trap_array_size t) (trap_array t)
                        @ replicate (capacity - trap_array_size t) default_trap_key\<rparr>
      else t)"

definition Trap_Add :: "trap_key \<Rightarrow> trap_state \<Rightarrow> trap_error + u16 \<times> trap_state" where
  "Trap_Add key t =
     (if \<not> key_safe key \<and> \<not> SandboxDebuggingAllowedByUser t then Inl UnsafeTrapsNotAllowed
      else case trap_ids t key of
        Some tid \<Rightarrow> Inr (tid, t)
      | None \<Rightarrow>
          if trap_array_size t \<ge> unat SECCOMP_RET_DATA \<or> trap_array_size t \<ge> 0xFFFF
          then Inl TooManyTraps
          else
            let t' = grow_trap_array t; n = trap_array_size t; tid = of_nat (n + 1) in
            Inr (tid, t'\<lparr>trap_ids := (trap_ids t')(key \<mapsto> tid),
                        trap_array := (trap_array t')[n := key],
                        trap_array_size := n + 1\<rparr>))"

definition Trap_EnableUnsafeTraps :: "trap_state \<Rightarrow> bool \<times> trap_state" where
  "Trap_EnableUnsafeTraps t =
     (let t' = (if \<not> trap_has_unsafe t \<and> SandboxDebuggingAllowedByUser t
                then t\<lparr>trap_has_unsafe := True\<rparr> else t)
      in (trap_has_unsafe t', t'))"

section \<open>The SIGSYS handler\<close>

text \<open>
  What the handler reads: the signal number and siginfo, and the registers of the interrupted thread.
  What it does is a value: ignore the signal, die, issue the system call itself, or call a
  registered handler (after blocking SIGBUS when the trap is unsafe).
\<close>

record sig_info =
  si_code :: int
  si_errno :: int
  sigsys_ip :: u64
  sigsys_nr :: u32
  sigsys_arch :: u32

record sig_context =
  ctx_syscall :: u64
  ctx_ip :: u64
  ctx_parm :: "nat \<Rightarrow> u64"
  ctx_sigbus_blocked :: bool

datatype sigsys_action =
    UnexpectedSigsys
  | SigsysSanityDie
  | CloneFromUnsafeDie
  | DirectSyscall u64 "u64 list"
  | CallHandler trap_key arch_seccomp_data bool

definition LINUX_SIGSYS :: int where "LINUX_SIGSYS = 31"
definition SYS_SECCOMP :: int where "SYS_SECCOMP = 1"

definition SigSys ::
  "u32 \<Rightarrow> u32 \<Rightarrow> trap_state \<Rightarrow> int \<Rightarrow> sig_info \<Rightarrow> sig_context option \<Rightarrow> sigsys_action" where
  "SigSys seccomp_arch nr_clone t signo info context =
     (case context of None \<Rightarrow> UnexpectedSigsys
      | Some ctx \<Rightarrow>
        if signo \<noteq> LINUX_SIGSYS \<or> si_code info \<noteq> SYS_SECCOMP \<or> si_errno info \<le> 0
           \<or> si_errno info > int (trap_array_size t)
        then UnexpectedSigsys
        else if sigsys_ip info \<noteq> ctx_ip ctx \<or> sigsys_nr info \<noteq> ucast (ctx_syscall ctx)
                \<or> sigsys_arch info \<noteq> seccomp_arch
        then SigsysSanityDie
        else if trap_has_unsafe t \<and> ctx_sigbus_blocked ctx then
          (if sigsys_nr info = nr_clone then CloneFromUnsafeDie
           else DirectSyscall (ctx_syscall ctx) (map (ctx_parm ctx) [0..<6]))
        else
          let trap = trap_array t ! nat (si_errno info - 1);
              data = \<lparr>sd_nr = ucast (ctx_syscall ctx), sd_arch = seccomp_arch,
                      sd_ip = sigsys_ip info, sd_args = ctx_parm ctx\<rparr>
          in CallHandler trap data (\<not> key_safe trap))"

section \<open>The interface\<close>

text \<open>
  What the policy compiler relies on: identifiers are non-zero, distinct for distinct keys, and
  never change; enabling unsafe traps changes none of them.
\<close>

locale trap_registry =
  fixes add :: "trap_key \<Rightarrow> 'r \<Rightarrow> trap_error + u16 \<times> 'r"
    and enable :: "'r \<Rightarrow> bool \<times> 'r"
    and lookup :: "'r \<Rightarrow> trap_key \<Rightarrow> u16 option"
    and rinv :: "'r \<Rightarrow> bool"
  assumes add_inv: "rinv r \<Longrightarrow> add key r = Inr (tid, r') \<Longrightarrow> rinv r'"
    and add_lookup: "rinv r \<Longrightarrow> add key r = Inr (tid, r') \<Longrightarrow> lookup r' key = Some tid"
    and add_stable: "rinv r \<Longrightarrow> add key r = Inr (tid, r') \<Longrightarrow> lookup r key' = Some i \<Longrightarrow>
      lookup r' key' = Some i"
    and enable_inv: "rinv r \<Longrightarrow> enable r = (b, r') \<Longrightarrow> rinv r'"
    and enable_lookup: "rinv r \<Longrightarrow> enable r = (b, r') \<Longrightarrow> lookup r' = lookup r"
    and lookup_nonzero: "rinv r \<Longrightarrow> lookup r key = Some tid \<Longrightarrow> tid \<noteq> 0"
    and lookup_inj: "rinv r \<Longrightarrow> lookup r key = Some tid \<Longrightarrow> lookup r key' = Some tid \<Longrightarrow> key = key'"
begin

definition reg_extends :: "'r \<Rightarrow> 'r \<Rightarrow> bool" where
  "reg_extends r r' \<longleftrightarrow> (\<forall>key tid. lookup r key = Some tid \<longrightarrow> lookup r' key = Some tid)"

lemma reg_extends_refl: "reg_extends r r"
  by (simp add: reg_extends_def)

lemma reg_extends_trans: "reg_extends r r' \<Longrightarrow> reg_extends r' r'' \<Longrightarrow> reg_extends r r''"
  by (simp add: reg_extends_def)

lemma add_extends: "rinv r \<Longrightarrow> add key r = Inr (tid, r') \<Longrightarrow> reg_extends r r'"
  by (simp add: reg_extends_def add_stable)

lemma enable_extends: "rinv r \<Longrightarrow> enable r = (b, r') \<Longrightarrow> reg_extends r r'"
  by (simp add: reg_extends_def enable_lookup)

text \<open>Registering a key twice yields the identifier of the first time.\<close>

lemma add_twice:
  "rinv r \<Longrightarrow> add key r = Inr (tid, r') \<Longrightarrow> add key r' = Inr (tid2, r'') \<Longrightarrow> tid2 = tid"
  by (metis add_inv add_lookup add_stable option.inject)

end

section \<open>The implementation meets the interface\<close>

definition trap_inv :: "trap_state \<Rightarrow> bool" where
  "trap_inv t \<longleftrightarrow>
     trap_array_size t \<le> trap_array_capacity t \<and>
     length (trap_array t) = trap_array_capacity t \<and>
     trap_array_size t \<le> 0xFFFF \<and>
     (\<forall>key tid. trap_ids t key = Some tid \<longleftrightarrow>
        (0 < unat tid \<and> unat tid \<le> trap_array_size t \<and> trap_array t ! (unat tid - 1) = key))"

lemma trap_inv_new: "trap_inv (new_trap env)"
  by (auto simp: trap_inv_def new_trap_def)

lemma grow_trap_array_simps [simp]:
  "trap_ids (grow_trap_array t) = trap_ids t"
  "trap_array_size (grow_trap_array t) = trap_array_size t"
  "debugging_env (grow_trap_array t) = debugging_env t"
  "trap_has_unsafe (grow_trap_array t) = trap_has_unsafe t"
  by (simp_all add: grow_trap_array_def Let_def)

lemma grow_trap_array_nth:
  "trap_inv t \<Longrightarrow> i < trap_array_size t \<Longrightarrow> trap_array (grow_trap_array t) ! i = trap_array t ! i"
  by (simp add: grow_trap_array_def Let_def trap_inv_def nth_append)

lemma grow_trap_array_room:
  "trap_inv t \<Longrightarrow> trap_array_size t < trap_array_capacity (grow_trap_array t)
    \<and> length (trap_array (grow_trap_array t)) = trap_array_capacity (grow_trap_array t)"
  by (auto simp: grow_trap_array_def Let_def trap_inv_def kCapacityIncrement_def)

lemma trap_inv_ids:
  assumes "trap_inv t" and "trap_array_size t < 0xFFFF" and "trap_ids t key = None"
  defines "n \<equiv> trap_array_size t"
  defines "t' \<equiv> (grow_trap_array t)\<lparr>trap_ids := (trap_ids t)(key \<mapsto> of_nat (n + 1)),
        trap_array := (trap_array (grow_trap_array t))[n := key], trap_array_size := n + 1\<rparr>"
  shows "trap_inv t'"
proof -
  note room = grow_trap_array_room [OF assms(1)] and keep = grow_trap_array_nth [OF assms(1)]
  have un: "unat (of_nat (n + 1) :: u16) = n + 1"
    using assms(2) unfolding n_def by (simp add: unsigned_of_nat take_bit_nat_eq_self del: of_nat_Suc of_nat_add)
  have old: "trap_ids t k = Some i \<longleftrightarrow> 0 < unat i \<and> unat i \<le> n \<and> trap_array t ! (unat i - 1) = k" for k i
    using assms(1) unfolding trap_inv_def n_def by blast
  have "trap_ids t' k = Some i \<longleftrightarrow>
      0 < unat i \<and> unat i \<le> n + 1 \<and> trap_array t' ! (unat i - 1) = k" for k i
  proof (cases "unat i = n + 1")
    case True
    then have i: "i = of_nat (n + 1)" using un by (metis word_unat_eq_iff)
    have no: "trap_ids t k \<noteq> Some i" using old [of k i] True by simp
    have at: "trap_array t' ! (unat i - 1) = key"
      using room True by (simp add: t'_def n_def)
    show ?thesis
      using True no at i un by (auto simp: t'_def fun_upd_apply simp del: of_nat_Suc of_nat_add)
  next
    case False
    have at: "trap_array t' ! (unat i - 1) = trap_array t ! (unat i - 1)" if "0 < unat i" "unat i \<le> n"
      using that keep [of "unat i - 1"] room by (auto simp: t'_def n_def)
    have "trap_ids t' k = Some i \<longleftrightarrow> trap_ids t k = Some i"
      using False un assms(3) old [of k i] by (auto simp: t'_def fun_upd_apply simp del: of_nat_Suc of_nat_add)
    with False old [of k i] at show ?thesis by auto
  qed
  then show ?thesis
    using assms(1,2) room unfolding trap_inv_def by (auto simp: t'_def n_def)
qed

lemma Trap_Add_cases:
  assumes inv: "trap_inv t" and add: "Trap_Add key t = Inr (tid, t')"
  obtains (old) "trap_ids t key = Some tid" "t' = t"
  | (new) "trap_ids t key = None" "tid = of_nat (trap_array_size t + 1)" "trap_inv t'"
      "trap_ids t' = (trap_ids t)(key \<mapsto> tid)"
proof (cases "trap_ids t key")
  case (Some i)
  with add show ?thesis by (intro old) (auto simp: Trap_Add_def split: if_splits)
next
  case None
  with add have "trap_array_size t < 0xFFFF"
    by (auto simp: Trap_Add_def Let_def split: if_splits)
  from trap_inv_ids [OF inv this None] add None show ?thesis
    by (intro new) (auto simp: Trap_Add_def Let_def simp del: of_nat_Suc of_nat_add split: if_splits)
qed

lemma trap_inv_enable: "trap_inv t \<Longrightarrow> Trap_EnableUnsafeTraps t = (b, t') \<Longrightarrow> trap_inv t'"
  by (auto simp: Trap_EnableUnsafeTraps_def Let_def trap_inv_def split: if_splits)

interpretation trap: trap_registry Trap_Add Trap_EnableUnsafeTraps trap_ids trap_inv
proof unfold_locales
  fix key key' :: trap_key and t t' :: trap_state and tid i :: u16 and b
  show "trap_inv t'" if "trap_inv t" "Trap_Add key t = Inr (tid, t')"
    by (rule Trap_Add_cases [OF that]) (use that in simp_all)
  show "trap_ids t' key = Some tid" if "trap_inv t" "Trap_Add key t = Inr (tid, t')"
    by (rule Trap_Add_cases [OF that]) simp_all
  show "trap_ids t' key' = Some i"
    if "trap_inv t" "Trap_Add key t = Inr (tid, t')" "trap_ids t key' = Some i"
    by (rule Trap_Add_cases [OF that(1,2)]) (use that(3) in auto)
  show "trap_inv t'" if "trap_inv t" "Trap_EnableUnsafeTraps t = (b, t')"
    using that by (rule trap_inv_enable)
  show "trap_ids t' = trap_ids t" if "trap_inv t" "Trap_EnableUnsafeTraps t = (b, t')"
    using that(2) by (auto simp: Trap_EnableUnsafeTraps_def Let_def split: if_splits)
  show "tid \<noteq> 0" if "trap_inv t" "trap_ids t key = Some tid"
    using that unfolding trap_inv_def by fastforce
  show "key = key'" if "trap_inv t" "trap_ids t key = Some tid" "trap_ids t key' = Some tid"
    using that unfolding trap_inv_def by metis
qed

end
