(* ===== verification/SyscallSet.thy ===== *)
theory SyscallSet
  imports Prelude
begin

text \<open>
  The iteration over system call numbers of sandbox/linux/bpf_dsl/syscall_set.cc, with the ranges
  of valid numbers of linux_syscall_ranges.h for each supported architecture.  Numbers are the
  values 0 to 2^32 - 1 of uint32_t, as \<open>nat\<close>: no operation here wraps.  The lemmas show that
  the iterator terminates, ascends, and visits every valid number and enough invalid ones that a
  number it skips is invalid like the last number it visited before.
\<close>

section \<open>Architectures and their valid ranges\<close>

text \<open>
  The build configurations the sources distinguish; MIPS is left out, because its range depends on
  constants of the kernel's own header.
\<close>

datatype arch = X86_64 | X32 | I386 | ARM | AARCH64

definition MIN_SYSCALL :: nat where "MIN_SYSCALL = 0"

fun MAX_PUBLIC_SYSCALL :: "arch \<Rightarrow> nat" where
  "MAX_PUBLIC_SYSCALL X86_64 = 1024"
| "MAX_PUBLIC_SYSCALL X32 = 1024"
| "MAX_PUBLIC_SYSCALL I386 = 1024"
| "MAX_PUBLIC_SYSCALL ARM = MIN_SYSCALL + 1024"
| "MAX_PUBLIC_SYSCALL AARCH64 = 279"

definition MIN_PRIVATE_SYSCALL :: nat where "MIN_PRIVATE_SYSCALL = 0xf0000"
definition MAX_PRIVATE_SYSCALL :: nat where "MAX_PRIVATE_SYSCALL = MIN_PRIVATE_SYSCALL + 16"
definition MIN_GHOST_SYSCALL :: nat where "MIN_GHOST_SYSCALL = MIN_PRIVATE_SYSCALL + 0xfff0"

definition MAX_SYSCALL :: "arch \<Rightarrow> nat" where
  "MAX_SYSCALL a = (if a = ARM then MIN_GHOST_SYSCALL + 4 else MAX_PUBLIC_SYSCALL a)"

definition kValidSyscallRanges :: "arch \<Rightarrow> (nat \<times> nat) list" where
  "kValidSyscallRanges a =
     (MIN_SYSCALL, MAX_PUBLIC_SYSCALL a) #
     (if a = ARM
      then [(MIN_PRIVATE_SYSCALL, MAX_PRIVATE_SYSCALL), (MIN_GHOST_SYSCALL, MAX_SYSCALL a)]
      else [])"

lemmas syscall_ranges = MIN_SYSCALL_def MIN_PRIVATE_SYSCALL_def MAX_PRIVATE_SYSCALL_def
  MIN_GHOST_SYSCALL_def MAX_SYSCALL_def kValidSyscallRanges_def

definition SyscallSet_IsValid :: "arch \<Rightarrow> nat \<Rightarrow> bool" where
  "SyscallSet_IsValid a num \<longleftrightarrow> (\<exists>(lo, hi) \<in> set (kValidSyscallRanges a). num \<ge> lo \<and> num \<le> hi)"

section \<open>The iterator\<close>

datatype syscall_set = ALL_SET | VALID_ONLY | INVALID_ONLY

text \<open>The loop of NextSyscall over the ranges; \<open>None\<close> when no range answers.\<close>

fun next_in_ranges :: "bool \<Rightarrow> bool \<Rightarrow> nat \<Rightarrow> (nat \<times> nat) list \<Rightarrow> nat option" where
  "next_in_ranges want_valid want_invalid num [] = None"
| "next_in_ranges want_valid want_invalid num ((lo, hi) # ranges) =
     (if want_invalid \<and> lo > 0 \<and> num < lo - 1 then Some (lo - 1)
      else if want_valid \<and> num < lo then Some lo
      else if want_valid \<and> num < hi then Some (num + 1)
      else if want_invalid \<and> num \<le> hi then Some (hi + 1)
      else next_in_ranges want_valid want_invalid num ranges)"

definition NextSyscall :: "arch \<Rightarrow> syscall_set \<Rightarrow> nat \<Rightarrow> nat" where
  "NextSyscall a s num =
     (let want_valid = (s \<noteq> INVALID_ONLY); want_invalid = (s \<noteq> VALID_ONLY) in
      case next_in_ranges want_valid want_invalid num (kValidSyscallRanges a) of
        Some n \<Rightarrow> n
      | None \<Rightarrow>
          if want_invalid \<and> num < 0x7FFFFFFF then 0x7FFFFFFF
          else if want_invalid \<and> num < 0x80000000 then 0x80000000
          else if want_invalid \<and> num < 0xFFFFFFFF then 0xFFFFFFFF
          else 0)"

record syscall_iterator =
  it_set :: syscall_set
  it_done :: bool
  it_num :: nat

definition iterator_next :: "arch \<Rightarrow> syscall_iterator \<Rightarrow> syscall_iterator" where
  "iterator_next a it =
     (let n = NextSyscall a (it_set it) (it_num it) in
      it\<lparr>it_num := n, it_done := (if n = 0 then True else it_done it)\<rparr>)"

definition new_iterator :: "arch \<Rightarrow> syscall_set \<Rightarrow> bool \<Rightarrow> syscall_iterator" where
  "new_iterator a s finished =
     (let it = \<lparr>it_set = s, it_done = finished, it_num = 0\<rparr> in
      if \<not> finished \<and> s = (if SyscallSet_IsValid a 0 then INVALID_ONLY else VALID_ONLY)
      then iterator_next a it else it)"

definition iterator_eq :: "syscall_iterator \<Rightarrow> syscall_iterator \<Rightarrow> bool" where
  "iterator_eq lhs rhs \<longleftrightarrow> it_done lhs = it_done rhs \<and> it_num lhs = it_num rhs"

section \<open>The iterator ascends\<close>

lemma arch_split: "(\<forall>a. P a) \<longleftrightarrow> P X86_64 \<and> P X32 \<and> P I386 \<and> P ARM \<and> P AARCH64"
  by (metis arch.exhaust)

lemma IsValid_simps:
  "SyscallSet_IsValid X86_64 n \<longleftrightarrow> n \<le> 1024"
  "SyscallSet_IsValid X32 n \<longleftrightarrow> n \<le> 1024"
  "SyscallSet_IsValid I386 n \<longleftrightarrow> n \<le> 1024"
  "SyscallSet_IsValid ARM n \<longleftrightarrow>
     n \<le> 1024 \<or> 0xf0000 \<le> n \<and> n \<le> 0xf0010 \<or> 0xffff0 \<le> n \<and> n \<le> 0xffff4"
  "SyscallSet_IsValid AARCH64 n \<longleftrightarrow> n \<le> 279"
  by (auto simp: SyscallSet_IsValid_def syscall_ranges)

lemma NextSyscall_bounds:
  "NextSyscall a s num \<noteq> 0 \<Longrightarrow> num < NextSyscall a s num \<and> NextSyscall a s num < 2 ^ 32"
  by (cases a; cases s) (auto simp: NextSyscall_def syscall_ranges split: if_splits)

text \<open>The numbers a range-based for loop over the set visits, from the iterator's position on.\<close>

function iterate_from :: "arch \<Rightarrow> syscall_set \<Rightarrow> nat \<Rightarrow> nat list" where
  "iterate_from a s num =
     num # (if NextSyscall a s num = 0 then [] else iterate_from a s (NextSyscall a s num))"
  by pat_completeness auto
termination
  by (relation "measure (\<lambda>(a, s, num). 2 ^ 32 - num)") (use NextSyscall_bounds in fastforce)+

declare iterate_from.simps [simp del]

definition syscalls :: "arch \<Rightarrow> syscall_set \<Rightarrow> nat list" where
  "syscalls a s =
     (let it = new_iterator a s False in
      if it_done it then [] else iterate_from a s (it_num it))"

text \<open>The loop of the source, written over iterator states with \<open>!=\<close>, visits exactly these.\<close>

fun for_each :: "nat \<Rightarrow> arch \<Rightarrow> syscall_iterator \<Rightarrow> syscall_iterator \<Rightarrow> nat list option" where
  "for_each 0 a it stop = None"
| "for_each (Suc fuel) a it stop =
     (if iterator_eq it stop then Some []
      else map_option ((#) (it_num it)) (for_each fuel a (iterator_next a it) stop))"

lemma for_each_iterate:
  assumes "2 ^ 32 < fuel + num" and "num < 2 ^ 32"
  shows "for_each (Suc fuel) a \<lparr>it_set = s, it_done = False, it_num = num\<rparr>
      \<lparr>it_set = s, it_done = True, it_num = 0\<rparr> = Some (iterate_from a s num)"
  using assms
proof (induction fuel arbitrary: num)
  case 0
  then show ?case by simp
next
  case (Suc fuel)
  let ?n = "NextSyscall a s num"
  show ?case
  proof (cases "?n = 0")
    case True
    then show ?thesis
      by (simp add: iterator_eq_def iterator_next_def iterate_from.simps [of a s num])
  next
    case False
    with NextSyscall_bounds have b: "num < ?n" "?n < 2 ^ 32" by auto
    with Suc.prems have "2 ^ 32 < fuel + ?n" by simp
    from Suc.IH [OF this b(2)] False show ?thesis
      by (simp add: iterator_eq_def iterator_next_def iterate_from.simps [of a s num])
  qed
qed

section \<open>What the iteration covers\<close>

lemma Next_valid_ALL: "SyscallSet_IsValid a num \<Longrightarrow> NextSyscall a ALL_SET num = num + 1"
  by (cases a) (auto simp: NextSyscall_def IsValid_simps syscall_ranges)

lemma Next_skips_invalid:
  "s \<noteq> VALID_ONLY \<Longrightarrow> \<not> SyscallSet_IsValid a num \<Longrightarrow> NextSyscall a s num \<noteq> 0 \<Longrightarrow>
    num < i \<Longrightarrow> i < NextSyscall a s num \<Longrightarrow> s = ALL_SET \<Longrightarrow> \<not> SyscallSet_IsValid a i"
  by (cases a) (auto simp: NextSyscall_def IsValid_simps syscall_ranges split: if_splits)

lemma Next_end:
  "NextSyscall a ALL_SET num = 0 \<Longrightarrow> num < i \<Longrightarrow> i < 2 ^ 32 \<Longrightarrow> \<not> SyscallSet_IsValid a i"
  by (cases a) (auto simp: NextSyscall_def IsValid_simps syscall_ranges split: if_splits)

lemma Next_end_ALL: "NextSyscall a ALL_SET num = 0 \<Longrightarrow> num < 2 ^ 32 \<Longrightarrow> num = 2 ^ 32 - 1"
  by (cases a) (auto simp: NextSyscall_def syscall_ranges split: if_splits)

lemma iterate_from_ge: "x \<in> set (iterate_from a s num) \<Longrightarrow> num \<le> x"
proof (induction a s num rule: iterate_from.induct)
  case (1 a s num)
  then show ?case
    using NextSyscall_bounds [of a s num]
    by (fastforce simp: iterate_from.simps [of a s num] split: if_splits)
qed

lemma iterate_from_less: "num < 2 ^ 32 \<Longrightarrow> x \<in> set (iterate_from a s num) \<Longrightarrow> x < 2 ^ 32"
proof (induction a s num rule: iterate_from.induct)
  case (1 a s num)
  then show ?case
    using NextSyscall_bounds [of a s num]
    by (fastforce simp: iterate_from.simps [of a s num] split: if_splits)
qed

lemma iterate_from_sorted: "sorted_wrt (<) (iterate_from a s num)"
proof (induction a s num rule: iterate_from.induct)
  case (1 a s num)
  then show ?case
    using NextSyscall_bounds [of a s num] iterate_from_ge [of _ a s "NextSyscall a s num"]
    by (fastforce simp: iterate_from.simps [of a s num] split: if_splits)
qed

text \<open>
  The last visited number at or below \<open>i\<close> speaks for \<open>i\<close>: it is \<open>i\<close> itself if \<open>i\<close> is valid, and
  invalid if \<open>i\<close> is not.
\<close>

definition speaks_for :: "arch \<Rightarrow> nat list \<Rightarrow> nat \<Rightarrow> nat \<Rightarrow> bool" where
  "speaks_for a xs m i \<longleftrightarrow> m \<in> set xs \<and> m \<le> i \<and> (\<forall>x \<in> set xs. x \<le> i \<longrightarrow> x \<le> m) \<and>
     (SyscallSet_IsValid a i \<longrightarrow> m = i) \<and> (SyscallSet_IsValid a m \<longrightarrow> m = i)"

lemma speaks_for_head:
  assumes "num \<le> i" "i < NextSyscall a ALL_SET num \<or> NextSyscall a ALL_SET num = 0" "i < 2 ^ 32"
  shows "speaks_for a (iterate_from a ALL_SET num) num i"
proof -
  have rest: "x \<le> i \<Longrightarrow> x \<le> num" if "x \<in> set (iterate_from a ALL_SET num)" for x
    using that assms iterate_from_ge [of x a ALL_SET "NextSyscall a ALL_SET num"]
    by (auto simp: iterate_from.simps [of a ALL_SET num] split: if_splits)
  have "num = i" if "SyscallSet_IsValid a i \<or> SyscallSet_IsValid a num"
  proof (rule ccontr)
    assume "num \<noteq> i"
    with assms(1) have less: "num < i" by simp
    show False
    proof (cases "SyscallSet_IsValid a num")
      case True
      with Next_valid_ALL [of a num] less assms(2) show False by simp
    next
      case False
      with that less assms Next_skips_invalid [of ALL_SET a num i] Next_end [of a num i] show False
        by (cases "NextSyscall a ALL_SET num = 0") auto
    qed
  qed
  with assms(1) rest show ?thesis
    by (auto simp: speaks_for_def iterate_from.simps [of a ALL_SET num])
qed

lemma set_iterate_from:
  "NextSyscall a s num \<noteq> 0 \<Longrightarrow>
    set (iterate_from a s num) = insert num (set (iterate_from a s (NextSyscall a s num)))"
  by (simp add: iterate_from.simps [of a s num])

lemma speaks_for_insert:
  assumes ys: "set ys = insert num (set xs)" and num: "num \<le> m" and xs: "speaks_for a xs m i"
  shows "speaks_for a ys m i"
proof -
  have "m \<in> set ys" and "\<forall>x \<in> set ys. x \<le> i \<longrightarrow> x \<le> m"
    using xs num unfolding speaks_for_def ys by auto
  with xs show ?thesis
    unfolding speaks_for_def by (elim conjE, intro conjI) assumption+
qed

lemma iterate_from_covers:
  assumes "num \<le> i" and "i < 2 ^ 32"
  shows "\<exists>m. speaks_for a (iterate_from a ALL_SET num) m i"
  using assms
proof (induction a s \<equiv> ALL_SET num rule: iterate_from.induct)
  case (1 a num)
  let ?n = "NextSyscall a ALL_SET num"
  show ?case
  proof (cases "i < ?n \<or> ?n = 0")
    case True
    with speaks_for_head 1 show ?thesis by blast
  next
    case False
    then have n: "?n \<noteq> 0" "?n \<le> i" by auto
    from 1(1) [OF n 1(3)] obtain m
      where m: "speaks_for a (iterate_from a ALL_SET ?n) m i" by blast
    then have "?n \<le> m" using iterate_from_ge [of m a ALL_SET ?n] by (simp add: speaks_for_def)
    moreover have "num < ?n" using NextSyscall_bounds n(1) by blast
    ultimately have "num \<le> m" by simp
    then have "speaks_for a (iterate_from a ALL_SET num) m i"
      by (rule speaks_for_insert [OF set_iterate_from [OF n(1)] _ m])
    then show ?thesis ..
  qed
qed

lemma syscalls_ALL: "syscalls a ALL_SET = iterate_from a ALL_SET 0"
  by (simp add: syscalls_def new_iterator_def)

lemma syscalls_VALID_ONLY: "syscalls a VALID_ONLY = iterate_from a VALID_ONLY 0"
  by (cases a) (simp_all add: syscalls_def new_iterator_def IsValid_simps)

text \<open>Iterating the valid numbers.\<close>

lemma Next_VALID_ONLY:
  "NextSyscall a VALID_ONLY num \<noteq> 0 \<Longrightarrow>
    SyscallSet_IsValid a (NextSyscall a VALID_ONLY num) \<and>
    (num < i \<longrightarrow> i < NextSyscall a VALID_ONLY num \<longrightarrow> \<not> SyscallSet_IsValid a i)"
  by (cases a) (auto simp: NextSyscall_def IsValid_simps syscall_ranges split: if_splits)

lemma Next_VALID_ONLY_end:
  "NextSyscall a VALID_ONLY num = 0 \<Longrightarrow> num < i \<Longrightarrow> \<not> SyscallSet_IsValid a i"
  by (cases a) (auto simp: NextSyscall_def IsValid_simps syscall_ranges split: if_splits)

lemma iterate_VALID_ONLY:
  "SyscallSet_IsValid a num \<Longrightarrow>
    set (iterate_from a VALID_ONLY num) = {i. num \<le> i \<and> SyscallSet_IsValid a i}"
proof (induction a s \<equiv> VALID_ONLY num rule: iterate_from.induct)
  case (1 a num)
  let ?n = "NextSyscall a VALID_ONLY num"
  show ?case
  proof (cases "?n = 0")
    case True
    then show ?thesis
      using 1(2) Next_VALID_ONLY_end [OF True]
      by (auto simp: iterate_from.simps [of a VALID_ONLY num] order_le_less)
  next
    case False
    with 1(1) Next_VALID_ONLY [of a num] have
      "set (iterate_from a VALID_ONLY ?n) = {i. ?n \<le> i \<and> SyscallSet_IsValid a i}" by auto
    moreover have "num < ?n" using NextSyscall_bounds False by blast
    ultimately show ?thesis
      using False 1(2) Next_VALID_ONLY [of a num]
      by (auto simp: iterate_from.simps [of a VALID_ONLY num] order_le_less not_less)
  qed
qed

lemma IsValid_0 [simp]: "SyscallSet_IsValid a 0"
  by (cases a) (simp_all add: IsValid_simps)

lemma set_syscalls_VALID_ONLY: "set (syscalls a VALID_ONLY) = {i. SyscallSet_IsValid a i}"
  by (simp add: syscalls_VALID_ONLY iterate_VALID_ONLY)

lemma IsValid_small: "SyscallSet_IsValid a i \<Longrightarrow> i < 2 ^ 31"
  by (cases a) (auto simp: IsValid_simps)

end
