(* ===== verification/BpfDsl.thy ===== *)
theory BpfDsl
  imports TrapRegistry SyscallSet
begin

text \<open>
  The policy language of sandbox/linux/bpf_dsl/bpf_dsl.cc and bpf_dsl.h: boolean and result
  expressions, the functions that build them (Allow, Error, If/ElseIf/Else, Switch/Case/Default,
  AllOf, AnyOf, Arg), and the predicates on result expressions.  \<open>eval_bool\<close> and \<open>eval_result\<close>
  are the abstract meaning of expressions on a system call, which the policy compiler implements;
  the lemmas give the meaning of the constructs the user writes.
\<close>

section \<open>Expressions\<close>

datatype bool_expr =
    ConstBoolExpr bool
  | MaskedEqualBoolExpr int nat u64 u64
  | NegateBoolExpr bool_expr
  | AndBoolExpr bool_expr bool_expr
  | OrBoolExpr bool_expr bool_expr

datatype result_expr =
    ReturnResultExpr u32
  | TrapResultExpr trap_fnc u64 bool
  | IfThenResultExpr bool_expr result_expr result_expr

text \<open>The virtual predicates of ResultExprImpl; the defaults of the base class are False.\<close>

definition IsAction :: "u32 \<Rightarrow> u32 \<Rightarrow> bool" where
  "IsAction ret action \<longleftrightarrow> ret AND SECCOMP_RET_ACTION = action"

fun IsAllow :: "result_expr \<Rightarrow> bool" where
  "IsAllow (ReturnResultExpr ret) = IsAction ret SECCOMP_RET_ALLOW"
| "IsAllow _ = False"

fun IsDeny :: "result_expr \<Rightarrow> bool" where
  "IsDeny (ReturnResultExpr ret) = (IsAction ret SECCOMP_RET_ERRNO \<or> IsAction ret SECCOMP_RET_KILL)"
| "IsDeny (TrapResultExpr func aux safe) = True"
| "IsDeny (IfThenResultExpr c t e) = False"

fun HasUnsafeTraps :: "result_expr \<Rightarrow> bool" where
  "HasUnsafeTraps (ReturnResultExpr ret) = False"
| "HasUnsafeTraps (TrapResultExpr func aux safe) = (\<not> safe)"
| "HasUnsafeTraps (IfThenResultExpr c t e) = (HasUnsafeTraps t \<or> HasUnsafeTraps e)"

section \<open>Building expressions\<close>

datatype dsl_error = ErrnoOutOfRange | UnimplementedMask | BadArgSize

definition ERR_MIN_ERRNO :: int where "ERR_MIN_ERRNO = 0"
definition ERR_MAX_ERRNO :: int where "ERR_MAX_ERRNO = 4095"

definition Allow :: result_expr where
  "Allow = ReturnResultExpr SECCOMP_RET_ALLOW"

definition Error :: "int \<Rightarrow> dsl_error + result_expr" where
  "Error err =
     bindE (check (err \<ge> ERR_MIN_ERRNO \<and> err \<le> ERR_MAX_ERRNO) ErrnoOutOfRange)
       (\<lambda>_. Inr (ReturnResultExpr (SECCOMP_RET_ERRNO + of_int err)))"

definition Kill :: result_expr where
  "Kill = ReturnResultExpr SECCOMP_RET_KILL"

definition Trace :: "u16 \<Rightarrow> result_expr" where
  "Trace aux = ReturnResultExpr (SECCOMP_RET_TRACE + ucast aux)"

definition Trap :: "trap_fnc \<Rightarrow> u64 \<Rightarrow> result_expr" where
  "Trap func aux = TrapResultExpr func aux True"

definition UnsafeTrap :: "trap_fnc \<Rightarrow> u64 \<Rightarrow> result_expr" where
  "UnsafeTrap func aux = TrapResultExpr func aux False"

definition BoolConst :: "bool \<Rightarrow> bool_expr" where
  "BoolConst value = ConstBoolExpr value"

definition dsl_Not :: "bool_expr \<Rightarrow> bool_expr" where
  "dsl_Not c = NegateBoolExpr c"

text \<open>
  AllOf and AnyOf are overloaded: none, two, or any other number of arguments.  One argument goes
  to the variadic template, which appends the constant.
\<close>

fun AllOf :: "bool_expr list \<Rightarrow> bool_expr" where
  "AllOf [] = BoolConst True"
| "AllOf [lhs, rhs] = AndBoolExpr lhs rhs"
| "AllOf (b # rest) = AndBoolExpr b (AllOf rest)"

fun AnyOf :: "bool_expr list \<Rightarrow> bool_expr" where
  "AnyOf [] = BoolConst False"
| "AnyOf [lhs, rhs] = OrBoolExpr lhs rhs"
| "AnyOf (b # rest) = OrBoolExpr b (AnyOf rest)"

definition DefaultMask :: "nat \<Rightarrow> dsl_error + u64" where
  "DefaultMask sz =
     (if sz = 4 then Inr 0xFFFFFFFF
      else if sz = 8 then Inr 0xFFFFFFFFFFFFFFFF
      else Inl UnimplementedMask)"

text \<open>Arg<T>: the argument number, sizeof(T) and the mask.\<close>

record bpf_arg =
  arg_num :: int
  arg_size :: nat
  arg_mask :: u64

definition Arg :: "nat \<Rightarrow> int \<Rightarrow> dsl_error + bpf_arg" where
  "Arg sz num =
     bindE (DefaultMask sz) (\<lambda>msk. Inr \<lparr>arg_num = num, arg_size = sz, arg_mask = msk\<rparr>)"

definition arg_and :: "bpf_arg \<Rightarrow> u64 \<Rightarrow> bpf_arg" where
  "arg_and lhs rhs = lhs\<lparr>arg_mask := arg_mask lhs AND rhs\<rparr>"

definition ArgEq :: "int \<Rightarrow> nat \<Rightarrow> u64 \<Rightarrow> u64 \<Rightarrow> dsl_error + bool_expr" where
  "ArgEq num sz msk val =
     bindE (check (sz = 4 \<or> sz = 8) BadArgSize) (\<lambda>_. Inr (MaskedEqualBoolExpr num sz msk val))"

definition EqualTo :: "bpf_arg \<Rightarrow> int \<Rightarrow> dsl_error + bool_expr" where
  "EqualTo arg val =
     (if arg_size arg = 4
      then ArgEq (arg_num arg) (arg_size arg) (arg_mask arg) (ucast (of_int val :: u32))
      else ArgEq (arg_num arg) (arg_size arg) (arg_mask arg) (of_int val))"

text \<open>Elser: the clauses in reverse order, a later one in front.\<close>

type_synonym elser = "(bool_expr \<times> result_expr) list"

definition ElseIf :: "elser \<Rightarrow> bool_expr \<Rightarrow> result_expr \<Rightarrow> elser" where
  "ElseIf elser c then_result = (c, then_result) # elser"

definition If :: "bool_expr \<Rightarrow> result_expr \<Rightarrow> elser" where
  "If c then_result = ElseIf [] c then_result"

definition Else :: "elser \<Rightarrow> result_expr \<Rightarrow> result_expr" where
  "Else elser else_result =
     foldl (\<lambda>expr (c, r). IfThenResultExpr c r expr) else_result elser"

record caser =
  caser_arg :: bpf_arg
  caser_elser :: elser

definition Switch :: "bpf_arg \<Rightarrow> caser" where
  "Switch arg = \<lparr>caser_arg = arg, caser_elser = []\<rparr>"

fun equal_to_each :: "bpf_arg \<Rightarrow> int list \<Rightarrow> dsl_error + bool_expr list" where
  "equal_to_each arg [] = Inr []"
| "equal_to_each arg (v # vs) =
     bindE (EqualTo arg v) (\<lambda>b. bindE (equal_to_each arg vs) (\<lambda>bs. Inr (b # bs)))"

definition Cases :: "caser \<Rightarrow> int list \<Rightarrow> result_expr \<Rightarrow> dsl_error + caser" where
  "Cases c values result =
     bindE (equal_to_each (caser_arg c) values)
       (\<lambda>bs. Inr (c\<lparr>caser_elser := ElseIf (caser_elser c) (AnyOf bs) result\<rparr>))"

definition Case :: "caser \<Rightarrow> int \<Rightarrow> result_expr \<Rightarrow> dsl_error + caser" where
  "Case c v result = Cases c [v] result"

definition Default :: "caser \<Rightarrow> result_expr \<Rightarrow> result_expr" where
  "Default c result = Else (caser_elser c) result"

section \<open>The meaning of expressions\<close>

text \<open>sizeof(void* ) of a build, in bytes.\<close>

fun sizeof_ptr :: "arch \<Rightarrow> nat" where
  "sizeof_ptr X86_64 = 8"
| "sizeof_ptr X32 = 4"
| "sizeof_ptr I386 = 4"
| "sizeof_ptr ARM = 4"
| "sizeof_ptr AARCH64 = 8"

text \<open>
  A 32-bit argument arrives in a 64-bit register: its upper half must be zero, or, where pointers
  have 64 bits, the sign extension of a negative value.  Anything else is a violation of the ABI.
\<close>

definition arg32_abi_ok :: "arch \<Rightarrow> u64 \<Rightarrow> bool" where
  "arg32_abi_ok a v \<longleftrightarrow>
     hi32 v = 0 \<or> (sizeof_ptr a \<noteq> 4 \<and> hi32 v = - 1 \<and> lo32 v AND 0x80000000 \<noteq> 0)"

text \<open>\<open>None\<close> is an ABI violation found while the condition is tested.\<close>

fun eval_bool :: "arch \<Rightarrow> arch_seccomp_data \<Rightarrow> bool_expr \<Rightarrow> bool option" where
  "eval_bool a d (ConstBoolExpr value) = Some value"
| "eval_bool a d (MaskedEqualBoolExpr argno width msk value) =
     (let v = sd_args d (nat argno) in
      if width = 4 then
        (if arg32_abi_ok a v then Some (lo32 v AND lo32 msk = lo32 value) else None)
      else Some (v AND msk = value))"
| "eval_bool a d (NegateBoolExpr c) = map_option Not (eval_bool a d c)"
| "eval_bool a d (AndBoolExpr lhs rhs) =
     (case eval_bool a d lhs of
        None \<Rightarrow> None | Some True \<Rightarrow> eval_bool a d rhs | Some False \<Rightarrow> Some False)"
| "eval_bool a d (OrBoolExpr lhs rhs) =
     (case eval_bool a d lhs of
        None \<Rightarrow> None | Some True \<Rightarrow> Some True | Some False \<Rightarrow> eval_bool a d rhs)"

datatype verdict = VRet u32 | VTrap trap_fnc u64 bool

text \<open>\<open>None\<close>, again, when a condition on the way meets an ABI violation.\<close>

fun eval_result :: "arch \<Rightarrow> arch_seccomp_data \<Rightarrow> result_expr \<Rightarrow> verdict option" where
  "eval_result a d (ReturnResultExpr ret) = Some (VRet ret)"
| "eval_result a d (TrapResultExpr func aux safe) = Some (VTrap func aux safe)"
| "eval_result a d (IfThenResultExpr c t e) =
     (case eval_bool a d c of
        None \<Rightarrow> None
      | Some True \<Rightarrow> eval_result a d t
      | Some False \<Rightarrow> eval_result a d e)"

section \<open>The meaning of the user's constructs\<close>

lemma eval_AllOf:
  "\<forall>b \<in> set bs. eval_bool a d b \<noteq> None \<Longrightarrow>
    eval_bool a d (AllOf bs) = Some (\<forall>b \<in> set bs. eval_bool a d b = Some True)"
  by (induction bs rule: AllOf.induct) (auto simp: BoolConst_def split: option.split bool.split)

lemma eval_AnyOf:
  "\<forall>b \<in> set bs. eval_bool a d b \<noteq> None \<Longrightarrow>
    eval_bool a d (AnyOf bs) = Some (\<exists>b \<in> set bs. eval_bool a d b = Some True)"
  by (induction bs rule: AnyOf.induct) (auto simp: BoolConst_def split: option.split bool.split)

text \<open>The chain If(b1, e1).ElseIf(b2, e2)...Else(e) takes the first clause whose condition holds.\<close>

fun first_clause ::
  "arch \<Rightarrow> arch_seccomp_data \<Rightarrow> (bool_expr \<times> result_expr) list \<Rightarrow> result_expr \<Rightarrow> verdict option" where
  "first_clause a d [] e = eval_result a d e"
| "first_clause a d ((c, r) # clauses) e =
     (case eval_bool a d c of
        None \<Rightarrow> None
      | Some True \<Rightarrow> eval_result a d r
      | Some False \<Rightarrow> first_clause a d clauses e)"

lemma first_clause_snoc:
  "first_clause a d (cs @ [(c, r)]) e = first_clause a d cs (IfThenResultExpr c r e)"
  by (induction cs) (auto split: option.split bool.split)

lemma eval_Else: "eval_result a d (Else elser e) = first_clause a d (rev elser) e"
proof (induction elser arbitrary: e)
  case Nil
  then show ?case by (simp add: Else_def)
next
  case (Cons cr elser)
  obtain c r where "cr = (c, r)" by (cases cr)
  with Cons [of "IfThenResultExpr c r e"] show ?case by (simp add: Else_def first_clause_snoc)
qed

lemma HasUnsafeTraps_Else:
  "HasUnsafeTraps (Else elser e) \<longleftrightarrow> HasUnsafeTraps e \<or> (\<exists>(c, r) \<in> set elser. HasUnsafeTraps r)"
  by (induction elser arbitrary: e) (auto simp: Else_def)

end
