(* ===== verification/PolicyCompiler.thy ===== *)
theory PolicyCompiler
  imports CodeGen BpfDsl
begin

text \<open>
  The compiler of sandbox/linux/bpf_dsl/policy_compiler.cc (with the Compile methods of the
  expression classes in bpf_dsl.cc): from a policy to a BPF program.  The state is the code
  generator and the trap registry; the registry is reached through the two operations of its
  interface.  \<open>policy_verdict\<close> is the specification: what a policy says about one system call.
  The theory PolicyCompilerCorrect proves that the compiled program returns that verdict.
\<close>

section \<open>Configuration and state\<close>

datatype pc_error =
    BadArgno | BadWidth | ZeroMask | ValueOutsideMask | WidthOnPtr32 | MaskTooWide | ValueTooWide
  | HalfValueNonZero | BadRange | NotDenied | NoEscapePC | RequiredNotAllowed | UnsafeRefused
  | PanicRecursion | CodeGenFailed codegen_error | TrapFailed trap_error

text \<open>
  The build (architecture), the policy object, and the members of PolicyCompiler that do not change
  while compiling.
\<close>

record policy =
  EvaluateSyscall :: "int \<Rightarrow> result_expr"
  InvalidSyscall :: result_expr

record pc_config =
  pc_arch :: arch
  pc_policy :: policy
  pc_escapepc :: u64
  pc_panic :: "string \<Rightarrow> result_expr"
  pc_has_unsafe :: bool
  pc_required :: "int list"

record 'r registry_ops =
  reg_add :: "trap_key \<Rightarrow> 'r \<Rightarrow> trap_error + u16 \<times> 'r"
  reg_enable :: "'r \<Rightarrow> bool \<times> 'r"

type_synonym 'r pc_state = "codegen \<times> 'r"
type_synonym 'r pc_comp = "'r pc_state \<Rightarrow> pc_error + nat \<times> 'r pc_state"

definition kIsIntel :: "arch \<Rightarrow> bool" where
  "kIsIntel a \<longleftrightarrow> a \<in> {X86_64, X32, I386}"

definition kIsX32 :: "arch \<Rightarrow> bool" where
  "kIsX32 a \<longleftrightarrow> a = X32"

definition EM_386 :: u32 where "EM_386 = 3"
definition EM_ARM :: u32 where "EM_ARM = 40"
definition EM_X86_64 :: u32 where "EM_X86_64 = 62"
definition EM_AARCH64 :: u32 where "EM_AARCH64 = 183"
definition AUDIT_ARCH_64BIT :: u32 where "AUDIT_ARCH_64BIT = 0x80000000"
definition AUDIT_ARCH_LE :: u32 where "AUDIT_ARCH_LE = 0x40000000"

fun SECCOMP_ARCH :: "arch \<Rightarrow> u32" where
  "SECCOMP_ARCH X86_64 = EM_X86_64 OR AUDIT_ARCH_64BIT OR AUDIT_ARCH_LE"
| "SECCOMP_ARCH X32 = EM_X86_64 OR AUDIT_ARCH_64BIT OR AUDIT_ARCH_LE"
| "SECCOMP_ARCH I386 = EM_386 OR AUDIT_ARCH_LE"
| "SECCOMP_ARCH ARM = EM_ARM OR AUDIT_ARCH_LE"
| "SECCOMP_ARCH AARCH64 = EM_AARCH64 OR AUDIT_ARCH_64BIT OR AUDIT_ARCH_LE"

definition HasExactlyOneBit :: "u64 \<Rightarrow> bool" where
  "HasExactlyOneBit x \<longleftrightarrow> x \<noteq> 0 \<and> x AND (x - 1) = 0"

definition DefaultPanic :: "string \<Rightarrow> result_expr" where
  "DefaultPanic err = Kill"

text \<open>The anonymous HasUnsafeTraps(policy), which the constructor stores in has_unsafe_traps_.\<close>

definition policy_HasUnsafeTraps :: "arch \<Rightarrow> policy \<Rightarrow> bool" where
  "policy_HasUnsafeTraps a p \<longleftrightarrow>
     (\<exists>sysnum \<in> set (syscalls a VALID_ONLY). HasUnsafeTraps (EvaluateSyscall p (int sysnum))) \<or>
     HasUnsafeTraps (InvalidSyscall p)"

text \<open>
  PolicyCompiler::PolicyCompiler followed by the setters.  \<open>required\<close> is
  kSyscallsRequiredForUnsafeTraps of the build.
\<close>

definition new_policy_compiler ::
  "arch \<Rightarrow> policy \<Rightarrow> u64 \<Rightarrow> (string \<Rightarrow> result_expr) \<Rightarrow> int list \<Rightarrow> pc_config" where
  "new_policy_compiler a p escapepc panic required =
     \<lparr>pc_arch = a, pc_policy = p, pc_escapepc = escapepc, pc_panic = panic,
      pc_has_unsafe = policy_HasUnsafeTraps a p, pc_required = required\<rparr>"

definition IsRequiredForUnsafeTrap :: "int list \<Rightarrow> int \<Rightarrow> bool" where
  "IsRequiredForUnsafeTrap required sysno \<longleftrightarrow> sysno \<in> set required"

section \<open>Emitting instructions\<close>

definition emit :: "u16 \<Rightarrow> u32 \<Rightarrow> nat \<Rightarrow> nat \<Rightarrow> 'r pc_comp" where
  "emit code k jt jf s =
     (case MakeInstruction (fst s) code k jt jf of
        Inl e \<Rightarrow> Inl (CodeGenFailed e)
      | Inr (n, g) \<Rightarrow> Inr (n, g, snd s))"

definition bindS :: "'r pc_comp \<Rightarrow> (nat \<Rightarrow> 'r pc_comp) \<Rightarrow> 'r pc_comp" where
  "bindS m f s = bindE (m s) (\<lambda>(n, s'). f n s')"

definition returnS :: "nat \<Rightarrow> 'r pc_comp" where
  "returnS n s = Inr (n, s)"

definition failS :: "pc_error \<Rightarrow> 'r pc_comp" where
  "failS e s = Inl e"

text \<open>The four instruction forms policy_compiler.cc emits.\<close>

definition emit_load :: "u32 \<Rightarrow> nat \<Rightarrow> 'r pc_comp" where
  "emit_load off next_node = emit (BPF_LD + BPF_W + BPF_ABS) off next_node kNullNode"

definition emit_jump :: "u16 \<Rightarrow> u32 \<Rightarrow> nat \<Rightarrow> nat \<Rightarrow> 'r pc_comp" where
  "emit_jump op k jt jf = emit (BPF_JMP + op + BPF_K) k jt jf"

definition emit_and :: "u32 \<Rightarrow> nat \<Rightarrow> 'r pc_comp" where
  "emit_and k next_node = emit (BPF_ALU + BPF_AND + BPF_K) k next_node kNullNode"

definition emit_ret :: "u32 \<Rightarrow> 'r pc_comp" where
  "emit_ret k = emit (BPF_RET + BPF_K) k kNullNode kNullNode"

section \<open>Compiling expressions\<close>

definition pc_Trap :: "'r registry_ops \<Rightarrow> trap_fnc \<Rightarrow> u64 \<Rightarrow> bool \<Rightarrow> 'r pc_comp" where
  "pc_Trap ops fnc aux safe s =
     (case reg_add ops \<lparr>key_fnc = fnc, key_aux = aux, key_safe = safe\<rparr> (snd s) of
        Inl e \<Rightarrow> Inl (TrapFailed e)
      | Inr (tid, r) \<Rightarrow> emit_ret (SECCOMP_RET_TRAP + ucast tid) (fst s, r))"

definition pc_Return :: "'r registry_ops \<Rightarrow> pc_config \<Rightarrow> u32 \<Rightarrow> 'r pc_comp" where
  "pc_Return ops cfg ret =
     (if pc_has_unsafe cfg \<and> ret AND SECCOMP_RET_ACTION = SECCOMP_RET_ERRNO
      then pc_Trap ops ReturnErrno (ucast (ret AND SECCOMP_RET_DATA)) True
      else emit_ret ret)"

datatype arg_half = LOWER | UPPER

text \<open>\<open>unexpected\<close> is Unexpected64bitArgument, the compiled panic expression.\<close>

definition MaskedEqualHalf ::
  "pc_config \<Rightarrow> 'r pc_comp \<Rightarrow> int \<Rightarrow> nat \<Rightarrow> u64 \<Rightarrow> u64 \<Rightarrow> arg_half \<Rightarrow> nat \<Rightarrow> nat \<Rightarrow> 'r pc_comp" where
  "MaskedEqualHalf cfg unexpected argno width full_mask full_value half passed failed =
     (if width = 4 \<and> half = UPPER then
        bindS unexpected (\<lambda>invalid_64bit.
        let upper = SECCOMP_ARG_MSB_IDX (nat argno); lower = SECCOMP_ARG_LSB_IDX (nat argno) in
        if sizeof_ptr (pc_arch cfg) = 4 then
          bindS (emit_jump BPF_JEQ 0 passed invalid_64bit) (\<lambda>n. emit_load upper n)
        else
          bindS (emit_jump BPF_JSET 0x80000000 passed invalid_64bit) (\<lambda>n1.
          bindS (emit_load lower n1) (\<lambda>n2.
          bindS (emit_jump BPF_JEQ 0xFFFFFFFF n2 invalid_64bit) (\<lambda>n3.
          bindS (emit_jump BPF_JEQ 0 passed n3) (\<lambda>n4.
            emit_load upper n4)))))
      else
        let idx = (if half = UPPER then SECCOMP_ARG_MSB_IDX (nat argno) else SECCOMP_ARG_LSB_IDX (nat argno));
            msk = (if half = UPPER then hi32 full_mask else lo32 full_mask);
            val = (if half = UPPER then hi32 full_value else lo32 full_value)
        in
        if msk = 0 then (if val = 0 then returnS passed else failS HalfValueNonZero)
        else if msk = 0xFFFFFFFF then
          bindS (emit_jump BPF_JEQ val passed failed) (\<lambda>n. emit_load idx n)
        else if val = 0 then
          bindS (emit_jump BPF_JSET msk failed passed) (\<lambda>n. emit_load idx n)
        else if msk = val \<and> HasExactlyOneBit (ucast msk) then
          bindS (emit_jump BPF_JSET msk passed failed) (\<lambda>n. emit_load idx n)
        else
          bindS (emit_jump BPF_JEQ val passed failed) (\<lambda>n1.
          bindS (emit_and msk n1) (\<lambda>n2. emit_load idx n2)))"

definition MaskedEqual ::
  "pc_config \<Rightarrow> 'r pc_comp \<Rightarrow> int \<Rightarrow> nat \<Rightarrow> u64 \<Rightarrow> u64 \<Rightarrow> nat \<Rightarrow> nat \<Rightarrow> 'r pc_comp" where
  "MaskedEqual cfg unexpected argno width msk val passed failed =
     (if \<not> (argno \<ge> 0 \<and> argno < 6) then failS BadArgno
      else if \<not> (width = 4 \<or> width = 8) then failS BadWidth
      else if msk = 0 then failS ZeroMask
      else if val \<noteq> val AND msk then failS ValueOutsideMask
      else if sizeof_ptr (pc_arch cfg) = 4 \<and> width \<noteq> 4 then failS WidthOnPtr32
      else if width = 4 \<and> drop_bit 32 msk \<noteq> 0 then failS MaskTooWide
      else if width = 4 \<and> drop_bit 32 val \<noteq> 0 then failS ValueTooWide
      else
        bindS (MaskedEqualHalf cfg unexpected argno width msk val LOWER passed failed) (\<lambda>n.
          MaskedEqualHalf cfg unexpected argno width msk val UPPER n failed))"

fun compile_bool :: "pc_config \<Rightarrow> 'r pc_comp \<Rightarrow> bool_expr \<Rightarrow> nat \<Rightarrow> nat \<Rightarrow> 'r pc_comp" where
  "compile_bool cfg unexpected (ConstBoolExpr v) then_node else_node =
     returnS (if v then then_node else else_node)"
| "compile_bool cfg unexpected (MaskedEqualBoolExpr argno width msk val) then_node else_node =
     MaskedEqual cfg unexpected argno width msk val then_node else_node"
| "compile_bool cfg unexpected (NegateBoolExpr c) then_node else_node =
     compile_bool cfg unexpected c else_node then_node"
| "compile_bool cfg unexpected (AndBoolExpr lhs rhs) then_node else_node =
     bindS (compile_bool cfg unexpected rhs then_node else_node) (\<lambda>n.
       compile_bool cfg unexpected lhs n else_node)"
| "compile_bool cfg unexpected (OrBoolExpr lhs rhs) then_node else_node =
     bindS (compile_bool cfg unexpected rhs then_node else_node) (\<lambda>n.
       compile_bool cfg unexpected lhs then_node n)"

fun compile_result :: "'r registry_ops \<Rightarrow> pc_config \<Rightarrow> 'r pc_comp \<Rightarrow> result_expr \<Rightarrow> 'r pc_comp" where
  "compile_result ops cfg unexpected (ReturnResultExpr ret) = pc_Return ops cfg ret"
| "compile_result ops cfg unexpected (TrapResultExpr func aux safe) = pc_Trap ops func aux safe"
| "compile_result ops cfg unexpected (IfThenResultExpr c t e) =
     bindS (compile_result ops cfg unexpected t) (\<lambda>then_node.
     bindS (compile_result ops cfg unexpected e) (\<lambda>else_node.
       compile_bool cfg unexpected c then_node else_node))"

text \<open>
  Compiling the panic expression for an unexpected 64-bit argument compiles that argument's own
  conditions, so a panic expression that tests a 32-bit argument makes the source recurse without
  end.  \<open>depth\<close> bounds the recursion; \<open>Unexpected64bitArgument_depth\<close> shows that one level is
  all a panic expression needs that returns at all.
\<close>

fun Unexpected64bitArgument :: "nat \<Rightarrow> 'r registry_ops \<Rightarrow> pc_config \<Rightarrow> 'r pc_comp" where
  "Unexpected64bitArgument 0 ops cfg = failS PanicRecursion"
| "Unexpected64bitArgument (Suc depth) ops cfg =
     compile_result ops cfg (Unexpected64bitArgument depth ops cfg)
       (pc_panic cfg ''Unexpected 64bit argument detected'')"

definition panic_depth :: nat where "panic_depth = 1"

definition CompileResult :: "'r registry_ops \<Rightarrow> pc_config \<Rightarrow> result_expr \<Rightarrow> 'r pc_comp" where
  "CompileResult ops cfg = compile_result ops cfg (Unexpected64bitArgument panic_depth ops cfg)"

section \<open>The dispatch on the system call number\<close>

type_synonym pc_range = "nat \<times> nat"

text \<open>The node of one number: the policy's expression for a valid number, else the invalid node.\<close>

definition syscall_node :: "'r registry_ops \<Rightarrow> pc_config \<Rightarrow> nat \<Rightarrow> nat \<Rightarrow> 'r pc_comp" where
  "syscall_node ops cfg invalid_node sysnum =
     (if SyscallSet_IsValid (pc_arch cfg) sysnum
      then CompileResult ops cfg (EvaluateSyscall (pc_policy cfg) (int sysnum))
      else returnS invalid_node)"

fun find_ranges_loop ::
  "'r registry_ops \<Rightarrow> pc_config \<Rightarrow> nat \<Rightarrow> nat list \<Rightarrow> nat \<Rightarrow> nat \<Rightarrow> pc_range list \<Rightarrow> 'r pc_state
    \<Rightarrow> pc_error + pc_range list \<times> 'r pc_state" where
  "find_ranges_loop ops cfg invalid_node [] old_sysnum old_node ranges s =
     Inr (ranges @ [(old_sysnum, old_node)], s)"
| "find_ranges_loop ops cfg invalid_node (sysnum # rest) old_sysnum old_node ranges s =
     bindE (syscall_node ops cfg invalid_node sysnum s) (\<lambda>(node, s').
       if node \<noteq> old_node
       then find_ranges_loop ops cfg invalid_node rest sysnum node (ranges @ [(old_sysnum, old_node)]) s'
       else find_ranges_loop ops cfg invalid_node rest old_sysnum old_node ranges s')"

definition FindRanges ::
  "'r registry_ops \<Rightarrow> pc_config \<Rightarrow> 'r pc_state \<Rightarrow> pc_error + pc_range list \<times> 'r pc_state" where
  "FindRanges ops cfg s =
     bindE (CompileResult ops cfg (InvalidSyscall (pc_policy cfg)) s) (\<lambda>(invalid_node, s1).
     bindE (syscall_node ops cfg invalid_node 0 s1) (\<lambda>(old_node, s2).
       find_ranges_loop ops cfg invalid_node (syscalls (pc_arch cfg) ALL_SET) 0 old_node [] s2))"

function AssembleJumpTable :: "pc_range list \<Rightarrow> 'r pc_comp" where
  "AssembleJumpTable ranges =
     (if ranges = [] then failS BadRange
      else if length ranges = 1 then returnS (snd (hd ranges))
      else
        let mid = length ranges div 2 in
        bindS (AssembleJumpTable (take mid ranges)) (\<lambda>jf.
        bindS (AssembleJumpTable (drop mid ranges)) (\<lambda>jt.
          emit_jump BPF_JGE (of_nat (fst (ranges ! mid))) jt jf)))"
  by pat_completeness auto
termination
  by (relation "measure length") (auto simp: neq_Nil_conv)

declare AssembleJumpTable.simps [simp del]

definition CheckSyscallNumber :: "'r registry_ops \<Rightarrow> pc_config \<Rightarrow> nat \<Rightarrow> 'r pc_comp" where
  "CheckSyscallNumber ops cfg passed =
     (if kIsIntel (pc_arch cfg) then
        bindS (CompileResult ops cfg (pc_panic cfg ''Illegal mixing of system call ABIs''))
          (\<lambda>invalidX32.
           if kIsX32 (pc_arch cfg) then emit_jump BPF_JSET 0x40000000 passed invalidX32
           else emit_jump BPF_JSET 0x40000000 invalidX32 passed)
      else returnS passed)"

definition DispatchSyscall :: "'r registry_ops \<Rightarrow> pc_config \<Rightarrow> 'r pc_comp" where
  "DispatchSyscall ops cfg s =
     bindE (FindRanges ops cfg s) (\<lambda>(ranges, s1).
       bindS (AssembleJumpTable ranges) (\<lambda>jumptable.
       bindS (CheckSyscallNumber ops cfg jumptable) (\<lambda>n.
         emit_load SECCOMP_NR_IDX n)) s1)"

definition MaybeAddEscapeHatch :: "'r registry_ops \<Rightarrow> pc_config \<Rightarrow> nat \<Rightarrow> 'r pc_comp" where
  "MaybeAddEscapeHatch ops cfg rest s =
     (if \<not> pc_has_unsafe cfg then Inr (rest, s)
      else case reg_enable ops (snd s) of (ok, r) \<Rightarrow>
        if \<not> ok then Inl UnsafeRefused
        else
          bindS (CompileResult ops cfg Allow) (\<lambda>allow_node.
          bindS (emit_jump BPF_JEQ (hi32 (pc_escapepc cfg)) allow_node rest) (\<lambda>n1.
          bindS (emit_load SECCOMP_IP_MSB_IDX n1) (\<lambda>n2.
          bindS (emit_jump BPF_JEQ (lo32 (pc_escapepc cfg)) n2 rest) (\<lambda>n3.
            emit_load SECCOMP_IP_LSB_IDX n3)))) (fst s, r))"

definition CheckArch :: "'r registry_ops \<Rightarrow> pc_config \<Rightarrow> nat \<Rightarrow> 'r pc_comp" where
  "CheckArch ops cfg passed =
     bindS (CompileResult ops cfg (pc_panic cfg ''Invalid audit architecture in BPF filter'')) (\<lambda>bad.
     bindS (emit_jump BPF_JEQ (SECCOMP_ARCH (pc_arch cfg)) passed bad) (\<lambda>n.
       emit_load SECCOMP_ARCH_IDX n))"

definition AssemblePolicy :: "'r registry_ops \<Rightarrow> pc_config \<Rightarrow> 'r pc_comp" where
  "AssemblePolicy ops cfg =
     bindS (DispatchSyscall ops cfg) (\<lambda>n1.
     bindS (MaybeAddEscapeHatch ops cfg n1) (\<lambda>n2.
       CheckArch ops cfg n2))"

definition pc_Compile ::
  "'r registry_ops \<Rightarrow> pc_config \<Rightarrow> 'r \<Rightarrow> pc_error + sock_filter list \<times> 'r" where
  "pc_Compile ops cfg r =
     (if \<not> IsDeny (InvalidSyscall (pc_policy cfg)) then Inl NotDenied
      else
        bindE
          (if pc_has_unsafe cfg then
             if pc_escapepc cfg = 0 then Inl NoEscapePC
             else if \<not> (\<forall>sysnum \<in> set (pc_required cfg).
                          IsAllow (EvaluateSyscall (pc_policy cfg) sysnum))
             then Inl RequiredNotAllowed
             else case reg_enable ops r of (ok, r') \<Rightarrow> if ok then Inr r' else Inl UnsafeRefused
           else Inr r)
        (\<lambda>r'. bindE (AssemblePolicy ops cfg (new_codegen, r')) (\<lambda>(head, g, r'').
           case cg_Compile g head of
             Inl e \<Rightarrow> Inl (CodeGenFailed e)
           | Inr prog \<Rightarrow> Inr (prog, r''))))"

section \<open>The specification\<close>

text \<open>A result expression, with the panic expression in place of an ABI violation.\<close>

definition resolve :: "pc_config \<Rightarrow> arch_seccomp_data \<Rightarrow> result_expr \<Rightarrow> verdict option" where
  "resolve cfg d r =
     (case eval_result (pc_arch cfg) d r of
        Some v \<Rightarrow> Some v
      | None \<Rightarrow> eval_result (pc_arch cfg) d (pc_panic cfg ''Unexpected 64bit argument detected''))"

text \<open>The expression a policy decides one system call by, as its comments say.\<close>

definition policy_expr :: "pc_config \<Rightarrow> arch_seccomp_data \<Rightarrow> result_expr" where
  "policy_expr cfg d =
     (if sd_arch d \<noteq> SECCOMP_ARCH (pc_arch cfg) then
        pc_panic cfg ''Invalid audit architecture in BPF filter''
      else if pc_has_unsafe cfg \<and> sd_ip d = pc_escapepc cfg then Allow
      else if kIsIntel (pc_arch cfg) \<and> ((sd_nr d AND 0x40000000 \<noteq> 0) \<noteq> kIsX32 (pc_arch cfg)) then
        pc_panic cfg ''Illegal mixing of system call ABIs''
      else if SyscallSet_IsValid (pc_arch cfg) (unat (sd_nr d)) then
        EvaluateSyscall (pc_policy cfg) (sint (sd_nr d))
      else InvalidSyscall (pc_policy cfg))"

definition policy_verdict :: "pc_config \<Rightarrow> arch_seccomp_data \<Rightarrow> verdict option" where
  "policy_verdict cfg d = resolve cfg d (policy_expr cfg d)"

text \<open>
  The return code of a verdict, given the registered identifiers.  With unsafe traps enabled, an
  errno verdict goes to the ReturnErrno handler.
\<close>

definition trap_code :: "(trap_key \<Rightarrow> u16 option) \<Rightarrow> trap_key \<Rightarrow> u32 \<Rightarrow> bool" where
  "trap_code ids key c \<longleftrightarrow> (\<exists>tid. ids key = Some tid \<and> c = SECCOMP_RET_TRAP + ucast tid)"

fun verdict_code :: "pc_config \<Rightarrow> (trap_key \<Rightarrow> u16 option) \<Rightarrow> verdict \<Rightarrow> u32 \<Rightarrow> bool" where
  "verdict_code cfg ids (VRet ret) c =
     (if pc_has_unsafe cfg \<and> ret AND SECCOMP_RET_ACTION = SECCOMP_RET_ERRNO
      then trap_code ids \<lparr>key_fnc = ReturnErrno, key_aux = ucast (ret AND SECCOMP_RET_DATA), key_safe = True\<rparr> c
      else c = ret)"
| "verdict_code cfg ids (VTrap func aux safe) c =
     trap_code ids \<lparr>key_fnc = func, key_aux = aux, key_safe = safe\<rparr> c"

end
