(* ===== verification/PolicyCompilerCorrect.thy ===== *)
theory PolicyCompilerCorrect
  imports PolicyCompiler
begin

text \<open>
  Correctness of the policy compiler.  A node \<open>decides\<close> a function from the input, the accumulator
  and its validity to a verdict when running the node yields a return code of that verdict.  Each
  operation of policy_compiler.cc is shown to yield a node that decides the abstract meaning of what
  it compiles; nodes keep their meaning while the program and the registry grow.  The proofs about
  operations that register traps stand in the locale of the registry's interface.
\<close>

section \<open>What a node decides\<close>

text \<open>The return codes the verifier's interpreter (and the kernel) know.\<close>

definition good_verdict :: "verdict \<Rightarrow> bool" where
  "good_verdict w = (case w of VRet ret \<Rightarrow> known_action ret | VTrap func aux safe \<Rightarrow> True)"

type_synonym meaning = "arch_seccomp_data \<Rightarrow> u32 \<Rightarrow> bool \<Rightarrow> verdict option"

definition node_decides ::
  "pc_config \<Rightarrow> codegen \<Rightarrow> (trap_key \<Rightarrow> u16 option) \<Rightarrow> nat \<Rightarrow> meaning \<Rightarrow> bool" where
  "node_decides cfg g ids n V \<longleftrightarrow> n < length (cg_program g) \<and>
     (\<forall>d a v w. V d a v = Some w \<longrightarrow> good_verdict w \<longrightarrow>
        (\<exists>c. node_exec (cg_program g) d n a v = Some c \<and> verdict_code cfg ids w c))"

lemma verdict_code_mono:
  assumes "\<forall>key tid. ids key = Some tid \<longrightarrow> ids' key = Some tid" and "verdict_code cfg ids w c"
  shows "verdict_code cfg ids' w c"
  using assms by (cases w) (auto simp: trap_code_def split: if_splits)

lemma node_decides_mono:
  assumes "cg_extends g g'" and "\<forall>key tid. ids key = Some tid \<longrightarrow> ids' key = Some tid"
    and "node_decides cfg g ids n V"
  shows "node_decides cfg g' ids' n V"
  using assms cg_extends_length [OF assms(1)] verdict_code_mono [OF assms(2)]
  unfolding node_decides_def by (fastforce simp: cg_extends_exec)

lemma node_decides_weaken:
  assumes "node_decides cfg g ids n V" and "\<And>d a v w. V' d a v = Some w \<Longrightarrow> V d a v = Some w"
  shows "node_decides cfg g ids n V'"
  using assms unfolding node_decides_def by blast

section \<open>The four instruction forms\<close>

lemmas pc_decode = bpf_decode bpf_consts kNullNode_def

lemma load_code:
  "BPF_CLASS (BPF_LD + BPF_W + BPF_ABS) = BPF_LD"
  by (simp add: pc_decode)

lemma jump_code:
  assumes "op \<in> {BPF_JEQ, BPF_JGE, BPF_JSET}"
  shows "BPF_CLASS (BPF_JMP + op + BPF_K) = BPF_JMP" "BPF_OP (BPF_JMP + op + BPF_K) = op"
    "BPF_SRC (BPF_JMP + op + BPF_K) = BPF_K" "op \<noteq> BPF_JA"
  using assms by (auto simp: pc_decode)

lemma and_code:
  "BPF_CLASS (BPF_ALU + BPF_AND + BPF_K) = BPF_ALU" "BPF_OP (BPF_ALU + BPF_AND + BPF_K) = BPF_AND"
  "BPF_SRC (BPF_ALU + BPF_AND + BPF_K) = BPF_K"
  by (simp_all add: pc_decode)

lemma ret_code:
  "BPF_CLASS (BPF_RET + BPF_K) = BPF_RET" "BPF_SRC (BPF_RET + BPF_K) = BPF_K"
  by (simp_all add: pc_decode)

definition jump_test :: "u16 \<Rightarrow> u32 \<Rightarrow> u32 \<Rightarrow> bool" where
  "jump_test op k a \<longleftrightarrow> (if op = BPF_JEQ then a = k else if op = BPF_JGE then a \<ge> k else a AND k \<noteq> 0)"

lemma jump_test_simps [simp]:
  "jump_test BPF_JEQ k a \<longleftrightarrow> a = k" "jump_test BPF_JGE k a \<longleftrightarrow> a \<ge> k"
  "jump_test BPF_JSET k a \<longleftrightarrow> a AND k \<noteq> 0"
  by (simp_all add: jump_test_def bpf_consts)

lemma dag_sem_load:
  assumes "unat off < 64" and "off AND 3 = 0"
  shows "dag_sem d (BPF_LD + BPF_W + BPF_ABS) off T E a v = T (load_word d (unat off)) True"
  using assms by (simp add: dag_sem_def load_code Ld_def) (simp add: pc_decode)

lemma dag_sem_jump:
  assumes "op \<in> {BPF_JEQ, BPF_JGE, BPF_JSET}"
  shows "dag_sem d (BPF_JMP + op + BPF_K) k T E a True = (if jump_test op k a then T else E) a True"
proof -
  have "jump_cond (BPF_JMP + op + BPF_K) k a = Some (jump_test op k a)"
    using assms unfolding jump_cond_def jump_code(2) [OF assms] jump_test_def
    by (auto simp: bpf_consts)
  moreover have "BPF_JMP \<noteq> BPF_LD" by (simp add: bpf_consts)
  ultimately show ?thesis
    using jump_code [OF assms] by (simp add: dag_sem_def)
qed

lemma dag_sem_and:
  "dag_sem d (BPF_ALU + BPF_AND + BPF_K) k T E a v = T (a AND k) v"
proof -
  have src: "BPF_SRC 84 = 0" and op: "BPF_OP 84 = 80" by (simp_all add: bpf_decode)
  show ?thesis
    unfolding dag_sem_def Let_def and_code by (simp add: Alu_def Let_def src op bpf_consts)
qed

lemma dag_sem_ret:
  "known_action k \<Longrightarrow> dag_sem d (BPF_RET + BPF_K) k T E a v = Some k"
  unfolding dag_sem_def Let_def ret_code by (simp add: bpf_consts)

lemma load_word_arg:
  assumes "n < 6"
  shows "load_word d (unat (SECCOMP_ARG_LSB_IDX n)) = lo32 (sd_args d n)"
    "load_word d (unat (SECCOMP_ARG_MSB_IDX n)) = hi32 (sd_args d n)"
    "unat (SECCOMP_ARG_LSB_IDX n) < 64" "unat (SECCOMP_ARG_MSB_IDX n) < 64"
    "SECCOMP_ARG_LSB_IDX n AND 3 = 0" "SECCOMP_ARG_MSB_IDX n AND 3 = 0"
proof -
  have "n \<in> {0, 1, 2, 3, 4, 5}" using assms by auto
  then show "load_word d (unat (SECCOMP_ARG_LSB_IDX n)) = lo32 (sd_args d n)"
    "load_word d (unat (SECCOMP_ARG_MSB_IDX n)) = hi32 (sd_args d n)"
    "unat (SECCOMP_ARG_LSB_IDX n) < 64" "unat (SECCOMP_ARG_MSB_IDX n) < 64"
    "SECCOMP_ARG_LSB_IDX n AND 3 = 0" "SECCOMP_ARG_MSB_IDX n AND 3 = 0"
    by (auto simp: SECCOMP_ARG_LSB_IDX_def SECCOMP_ARG_MSB_IDX_def load_word_def)
qed

lemma load_word_fixed:
  "load_word d (unat SECCOMP_NR_IDX) = sd_nr d" "load_word d (unat SECCOMP_ARCH_IDX) = sd_arch d"
  "load_word d (unat SECCOMP_IP_LSB_IDX) = lo32 (sd_ip d)"
  "load_word d (unat SECCOMP_IP_MSB_IDX) = hi32 (sd_ip d)"
  by (simp_all add: load_word_def bpf_consts)

section \<open>Testing for one bit\<close>

lemma one_bit_nat: "0 < x \<Longrightarrow> x AND (x - 1) = 0 \<Longrightarrow> \<exists>n. x = 2 ^ n" for x :: nat
proof (induction x rule: less_induct)
  case (less x)
  show ?case
  proof (cases "even x")
    case True
    then obtain y where y: "x = 2 * y" by blast
    with less.prems have "0 < y" by simp
    then have "x - 1 = 2 * (y - 1) + 1" using y by simp
    then have "y AND (y - 1) = 0" using less.prems(2) y by (simp add: and_rec [of "2 * y"])
    with less.IH [of y] y \<open>0 < y\<close> obtain n where "y = 2 ^ n" by auto
    with y have "x = 2 ^ Suc n" by simp
    then show ?thesis by blast
  next
    case False
    then obtain y where y: "x = 2 * y + 1" using oddE by blast
    then have "y = 0" using less.prems(2) by (simp add: and_rec [of "Suc (2 * y)"])
    with y have "x = 2 ^ 0" by simp
    then show ?thesis by blast
  qed
qed

lemma HasExactlyOneBit_and:
  fixes m a :: u32
  assumes "HasExactlyOneBit (ucast m)"
  shows "a AND m \<noteq> 0 \<longleftrightarrow> a AND m = m"
proof -
  have pos: "(ucast m :: u64) \<noteq> 0" and z: "(ucast m :: u64) AND (ucast m - 1) = 0"
    using assms by (auto simp: HasExactlyOneBit_def)
  have "unat m < 2 ^ LENGTH(32)" by (rule unsigned_less)
  then have un: "unat (ucast m :: u64) = unat m"
    by (simp add: unsigned_ucast_eq take_bit_nat_eq_self)
  have one: "unat ((ucast m :: u64) - 1) = unat m - 1"
    using pos un by (simp add: unat_minus_one)
  have "unat m AND (unat m - 1) = unat ((ucast m :: u64) AND (ucast m - 1))"
    by (simp add: unsigned_and_eq un one)
  then have "unat m AND (unat m - 1) = 0" using z by simp
  moreover have "0 < unat m" using pos un by (metis unat_gt_0)
  ultimately obtain n where n: "unat m = 2 ^ n" using one_bit_nat by blast
  then have m: "m = 2 ^ n"
  proof -
    have "m = of_nat (unat m)" by simp
    also have "\<dots> = 2 ^ n" unfolding n by simp
    finally show ?thesis .
  qed
  have "unat m < 2 ^ LENGTH(32)" by (rule unsigned_less)
  then have "(2 :: nat) ^ n < 2 ^ 32" unfolding n by simp
  then have "n < 32" by (rule power_less_imp_less_exp [rotated]) simp
  then have b: "bit m i \<longleftrightarrow> i = n" for i
    unfolding m by (auto simp: bit_simps)
  have "a AND m = (if bit a n then m else 0)"
    by (rule bit_word_eqI) (auto simp: bit_simps b)
  moreover have "m \<noteq> 0" using n by auto
  ultimately show ?thesis by auto
qed

section \<open>Contracts of the operations\<close>

text \<open>The abstract meanings of the instruction forms.\<close>

definition load_meaning :: "(arch_seccomp_data \<Rightarrow> u32) \<Rightarrow> meaning \<Rightarrow> meaning" where
  "load_meaning f V = (\<lambda>d a v. V d (f d) True)"

definition jump_meaning :: "u16 \<Rightarrow> u32 \<Rightarrow> meaning \<Rightarrow> meaning \<Rightarrow> meaning" where
  "jump_meaning op k T E =
     (\<lambda>d a v. if v then (if jump_test op k a then T d a v else E d a v) else None)"

text \<open>A meaning that asks nothing, for a node that only has to exist.\<close>

definition no_meaning :: meaning where
  "no_meaning = (\<lambda>d a v. None)"

text \<open>The meaning of a result node: the accumulator does not matter.\<close>

definition pure_meaning :: "(arch_seccomp_data \<Rightarrow> verdict option) \<Rightarrow> meaning" where
  "pure_meaning R = (\<lambda>d a v. R d)"

lemmas meanings = load_meaning_def jump_meaning_def no_meaning_def pure_meaning_def

lemma trap_code_bits:
  fixes tid :: u16
  shows "SECCOMP_RET_TRAP + ucast tid = SECCOMP_RET_TRAP OR (ucast tid :: u32)"
    and "bit (ucast tid :: u32) i \<Longrightarrow> i < 16" and "\<not> (bit SECCOMP_RET_TRAP i \<and> i < 16)"
proof -
  have lo: "bit (ucast tid :: u32) i \<Longrightarrow> i < 16" for i
    by (auto simp: bit_simps dest: bit_imp_le_length)
  have t: "SECCOMP_RET_TRAP = push_bit 16 3" by (simp add: bpf_consts)
  have hi: "\<not> (bit SECCOMP_RET_TRAP i \<and> i < 16)" for i
    unfolding t bit_push_bit_iff by simp
  have "SECCOMP_RET_TRAP AND (ucast tid :: u32) = 0"
    by (rule bit_word_eqI) (use lo hi in \<open>auto simp: bit_simps\<close>)
  then show "SECCOMP_RET_TRAP + ucast tid = SECCOMP_RET_TRAP OR (ucast tid :: u32)"
    by (rule disjunctive_add_eq_or)
  from lo hi show "bit (ucast tid :: u32) i \<Longrightarrow> i < 16" "\<not> (bit SECCOMP_RET_TRAP i \<and> i < 16)"
    by blast+
qed

lemma ret_fields: "SECCOMP_RET_ACTION = push_bit 16 (mask 16)" "SECCOMP_RET_DATA = mask 16"
  by (simp_all add: bpf_consts mask_eq_exp_minus_1)

lemma trap_code_action: "(SECCOMP_RET_TRAP + ucast (tid :: u16)) AND SECCOMP_RET_ACTION = SECCOMP_RET_TRAP"
  unfolding trap_code_bits(1)
proof (rule bit_word_eqI)
  fix i
  assume i: "i < LENGTH(32)"
  have m: "bit SECCOMP_RET_ACTION i \<longleftrightarrow> 16 \<le> i"
    unfolding ret_fields bit_push_bit_iff bit_mask_iff using i by auto
  show "bit ((SECCOMP_RET_TRAP OR ucast tid) AND SECCOMP_RET_ACTION) i \<longleftrightarrow> bit SECCOMP_RET_TRAP i"
    unfolding bit_and_iff bit_or_iff m using trap_code_bits(2) [of tid i] trap_code_bits(3) [of i]
    by (meson leI leD)
qed

lemma trap_code_data: "(SECCOMP_RET_TRAP + ucast (tid :: u16)) AND SECCOMP_RET_DATA = ucast tid"
  unfolding trap_code_bits(1)
proof (rule bit_word_eqI)
  fix i
  assume "i < LENGTH(32)"
  have m: "bit SECCOMP_RET_DATA i \<longleftrightarrow> i < 16" if "i < 32" for i
    unfolding ret_fields bit_mask_iff using that by auto
  show "bit ((SECCOMP_RET_TRAP OR ucast tid) AND SECCOMP_RET_DATA) i \<longleftrightarrow> bit (ucast tid :: u32) i"
    unfolding bit_and_iff bit_or_iff using trap_code_bits(2) [of tid i] trap_code_bits(3) [of i]
      m [of i] \<open>i < LENGTH(32)\<close> by auto
qed

lemma unat_ucast_u16: "unat (ucast (x :: u16) :: u32) = unat x"
proof -
  have "unat x < 2 ^ LENGTH(16)" by (rule unsigned_less)
  then show ?thesis by (simp add: unsigned_ucast_eq take_bit_nat_eq_self)
qed

lemma trap_code_known: "known_action (SECCOMP_RET_TRAP + ucast (tid :: u16))"
  by (simp add: known_action_def trap_code_action)

text \<open>A meaning entered with one particular number in the accumulator.\<close>

definition at_number :: "u32 \<Rightarrow> meaning \<Rightarrow> meaning" where
  "at_number x V = (\<lambda>d a v. if v \<and> a = x then V d a v else None)"

section \<open>Ranges of system call numbers\<close>

text \<open>The node of the range a number lies in: the last range that starts at or below it.\<close>

definition range_node :: "pc_range list \<Rightarrow> nat \<Rightarrow> nat" where
  "range_node ranges i = snd (last (filter (\<lambda>(lo, n). lo \<le> i) ranges))"

lemma filter_eq_hd:
  assumes "sorted (map fst ranges)" and "ranges \<noteq> []" and "i < fst (hd ranges)"
  shows "filter (\<lambda>(lo, n). lo \<le> i) ranges = []"
proof -
  have "i < lo" if "(lo, n) \<in> set ranges" for lo n
    using assms that by (cases ranges) auto
  then show ?thesis by (force simp: filter_empty_conv)
qed

lemma range_node_take:
  assumes "sorted (map fst ranges)" and "mid < length ranges" and "i < fst (ranges ! mid)"
  shows "range_node (take mid ranges) i = range_node ranges i"
proof -
  have "filter (\<lambda>(lo, n). lo \<le> i) (drop mid ranges) = []"
    using assms by (intro filter_eq_hd) (simp_all add: drop_map [symmetric] sorted_wrt_drop hd_drop_conv_nth)
  then have "filter (\<lambda>(lo, n). lo \<le> i) (take mid ranges @ drop mid ranges)
      = filter (\<lambda>(lo, n). lo \<le> i) (take mid ranges)" by (simp only: filter_append append_Nil2)
  then show ?thesis by (simp add: range_node_def)
qed

lemma range_node_drop:
  assumes "mid < length ranges" and "fst (ranges ! mid) \<le> i"
  shows "range_node (drop mid ranges) i = range_node ranges i"
proof -
  have "filter (\<lambda>(lo, n). lo \<le> i) (drop mid ranges) \<noteq> []"
  proof -
    have "ranges ! mid \<in> set (drop mid ranges)"
      using assms(1) by (simp add: Cons_nth_drop_Suc [symmetric])
    with assms(2) show ?thesis by (cases "ranges ! mid") (auto simp: filter_empty_conv)
  qed
  then have "last (filter (\<lambda>(lo, n). lo \<le> i) (take mid ranges @ drop mid ranges))
      = last (filter (\<lambda>(lo, n). lo \<le> i) (drop mid ranges))" by (simp only: filter_append last_appendR not_False_eq_True)
  then show ?thesis by (simp add: range_node_def)
qed

lemma range_node_snoc:
  "range_node (ranges @ [(lo, n)]) i = (if lo \<le> i then n else range_node ranges i)"
  by (simp add: range_node_def)

lemma range_node_cong:
  "\<forall>(lo, n) \<in> set ranges. lo \<le> i \<longleftrightarrow> lo \<le> j \<Longrightarrow> range_node ranges i = range_node ranges j"
  unfolding range_node_def by (rule arg_cong [where f = "\<lambda>xs. snd (last xs)"]) (auto intro: filter_cong)

text \<open>The expression for a number, as FindRanges chooses it.\<close>

definition expr_of :: "pc_config \<Rightarrow> nat \<Rightarrow> result_expr" where
  "expr_of cfg i = (if SyscallSet_IsValid (pc_arch cfg) i then EvaluateSyscall (pc_policy cfg) (int i)
     else InvalidSyscall (pc_policy cfg))"

lemma expr_of_speaks_for: "speaks_for (pc_arch cfg) xs m i \<Longrightarrow> expr_of cfg m = expr_of cfg i"
  by (metis speaks_for_def expr_of_def)

lemma IsValid_sint: "SyscallSet_IsValid a (unat n) \<Longrightarrow> sint n = int (unat n)" for n :: u32
proof -
  assume "SyscallSet_IsValid a (unat n)"
  then have "unat n < 2 ^ 31" by (rule IsValid_small)
  then have "int (unat n) < int (2 ^ 31)" by (rule of_nat_less_iff [THEN iffD2])
  moreover have u: "int (unat n) = uint n" by simp
  ultimately have "signed_take_bit 31 (uint n) = uint n"
    by (intro signed_take_bit_int_eq_self order_trans [of "- (2 ^ 31)" 0 "uint n"]) simp_all
  with u show ?thesis by (simp add: sint_uint)
qed

definition expr_meaning :: "pc_config \<Rightarrow> nat \<Rightarrow> meaning" where
  "expr_meaning cfg i = pure_meaning (\<lambda>d. resolve cfg d (expr_of cfg i))"

text \<open>The whole table: any number in the accumulator.\<close>

definition table_meaning :: "pc_config \<Rightarrow> meaning" where
  "table_meaning cfg = (\<lambda>d a v. if v then expr_meaning cfg (unat a) d a v else None)"

text \<open>The verdict after the checks of architecture and escape hatch.\<close>

definition number_verdict :: "pc_config \<Rightarrow> arch_seccomp_data \<Rightarrow> verdict option" where
  "number_verdict cfg d =
     (if kIsIntel (pc_arch cfg) \<and> ((sd_nr d AND 0x40000000 \<noteq> 0) \<noteq> kIsX32 (pc_arch cfg))
      then resolve cfg d (pc_panic cfg ''Illegal mixing of system call ABIs'')
      else resolve cfg d (expr_of cfg (unat (sd_nr d))))"

lemma policy_verdict_eq:
  "policy_verdict cfg d = (if sd_arch d = SECCOMP_ARCH (pc_arch cfg)
      then (if pc_has_unsafe cfg \<and> sd_ip d = pc_escapepc cfg then resolve cfg d Allow else number_verdict cfg d)
      else resolve cfg d (pc_panic cfg ''Invalid audit architecture in BPF filter''))"
  by (simp add: policy_verdict_def policy_expr_def number_verdict_def expr_of_def IsValid_sint)

lemma pc_Compile_Inr:
  assumes "pc_Compile ops cfg r = Inr (prog, r')"
  obtains r1 head g where "r1 = r \<or> (\<exists>b. reg_enable ops r = (b, r1))"
    and "AssemblePolicy ops cfg (new_codegen, r1) = Inr (head, (g, r'))"
    and "cg_Compile g head = Inr prog"
proof -
  from assms obtain r1 x where r1: "r1 = r \<or> (\<exists>b. reg_enable ops r = (b, r1))"
    and a: "AssemblePolicy ops cfg (new_codegen, r1) = Inr x"
    and c: "(case x of (head, g, r'') \<Rightarrow> case cg_Compile g head of
           Inl e \<Rightarrow> Inl (CodeGenFailed e) | Inr prog \<Rightarrow> Inr (prog, r'')) = Inr (prog, r')"
    by (auto simp: pc_Compile_def bindE_eq_Inr split: if_splits prod.splits)
  obtain head g r'' where x: "x = (head, g, r'')" by (cases x)
  from c x have "r'' = r'" "cg_Compile g head = Inr prog" by (auto split: sum.splits)
  with that r1 a x show thesis by blast
qed

context trap_registry
begin

definition sinv :: "codegen \<times> 'r \<Rightarrow> bool" where
  "sinv s \<longleftrightarrow> cg_inv (fst s) \<and> rinv (snd s)"

definition sext :: "codegen \<times> 'r \<Rightarrow> codegen \<times> 'r \<Rightarrow> bool" where
  "sext s s' \<longleftrightarrow> cg_extends (fst s) (fst s') \<and> reg_extends (snd s) (snd s')"

definition decides :: "pc_config \<Rightarrow> codegen \<times> 'r \<Rightarrow> nat \<Rightarrow> meaning \<Rightarrow> bool" where
  "decides cfg s n V \<longleftrightarrow> node_decides cfg (fst s) (lookup (snd s)) n V"

text \<open>A computation yields a node that decides \<open>V\<close>, and keeps what was there.\<close>

definition yields :: "pc_config \<Rightarrow> codegen \<times> 'r \<Rightarrow> 'r pc_comp \<Rightarrow> meaning \<Rightarrow> bool" where
  "yields cfg s m V \<longleftrightarrow>
     (\<forall>n s'. m s = Inr (n, s') \<longrightarrow> sinv s' \<and> sext s s' \<and> decides cfg s' n V)"

lemma sext_refl: "sext s s"
  by (simp add: sext_def reg_extends_refl)

lemma sext_trans: "sext s s' \<Longrightarrow> sext s' s'' \<Longrightarrow> sext s s''"
  unfolding sext_def using cg_extends_trans reg_extends_trans by blast

lemma decides_mono: "sext s s' \<Longrightarrow> decides cfg s n V \<Longrightarrow> decides cfg s' n V"
  unfolding sext_def decides_def reg_extends_def using node_decides_mono by blast

lemma decides_weaken:
  "decides cfg s n V \<Longrightarrow> (\<And>d a v w. V' d a v = Some w \<Longrightarrow> V d a v = Some w) \<Longrightarrow> decides cfg s n V'"
  unfolding decides_def by (rule node_decides_weaken)

lemma decides_length: "decides cfg s n V \<Longrightarrow> n < length (cg_program (fst s))"
  by (simp add: decides_def node_decides_def)

lemma yieldsI:
  "(\<And>n s'. m s = Inr (n, s') \<Longrightarrow> sinv s' \<and> sext s s' \<and> decides cfg s' n V) \<Longrightarrow> yields cfg s m V"
  unfolding yields_def by blast

lemma yieldsD:
  "yields cfg s m V \<Longrightarrow> m s = Inr (n, s') \<Longrightarrow> sinv s' \<and> sext s s' \<and> decides cfg s' n V"
  unfolding yields_def by blast

lemma yields_bindS:
  assumes "yields cfg s m V"
    and "\<And>n s'. sinv s' \<Longrightarrow> sext s s' \<Longrightarrow> decides cfg s' n V \<Longrightarrow> yields cfg s' (f n) W"
  shows "yields cfg s (bindS m f) W"
proof (rule yieldsI)
  fix n s'
  assume "bindS m f s = Inr (n, s')"
  then obtain n1 s1 where m: "m s = Inr (n1, s1)" and f: "f n1 s1 = Inr (n, s')"
    by (auto simp: bindS_def bindE_eq_Inr)
  from yieldsD [OF assms(1) m] have 1: "sinv s1" "sext s s1" "decides cfg s1 n1 V" by auto
  from yieldsD [OF assms(2) [OF 1] f] 1(2) sext_trans
  show "sinv s' \<and> sext s s' \<and> decides cfg s' n W" by blast
qed

lemma yields_weaken:
  "yields cfg s m V \<Longrightarrow> (\<And>d a v w. V' d a v = Some w \<Longrightarrow> V d a v = Some w) \<Longrightarrow> yields cfg s m V'"
  unfolding yields_def using decides_weaken by blast

lemma yields_returnS: "sinv s \<Longrightarrow> decides cfg s n V \<Longrightarrow> yields cfg s (returnS n) V"
  by (auto simp: yields_def returnS_def sext_refl simp del: split_paired_All)

lemma yields_failS: "yields cfg s (failS e) V"
  by (simp add: yields_def failS_def)

lemma yields_emit:
  assumes inv: "sinv s" and args: "cg_args (fst s) code jt jf"
    and sem: "\<And>d a v w P. V d a v = Some w \<Longrightarrow> good_verdict w \<Longrightarrow>
      cg_extends (fst s) \<lparr>cg_program = P, cg_equivalent = [], cg_memos = \<lambda>_. None\<rparr> \<Longrightarrow>
      \<exists>c. dag_sem d code k (dnode P d jt) (dnode P d jf) a v = Some c \<and>
        verdict_code cfg (lookup (snd s)) w c"
  shows "yields cfg s (emit code k jt jf) V"
proof (rule yieldsI)
  fix n s'
  assume "emit code k jt jf s = Inr (n, s')"
  then obtain g' where mk: "MakeInstruction (fst s) code k jt jf = Inr (n, g')" and s': "s' = (g', snd s)"
    by (auto simp: emit_def split: sum.splits)
  have inv1: "cg_inv (fst s)" and rinv: "rinv (snd s)" using inv by (auto simp: sinv_def)
  note c = MakeInstruction_correct [OF inv1 args mk]
  have "cg_extends (fst s) \<lparr>cg_program = cg_program g', cg_equivalent = [], cg_memos = \<lambda>_. None\<rparr>"
    using c(2) by (simp add: cg_extends_def)
  with sem [of _ _ _ _ "cg_program g'"] c(3) have "decides cfg s' n V"
    by (auto simp: decides_def node_decides_def node_means_def s')
  with c rinv show "sinv s' \<and> sext s s' \<and> decides cfg s' n V"
    by (simp add: sinv_def sext_def s' reg_extends_refl)
qed

lemma decides_dnode:
  assumes "decides cfg s n V" and "V d a v = Some w" and "good_verdict w"
    and "cg_extends (fst s) \<lparr>cg_program = P, cg_equivalent = [], cg_memos = \<lambda>_. None\<rparr>"
  shows "\<exists>c. dnode P d n a v = Some c \<and> verdict_code cfg (lookup (snd s)) w c"
  using assms by (fastforce simp: decides_def node_decides_def dnode_def cg_extends_def)

lemma yields_load:
  assumes "sinv s" and "decides cfg s n V" and off: "unat off < 64" "off AND 3 = 0"
    and f: "\<And>d. load_word d (unat off) = f d"
  shows "yields cfg s (emit_load off n) (load_meaning f V)"
  unfolding emit_load_def
proof (rule yields_emit)
  show "cg_args (fst s) (BPF_LD + BPF_W + BPF_ABS) n kNullNode"
    using decides_length [OF assms(2)] by (simp add: cg_args_def load_code) (simp add: bpf_consts)
qed (use assms decides_dnode [OF assms(2)] in \<open>auto simp: load_meaning_def dag_sem_load\<close>)

lemma yields_load_pure:
  assumes "sinv s" and "decides cfg s n V" and off: "unat off < 64" "off AND 3 = 0"
    and R: "\<And>d. V d (load_word d (unat off)) True = R d"
  shows "yields cfg s (emit_load off n) (pure_meaning R)"
  by (rule yields_weaken [OF yields_load [OF assms(1-4) refl]]) (simp add: meanings R)

lemma yields_jump:
  assumes "sinv s" and "decides cfg s t T" and "decides cfg s e E"
    and op: "op \<in> {BPF_JEQ, BPF_JGE, BPF_JSET}"
  shows "yields cfg s (emit_jump op k t e) (jump_meaning op k T E)"
  unfolding emit_jump_def
proof (rule yields_emit)
  show "cg_args (fst s) (BPF_JMP + op + BPF_K) t e"
    using decides_length [OF assms(2)] decides_length [OF assms(3)] jump_code [OF op]
    by (simp add: cg_args_def)
qed (use assms decides_dnode [OF assms(2)] decides_dnode [OF assms(3)] in
    \<open>auto simp: jump_meaning_def dag_sem_jump split: if_splits\<close>)

lemma yields_and:
  assumes "sinv s" and "decides cfg s n V"
  shows "yields cfg s (emit_and k n) (\<lambda>d a v. V d (a AND k) v)"
  unfolding emit_and_def
proof (rule yields_emit)
  show "cg_args (fst s) (BPF_ALU + BPF_AND + BPF_K) n kNullNode"
    using decides_length [OF assms(2)] unfolding cg_args_def and_code by (simp add: bpf_consts)
qed (use assms decides_dnode [OF assms(2)] in \<open>auto simp: dag_sem_and\<close>)

lemma yields_ret:
  assumes "sinv s"
    and "\<And>d w. R d = Some w \<Longrightarrow> good_verdict w \<Longrightarrow>
      known_action k \<and> verdict_code cfg (lookup (snd s)) w k"
  shows "yields cfg s (emit_ret k) (pure_meaning R)"
  unfolding emit_ret_def
proof (rule yields_emit)
  show "cg_args (fst s) (BPF_RET + BPF_K) kNullNode kNullNode"
    unfolding cg_args_def ret_code by (simp add: bpf_consts)
qed (use assms in \<open>auto simp: pure_meaning_def dag_sem_ret\<close>)


subsection \<open>Compiling expressions\<close>

abbreviation ops :: "'r registry_ops" where
  "ops \<equiv> \<lparr>reg_add = add, reg_enable = enable\<rparr>"

lemma yields_Trap:
  assumes inv: "sinv s"
    and R: "\<And>d ids w tid. R d = Some w \<Longrightarrow>
      ids \<lparr>key_fnc = fnc, key_aux = aux, key_safe = safe\<rparr> = Some tid \<Longrightarrow>
      verdict_code cfg ids w (SECCOMP_RET_TRAP + ucast tid)"
  shows "yields cfg s (pc_Trap ops fnc aux safe) (pure_meaning R)"
proof (rule yieldsI)
  fix n s'
  let ?key = "\<lparr>key_fnc = fnc, key_aux = aux, key_safe = safe\<rparr>"
  assume "pc_Trap ops fnc aux safe s = Inr (n, s')"
  then obtain tid r where ad: "add ?key (snd s) = Inr (tid, r)"
    and em: "emit_ret (SECCOMP_RET_TRAP + ucast tid) (fst s, r) = Inr (n, s')"
    by (auto simp: pc_Trap_def split: sum.splits)
  have rinv: "rinv (snd s)" using inv by (simp add: sinv_def)
  have inv': "sinv (fst s, r)" and ext: "sext s (fst s, r)"
    using inv add_inv [OF rinv ad] add_extends [OF rinv ad] by (auto simp: sinv_def sext_def)
  have "known_action (SECCOMP_RET_TRAP + ucast tid)"
    using trap_code_known .
  then have "yields cfg (fst s, r) (emit_ret (SECCOMP_RET_TRAP + ucast tid)) (pure_meaning R)"
    by (intro yields_ret [OF inv']) (simp add: R add_lookup [OF rinv ad])
  from yieldsD [OF this em] ext sext_trans
  show "sinv s' \<and> sext s s' \<and> decides cfg s' n (pure_meaning R)" by blast
qed

lemma yields_Return:
  assumes "sinv s"
  shows "yields cfg s (pc_Return ops cfg ret) (pure_meaning (\<lambda>d. Some (VRet ret)))"
proof (cases "pc_has_unsafe cfg \<and> ret AND SECCOMP_RET_ACTION = SECCOMP_RET_ERRNO")
  case True
  show ?thesis
    unfolding pc_Return_def if_P [OF True]
    by (rule yields_Trap [OF assms]) (use True in \<open>auto simp: trap_code_def\<close>)
next
  case False
  show ?thesis
    unfolding pc_Return_def if_not_P [OF False]
    by (rule yields_ret [OF assms]) (use False in \<open>auto simp: good_verdict_def\<close>)
qed

text \<open>The meaning of a test with targets \<open>T\<close> and \<open>E\<close>.\<close>

lemma yields_test:
  assumes "sinv s" and "decides cfg s passed (pure_meaning T)" and "decides cfg s failed (pure_meaning E)"
    and op: "op \<in> {BPF_JEQ, BPF_JGE, BPF_JSET}"
    and off: "unat off < 64" "off AND 3 = 0" "\<And>d. load_word d (unat off) = f d"
  shows "yields cfg s (bindS (emit_jump op k passed failed) (\<lambda>n. emit_load off n))
    (pure_meaning (\<lambda>d. if jump_test op k (f d) then T d else E d))"
  by (rule yields_bindS [OF yields_jump [OF assms(1-3) op]], rule yields_load_pure, assumption+)
    (simp_all add: off jump_meaning_def pure_meaning_def)

lemma yields_LOWER:
  assumes inv: "sinv s" and T: "decides cfg s passed (pure_meaning T)"
    and E: "decides cfg s failed (pure_meaning E)" and n: "nat argno < 6"
    and half: "\<not> (width = 4 \<and> half = UPPER)"
  defines "part \<equiv> (if half = UPPER then hi32 else lo32)"
  shows "yields cfg s (MaskedEqualHalf cfg u argno width msk val half passed failed)
    (pure_meaning (\<lambda>d. if part (sd_args d (nat argno)) AND part msk = part val then T d else E d))"
proof -
  define idx where
    "idx = (if half = UPPER then SECCOMP_ARG_MSB_IDX (nat argno) else SECCOMP_ARG_LSB_IDX (nat argno))"
  let ?m = "part msk" and ?v = "part val"
  have off: "unat idx < 64" "idx AND 3 = 0" and
    ld: "load_word d (unat idx) = part (sd_args d (nat argno))" for d
    using load_word_arg [OF n] by (auto simp: part_def idx_def)
  have eq: "MaskedEqualHalf cfg u argno width msk val half passed failed =
      (if ?m = 0 then (if ?v = 0 then returnS passed else failS HalfValueNonZero)
       else if ?m = 0xFFFFFFFF then bindS (emit_jump BPF_JEQ ?v passed failed) (\<lambda>n. emit_load idx n)
       else if ?v = 0 then bindS (emit_jump BPF_JSET ?m failed passed) (\<lambda>n. emit_load idx n)
       else if ?m = ?v \<and> HasExactlyOneBit (ucast ?m)
       then bindS (emit_jump BPF_JSET ?m passed failed) (\<lambda>n. emit_load idx n)
       else bindS (emit_jump BPF_JEQ ?v passed failed) (\<lambda>n1.
            bindS (emit_and ?m n1) (\<lambda>n2. emit_load idx n2)))"
    unfolding MaskedEqualHalf_def Let_def if_not_P [OF half] part_def idx_def
    by (cases half) (simp_all only: if_True if_False arg_half.distinct simp_thms)
  have masked: "yields cfg s (bindS (emit_jump BPF_JEQ ?v passed failed) (\<lambda>n1.
            bindS (emit_and ?m n1) (\<lambda>n2. emit_load idx n2)))
      (pure_meaning (\<lambda>d. if part (sd_args d (nat argno)) AND ?m = ?v then T d else E d))"
    by (rule yields_bindS [OF yields_jump [OF inv T E]], simp,
        rule yields_bindS [OF yields_and], assumption+, rule yields_load_pure, assumption+)
      (simp_all add: off ld jump_meaning_def pure_meaning_def)
  note t = yields_test [OF inv T E _ off ld] and f = yields_test [OF inv E T _ off ld]
  have full_mask: "x AND 0xFFFFFFFF = x" for x :: u32
  proof -
    have "(0xFFFFFFFF :: u32) = - 1" by simp
    then show ?thesis by (simp only: and.right_neutral)
  qed
  consider (zero) "?m = 0" | (full) "?m \<noteq> 0" "?m = 0xFFFFFFFF" | (clear) "?m \<noteq> 0" "?m \<noteq> 0xFFFFFFFF" "?v = 0"
    | (one) "?m \<noteq> 0" "?m \<noteq> 0xFFFFFFFF" "?v \<noteq> 0" "?m = ?v" "HasExactlyOneBit (ucast ?m)"
    | (general) "?m \<noteq> 0" "?m \<noteq> 0xFFFFFFFF" "?v \<noteq> 0" "\<not> (?m = ?v \<and> HasExactlyOneBit (ucast ?m))"
    by blast
  then show ?thesis
  proof cases
    case zero
    with yields_returnS [OF inv T] yields_failS show ?thesis by (simp add: eq)
  next
    case full
    with t [of BPF_JEQ ?v] show ?thesis unfolding eq by (simp add: full_mask)
  next
    case clear
    have "(if x \<noteq> 0 then p else q) = (if x = 0 then q else p)" for x :: u32 and p q :: "verdict option" by simp
    with clear f [of BPF_JSET ?m] show ?thesis unfolding eq by (simp only: jump_test_simps) simp
  next
    case one
    note bit = HasExactlyOneBit_and [OF one(5) [unfolded one(4)]]
    with one t [of BPF_JSET ?m] show ?thesis unfolding eq by (simp add: bit)
  next
    case general
    with masked show ?thesis unfolding eq by (simp only: if_False simp_thms)
  qed
qed


text \<open>
  \<open>panics U u\<close>: whatever state \<open>u\<close> starts in, it yields a node that decides \<open>U\<close>; this is what
  the operations ask of Unexpected64bitArgument.
\<close>

definition panics :: "pc_config \<Rightarrow> (arch_seccomp_data \<Rightarrow> verdict option) \<Rightarrow> 'r pc_comp \<Rightarrow> bool" where
  "panics cfg U u \<longleftrightarrow> (\<forall>s. sinv s \<longrightarrow> yields cfg s u (pure_meaning U))"

lemma yields_UPPER32:
  assumes inv: "sinv s" and u: "panics cfg U u"
    and T: "decides cfg s passed (pure_meaning T)" and n: "nat argno < 6"
  shows "yields cfg s (MaskedEqualHalf cfg u argno 4 msk val UPPER passed failed)
    (pure_meaning (\<lambda>d. if arg32_abi_ok (pc_arch cfg) (sd_args d (nat argno)) then T d else U d))"
proof -
  note ld = load_word_arg [OF n]
  have "yields cfg s u (pure_meaning U)" using u inv unfolding panics_def by blast
  moreover have "yields cfg s' (bindS (emit_jump BPF_JEQ 0 passed bad)
        (\<lambda>n. emit_load (SECCOMP_ARG_MSB_IDX (nat argno)) n))
      (pure_meaning (\<lambda>d. if hi32 (sd_args d (nat argno)) = 0 then T d else U d))"
    if "sinv s'" "decides cfg s' passed (pure_meaning T)" "decides cfg s' bad (pure_meaning U)" for s' bad
    using yields_test [OF that, of BPF_JEQ "SECCOMP_ARG_MSB_IDX (nat argno)"
        "\<lambda>d. hi32 (sd_args d (nat argno))" 0] ld by simp
  moreover have "yields cfg s' (
      bindS (emit_jump BPF_JSET 0x80000000 passed bad) (\<lambda>n1.
      bindS (emit_load (SECCOMP_ARG_LSB_IDX (nat argno)) n1) (\<lambda>n2.
      bindS (emit_jump BPF_JEQ 0xFFFFFFFF n2 bad) (\<lambda>n3.
      bindS (emit_jump BPF_JEQ 0 passed n3) (\<lambda>n4.
        emit_load (SECCOMP_ARG_MSB_IDX (nat argno)) n4)))))
      (pure_meaning (\<lambda>d. if hi32 (sd_args d (nat argno)) = 0
          \<or> hi32 (sd_args d (nat argno)) = - 1 \<and> lo32 (sd_args d (nat argno)) AND 0x80000000 \<noteq> 0
         then T d else U d))"
    if "sinv s'" "decides cfg s' passed (pure_meaning T)" "decides cfg s' bad (pure_meaning U)" for s' bad
  proof (rule yields_bindS [OF yields_jump [OF that]])
    fix n1 s1
    assume 1: "sinv s1" "sext s' s1" "decides cfg s1 n1 (jump_meaning BPF_JSET 0x80000000 (pure_meaning T) (pure_meaning U))"
    note T1 = decides_mono [OF 1(2) that(2)] and U1 = decides_mono [OF 1(2) that(3)]
    show "yields cfg s1 (bindS (emit_load (SECCOMP_ARG_LSB_IDX (nat argno)) n1) (\<lambda>n2.
        bindS (emit_jump BPF_JEQ 0xFFFFFFFF n2 bad) (\<lambda>n3.
        bindS (emit_jump BPF_JEQ 0 passed n3) (\<lambda>n4.
          emit_load (SECCOMP_ARG_MSB_IDX (nat argno)) n4))))
        (pure_meaning (\<lambda>d. if hi32 (sd_args d (nat argno)) = 0
          \<or> hi32 (sd_args d (nat argno)) = - 1 \<and> lo32 (sd_args d (nat argno)) AND 0x80000000 \<noteq> 0
         then T d else U d))"
    proof (rule yields_bindS [OF yields_load_pure [OF 1(1,3) ld(3,5)]])
      fix n2 s2
      assume 2: "sinv s2" "sext s1 s2" "decides cfg s2 n2
        (pure_meaning (\<lambda>d. if lo32 (sd_args d (nat argno)) AND 0x80000000 \<noteq> 0 then T d else U d))"
      note T2 = decides_mono [OF 2(2) T1] and U2 = decides_mono [OF 2(2) U1]
      show "yields cfg s2 (bindS (emit_jump BPF_JEQ 0xFFFFFFFF n2 bad) (\<lambda>n3.
          bindS (emit_jump BPF_JEQ 0 passed n3) (\<lambda>n4.
            emit_load (SECCOMP_ARG_MSB_IDX (nat argno)) n4)))
          (pure_meaning (\<lambda>d. if hi32 (sd_args d (nat argno)) = 0
            \<or> hi32 (sd_args d (nat argno)) = - 1 \<and> lo32 (sd_args d (nat argno)) AND 0x80000000 \<noteq> 0
           then T d else U d))"
        by (rule yields_bindS [OF yields_jump [OF 2(1,3) U2]], simp,
            rule yields_bindS [OF yields_jump [OF _ decides_mono [OF _ T2]]], assumption+, simp,
            rule yields_load_pure, assumption+)
          (auto simp: ld jump_meaning_def pure_meaning_def)
    qed (simp add: jump_meaning_def pure_meaning_def ld)
  qed simp
  ultimately show ?thesis
    unfolding MaskedEqualHalf_def arg32_abi_ok_def Let_def
    by (auto intro!: yields_bindS dest: decides_mono [OF _ T])
qed

lemma yields_MaskedEqual:
  assumes inv: "sinv s" and u: "panics cfg U u"
    and T: "decides cfg s passed (pure_meaning T)" and E: "decides cfg s failed (pure_meaning E)"
  shows "yields cfg s (MaskedEqual cfg u argno width msk val passed failed)
    (pure_meaning (\<lambda>d. case eval_bool (pc_arch cfg) d (MaskedEqualBoolExpr argno width msk val) of
       None \<Rightarrow> U d | Some b \<Rightarrow> if b then T d else E d))"
proof (cases "argno \<ge> 0 \<and> argno < 6 \<and> (width = 4 \<or> width = 8)")
  case True
  then have n: "nat argno < 6" and w: "width = 4 \<or> width = 8" by auto
  let ?arg = "\<lambda>d. sd_args d (nat argno)"
  let ?lower = "\<lambda>d. if lo32 (?arg d) AND lo32 msk = lo32 val then T d else E d"
  have "yields cfg s (bindS (MaskedEqualHalf cfg u argno width msk val LOWER passed failed)
      (\<lambda>n. MaskedEqualHalf cfg u argno width msk val UPPER n failed))
    (pure_meaning (\<lambda>d. case eval_bool (pc_arch cfg) d (MaskedEqualBoolExpr argno width msk val) of
       None \<Rightarrow> U d | Some b \<Rightarrow> if b then T d else E d))"
  proof (rule yields_bindS)
    show "yields cfg s (MaskedEqualHalf cfg u argno width msk val LOWER passed failed) (pure_meaning ?lower)"
      using yields_LOWER [OF inv T E n, of width LOWER] by simp
  next
    fix n1 s1
    assume 1: "sinv s1" "sext s s1" "decides cfg s1 n1 (pure_meaning ?lower)"
    note E1 = decides_mono [OF 1(2) E]
    from w show "yields cfg s1 (MaskedEqualHalf cfg u argno width msk val UPPER n1 failed)
        (pure_meaning (\<lambda>d. case eval_bool (pc_arch cfg) d (MaskedEqualBoolExpr argno width msk val) of
           None \<Rightarrow> U d | Some b \<Rightarrow> if b then T d else E d))"
    proof
      assume "width = 4"
      then show ?thesis
        by (simp, intro yields_weaken [OF yields_UPPER32 [OF 1(1) u 1(3) n]])
          (auto simp: pure_meaning_def Let_def split: if_splits)
    next
      assume "width = 8"
      then show ?thesis
        by (intro yields_weaken [OF yields_LOWER [OF 1(1,3) E1 n]])
          (auto simp: pure_meaning_def Let_def halves_eq [of "sd_args _ _ AND _"] lo32_and hi32_and split: if_splits)
    qed
  qed
  with yields_failS True show ?thesis unfolding MaskedEqual_def by (simp cong: if_cong)
next
  case False
  with yields_failS show ?thesis unfolding MaskedEqual_def by (auto cong: if_cong)
qed

lemma yields_bool:
  assumes "sinv s" and u: "panics cfg U u"
    and "decides cfg s t (pure_meaning T)" and "decides cfg s e (pure_meaning E)"
  shows "yields cfg s (compile_bool cfg u b t e)
    (pure_meaning (\<lambda>d. case eval_bool (pc_arch cfg) d b of
       None \<Rightarrow> U d | Some c \<Rightarrow> if c then T d else E d))"
  using assms(1,3,4)
proof (induction b arbitrary: s t e T E)
  case (ConstBoolExpr c)
  then show ?case by (cases c) (auto intro: yields_returnS)
next
  case (MaskedEqualBoolExpr argno width msk val)
  then show ?case using yields_MaskedEqual [OF _ u] by simp
next
  case (NegateBoolExpr b)
  show ?case
    by (simp, intro yields_weaken [OF NegateBoolExpr.IH [OF NegateBoolExpr.prems(1,3,2)]])
      (auto simp: pure_meaning_def split: option.splits if_splits)
next
  case (AndBoolExpr l r)
  show ?case
    by (simp, rule yields_bindS [OF AndBoolExpr.IH(2) [OF AndBoolExpr.prems]],
        rule yields_weaken, rule AndBoolExpr.IH(1), assumption+,
        erule decides_mono, rule AndBoolExpr.prems(3))
      (auto simp: pure_meaning_def split: option.splits if_splits bool.splits)
next
  case (OrBoolExpr l r)
  show ?case
    by (simp, rule yields_bindS [OF OrBoolExpr.IH(2) [OF OrBoolExpr.prems]],
        rule yields_weaken, rule OrBoolExpr.IH(1), assumption+,
        erule decides_mono, rule OrBoolExpr.prems(2), assumption)
      (auto simp: pure_meaning_def split: option.splits if_splits bool.splits)
qed

lemma yields_result:
  assumes "sinv s" and u: "panics cfg U u"
  shows "yields cfg s (compile_result ops cfg u r)
    (pure_meaning (\<lambda>d. case eval_result (pc_arch cfg) d r of None \<Rightarrow> U d | Some w \<Rightarrow> Some w))"
  using assms(1)
proof (induction r arbitrary: s)
  case (ReturnResultExpr ret)
  then show ?case using yields_Return by simp
next
  case (TrapResultExpr func aux safe)
  then show ?case by (auto intro: yields_Trap simp: trap_code_def)
next
  case (IfThenResultExpr c t e)
  show ?case
    by (simp, rule yields_bindS [OF IfThenResultExpr.IH(1) [OF IfThenResultExpr.prems]],
        rule yields_bindS [OF IfThenResultExpr.IH(2)], assumption,
        rule yields_weaken, rule yields_bool [OF _ u], assumption, erule decides_mono, assumption+)
      (auto simp: pure_meaning_def split: option.splits if_splits bool.splits)
qed

lemma panics_failS: "panics cfg U (failS e)"
  by (simp add: panics_def yields_failS)

lemma panics_Unexpected64bitArgument:
  "panics cfg (\<lambda>d. eval_result (pc_arch cfg) d (pc_panic cfg ''Unexpected 64bit argument detected''))
     (Unexpected64bitArgument depth ops cfg)"
proof (induction depth)
  case 0
  then show ?case by (simp add: panics_failS)
next
  case (Suc depth)
  have "yields cfg s (Unexpected64bitArgument (Suc depth) ops cfg) (pure_meaning (\<lambda>d.
      eval_result (pc_arch cfg) d (pc_panic cfg ''Unexpected 64bit argument detected'')))"
    if "sinv s" for s
    by (simp, intro yields_weaken [OF yields_result [OF that Suc]])
      (auto simp: pure_meaning_def split: option.splits)
  then show ?case by (simp add: panics_def)
qed

lemma yields_CompileResult:
  "sinv s \<Longrightarrow> yields cfg s (CompileResult ops cfg r) (pure_meaning (\<lambda>d. resolve cfg d r))"
  unfolding CompileResult_def
  by (intro yields_weaken [OF yields_result [OF _ panics_Unexpected64bitArgument]])
    (auto simp: pure_meaning_def resolve_def split: option.splits)


subsection \<open>The dispatch on the system call number\<close>

lemma decides_no_meaning: "decides cfg s n V \<Longrightarrow> decides cfg s n no_meaning"
  by (erule decides_weaken) (simp add: no_meaning_def)

lemma yields_no_meaning: "yields cfg s m V \<Longrightarrow> yields cfg s m no_meaning"
  by (erule yields_weaken) (simp add: no_meaning_def)

lemma yields_syscall_node:
  assumes "sinv s"
    and "decides cfg s invalid_node (pure_meaning (\<lambda>d. resolve cfg d (InvalidSyscall (pc_policy cfg))))"
  shows "yields cfg s (syscall_node ops cfg invalid_node i) (expr_meaning cfg i)"
  unfolding syscall_node_def expr_meaning_def expr_of_def
  using yields_CompileResult [OF assms(1)] yields_returnS [OF assms] by simp

text \<open>
  The invariant of the loop of FindRanges: every number visited so far, and the first one, has its
  node; the ranges start in ascending order at 0, at numbers visited.
\<close>

definition ranges_ok :: "pc_config \<Rightarrow> codegen \<times> 'r \<Rightarrow> nat set \<Rightarrow> pc_range list \<Rightarrow> bool" where
  "ranges_ok cfg s visited ranges \<longleftrightarrow>
     ranges \<noteq> [] \<and> fst (hd ranges) = 0 \<and> sorted (map fst ranges) \<and>
     fst ` set ranges \<subseteq> visited \<and>
     (\<forall>(lo, n) \<in> set ranges. decides cfg s n no_meaning) \<and>
     (\<forall>i \<in> visited. decides cfg s (range_node ranges i) (expr_meaning cfg i))"

lemma ranges_ok_mono: "sext s s' \<Longrightarrow> ranges_ok cfg s visited ranges \<Longrightarrow> ranges_ok cfg s' visited ranges"
proof -
  assume ext: "sext s s'" and ok: "ranges_ok cfg s visited ranges"
  have "\<forall>(lo, n) \<in> set ranges. decides cfg s' n no_meaning"
    "\<forall>i \<in> visited. decides cfg s' (range_node ranges i) (expr_meaning cfg i)"
    using ok decides_mono [OF ext] unfolding ranges_ok_def by blast+
  with ok show ?thesis unfolding ranges_ok_def by (elim conjE, intro conjI) assumption+
qed

lemma ranges_ok_new:
  assumes "ranges_ok cfg s visited ranges" and "\<forall>i \<in> visited. i \<le> new"
    and "decides cfg s n (expr_meaning cfg new)"
  shows "ranges_ok cfg s (insert new visited) (ranges @ [(new, n)])"
  using assms decides_no_meaning [OF assms(3)]
  by (auto simp: ranges_ok_def range_node_snoc sorted_wrt_append subset_iff split: if_splits)

lemma ranges_ok_same:
  assumes "ranges_ok cfg s visited (ranges @ [(lo, n)])" and "lo \<le> new"
    and "decides cfg s n (expr_meaning cfg new)"
  shows "ranges_ok cfg s (insert new visited) (ranges @ [(lo, n)])"
  using assms by (auto simp: ranges_ok_def range_node_snoc)

lemma find_ranges_loop_ok:
  assumes "find_ranges_loop ops cfg invalid_node nums lo n ranges s = Inr (res, s')"
    and "sinv s" and "ranges_ok cfg s visited (ranges @ [(lo, n)])"
    and "decides cfg s invalid_node (pure_meaning (\<lambda>d. resolve cfg d (InvalidSyscall (pc_policy cfg))))"
    and "sorted_wrt (<) nums" and "\<forall>i \<in> visited. \<forall>j \<in> set nums. i \<le> j"
  shows "sinv s' \<and> sext s s' \<and> ranges_ok cfg s' (visited \<union> set nums) res"
  using assms
proof (induction nums arbitrary: lo n ranges s visited)
  case Nil
  then show ?case by (auto simp: sext_refl)
next
  case (Cons i nums)
  from Cons.prems(1) obtain m s1 where node: "syscall_node ops cfg invalid_node i s = Inr (m, s1)"
    and loop: "(if m \<noteq> n then find_ranges_loop ops cfg invalid_node nums i m (ranges @ [(lo, n)]) s1
      else find_ranges_loop ops cfg invalid_node nums lo n ranges s1) = Inr (res, s')"
    by (auto simp: bindE_eq_Inr)
  from yieldsD [OF yields_syscall_node [OF Cons.prems(2,4)] node]
  have s1: "sinv s1" "sext s s1" "decides cfg s1 m (expr_meaning cfg i)" by auto
  note ok = ranges_ok_mono [OF s1(2) Cons.prems(3)] and inv = decides_mono [OF s1(2) Cons.prems(4)]
  have lo: "lo \<in> visited" using Cons.prems(3) by (auto simp: ranges_ok_def)
  have fresh: "\<forall>j \<in> visited. j \<le> i" "\<forall>j \<in> insert i visited. \<forall>k \<in> set nums. j \<le> k"
    using Cons.prems(5,6) by (auto simp: less_imp_le)
  have nums: "sorted_wrt (<) nums" using Cons.prems(5) by simp
  have "sinv s' \<and> sext s1 s' \<and> ranges_ok cfg s' (insert i visited \<union> set nums) res"
  proof (cases "m = n")
    case True
    with ranges_ok_same [OF ok _ s1(3)[unfolded True]] fresh(1) lo
    have "ranges_ok cfg s1 (insert i visited) (ranges @ [(lo, n)])" by blast
    from Cons.IH [OF _ s1(1) this inv nums fresh(2)] loop True show ?thesis by simp
  next
    case False
    from ranges_ok_new [OF ok fresh(1) s1(3)]
    have "ranges_ok cfg s1 (insert i visited) ((ranges @ [(lo, n)]) @ [(i, m)])" .
    from Cons.IH [OF _ s1(1) this inv nums fresh(2)] loop False show ?thesis by simp
  qed
  with s1(2) sext_trans show ?case by auto
qed


lemma FindRanges_ok:
  assumes "sinv s" and "FindRanges ops cfg s = Inr (ranges, s')"
  shows "sinv s' \<and> sext s s' \<and> ranges_ok cfg s' (set (syscalls (pc_arch cfg) ALL_SET)) ranges"
proof -
  let ?I = "pure_meaning (\<lambda>d. resolve cfg d (InvalidSyscall (pc_policy cfg)))"
  from assms(2) obtain bad s1 n s2 where
    c: "CompileResult ops cfg (InvalidSyscall (pc_policy cfg)) s = Inr (bad, s1)"
    and z: "syscall_node ops cfg bad 0 s1 = Inr (n, s2)"
    and l: "find_ranges_loop ops cfg bad (syscalls (pc_arch cfg) ALL_SET) 0 n [] s2 = Inr (ranges, s')"
    by (auto simp: FindRanges_def bindE_eq_Inr)
  from yieldsD [OF yields_CompileResult [OF assms(1)] c]
  have 1: "sinv s1" "sext s s1" "decides cfg s1 bad ?I" by auto
  from yieldsD [OF yields_syscall_node [OF 1(1,3)] z]
  have 2: "sinv s2" "sext s1 s2" "decides cfg s2 n (expr_meaning cfg 0)" by auto
  have "ranges_ok cfg s2 {0} ([] @ [(0, n)])"
    using 2(3) decides_no_meaning by (auto simp: ranges_ok_def range_node_def)
  from find_ranges_loop_ok [OF l 2(1) this decides_mono [OF 2(2) 1(3)]]
  have "sinv s' \<and> sext s2 s' \<and> ranges_ok cfg s' ({0} \<union> set (syscalls (pc_arch cfg) ALL_SET)) ranges"
    by (simp add: syscalls_ALL iterate_from_sorted)
  moreover have "0 \<in> set (syscalls (pc_arch cfg) ALL_SET)"
    by (simp add: syscalls_ALL iterate_from.simps [of "pc_arch cfg" ALL_SET 0])
  ultimately show ?thesis using 1(2) 2(2) sext_trans by (auto simp: insert_absorb)
qed

text \<open>The range a number lies in has the node of the number, also for numbers not visited.\<close>

lemma ranges_ok_all:
  assumes "ranges_ok cfg s (set (syscalls (pc_arch cfg) ALL_SET)) ranges" and i: "i < 2 ^ 32"
  shows "decides cfg s (range_node ranges i) (expr_meaning cfg i)"
proof -
  obtain m where m: "speaks_for (pc_arch cfg) (syscalls (pc_arch cfg) ALL_SET) m i"
    using iterate_from_covers [of 0 i "pc_arch cfg"] i unfolding syscalls_ALL by auto
  have m': "m \<in> set (syscalls (pc_arch cfg) ALL_SET)" "m \<le> i"
    "\<forall>x \<in> set (syscalls (pc_arch cfg) ALL_SET). x \<le> i \<longrightarrow> x \<le> m"
    using m unfolding speaks_for_def by auto
  have froms: "fst ` set ranges \<subseteq> set (syscalls (pc_arch cfg) ALL_SET)"
    and at: "decides cfg s (range_node ranges m) (expr_meaning cfg m)"
    using assms(1) m'(1) unfolding ranges_ok_def by blast+
  have "range_node ranges m = range_node ranges i"
    by (rule range_node_cong) (use froms m' in force)
  with at show ?thesis by (simp add: expr_meaning_def expr_of_speaks_for [OF m])
qed

lemma yields_AssembleJumpTable_node:
  assumes "sinv s" and "\<forall>(lo, n) \<in> set ranges. decides cfg s n no_meaning"
  shows "yields cfg s (AssembleJumpTable ranges) no_meaning"
  using assms
proof (induction ranges arbitrary: s rule: AssembleJumpTable.induct)
  case (1 ranges)
  let ?mid = "length ranges div 2"
  consider (empty) "ranges = []" | (one) lo n where "ranges = [(lo, n)]"
    | (more) "ranges \<noteq> []" "length ranges \<noteq> 1"
    by (cases ranges rule: remdups_adj.cases) auto
  then show ?case
  proof cases
    case empty
    then show ?thesis by (simp add: AssembleJumpTable.simps [of "[]"] yields_failS)
  next
    case one
    with 1(3,4) show ?thesis
      by (simp add: AssembleJumpTable.simps [of "[(lo, n)]"] yields_returnS)
  next
    case more
    have parts: "\<forall>(lo, n) \<in> set (take ?mid ranges). decides cfg s n no_meaning"
      "\<forall>(lo, n) \<in> set (drop ?mid ranges). decides cfg s n no_meaning"
      using 1(4) by (auto dest: in_set_takeD in_set_dropD)
    have "yields cfg s (bindS (AssembleJumpTable (take ?mid ranges)) (\<lambda>jf.
        bindS (AssembleJumpTable (drop ?mid ranges)) (\<lambda>jt.
          emit_jump BPF_JGE (of_nat (fst (ranges ! ?mid))) jt jf))) no_meaning"
    proof (rule yields_bindS [OF 1(1) [OF more refl 1(3) parts(1)]])
      fix jf s1
      assume s1: "sinv s1" "sext s s1" "decides cfg s1 jf no_meaning"
      have "\<forall>(lo, n) \<in> set (drop ?mid ranges). decides cfg s1 n no_meaning"
        using parts(2) decides_mono [OF s1(2)] by blast
      then show "yields cfg s1 (bindS (AssembleJumpTable (drop ?mid ranges)) (\<lambda>jt.
          emit_jump BPF_JGE (of_nat (fst (ranges ! ?mid))) jt jf)) no_meaning"
        by (intro yields_bindS [OF 1(2) [OF more refl s1(1)]])
          (auto intro!: yields_no_meaning [OF yields_jump] decides_mono [OF _ s1(3)])
    qed
    with more show ?thesis by (simp add: AssembleJumpTable.simps [of ranges] Let_def)
  qed
qed

text \<open>The jump table, entered with a number in the accumulator, goes on at the number's range.\<close>

lemma yields_AssembleJumpTable:
  assumes "sinv s" and "\<forall>(lo, n) \<in> set ranges. decides cfg s n no_meaning"
    and "sorted (map fst ranges)" and "\<forall>(lo, n) \<in> set ranges. lo < 2 ^ 32"
    and "decides cfg s (range_node ranges (unat x)) V" and "ranges \<noteq> []" and "fst (hd ranges) \<le> unat x"
  shows "yields cfg s (AssembleJumpTable ranges) (at_number x V)"
  using assms
proof (induction ranges arbitrary: s rule: AssembleJumpTable.induct)
  case (1 ranges)
  let ?mid = "length ranges div 2"
  show ?case
  proof (cases "length ranges = 1")
    case True
    then obtain lo n where r: "ranges = [(lo, n)]" by (cases ranges) auto
    with 1(7,9) have "decides cfg s n V" by (simp add: range_node_def)
    then have "decides cfg s n (at_number x V)"
      by (rule decides_weaken) (auto simp: at_number_def split: if_splits)
    with 1(3) r show ?thesis
      by (simp add: AssembleJumpTable.simps [of "[(lo, n)]"] yields_returnS)
  next
    case False
    with 1(8) have mid: "0 < ?mid" "?mid < length ranges" by (cases ranges; cases "tl ranges"; simp)+
    note more = 1(8) False
    let ?lo = "fst (ranges ! ?mid)"
    have lo: "unat (of_nat ?lo :: u32) = ?lo"
      using 1(6) mid(2) nth_mem [of ?mid ranges] unat_of_nat_u32 by (cases "ranges ! ?mid") auto
    then have test: "jump_test BPF_JGE (of_nat ?lo) x \<longleftrightarrow> ?lo \<le> unat x"
      by (simp add: word_le_nat_alt)
    have parts: "\<forall>(lo, n) \<in> set (take ?mid ranges). decides cfg s n no_meaning"
      "\<forall>(lo, n) \<in> set (drop ?mid ranges). decides cfg s n no_meaning"
      using 1(4) by (auto dest: in_set_takeD in_set_dropD)
    have bounds: "\<forall>(lo, n) \<in> set (take ?mid ranges). lo < 2 ^ 32"
      "\<forall>(lo, n) \<in> set (drop ?mid ranges). lo < 2 ^ 32"
      using 1(6) by (auto dest: in_set_takeD in_set_dropD)
    have sorted: "sorted (map fst (take ?mid ranges))" "sorted (map fst (drop ?mid ranges))"
      using 1(5) by (simp_all add: take_map [symmetric] drop_map [symmetric] sorted_wrt_take sorted_wrt_drop)
    have lower: "yields cfg s (AssembleJumpTable (take ?mid ranges))
        (if ?lo \<le> unat x then no_meaning else at_number x V)"
    proof (cases "?lo \<le> unat x")
      case True
      with yields_AssembleJumpTable_node [OF 1(3) parts(1)] show ?thesis by simp
    next
      case False
      then have "decides cfg s (range_node (take ?mid ranges) (unat x)) V"
        using range_node_take [OF 1(5) mid(2)] 1(7) by simp
      from 1(1) [OF more refl 1(3) parts(1) sorted(1) bounds(1) this] mid 1(9) False more(1)
      show ?thesis by simp
    qed
    have upper: "yields cfg s1 (AssembleJumpTable (drop ?mid ranges))
        (if ?lo \<le> unat x then at_number x V else no_meaning)"
      if s1: "sinv s1" "sext s s1" for s1
    proof -
      have parts1: "\<forall>(lo, n) \<in> set (drop ?mid ranges). decides cfg s1 n no_meaning"
        using parts(2) decides_mono [OF s1(2)] by blast
      show ?thesis
      proof (cases "?lo \<le> unat x")
        case True
        then have "decides cfg s1 (range_node (drop ?mid ranges) (unat x)) V"
          using range_node_drop [OF mid(2)] decides_mono [OF s1(2) 1(7)] by simp
        from 1(2) [OF more refl s1(1) parts1 sorted(2) bounds(2) this] mid True
        show ?thesis by (simp add: hd_drop_conv_nth)
      next
        case False
        with yields_AssembleJumpTable_node [OF s1(1) parts1] show ?thesis by simp
      qed
    qed
    have "yields cfg s (bindS (AssembleJumpTable (take ?mid ranges)) (\<lambda>jf.
        bindS (AssembleJumpTable (drop ?mid ranges)) (\<lambda>jt.
          emit_jump BPF_JGE (of_nat ?lo) jt jf))) (at_number x V)"
      by (rule yields_bindS [OF lower], rule yields_bindS [OF upper], assumption+,
          rule yields_weaken, rule yields_jump, assumption+, erule decides_mono, assumption, simp)
        (auto simp: jump_meaning_def at_number_def test no_meaning_def simp del: jump_test_simps split: if_splits)
    with more show ?thesis by (simp add: AssembleJumpTable.simps [of ranges] Let_def)
  qed
qed


lemma yields_table:
  assumes inv: "sinv s" and ok: "ranges_ok cfg s (set (syscalls (pc_arch cfg) ALL_SET)) ranges"
  shows "yields cfg s (AssembleJumpTable ranges) (table_meaning cfg)"
proof -
  have r: "ranges \<noteq> []" "fst (hd ranges) = 0" "sorted (map fst ranges)"
    "\<forall>(lo, n) \<in> set ranges. decides cfg s n no_meaning"
    and sub: "fst ` set ranges \<subseteq> set (syscalls (pc_arch cfg) ALL_SET)"
    using ok unfolding ranges_ok_def by auto
  have bound: "\<forall>(lo, n) \<in> set ranges. lo < 2 ^ 32"
    using sub iterate_from_less [of 0 _ "pc_arch cfg" ALL_SET] unfolding syscalls_ALL by force
  have "yields cfg s (AssembleJumpTable ranges) (at_number x (expr_meaning cfg (unat x)))" for x
  proof (rule yields_AssembleJumpTable [OF inv r(4,3) bound _ r(1)])
    have "unat x < 2 ^ LENGTH(32)" by (rule unsigned_less)
    then show "decides cfg s (range_node ranges (unat x)) (expr_meaning cfg (unat x))"
      by (intro ranges_ok_all [OF ok]) simp
  qed (simp add: r)
  note each = this
  show ?thesis
  proof (rule yieldsI)
    fix n s'
    assume n: "AssembleJumpTable ranges s = Inr (n, s')"
    note all = yieldsD [OF each n]
    from all have "n < length (cg_program (fst s'))" using decides_length by blast
    moreover have "\<exists>c. node_exec (cg_program (fst s')) d n a v = Some c \<and> verdict_code cfg (lookup (snd s')) w c"
      if "table_meaning cfg d a v = Some w" "good_verdict w" for d a v w
    proof -
      from that(1) have "at_number a (expr_meaning cfg (unat a)) d a v = Some w"
        by (simp add: table_meaning_def at_number_def split: if_splits)
      with all [of a] that(2) show ?thesis unfolding decides_def node_decides_def by blast
    qed
    ultimately have "decides cfg s' n (table_meaning cfg)" by (simp add: decides_def node_decides_def)
    with all show "sinv s' \<and> sext s s' \<and> decides cfg s' n (table_meaning cfg)" by blast
  qed
qed

text \<open>The checks in front of the table; each falls through to \<open>R\<close>.\<close>

lemma yields_CheckSyscallNumber:
  assumes inv: "sinv s" and n: "decides cfg s passed (table_meaning cfg)"
  shows "yields cfg s (CheckSyscallNumber ops cfg passed) (\<lambda>d a v. if v then
      (if kIsIntel (pc_arch cfg) \<and> ((a AND 0x40000000 \<noteq> 0) \<noteq> kIsX32 (pc_arch cfg))
       then resolve cfg d (pc_panic cfg ''Illegal mixing of system call ABIs'')
       else table_meaning cfg d a v) else None)"
    (is "yields cfg s _ ?V")
proof (cases "kIsIntel (pc_arch cfg)")
  case True
  let ?panic = "pc_panic cfg ''Illegal mixing of system call ABIs''"
  have "yields cfg s (bindS (CompileResult ops cfg ?panic) (\<lambda>bad.
       if kIsX32 (pc_arch cfg) then emit_jump BPF_JSET 0x40000000 passed bad
       else emit_jump BPF_JSET 0x40000000 bad passed)) ?V"
  proof (rule yields_bindS [OF yields_CompileResult [OF inv]])
    fix bad s1
    assume 1: "sinv s1" "sext s s1" "decides cfg s1 bad (pure_meaning (\<lambda>d. resolve cfg d ?panic))"
    note n1 = decides_mono [OF 1(2) n]
    have "yields cfg s1 (emit_jump BPF_JSET 0x40000000 passed bad) ?V" if "kIsX32 (pc_arch cfg)"
      by (rule yields_weaken [OF yields_jump [OF 1(1) n1 1(3)]])
        (use that True in \<open>auto simp: jump_meaning_def pure_meaning_def split: if_splits\<close>)
    moreover have "yields cfg s1 (emit_jump BPF_JSET 0x40000000 bad passed) ?V" if "\<not> kIsX32 (pc_arch cfg)"
      by (rule yields_weaken [OF yields_jump [OF 1(1,3) n1]])
        (use that True in \<open>auto simp: jump_meaning_def pure_meaning_def split: if_splits\<close>)
    ultimately show "yields cfg s1 (if kIsX32 (pc_arch cfg) then emit_jump BPF_JSET 0x40000000 passed bad
       else emit_jump BPF_JSET 0x40000000 bad passed) ?V" by simp
  qed
  with True show ?thesis by (simp add: CheckSyscallNumber_def)
next
  case False
  show ?thesis
    unfolding CheckSyscallNumber_def if_not_P [OF False]
    by (rule yields_weaken [OF yields_returnS [OF inv n]]) (use False in \<open>simp split: if_splits\<close>)
qed

lemma yields_DispatchSyscall:
  assumes inv: "sinv s"
  shows "yields cfg s (DispatchSyscall ops cfg) (pure_meaning (number_verdict cfg))"
proof (rule yieldsI)
  fix n s'
  assume "DispatchSyscall ops cfg s = Inr (n, s')"
  then obtain ranges s1 where f: "FindRanges ops cfg s = Inr (ranges, s1)"
    and r: "bindS (AssembleJumpTable ranges) (\<lambda>jumptable.
       bindS (CheckSyscallNumber ops cfg jumptable) (\<lambda>n. emit_load SECCOMP_NR_IDX n)) s1 = Inr (n, s')"
    by (auto simp: DispatchSyscall_def bindE_eq_Inr)
  from FindRanges_ok [OF inv f] have 1: "sinv s1" "sext s s1"
    "ranges_ok cfg s1 (set (syscalls (pc_arch cfg) ALL_SET)) ranges" by auto
  have "yields cfg s1 (bindS (AssembleJumpTable ranges) (\<lambda>jumptable.
       bindS (CheckSyscallNumber ops cfg jumptable) (\<lambda>n. emit_load SECCOMP_NR_IDX n)))
      (pure_meaning (number_verdict cfg))"
    by (rule yields_bindS [OF yields_table [OF 1(1,3)]],
        rule yields_bindS [OF yields_CheckSyscallNumber], assumption+, rule yields_load_pure, assumption+)
      (simp_all add: load_word_fixed, simp_all add: bpf_consts number_verdict_def table_meaning_def
        expr_meaning_def pure_meaning_def)
  from yieldsD [OF this r] 1(2) sext_trans
  show "sinv s' \<and> sext s s' \<and> decides cfg s' n (pure_meaning (number_verdict cfg))" by blast
qed

lemma yields_MaybeAddEscapeHatch:
  assumes inv: "sinv s" and n: "decides cfg s rest (pure_meaning R)"
  shows "yields cfg s (MaybeAddEscapeHatch ops cfg rest) (pure_meaning (\<lambda>d.
    if pc_has_unsafe cfg \<and> sd_ip d = pc_escapepc cfg then resolve cfg d Allow else R d))"
    (is "yields cfg s _ (pure_meaning ?V)")
proof (cases "pc_has_unsafe cfg")
  case True
  let ?body = "bindS (CompileResult ops cfg Allow) (\<lambda>allow_node.
      bindS (emit_jump BPF_JEQ (hi32 (pc_escapepc cfg)) allow_node rest) (\<lambda>n1.
      bindS (emit_load SECCOMP_IP_MSB_IDX n1) (\<lambda>n2.
      bindS (emit_jump BPF_JEQ (lo32 (pc_escapepc cfg)) n2 rest) (\<lambda>n3.
        emit_load SECCOMP_IP_LSB_IDX n3))))"
  let ?hi = "\<lambda>d. if hi32 (sd_ip d) = hi32 (pc_escapepc cfg) then resolve cfg d Allow else R d"
  have idx: "unat SECCOMP_IP_MSB_IDX < 64" "SECCOMP_IP_MSB_IDX AND 3 = 0"
    "unat SECCOMP_IP_LSB_IDX < 64" "SECCOMP_IP_LSB_IDX AND 3 = 0" by (simp_all add: bpf_consts)
  have inner: "yields cfg s1 ?body (pure_meaning ?V)"
    if s1: "sinv s1" "decides cfg s1 rest (pure_meaning R)" for s1
  proof (rule yields_bindS [OF yields_CompileResult [OF s1(1)]])
    fix allow_node s2
    assume 2: "sinv s2" "sext s1 s2" "decides cfg s2 allow_node (pure_meaning (\<lambda>d. resolve cfg d Allow))"
    note rest2 = decides_mono [OF 2(2) s1(2)]
    show "yields cfg s2 (bindS (emit_jump BPF_JEQ (hi32 (pc_escapepc cfg)) allow_node rest) (\<lambda>n1.
      bindS (emit_load SECCOMP_IP_MSB_IDX n1) (\<lambda>n2.
      bindS (emit_jump BPF_JEQ (lo32 (pc_escapepc cfg)) n2 rest) (\<lambda>n3.
        emit_load SECCOMP_IP_LSB_IDX n3)))) (pure_meaning ?V)"
    proof (rule yields_bindS [OF yields_jump [OF 2(1,3) rest2]])
      fix n1 s3
      assume 3: "sinv s3" "sext s2 s3" "decides cfg s3 n1
        (jump_meaning BPF_JEQ (hi32 (pc_escapepc cfg)) (pure_meaning (\<lambda>d. resolve cfg d Allow)) (pure_meaning R))"
      show "yields cfg s3 (bindS (emit_load SECCOMP_IP_MSB_IDX n1) (\<lambda>n2.
          bindS (emit_jump BPF_JEQ (lo32 (pc_escapepc cfg)) n2 rest) (\<lambda>n3.
            emit_load SECCOMP_IP_LSB_IDX n3))) (pure_meaning ?V)"
      proof (rule yields_bindS [OF yields_load_pure [OF 3(1,3) idx(1,2)]])
        fix n2 s4
        assume 4: "sinv s4" "sext s3 s4" "decides cfg s4 n2 (pure_meaning ?hi)"
        have rest4: "decides cfg s4 rest (pure_meaning R)"
          using decides_mono [OF 4(2) decides_mono [OF 3(2) rest2]] .
        show "yields cfg s4 (bindS (emit_jump BPF_JEQ (lo32 (pc_escapepc cfg)) n2 rest) (\<lambda>n3.
            emit_load SECCOMP_IP_LSB_IDX n3)) (pure_meaning ?V)"
          by (rule yields_weaken [OF yields_test [OF 4(1,3) rest4, of _ SECCOMP_IP_LSB_IDX "\<lambda>d. lo32 (sd_ip d)"]])
            (simp_all add: idx load_word_fixed, auto simp: pure_meaning_def True halves_eq [of "sd_ip _"] split: if_splits)
      qed (simp add: jump_meaning_def pure_meaning_def load_word_fixed)
    qed simp
  qed
  show ?thesis
  proof (rule yieldsI)
    fix n' s'
    assume "MaybeAddEscapeHatch ops cfg rest s = Inr (n', s')"
    with True obtain r where en: "enable (snd s) = (True, r)" and b: "?body (fst s, r) = Inr (n', s')"
      by (auto simp: MaybeAddEscapeHatch_def split: prod.splits if_splits)
    have rinv: "rinv (snd s)" using inv by (simp add: sinv_def)
    have 1: "sinv (fst s, r)" "sext s (fst s, r)"
      using inv enable_inv [OF rinv en] enable_extends [OF rinv en] by (auto simp: sinv_def sext_def)
    from yieldsD [OF inner [OF 1(1) decides_mono [OF 1(2) n]] b] 1(2) sext_trans
    show "sinv s' \<and> sext s s' \<and> decides cfg s' n' (pure_meaning ?V)" by blast
  qed
next
  case False
  with n inv sext_refl show ?thesis by (auto simp: MaybeAddEscapeHatch_def yields_def)
qed

lemma yields_CheckArch:
  assumes inv: "sinv s" and n: "decides cfg s passed (pure_meaning R)"
  shows "yields cfg s (CheckArch ops cfg passed) (pure_meaning (\<lambda>d.
    if sd_arch d = SECCOMP_ARCH (pc_arch cfg) then R d
    else resolve cfg d (pc_panic cfg ''Invalid audit architecture in BPF filter'')))"
  unfolding CheckArch_def
proof (rule yields_bindS [OF yields_CompileResult [OF inv]])
  fix bad s1
  assume 1: "sinv s1" "sext s s1" "decides cfg s1 bad
    (pure_meaning (\<lambda>d. resolve cfg d (pc_panic cfg ''Invalid audit architecture in BPF filter'')))"
  show "yields cfg s1 (bindS (emit_jump BPF_JEQ (SECCOMP_ARCH (pc_arch cfg)) passed bad)
      (\<lambda>n. emit_load SECCOMP_ARCH_IDX n)) (pure_meaning (\<lambda>d.
      if sd_arch d = SECCOMP_ARCH (pc_arch cfg) then R d
      else resolve cfg d (pc_panic cfg ''Invalid audit architecture in BPF filter'')))"
    by (rule yields_weaken [OF yields_test [OF 1(1) decides_mono [OF 1(2) n] 1(3), of _ SECCOMP_ARCH_IDX sd_arch]])
      (simp_all add: load_word_fixed, simp_all add: bpf_consts)
qed


lemma yields_AssemblePolicy:
  assumes inv: "sinv s"
  shows "yields cfg s (AssemblePolicy ops cfg) (pure_meaning (policy_verdict cfg))"
proof -
  show ?thesis
    unfolding AssemblePolicy_def
    by (rule yields_bindS [OF yields_DispatchSyscall [OF inv]], rule yields_bindS [OF yields_MaybeAddEscapeHatch],
        assumption+, rule yields_weaken [OF yields_CheckArch], assumption+) (simp add: pure_meaning_def policy_verdict_eq)
qed

text \<open>The contract of Compile.\<close>

lemma pc_Compile_yields:
  assumes inv: "rinv r" and comp: "pc_Compile ops cfg r = Inr (prog, r')"
  shows "rinv r'" and "policy_verdict cfg d = Some w \<Longrightarrow> good_verdict w \<Longrightarrow>
    \<exists>c. EvaluateBPF prog d = Some (Inr c) \<and> verdict_code cfg (lookup r') w c"
proof -
  from pc_Compile_Inr [OF comp] obtain r1 head g where r1: "r1 = r \<or> (\<exists>b. enable r = (b, r1))"
    and a: "AssemblePolicy ops cfg (new_codegen, r1) = Inr (head, (g, r'))"
    and c: "cg_Compile g head = Inr prog" by auto
  have 1: "rinv r1" using r1 inv enable_inv by blast
  have "sinv (new_codegen, r1)" using 1 by (simp add: sinv_def)
  from yieldsD [OF yields_AssemblePolicy [OF this] a]
  have 2: "sinv (g, r')" "decides cfg (g, r') head (pure_meaning (policy_verdict cfg))" by auto
  from 2(1) show "rinv r'" by (simp add: sinv_def)
  assume "policy_verdict cfg d = Some w" "good_verdict w"
  with 2(2) obtain c where ex: "node_exec (cg_program g) d head 0 False = Some c"
    and code: "verdict_code cfg (lookup r') w c"
    unfolding decides_def node_decides_def pure_meaning_def by auto blast
  have "length (cg_program g) \<le> BPF_MAXINSNS" using 2(1) cg_inv_max by (auto simp: sinv_def)
  with cg_Compile_correct [OF c _ ex] code
  show "\<exists>c. EvaluateBPF prog d = Some (Inr c) \<and> verdict_code cfg (lookup r') w c" by blast
qed

end

section \<open>A compiled policy answers every system call\<close>

text \<open>
  A computation that fails from every state is never part of a compiled policy: in particular no
  panic expression that tests a 32-bit argument is.
\<close>

definition succeeds :: "('s \<Rightarrow> pc_error + 'x) \<Rightarrow> bool" where
  "succeeds m \<longleftrightarrow> (\<exists>s p. m s = Inr p)"

lemma succeedsI: "m s = Inr p \<Longrightarrow> succeeds m"
  by (auto simp: succeeds_def)

lemma succeeds_bindS:
  "succeeds (bindS m f) \<Longrightarrow> succeeds m \<and> (\<exists>n. succeeds (f n))"
  by (auto simp: succeeds_def bindS_def bindE_eq_Inr; blast)

lemma not_succeeds_failS: "\<not> succeeds (failS e)"
  by (simp add: succeeds_def failS_def)

lemma succeeds_MaskedEqual:
  assumes "succeeds (MaskedEqual cfg u argno width msk val t e)"
  shows "width \<noteq> 4 \<or> succeeds u"
proof (cases "width = 4")
  case True
  with assms obtain n where "succeeds (MaskedEqualHalf cfg u argno 4 msk val UPPER n e)"
    by (auto simp: MaskedEqual_def not_succeeds_failS dest!: succeeds_bindS split: if_splits)
  then show ?thesis
    unfolding MaskedEqualHalf_def by (simp only: simp_thms if_True) (blast dest: succeeds_bindS)
qed simp

lemma succeeds_bool:
  "succeeds (compile_bool cfg u b t e) \<Longrightarrow> eval_bool a d b \<noteq> None \<or> succeeds u"
proof (induction b arbitrary: t e)
  case (MaskedEqualBoolExpr argno width msk val)
  then show ?case using succeeds_MaskedEqual by (fastforce simp: Let_def)
next
  case (NegateBoolExpr b)
  then show ?case by auto
next
  case (AndBoolExpr l r)
  from succeeds_bindS [OF AndBoolExpr.prems [simplified]] AndBoolExpr.IH
  show ?case by (auto split: option.split bool.split)
next
  case (OrBoolExpr l r)
  from succeeds_bindS [OF OrBoolExpr.prems [simplified]] OrBoolExpr.IH
  show ?case by (auto split: option.split bool.split)
qed simp

lemma succeeds_result:
  "succeeds (compile_result ops cfg u r) \<Longrightarrow> eval_result a d r \<noteq> None \<or> succeeds u"
proof (induction r)
  case (IfThenResultExpr c t e)
  from succeeds_bindS [OF IfThenResultExpr.prems [simplified]] obtain n where
    t: "succeeds (compile_result ops cfg u t)"
    and r: "succeeds (bindS (compile_result ops cfg u e) (compile_bool cfg u c n))" by auto
  from succeeds_bindS [OF r] t IfThenResultExpr.IH succeeds_bool [of cfg u c n _ a d]
  show ?case by (auto split: option.split bool.split)
qed simp_all

lemma succeeds_Unexpected64bitArgument:
  "succeeds (Unexpected64bitArgument (Suc 0) ops cfg) \<Longrightarrow>
    eval_result a d (pc_panic cfg ''Unexpected 64bit argument detected'') \<noteq> None"
  using succeeds_result not_succeeds_failS by fastforce

lemma succeeds_CompileResult:
  "succeeds (CompileResult ops cfg r) \<Longrightarrow> resolve cfg d r \<noteq> None"
  using succeeds_result [of ops cfg _ r "pc_arch cfg" d] succeeds_Unexpected64bitArgument [of ops cfg "pc_arch cfg" d]
  unfolding CompileResult_def panic_depth_def resolve_def by (fastforce split: option.split)

lemma succeeds_find_ranges_loop:
  "find_ranges_loop ops cfg bad nums lo n ranges s = Inr p \<Longrightarrow>
    i \<in> set nums \<Longrightarrow> succeeds (syscall_node ops cfg bad i)"
  by (induction nums arbitrary: lo n ranges s)
    (auto simp: bindE_eq_Inr dest: succeedsI split: if_splits)

lemma succeeds_DispatchSyscall:
  assumes "succeeds (DispatchSyscall ops cfg)"
  shows "number_verdict cfg d \<noteq> None"
proof -
  from assms obtain s ranges s1 s' where f: "FindRanges ops cfg s = Inr (ranges, s1)"
    and r: "bindS (AssembleJumpTable ranges) (\<lambda>jumptable.
       bindS (CheckSyscallNumber ops cfg jumptable) (\<lambda>n. emit_load SECCOMP_NR_IDX n)) s1 = Inr s'"
    by (auto simp: succeeds_def DispatchSyscall_def bindE_eq_Inr)
  from f obtain bad where inv: "succeeds (CompileResult ops cfg (InvalidSyscall (pc_policy cfg)))"
    and each: "i \<in> set (syscalls (pc_arch cfg) ALL_SET) \<Longrightarrow> succeeds (syscall_node ops cfg bad i)" for i
    by (auto simp: FindRanges_def bindE_eq_Inr dest: succeedsI succeeds_find_ranges_loop)
  have visited: "resolve cfg d (expr_of cfg i) \<noteq> None" if "i \<in> set (syscalls (pc_arch cfg) ALL_SET)" for i
    using each [OF that] succeeds_CompileResult [OF inv] succeeds_CompileResult
    unfolding syscall_node_def expr_of_def by (auto split: if_splits)
  have "unat (sd_nr d) < 2 ^ LENGTH(32)" by (rule unsigned_less)
  then obtain m where m: "speaks_for (pc_arch cfg) (syscalls (pc_arch cfg) ALL_SET) m (unat (sd_nr d))"
    using iterate_from_covers [of 0 "unat (sd_nr d)" "pc_arch cfg"] unfolding syscalls_ALL by auto
  have "resolve cfg d (expr_of cfg (unat (sd_nr d))) \<noteq> None"
  proof -
    have "m \<in> set (syscalls (pc_arch cfg) ALL_SET)" using m unfolding speaks_for_def by blast
    from visited [OF this] show ?thesis unfolding expr_of_speaks_for [OF m] .
  qed
  moreover obtain n where "succeeds (bindS (CheckSyscallNumber ops cfg n) (\<lambda>n. emit_load SECCOMP_NR_IDX n))"
    using succeeds_bindS [OF succeeds_def [THEN iffD2]] r by blast
  then have "succeeds (CheckSyscallNumber ops cfg n)" using succeeds_bindS by blast
  then have "kIsIntel (pc_arch cfg) \<Longrightarrow>
      resolve cfg d (pc_panic cfg ''Illegal mixing of system call ABIs'') \<noteq> None"
    unfolding CheckSyscallNumber_def using succeeds_CompileResult succeeds_bindS by (simp; blast)
  ultimately show ?thesis by (simp add: number_verdict_def)
qed

lemma succeeds_CheckArch:
  "succeeds (CheckArch ops cfg n) \<Longrightarrow>
    resolve cfg d (pc_panic cfg ''Invalid audit architecture in BPF filter'') \<noteq> None"
  unfolding CheckArch_def using succeeds_CompileResult succeeds_bindS by blast

lemma succeeds_AssemblePolicy:
  assumes "succeeds (AssemblePolicy ops cfg)"
  shows "policy_verdict cfg d \<noteq> None"
proof -
  from succeeds_bindS [OF assms [unfolded AssemblePolicy_def]] obtain n
    where 1: "succeeds (DispatchSyscall ops cfg)"
      and "succeeds (bindS (MaybeAddEscapeHatch ops cfg n) (CheckArch ops cfg))" by blast
  with succeeds_bindS obtain m where 2: "succeeds (CheckArch ops cfg m)" by blast
  have "resolve cfg d Allow \<noteq> None" by (simp add: resolve_def Allow_def)
  with succeeds_DispatchSyscall [OF 1] succeeds_CheckArch [OF 2] show ?thesis
    by (simp add: policy_verdict_eq)
qed

lemma pc_Compile_answers:
  assumes "pc_Compile ops cfg r = Inr (prog, r')"
  shows "policy_verdict cfg d \<noteq> None"
  using pc_Compile_Inr [OF assms] by (intro succeeds_AssemblePolicy) (blast intro: succeedsI)

end
