(* ===== verification/CompiledPolicy.thy ===== *)
theory CompiledPolicy
  imports PolicyCompilerCorrect "HOL-Library.Code_Target_Nat"
begin

text \<open>
  The policy compiler on the trap registry of trap.cc: what its theorems say for the program the
  sandbox installs, from compilation to the SIGSYS handler, and a sample policy (deny one number,
  allow the rest of the valid ones) compiled step by step, which the witnesses use.
\<close>

definition trap_ops :: "trap_state registry_ops" where
  "trap_ops = \<lparr>reg_add = Trap_Add, reg_enable = Trap_EnableUnsafeTraps\<rparr>"

text \<open>Every code an expression can return is one the kernel knows.\<close>

fun known_codes :: "result_expr \<Rightarrow> bool" where
  "known_codes (ReturnResultExpr ret) = known_action ret"
| "known_codes (TrapResultExpr func aux safe) = True"
| "known_codes (IfThenResultExpr c t e) = (known_codes t \<and> known_codes e)"

definition known_policy :: "pc_config \<Rightarrow> bool" where
  "known_policy cfg \<longleftrightarrow> (\<forall>n. known_codes (EvaluateSyscall (pc_policy cfg) n)) \<and>
     known_codes (InvalidSyscall (pc_policy cfg)) \<and> (\<forall>err. known_codes (pc_panic cfg err))"

lemma eval_result_known:
  "known_codes r \<Longrightarrow> eval_result a d r = Some w \<Longrightarrow> good_verdict w"
  by (induction r) (auto simp: good_verdict_def split: option.splits bool.splits)

lemma known_Allow: "known_codes Allow"
  by (simp add: Allow_def known_action_def bpf_consts)

lemma known_Kill: "known_codes Kill"
  by (simp add: Kill_def known_action_def bpf_consts)

lemma policy_verdict_known:
  "known_policy cfg \<Longrightarrow> policy_verdict cfg d = Some w \<Longrightarrow> good_verdict w"
  using known_Allow eval_result_known
  by (fastforce simp: policy_verdict_def resolve_def policy_expr_def known_policy_def split: option.splits if_splits)

section \<open>A sample policy\<close>

definition sample_policy :: policy where
  "sample_policy = \<lparr>EvaluateSyscall = (\<lambda>n. if n = 39 then ReturnResultExpr (SECCOMP_RET_ERRNO + 1) else Allow),
     InvalidSyscall = Trap CrashSIGSYS_Handler 0\<rparr>"

definition sample_config :: pc_config where
  "sample_config = \<lparr>pc_arch = AARCH64, pc_policy = sample_policy, pc_escapepc = 0,
     pc_panic = DefaultPanic, pc_has_unsafe = False, pc_required = []\<rparr>"

lemma sample_config_new: "sample_config = new_policy_compiler AARCH64 sample_policy 0 DefaultPanic []"
  by (simp add: sample_config_def new_policy_compiler_def policy_HasUnsafeTraps_def sample_policy_def Allow_def Trap_def)

lemma next_AARCH64:
  "n < 280 \<Longrightarrow> NextSyscall AARCH64 ALL_SET n = n + 1"
  "NextSyscall AARCH64 ALL_SET 280 = 0x7FFFFFFF" "NextSyscall AARCH64 ALL_SET 0x7FFFFFFF = 0x80000000"
  "NextSyscall AARCH64 ALL_SET 0x80000000 = 0xFFFFFFFF" "NextSyscall AARCH64 ALL_SET 0xFFFFFFFF = 0"
  by (auto simp: NextSyscall_def syscall_ranges)

lemma iterate_AARCH64:
  "n \<le> 280 \<Longrightarrow> iterate_from AARCH64 ALL_SET n = [n..<281] @ [0x7FFFFFFF, 0x80000000, 0xFFFFFFFF]"
proof (induction "280 - n" arbitrary: n)
  case 0
  then show ?case
    by (simp add: iterate_from.simps [of AARCH64 ALL_SET] next_AARCH64)
next
  case (Suc k)
  then have "n < 280" "k = 280 - (n + 1)" by auto
  with Suc.hyps(1) [of "n + 1"]
  have "iterate_from AARCH64 ALL_SET (n + 1) = [n + 1..<281] @ [0x7FFFFFFF, 0x80000000, 0xFFFFFFFF]" by simp
  with \<open>n < 280\<close> show ?case
    by (simp add: iterate_from.simps [of AARCH64 ALL_SET n] next_AARCH64 upt_conv_Cons)
qed

lemma syscalls_AARCH64:
  "syscalls AARCH64 ALL_SET = [0..<39] @ 39 # [40..<280] @ [280, 0x7FFFFFFF, 0x80000000, 0xFFFFFFFF]"
proof -
  have "[0..<281] = [0..<39] @ [39..<281]" using upt_add_eq_append [of 0 39 242] by simp
  moreover have "[39..<281] = 39 # [40..<281]" by (subst upt_conv_Cons) simp_all
  moreover have "[40..<281] = [40..<280] @ [280]" using upt_add_eq_append [of 40 280 1] by simp
  ultimately show ?thesis by (simp add: syscalls_ALL iterate_AARCH64)
qed

lemma find_ranges_loop_append:
  "\<forall>i \<in> set xs. syscall_node ops cfg bad i s = Inr (n, s) \<Longrightarrow>
    find_ranges_loop ops cfg bad (xs @ ys) lo n ranges s = find_ranges_loop ops cfg bad ys lo n ranges s"
  by (induction xs) simp_all

lemma sample_simps [simp]:
  "pc_arch sample_config = AARCH64" "pc_policy sample_config = sample_policy"
  "pc_has_unsafe sample_config = False" "pc_panic sample_config = DefaultPanic"
  "InvalidSyscall sample_policy = TrapResultExpr CrashSIGSYS_Handler 0 True"
  "EvaluateSyscall sample_policy n =
    (if n = 39 then ReturnResultExpr (SECCOMP_RET_ERRNO + 1) else ReturnResultExpr SECCOMP_RET_ALLOW)"
  by (simp_all add: sample_config_def sample_policy_def Allow_def Trap_def)

lemma compile_return:
  "CompileResult ops sample_config (ReturnResultExpr ret) = emit_ret ret"
  by (simp add: CompileResult_def pc_Return_def)

definition ret_insn :: "u32 \<Rightarrow> sock_filter" where
  "ret_insn k = \<lparr>insn_code = 6, insn_jt = 0, insn_jf = 0, insn_k = k\<rparr>"

text \<open>The code generator after return instructions alone.\<close>

fun returns_only :: "u32 list \<Rightarrow> codegen" where
  "returns_only ks = \<lparr>cg_program = map ret_insn ks, cg_equivalent = [0..<length ks],
     cg_memos = fold (\<lambda>(i, k) m. m((6, k, kNullNode, kNullNode) \<mapsto> i)) (zip [0..<length ks] ks) (\<lambda>_. None)\<rparr>"

lemma new_codegen_returns: "new_codegen = returns_only []"
  by (simp add: new_codegen_def)

lemma sample_emit:
  "emit_ret 0x30001 (returns_only [], r) = Inr (0, returns_only [0x30001], r)"
  "emit_ret 0x7fff0000 (returns_only [0x30001], r) = Inr (1, returns_only [0x30001, 0x7fff0000], r)"
  "emit_ret 0x7fff0000 (returns_only [0x30001, 0x7fff0000], r)
    = Inr (1, returns_only [0x30001, 0x7fff0000], r)"
  "emit_ret 0x50001 (returns_only [0x30001, 0x7fff0000], r)
    = Inr (2, returns_only [0x30001, 0x7fff0000, 0x50001], r)"
  "emit_ret 0x7fff0000 (returns_only [0x30001, 0x7fff0000, 0x50001], r)
    = Inr (1, returns_only [0x30001, 0x7fff0000, 0x50001], r)"
  by (simp_all add: emit_ret_def emit_def MakeInstruction_def AppendInstruction_def Append_def Let_def ret_insn_def)
    (simp_all add: pc_decode numeral_2_eq_2)

lemma sample_codes:
  "SECCOMP_RET_ERRNO + 1 = 0x50001" "SECCOMP_RET_ALLOW = 0x7fff0000"
  by (simp_all add: bpf_consts)

text \<open>The registry after the trap of the invalid numbers has been added.\<close>

definition sample_key :: trap_key where
  "sample_key = \<lparr>key_fnc = CrashSIGSYS_Handler, key_aux = 0, key_safe = True\<rparr>"

definition sample_registry :: trap_state where
  "sample_registry = \<lparr>debugging_env = None, trap_ids = [sample_key \<mapsto> 1],
     trap_array = sample_key # replicate 19 default_trap_key,
     trap_array_size = 1, trap_array_capacity = 20, trap_has_unsafe = False\<rparr>"

lemma sample_Add: "Trap_Add sample_key (new_trap None) = Inr (1, sample_registry)"
proof -
  have "replicate 20 x = x # replicate 19 x" for x :: trap_key
    using replicate_Suc [of 19 x] by (simp del: replicate_Suc)
  then show ?thesis
    by (simp add: Trap_Add_def Let_def new_trap_def grow_trap_array_def kCapacityIncrement_def
        sample_registry_def sample_key_def SECCOMP_RET_DATA_def)
qed

lemma sample_Trap:
  "CompileResult trap_ops sample_config (TrapResultExpr CrashSIGSYS_Handler 0 True) (new_codegen, new_trap None)
    = Inr (0, returns_only [0x30001], sample_registry)"
proof -
  have code: "SECCOMP_RET_TRAP + 1 = 0x30001" by (simp add: bpf_consts)
  from sample_emit(1) show ?thesis
    by (simp add: code CompileResult_def pc_Trap_def trap_ops_def sample_Add [unfolded sample_key_def]
        new_codegen_returns del: returns_only.simps)
qed

lemma sample_FindRanges:
  "FindRanges trap_ops sample_config (new_codegen, new_trap None)
    = Inr ([(0, 1), (39, 2), (40, 1), (280, 0)],
        (returns_only [0x30001, 0x7fff0000, 0x50001], sample_registry))"
  by (simp del: returns_only.simps add: FindRanges_def sample_Trap syscalls_AARCH64 syscall_node_def compile_return
      sample_codes IsValid_simps sample_emit [simplified] returnS_def
      find_ranges_loop_append [of "[0..<39]"] find_ranges_loop_append [of "[40..<280]"])

definition sample_program :: "sock_filter list" where
  "sample_program = map (\<lambda>(c, t, f, k). \<lparr>insn_code = c, insn_jt = t, insn_jf = f, insn_k = k\<rparr>)
     [(0x20, 0, 0, 4), (0x15, 1, 0, 0xC00000B7), (0x06, 0, 0, 0),
      (0x20, 0, 0, 0), (0x35, 0, 1, 40), (0x35, 3, 2, 280), (0x35, 0, 1, 39),
      (0x06, 0, 0, 0x50001), (0x06, 0, 0, 0x7fff0000), (0x06, 0, 0, 0x30001)]"

lemma sample_rest:
  "(case bindS (\<lambda>s. bindS (AssembleJumpTable [(0, 1), (39, 2), (40, 1), (280, 0)]) (\<lambda>jumptable.
         bindS (CheckSyscallNumber trap_ops sample_config jumptable) (\<lambda>n. emit_load SECCOMP_NR_IDX n)) s)
       (\<lambda>n1. bindS (MaybeAddEscapeHatch trap_ops sample_config n1) (CheckArch trap_ops sample_config))
       (returns_only [0x30001, 0x7fff0000, 0x50001], sample_registry) of
     Inr (head, g, r) \<Rightarrow> (case cg_Compile g head of
        Inr prog \<Rightarrow> Some (prog, trap_array r, trap_array_size r, trap_has_unsafe r) | Inl _ \<Rightarrow> None)
   | Inl _ \<Rightarrow> None) = Some (sample_program, trap_array sample_registry, 1, False)"
  by code_simp

lemma sample_compiles:
  "\<exists>r'. pc_Compile trap_ops sample_config (new_trap None) = Inr (sample_program, r') \<and>
     trap_array r' = trap_array sample_registry \<and> trap_array_size r' = 1 \<and> \<not> trap_has_unsafe r'"
proof -
  have "AssemblePolicy trap_ops sample_config (new_codegen, new_trap None) =
      bindS (\<lambda>s. bindS (AssembleJumpTable [(0, 1), (39, 2), (40, 1), (280, 0)]) (\<lambda>jumptable.
         bindS (CheckSyscallNumber trap_ops sample_config jumptable) (\<lambda>n. emit_load SECCOMP_NR_IDX n)) s)
       (\<lambda>n1. bindS (MaybeAddEscapeHatch trap_ops sample_config n1) (CheckArch trap_ops sample_config))
       (returns_only [0x30001, 0x7fff0000, 0x50001], sample_registry)"
    by (simp add: AssemblePolicy_def DispatchSyscall_def bindS_def sample_FindRanges del: returns_only.simps)
  with sample_rest obtain head g r where
    "AssemblePolicy trap_ops sample_config (new_codegen, new_trap None) = Inr (head, g, r)"
    "cg_Compile g head = Inr sample_program" "trap_array r = trap_array sample_registry"
    "trap_array_size r = 1" "\<not> trap_has_unsafe r"
    by (auto split: sum.splits prod.splits)
  then show ?thesis
    by (simp add: pc_Compile_def)
qed

lemma known_sample: "known_policy sample_config"
  by (simp add: known_policy_def DefaultPanic_def known_Kill known_action_def bpf_consts)

end
