(* ===== verification/SyscallNumbers.thy ===== *)
theory SyscallNumbers
  imports SyscallSet
begin

text \<open>
  The system call numbers of the headers under sandbox/linux/system_headers: one constant per name
  for x86-64 (x86_64_linux_syscalls.h), which the policies use, and tables of names and numbers for
  i386 (x86_32_linux_syscalls.h), ARM EABI (arm_linux_syscalls.h) and arm64
  (arm64_linux_syscalls.h).  An \<open>#if !defined\<close> around a definition takes effect only where the C
  library's headers lack the number; the kernel's ABI fixes the numbers themselves.  A table is cut
  into parts of at most 37 names, in the order of the header.
\<close>

named_theorems nr_defs \<open>the system call numbers of x86-64\<close>

section \<open>x86-64\<close>

definition NR_read :: int where [nr_defs]: "NR_read = 0"
definition NR_write :: int where [nr_defs]: "NR_write = 1"
definition NR_open :: int where [nr_defs]: "NR_open = 2"
definition NR_close :: int where [nr_defs]: "NR_close = 3"
definition NR_stat :: int where [nr_defs]: "NR_stat = 4"
definition NR_fstat :: int where [nr_defs]: "NR_fstat = 5"
definition NR_lstat :: int where [nr_defs]: "NR_lstat = 6"
definition NR_poll :: int where [nr_defs]: "NR_poll = 7"
definition NR_lseek :: int where [nr_defs]: "NR_lseek = 8"
definition NR_mmap :: int where [nr_defs]: "NR_mmap = 9"
definition NR_mprotect :: int where [nr_defs]: "NR_mprotect = 10"
definition NR_munmap :: int where [nr_defs]: "NR_munmap = 11"
definition NR_brk :: int where [nr_defs]: "NR_brk = 12"
definition NR_rt_sigaction :: int where [nr_defs]: "NR_rt_sigaction = 13"
definition NR_rt_sigprocmask :: int where [nr_defs]: "NR_rt_sigprocmask = 14"
definition NR_rt_sigreturn :: int where [nr_defs]: "NR_rt_sigreturn = 15"
definition NR_ioctl :: int where [nr_defs]: "NR_ioctl = 16"
definition NR_pread64 :: int where [nr_defs]: "NR_pread64 = 17"
definition NR_pwrite64 :: int where [nr_defs]: "NR_pwrite64 = 18"
definition NR_readv :: int where [nr_defs]: "NR_readv = 19"
definition NR_writev :: int where [nr_defs]: "NR_writev = 20"
definition NR_access :: int where [nr_defs]: "NR_access = 21"
definition NR_pipe :: int where [nr_defs]: "NR_pipe = 22"
definition NR_select :: int where [nr_defs]: "NR_select = 23"
definition NR_sched_yield :: int where [nr_defs]: "NR_sched_yield = 24"
definition NR_mremap :: int where [nr_defs]: "NR_mremap = 25"
definition NR_msync :: int where [nr_defs]: "NR_msync = 26"
definition NR_mincore :: int where [nr_defs]: "NR_mincore = 27"
definition NR_madvise :: int where [nr_defs]: "NR_madvise = 28"
definition NR_shmget :: int where [nr_defs]: "NR_shmget = 29"
definition NR_shmat :: int where [nr_defs]: "NR_shmat = 30"
definition NR_shmctl :: int where [nr_defs]: "NR_shmctl = 31"
definition NR_dup :: int where [nr_defs]: "NR_dup = 32"
definition NR_dup2 :: int where [nr_defs]: "NR_dup2 = 33"
definition NR_pause :: int where [nr_defs]: "NR_pause = 34"
definition NR_nanosleep :: int where [nr_defs]: "NR_nanosleep = 35"
definition NR_getitimer :: int where [nr_defs]: "NR_getitimer = 36"
definition NR_alarm :: int where [nr_defs]: "NR_alarm = 37"
definition NR_setitimer :: int where [nr_defs]: "NR_setitimer = 38"
definition NR_getpid :: int where [nr_defs]: "NR_getpid = 39"
definition NR_sendfile :: int where [nr_defs]: "NR_sendfile = 40"
definition NR_socket :: int where [nr_defs]: "NR_socket = 41"
definition NR_connect :: int where [nr_defs]: "NR_connect = 42"
definition NR_accept :: int where [nr_defs]: "NR_accept = 43"
definition NR_sendto :: int where [nr_defs]: "NR_sendto = 44"
definition NR_recvfrom :: int where [nr_defs]: "NR_recvfrom = 45"
definition NR_sendmsg :: int where [nr_defs]: "NR_sendmsg = 46"
definition NR_recvmsg :: int where [nr_defs]: "NR_recvmsg = 47"
definition NR_shutdown :: int where [nr_defs]: "NR_shutdown = 48"
definition NR_bind :: int where [nr_defs]: "NR_bind = 49"
definition NR_listen :: int where [nr_defs]: "NR_listen = 50"
definition NR_getsockname :: int where [nr_defs]: "NR_getsockname = 51"
definition NR_getpeername :: int where [nr_defs]: "NR_getpeername = 52"
definition NR_socketpair :: int where [nr_defs]: "NR_socketpair = 53"
definition NR_setsockopt :: int where [nr_defs]: "NR_setsockopt = 54"
definition NR_getsockopt :: int where [nr_defs]: "NR_getsockopt = 55"
definition NR_clone :: int where [nr_defs]: "NR_clone = 56"
definition NR_fork :: int where [nr_defs]: "NR_fork = 57"
definition NR_vfork :: int where [nr_defs]: "NR_vfork = 58"
definition NR_execve :: int where [nr_defs]: "NR_execve = 59"
definition NR_exit :: int where [nr_defs]: "NR_exit = 60"
definition NR_wait4 :: int where [nr_defs]: "NR_wait4 = 61"
definition NR_kill :: int where [nr_defs]: "NR_kill = 62"
definition NR_uname :: int where [nr_defs]: "NR_uname = 63"
definition NR_semget :: int where [nr_defs]: "NR_semget = 64"
definition NR_semop :: int where [nr_defs]: "NR_semop = 65"
definition NR_semctl :: int where [nr_defs]: "NR_semctl = 66"
definition NR_shmdt :: int where [nr_defs]: "NR_shmdt = 67"
definition NR_msgget :: int where [nr_defs]: "NR_msgget = 68"
definition NR_msgsnd :: int where [nr_defs]: "NR_msgsnd = 69"
definition NR_msgrcv :: int where [nr_defs]: "NR_msgrcv = 70"
definition NR_msgctl :: int where [nr_defs]: "NR_msgctl = 71"
definition NR_fcntl :: int where [nr_defs]: "NR_fcntl = 72"
definition NR_flock :: int where [nr_defs]: "NR_flock = 73"
definition NR_fsync :: int where [nr_defs]: "NR_fsync = 74"
definition NR_fdatasync :: int where [nr_defs]: "NR_fdatasync = 75"
definition NR_truncate :: int where [nr_defs]: "NR_truncate = 76"
definition NR_ftruncate :: int where [nr_defs]: "NR_ftruncate = 77"
definition NR_getdents :: int where [nr_defs]: "NR_getdents = 78"
definition NR_getcwd :: int where [nr_defs]: "NR_getcwd = 79"
definition NR_chdir :: int where [nr_defs]: "NR_chdir = 80"
definition NR_fchdir :: int where [nr_defs]: "NR_fchdir = 81"
definition NR_rename :: int where [nr_defs]: "NR_rename = 82"
definition NR_mkdir :: int where [nr_defs]: "NR_mkdir = 83"
definition NR_rmdir :: int where [nr_defs]: "NR_rmdir = 84"
definition NR_creat :: int where [nr_defs]: "NR_creat = 85"
definition NR_link :: int where [nr_defs]: "NR_link = 86"
definition NR_unlink :: int where [nr_defs]: "NR_unlink = 87"
definition NR_symlink :: int where [nr_defs]: "NR_symlink = 88"
definition NR_readlink :: int where [nr_defs]: "NR_readlink = 89"
definition NR_chmod :: int where [nr_defs]: "NR_chmod = 90"
definition NR_fchmod :: int where [nr_defs]: "NR_fchmod = 91"
definition NR_chown :: int where [nr_defs]: "NR_chown = 92"
definition NR_fchown :: int where [nr_defs]: "NR_fchown = 93"
definition NR_lchown :: int where [nr_defs]: "NR_lchown = 94"
definition NR_umask :: int where [nr_defs]: "NR_umask = 95"
definition NR_gettimeofday :: int where [nr_defs]: "NR_gettimeofday = 96"
definition NR_getrlimit :: int where [nr_defs]: "NR_getrlimit = 97"
definition NR_getrusage :: int where [nr_defs]: "NR_getrusage = 98"
definition NR_sysinfo :: int where [nr_defs]: "NR_sysinfo = 99"
definition NR_times :: int where [nr_defs]: "NR_times = 100"
definition NR_ptrace :: int where [nr_defs]: "NR_ptrace = 101"
definition NR_getuid :: int where [nr_defs]: "NR_getuid = 102"
definition NR_syslog :: int where [nr_defs]: "NR_syslog = 103"
definition NR_getgid :: int where [nr_defs]: "NR_getgid = 104"
definition NR_setuid :: int where [nr_defs]: "NR_setuid = 105"
definition NR_setgid :: int where [nr_defs]: "NR_setgid = 106"
definition NR_geteuid :: int where [nr_defs]: "NR_geteuid = 107"
definition NR_getegid :: int where [nr_defs]: "NR_getegid = 108"
definition NR_setpgid :: int where [nr_defs]: "NR_setpgid = 109"
definition NR_getppid :: int where [nr_defs]: "NR_getppid = 110"
definition NR_getpgrp :: int where [nr_defs]: "NR_getpgrp = 111"
definition NR_setsid :: int where [nr_defs]: "NR_setsid = 112"
definition NR_setreuid :: int where [nr_defs]: "NR_setreuid = 113"
definition NR_setregid :: int where [nr_defs]: "NR_setregid = 114"
definition NR_getgroups :: int where [nr_defs]: "NR_getgroups = 115"
definition NR_setgroups :: int where [nr_defs]: "NR_setgroups = 116"
definition NR_setresuid :: int where [nr_defs]: "NR_setresuid = 117"
definition NR_getresuid :: int where [nr_defs]: "NR_getresuid = 118"
definition NR_setresgid :: int where [nr_defs]: "NR_setresgid = 119"
definition NR_getresgid :: int where [nr_defs]: "NR_getresgid = 120"
definition NR_getpgid :: int where [nr_defs]: "NR_getpgid = 121"
definition NR_setfsuid :: int where [nr_defs]: "NR_setfsuid = 122"
definition NR_setfsgid :: int where [nr_defs]: "NR_setfsgid = 123"
definition NR_getsid :: int where [nr_defs]: "NR_getsid = 124"
definition NR_capget :: int where [nr_defs]: "NR_capget = 125"
definition NR_capset :: int where [nr_defs]: "NR_capset = 126"
definition NR_rt_sigpending :: int where [nr_defs]: "NR_rt_sigpending = 127"
definition NR_rt_sigtimedwait :: int where [nr_defs]: "NR_rt_sigtimedwait = 128"
definition NR_rt_sigqueueinfo :: int where [nr_defs]: "NR_rt_sigqueueinfo = 129"
definition NR_rt_sigsuspend :: int where [nr_defs]: "NR_rt_sigsuspend = 130"
definition NR_sigaltstack :: int where [nr_defs]: "NR_sigaltstack = 131"
definition NR_utime :: int where [nr_defs]: "NR_utime = 132"
definition NR_mknod :: int where [nr_defs]: "NR_mknod = 133"
definition NR_uselib :: int where [nr_defs]: "NR_uselib = 134"
definition NR_personality :: int where [nr_defs]: "NR_personality = 135"
definition NR_ustat :: int where [nr_defs]: "NR_ustat = 136"
definition NR_statfs :: int where [nr_defs]: "NR_statfs = 137"
definition NR_fstatfs :: int where [nr_defs]: "NR_fstatfs = 138"
definition NR_sysfs :: int where [nr_defs]: "NR_sysfs = 139"
definition NR_getpriority :: int where [nr_defs]: "NR_getpriority = 140"
definition NR_setpriority :: int where [nr_defs]: "NR_setpriority = 141"
definition NR_sched_setparam :: int where [nr_defs]: "NR_sched_setparam = 142"
definition NR_sched_getparam :: int where [nr_defs]: "NR_sched_getparam = 143"
definition NR_sched_setscheduler :: int where [nr_defs]: "NR_sched_setscheduler = 144"
definition NR_sched_getscheduler :: int where [nr_defs]: "NR_sched_getscheduler = 145"
definition NR_sched_get_priority_max :: int where [nr_defs]: "NR_sched_get_priority_max = 146"
definition NR_sched_get_priority_min :: int where [nr_defs]: "NR_sched_get_priority_min = 147"
definition NR_sched_rr_get_interval :: int where [nr_defs]: "NR_sched_rr_get_interval = 148"
definition NR_mlock :: int where [nr_defs]: "NR_mlock = 149"
definition NR_munlock :: int where [nr_defs]: "NR_munlock = 150"
definition NR_mlockall :: int where [nr_defs]: "NR_mlockall = 151"
definition NR_munlockall :: int where [nr_defs]: "NR_munlockall = 152"
definition NR_vhangup :: int where [nr_defs]: "NR_vhangup = 153"
definition NR_modify_ldt :: int where [nr_defs]: "NR_modify_ldt = 154"
definition NR_pivot_root :: int where [nr_defs]: "NR_pivot_root = 155"
definition NR__sysctl :: int where [nr_defs]: "NR__sysctl = 156"
definition NR_prctl :: int where [nr_defs]: "NR_prctl = 157"
definition NR_arch_prctl :: int where [nr_defs]: "NR_arch_prctl = 158"
definition NR_adjtimex :: int where [nr_defs]: "NR_adjtimex = 159"
definition NR_setrlimit :: int where [nr_defs]: "NR_setrlimit = 160"
definition NR_chroot :: int where [nr_defs]: "NR_chroot = 161"
definition NR_sync :: int where [nr_defs]: "NR_sync = 162"
definition NR_acct :: int where [nr_defs]: "NR_acct = 163"
definition NR_settimeofday :: int where [nr_defs]: "NR_settimeofday = 164"
definition NR_mount :: int where [nr_defs]: "NR_mount = 165"
definition NR_umount2 :: int where [nr_defs]: "NR_umount2 = 166"
definition NR_swapon :: int where [nr_defs]: "NR_swapon = 167"
definition NR_swapoff :: int where [nr_defs]: "NR_swapoff = 168"
definition NR_reboot :: int where [nr_defs]: "NR_reboot = 169"
definition NR_sethostname :: int where [nr_defs]: "NR_sethostname = 170"
definition NR_setdomainname :: int where [nr_defs]: "NR_setdomainname = 171"
definition NR_iopl :: int where [nr_defs]: "NR_iopl = 172"
definition NR_ioperm :: int where [nr_defs]: "NR_ioperm = 173"
definition NR_create_module :: int where [nr_defs]: "NR_create_module = 174"
definition NR_init_module :: int where [nr_defs]: "NR_init_module = 175"
definition NR_delete_module :: int where [nr_defs]: "NR_delete_module = 176"
definition NR_get_kernel_syms :: int where [nr_defs]: "NR_get_kernel_syms = 177"
definition NR_query_module :: int where [nr_defs]: "NR_query_module = 178"
definition NR_quotactl :: int where [nr_defs]: "NR_quotactl = 179"
definition NR_nfsservctl :: int where [nr_defs]: "NR_nfsservctl = 180"
definition NR_getpmsg :: int where [nr_defs]: "NR_getpmsg = 181"
definition NR_putpmsg :: int where [nr_defs]: "NR_putpmsg = 182"
definition NR_afs_syscall :: int where [nr_defs]: "NR_afs_syscall = 183"
definition NR_tuxcall :: int where [nr_defs]: "NR_tuxcall = 184"
definition NR_security :: int where [nr_defs]: "NR_security = 185"
definition NR_gettid :: int where [nr_defs]: "NR_gettid = 186"
definition NR_readahead :: int where [nr_defs]: "NR_readahead = 187"
definition NR_setxattr :: int where [nr_defs]: "NR_setxattr = 188"
definition NR_lsetxattr :: int where [nr_defs]: "NR_lsetxattr = 189"
definition NR_fsetxattr :: int where [nr_defs]: "NR_fsetxattr = 190"
definition NR_getxattr :: int where [nr_defs]: "NR_getxattr = 191"
definition NR_lgetxattr :: int where [nr_defs]: "NR_lgetxattr = 192"
definition NR_fgetxattr :: int where [nr_defs]: "NR_fgetxattr = 193"
definition NR_listxattr :: int where [nr_defs]: "NR_listxattr = 194"
definition NR_llistxattr :: int where [nr_defs]: "NR_llistxattr = 195"
definition NR_flistxattr :: int where [nr_defs]: "NR_flistxattr = 196"
definition NR_removexattr :: int where [nr_defs]: "NR_removexattr = 197"
definition NR_lremovexattr :: int where [nr_defs]: "NR_lremovexattr = 198"
definition NR_fremovexattr :: int where [nr_defs]: "NR_fremovexattr = 199"
definition NR_tkill :: int where [nr_defs]: "NR_tkill = 200"
definition NR_time :: int where [nr_defs]: "NR_time = 201"
definition NR_futex :: int where [nr_defs]: "NR_futex = 202"
definition NR_sched_setaffinity :: int where [nr_defs]: "NR_sched_setaffinity = 203"
definition NR_sched_getaffinity :: int where [nr_defs]: "NR_sched_getaffinity = 204"
definition NR_set_thread_area :: int where [nr_defs]: "NR_set_thread_area = 205"
definition NR_io_setup :: int where [nr_defs]: "NR_io_setup = 206"
definition NR_io_destroy :: int where [nr_defs]: "NR_io_destroy = 207"
definition NR_io_getevents :: int where [nr_defs]: "NR_io_getevents = 208"
definition NR_io_submit :: int where [nr_defs]: "NR_io_submit = 209"
definition NR_io_cancel :: int where [nr_defs]: "NR_io_cancel = 210"
definition NR_get_thread_area :: int where [nr_defs]: "NR_get_thread_area = 211"
definition NR_lookup_dcookie :: int where [nr_defs]: "NR_lookup_dcookie = 212"
definition NR_epoll_create :: int where [nr_defs]: "NR_epoll_create = 213"
definition NR_epoll_ctl_old :: int where [nr_defs]: "NR_epoll_ctl_old = 214"
definition NR_epoll_wait_old :: int where [nr_defs]: "NR_epoll_wait_old = 215"
definition NR_remap_file_pages :: int where [nr_defs]: "NR_remap_file_pages = 216"
definition NR_getdents64 :: int where [nr_defs]: "NR_getdents64 = 217"
definition NR_set_tid_address :: int where [nr_defs]: "NR_set_tid_address = 218"
definition NR_restart_syscall :: int where [nr_defs]: "NR_restart_syscall = 219"
definition NR_semtimedop :: int where [nr_defs]: "NR_semtimedop = 220"
definition NR_fadvise64 :: int where [nr_defs]: "NR_fadvise64 = 221"
definition NR_timer_create :: int where [nr_defs]: "NR_timer_create = 222"
definition NR_timer_settime :: int where [nr_defs]: "NR_timer_settime = 223"
definition NR_timer_gettime :: int where [nr_defs]: "NR_timer_gettime = 224"
definition NR_timer_getoverrun :: int where [nr_defs]: "NR_timer_getoverrun = 225"
definition NR_timer_delete :: int where [nr_defs]: "NR_timer_delete = 226"
definition NR_clock_settime :: int where [nr_defs]: "NR_clock_settime = 227"
definition NR_clock_gettime :: int where [nr_defs]: "NR_clock_gettime = 228"
definition NR_clock_getres :: int where [nr_defs]: "NR_clock_getres = 229"
definition NR_clock_nanosleep :: int where [nr_defs]: "NR_clock_nanosleep = 230"
definition NR_exit_group :: int where [nr_defs]: "NR_exit_group = 231"
definition NR_epoll_wait :: int where [nr_defs]: "NR_epoll_wait = 232"
definition NR_epoll_ctl :: int where [nr_defs]: "NR_epoll_ctl = 233"
definition NR_tgkill :: int where [nr_defs]: "NR_tgkill = 234"
definition NR_utimes :: int where [nr_defs]: "NR_utimes = 235"
definition NR_vserver :: int where [nr_defs]: "NR_vserver = 236"
definition NR_mbind :: int where [nr_defs]: "NR_mbind = 237"
definition NR_set_mempolicy :: int where [nr_defs]: "NR_set_mempolicy = 238"
definition NR_get_mempolicy :: int where [nr_defs]: "NR_get_mempolicy = 239"
definition NR_mq_open :: int where [nr_defs]: "NR_mq_open = 240"
definition NR_mq_unlink :: int where [nr_defs]: "NR_mq_unlink = 241"
definition NR_mq_timedsend :: int where [nr_defs]: "NR_mq_timedsend = 242"
definition NR_mq_timedreceive :: int where [nr_defs]: "NR_mq_timedreceive = 243"
definition NR_mq_notify :: int where [nr_defs]: "NR_mq_notify = 244"
definition NR_mq_getsetattr :: int where [nr_defs]: "NR_mq_getsetattr = 245"
definition NR_kexec_load :: int where [nr_defs]: "NR_kexec_load = 246"
definition NR_waitid :: int where [nr_defs]: "NR_waitid = 247"
definition NR_add_key :: int where [nr_defs]: "NR_add_key = 248"
definition NR_request_key :: int where [nr_defs]: "NR_request_key = 249"
definition NR_keyctl :: int where [nr_defs]: "NR_keyctl = 250"
definition NR_ioprio_set :: int where [nr_defs]: "NR_ioprio_set = 251"
definition NR_ioprio_get :: int where [nr_defs]: "NR_ioprio_get = 252"
definition NR_inotify_init :: int where [nr_defs]: "NR_inotify_init = 253"
definition NR_inotify_add_watch :: int where [nr_defs]: "NR_inotify_add_watch = 254"
definition NR_inotify_rm_watch :: int where [nr_defs]: "NR_inotify_rm_watch = 255"
definition NR_migrate_pages :: int where [nr_defs]: "NR_migrate_pages = 256"
definition NR_openat :: int where [nr_defs]: "NR_openat = 257"
definition NR_mkdirat :: int where [nr_defs]: "NR_mkdirat = 258"
definition NR_mknodat :: int where [nr_defs]: "NR_mknodat = 259"
definition NR_fchownat :: int where [nr_defs]: "NR_fchownat = 260"
definition NR_futimesat :: int where [nr_defs]: "NR_futimesat = 261"
definition NR_newfstatat :: int where [nr_defs]: "NR_newfstatat = 262"
definition NR_unlinkat :: int where [nr_defs]: "NR_unlinkat = 263"
definition NR_renameat :: int where [nr_defs]: "NR_renameat = 264"
definition NR_linkat :: int where [nr_defs]: "NR_linkat = 265"
definition NR_symlinkat :: int where [nr_defs]: "NR_symlinkat = 266"
definition NR_readlinkat :: int where [nr_defs]: "NR_readlinkat = 267"
definition NR_fchmodat :: int where [nr_defs]: "NR_fchmodat = 268"
definition NR_faccessat :: int where [nr_defs]: "NR_faccessat = 269"
definition NR_pselect6 :: int where [nr_defs]: "NR_pselect6 = 270"
definition NR_ppoll :: int where [nr_defs]: "NR_ppoll = 271"
definition NR_unshare :: int where [nr_defs]: "NR_unshare = 272"
definition NR_set_robust_list :: int where [nr_defs]: "NR_set_robust_list = 273"
definition NR_get_robust_list :: int where [nr_defs]: "NR_get_robust_list = 274"
definition NR_splice :: int where [nr_defs]: "NR_splice = 275"
definition NR_tee :: int where [nr_defs]: "NR_tee = 276"
definition NR_sync_file_range :: int where [nr_defs]: "NR_sync_file_range = 277"
definition NR_vmsplice :: int where [nr_defs]: "NR_vmsplice = 278"
definition NR_move_pages :: int where [nr_defs]: "NR_move_pages = 279"
definition NR_utimensat :: int where [nr_defs]: "NR_utimensat = 280"
definition NR_epoll_pwait :: int where [nr_defs]: "NR_epoll_pwait = 281"
definition NR_signalfd :: int where [nr_defs]: "NR_signalfd = 282"
definition NR_timerfd_create :: int where [nr_defs]: "NR_timerfd_create = 283"
definition NR_eventfd :: int where [nr_defs]: "NR_eventfd = 284"
definition NR_fallocate :: int where [nr_defs]: "NR_fallocate = 285"
definition NR_timerfd_settime :: int where [nr_defs]: "NR_timerfd_settime = 286"
definition NR_timerfd_gettime :: int where [nr_defs]: "NR_timerfd_gettime = 287"
definition NR_accept4 :: int where [nr_defs]: "NR_accept4 = 288"
definition NR_signalfd4 :: int where [nr_defs]: "NR_signalfd4 = 289"
definition NR_eventfd2 :: int where [nr_defs]: "NR_eventfd2 = 290"
definition NR_epoll_create1 :: int where [nr_defs]: "NR_epoll_create1 = 291"
definition NR_dup3 :: int where [nr_defs]: "NR_dup3 = 292"
definition NR_pipe2 :: int where [nr_defs]: "NR_pipe2 = 293"
definition NR_inotify_init1 :: int where [nr_defs]: "NR_inotify_init1 = 294"
definition NR_preadv :: int where [nr_defs]: "NR_preadv = 295"
definition NR_pwritev :: int where [nr_defs]: "NR_pwritev = 296"
definition NR_rt_tgsigqueueinfo :: int where [nr_defs]: "NR_rt_tgsigqueueinfo = 297"
definition NR_perf_event_open :: int where [nr_defs]: "NR_perf_event_open = 298"
definition NR_recvmmsg :: int where [nr_defs]: "NR_recvmmsg = 299"
definition NR_fanotify_init :: int where [nr_defs]: "NR_fanotify_init = 300"
definition NR_fanotify_mark :: int where [nr_defs]: "NR_fanotify_mark = 301"
definition NR_prlimit64 :: int where [nr_defs]: "NR_prlimit64 = 302"
definition NR_name_to_handle_at :: int where [nr_defs]: "NR_name_to_handle_at = 303"
definition NR_open_by_handle_at :: int where [nr_defs]: "NR_open_by_handle_at = 304"
definition NR_clock_adjtime :: int where [nr_defs]: "NR_clock_adjtime = 305"
definition NR_syncfs :: int where [nr_defs]: "NR_syncfs = 306"
definition NR_sendmmsg :: int where [nr_defs]: "NR_sendmmsg = 307"
definition NR_setns :: int where [nr_defs]: "NR_setns = 308"
definition NR_getcpu :: int where [nr_defs]: "NR_getcpu = 309"
definition NR_process_vm_readv :: int where [nr_defs]: "NR_process_vm_readv = 310"
definition NR_process_vm_writev :: int where [nr_defs]: "NR_process_vm_writev = 311"
definition NR_kcmp :: int where [nr_defs]: "NR_kcmp = 312"
definition NR_finit_module :: int where [nr_defs]: "NR_finit_module = 313"
definition NR_sched_setattr :: int where [nr_defs]: "NR_sched_setattr = 314"
definition NR_sched_getattr :: int where [nr_defs]: "NR_sched_getattr = 315"
definition NR_renameat2 :: int where [nr_defs]: "NR_renameat2 = 316"
definition NR_seccomp :: int where [nr_defs]: "NR_seccomp = 317"
definition NR_getrandom :: int where [nr_defs]: "NR_getrandom = 318"
definition NR_memfd_create :: int where [nr_defs]: "NR_memfd_create = 319"

section \<open>The x86-64 names as a table\<close>

definition x86_64_syscalls_1 :: "(string \<times> nat) list" where
  "x86_64_syscalls_1 =
     [(''read'', nat NR_read), (''write'', nat NR_write), (''open'', nat NR_open),
      (''close'', nat NR_close), (''stat'', nat NR_stat), (''fstat'', nat NR_fstat),
      (''lstat'', nat NR_lstat), (''poll'', nat NR_poll), (''lseek'', nat NR_lseek),
      (''mmap'', nat NR_mmap), (''mprotect'', nat NR_mprotect), (''munmap'', nat NR_munmap),
      (''brk'', nat NR_brk), (''rt_sigaction'', nat NR_rt_sigaction),
      (''rt_sigprocmask'', nat NR_rt_sigprocmask), (''rt_sigreturn'', nat NR_rt_sigreturn),
      (''ioctl'', nat NR_ioctl), (''pread64'', nat NR_pread64), (''pwrite64'', nat NR_pwrite64),
      (''readv'', nat NR_readv), (''writev'', nat NR_writev), (''access'', nat NR_access),
      (''pipe'', nat NR_pipe), (''select'', nat NR_select),
      (''sched_yield'', nat NR_sched_yield), (''mremap'', nat NR_mremap),
      (''msync'', nat NR_msync), (''mincore'', nat NR_mincore), (''madvise'', nat NR_madvise),
      (''shmget'', nat NR_shmget), (''shmat'', nat NR_shmat), (''shmctl'', nat NR_shmctl),
      (''dup'', nat NR_dup), (''dup2'', nat NR_dup2), (''pause'', nat NR_pause),
      (''nanosleep'', nat NR_nanosleep), (''getitimer'', nat NR_getitimer)]"

definition x86_64_syscalls_2 :: "(string \<times> nat) list" where
  "x86_64_syscalls_2 =
     [(''alarm'', nat NR_alarm), (''setitimer'', nat NR_setitimer), (''getpid'', nat NR_getpid),
      (''sendfile'', nat NR_sendfile), (''socket'', nat NR_socket),
      (''connect'', nat NR_connect), (''accept'', nat NR_accept), (''sendto'', nat NR_sendto),
      (''recvfrom'', nat NR_recvfrom), (''sendmsg'', nat NR_sendmsg),
      (''recvmsg'', nat NR_recvmsg), (''shutdown'', nat NR_shutdown), (''bind'', nat NR_bind),
      (''listen'', nat NR_listen), (''getsockname'', nat NR_getsockname),
      (''getpeername'', nat NR_getpeername), (''socketpair'', nat NR_socketpair),
      (''setsockopt'', nat NR_setsockopt), (''getsockopt'', nat NR_getsockopt),
      (''clone'', nat NR_clone), (''fork'', nat NR_fork), (''vfork'', nat NR_vfork),
      (''execve'', nat NR_execve), (''exit'', nat NR_exit), (''wait4'', nat NR_wait4),
      (''kill'', nat NR_kill), (''uname'', nat NR_uname), (''semget'', nat NR_semget),
      (''semop'', nat NR_semop), (''semctl'', nat NR_semctl), (''shmdt'', nat NR_shmdt),
      (''msgget'', nat NR_msgget), (''msgsnd'', nat NR_msgsnd), (''msgrcv'', nat NR_msgrcv),
      (''msgctl'', nat NR_msgctl), (''fcntl'', nat NR_fcntl), (''flock'', nat NR_flock)]"

definition x86_64_syscalls_3 :: "(string \<times> nat) list" where
  "x86_64_syscalls_3 =
     [(''fsync'', nat NR_fsync), (''fdatasync'', nat NR_fdatasync),
      (''truncate'', nat NR_truncate), (''ftruncate'', nat NR_ftruncate),
      (''getdents'', nat NR_getdents), (''getcwd'', nat NR_getcwd), (''chdir'', nat NR_chdir),
      (''fchdir'', nat NR_fchdir), (''rename'', nat NR_rename), (''mkdir'', nat NR_mkdir),
      (''rmdir'', nat NR_rmdir), (''creat'', nat NR_creat), (''link'', nat NR_link),
      (''unlink'', nat NR_unlink), (''symlink'', nat NR_symlink),
      (''readlink'', nat NR_readlink), (''chmod'', nat NR_chmod), (''fchmod'', nat NR_fchmod),
      (''chown'', nat NR_chown), (''fchown'', nat NR_fchown), (''lchown'', nat NR_lchown),
      (''umask'', nat NR_umask), (''gettimeofday'', nat NR_gettimeofday),
      (''getrlimit'', nat NR_getrlimit), (''getrusage'', nat NR_getrusage),
      (''sysinfo'', nat NR_sysinfo), (''times'', nat NR_times), (''ptrace'', nat NR_ptrace),
      (''getuid'', nat NR_getuid), (''syslog'', nat NR_syslog), (''getgid'', nat NR_getgid),
      (''setuid'', nat NR_setuid), (''setgid'', nat NR_setgid), (''geteuid'', nat NR_geteuid),
      (''getegid'', nat NR_getegid), (''setpgid'', nat NR_setpgid), (''getppid'', nat NR_getppid)]"

definition x86_64_syscalls_4 :: "(string \<times> nat) list" where
  "x86_64_syscalls_4 =
     [(''getpgrp'', nat NR_getpgrp), (''setsid'', nat NR_setsid),
      (''setreuid'', nat NR_setreuid), (''setregid'', nat NR_setregid),
      (''getgroups'', nat NR_getgroups), (''setgroups'', nat NR_setgroups),
      (''setresuid'', nat NR_setresuid), (''getresuid'', nat NR_getresuid),
      (''setresgid'', nat NR_setresgid), (''getresgid'', nat NR_getresgid),
      (''getpgid'', nat NR_getpgid), (''setfsuid'', nat NR_setfsuid),
      (''setfsgid'', nat NR_setfsgid), (''getsid'', nat NR_getsid), (''capget'', nat NR_capget),
      (''capset'', nat NR_capset), (''rt_sigpending'', nat NR_rt_sigpending),
      (''rt_sigtimedwait'', nat NR_rt_sigtimedwait),
      (''rt_sigqueueinfo'', nat NR_rt_sigqueueinfo), (''rt_sigsuspend'', nat NR_rt_sigsuspend),
      (''sigaltstack'', nat NR_sigaltstack), (''utime'', nat NR_utime),
      (''mknod'', nat NR_mknod), (''uselib'', nat NR_uselib),
      (''personality'', nat NR_personality), (''ustat'', nat NR_ustat),
      (''statfs'', nat NR_statfs), (''fstatfs'', nat NR_fstatfs), (''sysfs'', nat NR_sysfs),
      (''getpriority'', nat NR_getpriority), (''setpriority'', nat NR_setpriority),
      (''sched_setparam'', nat NR_sched_setparam), (''sched_getparam'', nat NR_sched_getparam),
      (''sched_setscheduler'', nat NR_sched_setscheduler),
      (''sched_getscheduler'', nat NR_sched_getscheduler),
      (''sched_get_priority_max'', nat NR_sched_get_priority_max),
      (''sched_get_priority_min'', nat NR_sched_get_priority_min)]"

definition x86_64_syscalls_5 :: "(string \<times> nat) list" where
  "x86_64_syscalls_5 =
     [(''sched_rr_get_interval'', nat NR_sched_rr_get_interval), (''mlock'', nat NR_mlock),
      (''munlock'', nat NR_munlock), (''mlockall'', nat NR_mlockall),
      (''munlockall'', nat NR_munlockall), (''vhangup'', nat NR_vhangup),
      (''modify_ldt'', nat NR_modify_ldt), (''pivot_root'', nat NR_pivot_root),
      (''_sysctl'', nat NR__sysctl), (''prctl'', nat NR_prctl),
      (''arch_prctl'', nat NR_arch_prctl), (''adjtimex'', nat NR_adjtimex),
      (''setrlimit'', nat NR_setrlimit), (''chroot'', nat NR_chroot), (''sync'', nat NR_sync),
      (''acct'', nat NR_acct), (''settimeofday'', nat NR_settimeofday),
      (''mount'', nat NR_mount), (''umount2'', nat NR_umount2), (''swapon'', nat NR_swapon),
      (''swapoff'', nat NR_swapoff), (''reboot'', nat NR_reboot),
      (''sethostname'', nat NR_sethostname), (''setdomainname'', nat NR_setdomainname),
      (''iopl'', nat NR_iopl), (''ioperm'', nat NR_ioperm),
      (''create_module'', nat NR_create_module), (''init_module'', nat NR_init_module),
      (''delete_module'', nat NR_delete_module), (''get_kernel_syms'', nat NR_get_kernel_syms),
      (''query_module'', nat NR_query_module), (''quotactl'', nat NR_quotactl),
      (''nfsservctl'', nat NR_nfsservctl), (''getpmsg'', nat NR_getpmsg),
      (''putpmsg'', nat NR_putpmsg), (''afs_syscall'', nat NR_afs_syscall),
      (''tuxcall'', nat NR_tuxcall)]"

definition x86_64_syscalls_6 :: "(string \<times> nat) list" where
  "x86_64_syscalls_6 =
     [(''security'', nat NR_security), (''gettid'', nat NR_gettid),
      (''readahead'', nat NR_readahead), (''setxattr'', nat NR_setxattr),
      (''lsetxattr'', nat NR_lsetxattr), (''fsetxattr'', nat NR_fsetxattr),
      (''getxattr'', nat NR_getxattr), (''lgetxattr'', nat NR_lgetxattr),
      (''fgetxattr'', nat NR_fgetxattr), (''listxattr'', nat NR_listxattr),
      (''llistxattr'', nat NR_llistxattr), (''flistxattr'', nat NR_flistxattr),
      (''removexattr'', nat NR_removexattr), (''lremovexattr'', nat NR_lremovexattr),
      (''fremovexattr'', nat NR_fremovexattr), (''tkill'', nat NR_tkill),
      (''time'', nat NR_time), (''futex'', nat NR_futex),
      (''sched_setaffinity'', nat NR_sched_setaffinity),
      (''sched_getaffinity'', nat NR_sched_getaffinity),
      (''set_thread_area'', nat NR_set_thread_area), (''io_setup'', nat NR_io_setup),
      (''io_destroy'', nat NR_io_destroy), (''io_getevents'', nat NR_io_getevents),
      (''io_submit'', nat NR_io_submit), (''io_cancel'', nat NR_io_cancel),
      (''get_thread_area'', nat NR_get_thread_area), (''lookup_dcookie'', nat NR_lookup_dcookie),
      (''epoll_create'', nat NR_epoll_create), (''epoll_ctl_old'', nat NR_epoll_ctl_old),
      (''epoll_wait_old'', nat NR_epoll_wait_old),
      (''remap_file_pages'', nat NR_remap_file_pages), (''getdents64'', nat NR_getdents64),
      (''set_tid_address'', nat NR_set_tid_address),
      (''restart_syscall'', nat NR_restart_syscall), (''semtimedop'', nat NR_semtimedop),
      (''fadvise64'', nat NR_fadvise64)]"

definition x86_64_syscalls_7 :: "(string \<times> nat) list" where
  "x86_64_syscalls_7 =
     [(''timer_create'', nat NR_timer_create), (''timer_settime'', nat NR_timer_settime),
      (''timer_gettime'', nat NR_timer_gettime), (''timer_getoverrun'', nat NR_timer_getoverrun),
      (''timer_delete'', nat NR_timer_delete), (''clock_settime'', nat NR_clock_settime),
      (''clock_gettime'', nat NR_clock_gettime), (''clock_getres'', nat NR_clock_getres),
      (''clock_nanosleep'', nat NR_clock_nanosleep), (''exit_group'', nat NR_exit_group),
      (''epoll_wait'', nat NR_epoll_wait), (''epoll_ctl'', nat NR_epoll_ctl),
      (''tgkill'', nat NR_tgkill), (''utimes'', nat NR_utimes), (''vserver'', nat NR_vserver),
      (''mbind'', nat NR_mbind), (''set_mempolicy'', nat NR_set_mempolicy),
      (''get_mempolicy'', nat NR_get_mempolicy), (''mq_open'', nat NR_mq_open),
      (''mq_unlink'', nat NR_mq_unlink), (''mq_timedsend'', nat NR_mq_timedsend),
      (''mq_timedreceive'', nat NR_mq_timedreceive), (''mq_notify'', nat NR_mq_notify),
      (''mq_getsetattr'', nat NR_mq_getsetattr), (''kexec_load'', nat NR_kexec_load),
      (''waitid'', nat NR_waitid), (''add_key'', nat NR_add_key),
      (''request_key'', nat NR_request_key), (''keyctl'', nat NR_keyctl),
      (''ioprio_set'', nat NR_ioprio_set), (''ioprio_get'', nat NR_ioprio_get),
      (''inotify_init'', nat NR_inotify_init), (''inotify_add_watch'', nat NR_inotify_add_watch),
      (''inotify_rm_watch'', nat NR_inotify_rm_watch), (''migrate_pages'', nat NR_migrate_pages),
      (''openat'', nat NR_openat), (''mkdirat'', nat NR_mkdirat)]"

definition x86_64_syscalls_8 :: "(string \<times> nat) list" where
  "x86_64_syscalls_8 =
     [(''mknodat'', nat NR_mknodat), (''fchownat'', nat NR_fchownat),
      (''futimesat'', nat NR_futimesat), (''newfstatat'', nat NR_newfstatat),
      (''unlinkat'', nat NR_unlinkat), (''renameat'', nat NR_renameat),
      (''linkat'', nat NR_linkat), (''symlinkat'', nat NR_symlinkat),
      (''readlinkat'', nat NR_readlinkat), (''fchmodat'', nat NR_fchmodat),
      (''faccessat'', nat NR_faccessat), (''pselect6'', nat NR_pselect6),
      (''ppoll'', nat NR_ppoll), (''unshare'', nat NR_unshare),
      (''set_robust_list'', nat NR_set_robust_list),
      (''get_robust_list'', nat NR_get_robust_list), (''splice'', nat NR_splice),
      (''tee'', nat NR_tee), (''sync_file_range'', nat NR_sync_file_range),
      (''vmsplice'', nat NR_vmsplice), (''move_pages'', nat NR_move_pages),
      (''utimensat'', nat NR_utimensat), (''epoll_pwait'', nat NR_epoll_pwait),
      (''signalfd'', nat NR_signalfd), (''timerfd_create'', nat NR_timerfd_create),
      (''eventfd'', nat NR_eventfd), (''fallocate'', nat NR_fallocate),
      (''timerfd_settime'', nat NR_timerfd_settime),
      (''timerfd_gettime'', nat NR_timerfd_gettime), (''accept4'', nat NR_accept4),
      (''signalfd4'', nat NR_signalfd4), (''eventfd2'', nat NR_eventfd2),
      (''epoll_create1'', nat NR_epoll_create1), (''dup3'', nat NR_dup3),
      (''pipe2'', nat NR_pipe2), (''inotify_init1'', nat NR_inotify_init1),
      (''preadv'', nat NR_preadv)]"

definition x86_64_syscalls_9 :: "(string \<times> nat) list" where
  "x86_64_syscalls_9 =
     [(''pwritev'', nat NR_pwritev), (''rt_tgsigqueueinfo'', nat NR_rt_tgsigqueueinfo),
      (''perf_event_open'', nat NR_perf_event_open), (''recvmmsg'', nat NR_recvmmsg),
      (''fanotify_init'', nat NR_fanotify_init), (''fanotify_mark'', nat NR_fanotify_mark),
      (''prlimit64'', nat NR_prlimit64), (''name_to_handle_at'', nat NR_name_to_handle_at),
      (''open_by_handle_at'', nat NR_open_by_handle_at),
      (''clock_adjtime'', nat NR_clock_adjtime), (''syncfs'', nat NR_syncfs),
      (''sendmmsg'', nat NR_sendmmsg), (''setns'', nat NR_setns), (''getcpu'', nat NR_getcpu),
      (''process_vm_readv'', nat NR_process_vm_readv),
      (''process_vm_writev'', nat NR_process_vm_writev), (''kcmp'', nat NR_kcmp),
      (''finit_module'', nat NR_finit_module), (''sched_setattr'', nat NR_sched_setattr),
      (''sched_getattr'', nat NR_sched_getattr), (''renameat2'', nat NR_renameat2),
      (''seccomp'', nat NR_seccomp), (''getrandom'', nat NR_getrandom),
      (''memfd_create'', nat NR_memfd_create)]"

section \<open>i386\<close>

definition i386_syscalls_1 :: "(string \<times> nat) list" where
  "i386_syscalls_1 =
     [(''restart_syscall'', 0), (''exit'', 1), (''fork'', 2), (''read'', 3), (''write'', 4),
      (''open'', 5), (''close'', 6), (''waitpid'', 7), (''creat'', 8), (''link'', 9),
      (''unlink'', 10), (''execve'', 11), (''chdir'', 12), (''time'', 13), (''mknod'', 14),
      (''chmod'', 15), (''lchown'', 16), (''break'', 17), (''oldstat'', 18), (''lseek'', 19),
      (''getpid'', 20), (''mount'', 21), (''umount'', 22), (''setuid'', 23), (''getuid'', 24),
      (''stime'', 25), (''ptrace'', 26), (''alarm'', 27), (''oldfstat'', 28), (''pause'', 29),
      (''utime'', 30), (''stty'', 31), (''gtty'', 32), (''access'', 33), (''nice'', 34),
      (''ftime'', 35), (''sync'', 36)]"

definition i386_syscalls_2 :: "(string \<times> nat) list" where
  "i386_syscalls_2 =
     [(''kill'', 37), (''rename'', 38), (''mkdir'', 39), (''rmdir'', 40), (''dup'', 41),
      (''pipe'', 42), (''times'', 43), (''prof'', 44), (''brk'', 45), (''setgid'', 46),
      (''getgid'', 47), (''signal'', 48), (''geteuid'', 49), (''getegid'', 50), (''acct'', 51),
      (''umount2'', 52), (''lock'', 53), (''ioctl'', 54), (''fcntl'', 55), (''mpx'', 56),
      (''setpgid'', 57), (''ulimit'', 58), (''oldolduname'', 59), (''umask'', 60),
      (''chroot'', 61), (''ustat'', 62), (''dup2'', 63), (''getppid'', 64), (''getpgrp'', 65),
      (''setsid'', 66), (''sigaction'', 67), (''sgetmask'', 68), (''ssetmask'', 69),
      (''setreuid'', 70), (''setregid'', 71), (''sigsuspend'', 72), (''sigpending'', 73)]"

definition i386_syscalls_3 :: "(string \<times> nat) list" where
  "i386_syscalls_3 =
     [(''sethostname'', 74), (''setrlimit'', 75), (''getrlimit'', 76), (''getrusage'', 77),
      (''gettimeofday'', 78), (''settimeofday'', 79), (''getgroups'', 80), (''setgroups'', 81),
      (''select'', 82), (''symlink'', 83), (''oldlstat'', 84), (''readlink'', 85),
      (''uselib'', 86), (''swapon'', 87), (''reboot'', 88), (''readdir'', 89), (''mmap'', 90),
      (''munmap'', 91), (''truncate'', 92), (''ftruncate'', 93), (''fchmod'', 94),
      (''fchown'', 95), (''getpriority'', 96), (''setpriority'', 97), (''profil'', 98),
      (''statfs'', 99), (''fstatfs'', 100), (''ioperm'', 101), (''socketcall'', 102),
      (''syslog'', 103), (''setitimer'', 104), (''getitimer'', 105), (''stat'', 106),
      (''lstat'', 107), (''fstat'', 108), (''olduname'', 109), (''iopl'', 110)]"

definition i386_syscalls_4 :: "(string \<times> nat) list" where
  "i386_syscalls_4 =
     [(''vhangup'', 111), (''idle'', 112), (''vm86old'', 113), (''wait4'', 114),
      (''swapoff'', 115), (''sysinfo'', 116), (''ipc'', 117), (''fsync'', 118),
      (''sigreturn'', 119), (''clone'', 120), (''setdomainname'', 121), (''uname'', 122),
      (''modify_ldt'', 123), (''adjtimex'', 124), (''mprotect'', 125), (''sigprocmask'', 126),
      (''create_module'', 127), (''init_module'', 128), (''delete_module'', 129),
      (''get_kernel_syms'', 130), (''quotactl'', 131), (''getpgid'', 132), (''fchdir'', 133),
      (''bdflush'', 134), (''sysfs'', 135), (''personality'', 136), (''afs_syscall'', 137),
      (''setfsuid'', 138), (''setfsgid'', 139), (''_llseek'', 140), (''getdents'', 141),
      (''_newselect'', 142), (''flock'', 143), (''msync'', 144), (''readv'', 145),
      (''writev'', 146), (''getsid'', 147)]"

definition i386_syscalls_5 :: "(string \<times> nat) list" where
  "i386_syscalls_5 =
     [(''fdatasync'', 148), (''_sysctl'', 149), (''mlock'', 150), (''munlock'', 151),
      (''mlockall'', 152), (''munlockall'', 153), (''sched_setparam'', 154),
      (''sched_getparam'', 155), (''sched_setscheduler'', 156), (''sched_getscheduler'', 157),
      (''sched_yield'', 158), (''sched_get_priority_max'', 159),
      (''sched_get_priority_min'', 160), (''sched_rr_get_interval'', 161), (''nanosleep'', 162),
      (''mremap'', 163), (''setresuid'', 164), (''getresuid'', 165), (''vm86'', 166),
      (''query_module'', 167), (''poll'', 168), (''nfsservctl'', 169), (''setresgid'', 170),
      (''getresgid'', 171), (''prctl'', 172), (''rt_sigreturn'', 173), (''rt_sigaction'', 174),
      (''rt_sigprocmask'', 175), (''rt_sigpending'', 176), (''rt_sigtimedwait'', 177),
      (''rt_sigqueueinfo'', 178), (''rt_sigsuspend'', 179), (''pread64'', 180),
      (''pwrite64'', 181), (''chown'', 182), (''getcwd'', 183), (''capget'', 184)]"

definition i386_syscalls_6 :: "(string \<times> nat) list" where
  "i386_syscalls_6 =
     [(''capset'', 185), (''sigaltstack'', 186), (''sendfile'', 187), (''getpmsg'', 188),
      (''putpmsg'', 189), (''vfork'', 190), (''ugetrlimit'', 191), (''mmap2'', 192),
      (''truncate64'', 193), (''ftruncate64'', 194), (''stat64'', 195), (''lstat64'', 196),
      (''fstat64'', 197), (''lchown32'', 198), (''getuid32'', 199), (''getgid32'', 200),
      (''geteuid32'', 201), (''getegid32'', 202), (''setreuid32'', 203), (''setregid32'', 204),
      (''getgroups32'', 205), (''setgroups32'', 206), (''fchown32'', 207),
      (''setresuid32'', 208), (''getresuid32'', 209), (''setresgid32'', 210),
      (''getresgid32'', 211), (''chown32'', 212), (''setuid32'', 213), (''setgid32'', 214),
      (''setfsuid32'', 215), (''setfsgid32'', 216), (''pivot_root'', 217), (''mincore'', 218),
      (''madvise'', 219), (''getdents64'', 220), (''fcntl64'', 221)]"

definition i386_syscalls_7 :: "(string \<times> nat) list" where
  "i386_syscalls_7 =
     [(''gettid'', 224), (''readahead'', 225), (''setxattr'', 226), (''lsetxattr'', 227),
      (''fsetxattr'', 228), (''getxattr'', 229), (''lgetxattr'', 230), (''fgetxattr'', 231),
      (''listxattr'', 232), (''llistxattr'', 233), (''flistxattr'', 234), (''removexattr'', 235),
      (''lremovexattr'', 236), (''fremovexattr'', 237), (''tkill'', 238), (''sendfile64'', 239),
      (''futex'', 240), (''sched_setaffinity'', 241), (''sched_getaffinity'', 242),
      (''set_thread_area'', 243), (''get_thread_area'', 244), (''io_setup'', 245),
      (''io_destroy'', 246), (''io_getevents'', 247), (''io_submit'', 248), (''io_cancel'', 249),
      (''fadvise64'', 250), (''exit_group'', 252), (''lookup_dcookie'', 253),
      (''epoll_create'', 254), (''epoll_ctl'', 255), (''epoll_wait'', 256),
      (''remap_file_pages'', 257), (''set_tid_address'', 258), (''timer_create'', 259),
      (''timer_settime'', 260), (''timer_gettime'', 261)]"

definition i386_syscalls_8 :: "(string \<times> nat) list" where
  "i386_syscalls_8 =
     [(''timer_getoverrun'', 262), (''timer_delete'', 263), (''clock_settime'', 264),
      (''clock_gettime'', 265), (''clock_getres'', 266), (''clock_nanosleep'', 267),
      (''statfs64'', 268), (''fstatfs64'', 269), (''tgkill'', 270), (''utimes'', 271),
      (''fadvise64_64'', 272), (''vserver'', 273), (''mbind'', 274), (''get_mempolicy'', 275),
      (''set_mempolicy'', 276), (''mq_open'', 277), (''mq_unlink'', 278),
      (''mq_timedsend'', 279), (''mq_timedreceive'', 280), (''mq_notify'', 281),
      (''mq_getsetattr'', 282), (''kexec_load'', 283), (''waitid'', 284), (''add_key'', 286),
      (''request_key'', 287), (''keyctl'', 288), (''ioprio_set'', 289), (''ioprio_get'', 290),
      (''inotify_init'', 291), (''inotify_add_watch'', 292), (''inotify_rm_watch'', 293),
      (''migrate_pages'', 294), (''openat'', 295), (''mkdirat'', 296), (''mknodat'', 297),
      (''fchownat'', 298), (''futimesat'', 299)]"

definition i386_syscalls_9 :: "(string \<times> nat) list" where
  "i386_syscalls_9 =
     [(''fstatat64'', 300), (''unlinkat'', 301), (''renameat'', 302), (''linkat'', 303),
      (''symlinkat'', 304), (''readlinkat'', 305), (''fchmodat'', 306), (''faccessat'', 307),
      (''pselect6'', 308), (''ppoll'', 309), (''unshare'', 310), (''set_robust_list'', 311),
      (''get_robust_list'', 312), (''splice'', 313), (''sync_file_range'', 314), (''tee'', 315),
      (''vmsplice'', 316), (''move_pages'', 317), (''getcpu'', 318), (''epoll_pwait'', 319),
      (''utimensat'', 320), (''signalfd'', 321), (''timerfd_create'', 322), (''eventfd'', 323),
      (''fallocate'', 324), (''timerfd_settime'', 325), (''timerfd_gettime'', 326),
      (''signalfd4'', 327), (''eventfd2'', 328), (''epoll_create1'', 329), (''dup3'', 330),
      (''pipe2'', 331), (''inotify_init1'', 332), (''preadv'', 333), (''pwritev'', 334),
      (''rt_tgsigqueueinfo'', 335), (''perf_event_open'', 336)]"

definition i386_syscalls_10 :: "(string \<times> nat) list" where
  "i386_syscalls_10 =
     [(''recvmmsg'', 337), (''fanotify_init'', 338), (''fanotify_mark'', 339),
      (''prlimit64'', 340), (''name_to_handle_at'', 341), (''open_by_handle_at'', 342),
      (''clock_adjtime'', 343), (''syncfs'', 344), (''sendmmsg'', 345), (''setns'', 346),
      (''process_vm_readv'', 347), (''process_vm_writev'', 348), (''kcmp'', 349),
      (''finit_module'', 350), (''sched_setattr'', 351), (''sched_getattr'', 352),
      (''renameat2'', 353), (''seccomp'', 354), (''getrandom'', 355), (''memfd_create'', 356)]"

section \<open>The bases of ARM\<close>

definition NR_SYSCALL_BASE :: nat where "NR_SYSCALL_BASE = 0"
definition ARM_NR_BASE :: nat where "ARM_NR_BASE = NR_SYSCALL_BASE + 0xf0000"

section \<open>ARM EABI\<close>

definition arm_syscalls_1 :: "(string \<times> nat) list" where
  "arm_syscalls_1 =
     [(''restart_syscall'', NR_SYSCALL_BASE + 0), (''exit'', NR_SYSCALL_BASE + 1),
      (''fork'', NR_SYSCALL_BASE + 2), (''read'', NR_SYSCALL_BASE + 3),
      (''write'', NR_SYSCALL_BASE + 4), (''open'', NR_SYSCALL_BASE + 5),
      (''close'', NR_SYSCALL_BASE + 6), (''creat'', NR_SYSCALL_BASE + 8),
      (''link'', NR_SYSCALL_BASE + 9), (''unlink'', NR_SYSCALL_BASE + 10),
      (''execve'', NR_SYSCALL_BASE + 11), (''chdir'', NR_SYSCALL_BASE + 12),
      (''mknod'', NR_SYSCALL_BASE + 14), (''chmod'', NR_SYSCALL_BASE + 15),
      (''lchown'', NR_SYSCALL_BASE + 16), (''lseek'', NR_SYSCALL_BASE + 19),
      (''getpid'', NR_SYSCALL_BASE + 20), (''mount'', NR_SYSCALL_BASE + 21),
      (''setuid'', NR_SYSCALL_BASE + 23), (''getuid'', NR_SYSCALL_BASE + 24),
      (''ptrace'', NR_SYSCALL_BASE + 26), (''pause'', NR_SYSCALL_BASE + 29),
      (''access'', NR_SYSCALL_BASE + 33), (''nice'', NR_SYSCALL_BASE + 34),
      (''sync'', NR_SYSCALL_BASE + 36), (''kill'', NR_SYSCALL_BASE + 37),
      (''rename'', NR_SYSCALL_BASE + 38), (''mkdir'', NR_SYSCALL_BASE + 39),
      (''rmdir'', NR_SYSCALL_BASE + 40), (''dup'', NR_SYSCALL_BASE + 41),
      (''pipe'', NR_SYSCALL_BASE + 42), (''times'', NR_SYSCALL_BASE + 43),
      (''brk'', NR_SYSCALL_BASE + 45), (''setgid'', NR_SYSCALL_BASE + 46),
      (''getgid'', NR_SYSCALL_BASE + 47), (''geteuid'', NR_SYSCALL_BASE + 49),
      (''getegid'', NR_SYSCALL_BASE + 50)]"

definition arm_syscalls_2 :: "(string \<times> nat) list" where
  "arm_syscalls_2 =
     [(''acct'', NR_SYSCALL_BASE + 51), (''umount2'', NR_SYSCALL_BASE + 52),
      (''ioctl'', NR_SYSCALL_BASE + 54), (''fcntl'', NR_SYSCALL_BASE + 55),
      (''setpgid'', NR_SYSCALL_BASE + 57), (''umask'', NR_SYSCALL_BASE + 60),
      (''chroot'', NR_SYSCALL_BASE + 61), (''ustat'', NR_SYSCALL_BASE + 62),
      (''dup2'', NR_SYSCALL_BASE + 63), (''getppid'', NR_SYSCALL_BASE + 64),
      (''getpgrp'', NR_SYSCALL_BASE + 65), (''setsid'', NR_SYSCALL_BASE + 66),
      (''sigaction'', NR_SYSCALL_BASE + 67), (''setreuid'', NR_SYSCALL_BASE + 70),
      (''setregid'', NR_SYSCALL_BASE + 71), (''sigsuspend'', NR_SYSCALL_BASE + 72),
      (''sigpending'', NR_SYSCALL_BASE + 73), (''sethostname'', NR_SYSCALL_BASE + 74),
      (''setrlimit'', NR_SYSCALL_BASE + 75), (''getrusage'', NR_SYSCALL_BASE + 77),
      (''gettimeofday'', NR_SYSCALL_BASE + 78), (''settimeofday'', NR_SYSCALL_BASE + 79),
      (''getgroups'', NR_SYSCALL_BASE + 80), (''setgroups'', NR_SYSCALL_BASE + 81),
      (''symlink'', NR_SYSCALL_BASE + 83), (''readlink'', NR_SYSCALL_BASE + 85),
      (''uselib'', NR_SYSCALL_BASE + 86), (''swapon'', NR_SYSCALL_BASE + 87),
      (''reboot'', NR_SYSCALL_BASE + 88), (''munmap'', NR_SYSCALL_BASE + 91),
      (''truncate'', NR_SYSCALL_BASE + 92), (''ftruncate'', NR_SYSCALL_BASE + 93),
      (''fchmod'', NR_SYSCALL_BASE + 94), (''fchown'', NR_SYSCALL_BASE + 95),
      (''getpriority'', NR_SYSCALL_BASE + 96), (''setpriority'', NR_SYSCALL_BASE + 97),
      (''statfs'', NR_SYSCALL_BASE + 99)]"

definition arm_syscalls_3 :: "(string \<times> nat) list" where
  "arm_syscalls_3 =
     [(''fstatfs'', NR_SYSCALL_BASE + 100), (''syslog'', NR_SYSCALL_BASE + 103),
      (''setitimer'', NR_SYSCALL_BASE + 104), (''getitimer'', NR_SYSCALL_BASE + 105),
      (''stat'', NR_SYSCALL_BASE + 106), (''lstat'', NR_SYSCALL_BASE + 107),
      (''fstat'', NR_SYSCALL_BASE + 108), (''vhangup'', NR_SYSCALL_BASE + 111),
      (''wait4'', NR_SYSCALL_BASE + 114), (''swapoff'', NR_SYSCALL_BASE + 115),
      (''sysinfo'', NR_SYSCALL_BASE + 116), (''fsync'', NR_SYSCALL_BASE + 118),
      (''sigreturn'', NR_SYSCALL_BASE + 119), (''clone'', NR_SYSCALL_BASE + 120),
      (''setdomainname'', NR_SYSCALL_BASE + 121), (''uname'', NR_SYSCALL_BASE + 122),
      (''adjtimex'', NR_SYSCALL_BASE + 124), (''mprotect'', NR_SYSCALL_BASE + 125),
      (''sigprocmask'', NR_SYSCALL_BASE + 126), (''init_module'', NR_SYSCALL_BASE + 128),
      (''delete_module'', NR_SYSCALL_BASE + 129), (''quotactl'', NR_SYSCALL_BASE + 131),
      (''getpgid'', NR_SYSCALL_BASE + 132), (''fchdir'', NR_SYSCALL_BASE + 133),
      (''bdflush'', NR_SYSCALL_BASE + 134), (''sysfs'', NR_SYSCALL_BASE + 135),
      (''personality'', NR_SYSCALL_BASE + 136), (''setfsuid'', NR_SYSCALL_BASE + 138),
      (''setfsgid'', NR_SYSCALL_BASE + 139), (''_llseek'', NR_SYSCALL_BASE + 140),
      (''getdents'', NR_SYSCALL_BASE + 141), (''_newselect'', NR_SYSCALL_BASE + 142),
      (''flock'', NR_SYSCALL_BASE + 143), (''msync'', NR_SYSCALL_BASE + 144),
      (''readv'', NR_SYSCALL_BASE + 145), (''writev'', NR_SYSCALL_BASE + 146),
      (''getsid'', NR_SYSCALL_BASE + 147)]"

definition arm_syscalls_4 :: "(string \<times> nat) list" where
  "arm_syscalls_4 =
     [(''fdatasync'', NR_SYSCALL_BASE + 148), (''_sysctl'', NR_SYSCALL_BASE + 149),
      (''mlock'', NR_SYSCALL_BASE + 150), (''munlock'', NR_SYSCALL_BASE + 151),
      (''mlockall'', NR_SYSCALL_BASE + 152), (''munlockall'', NR_SYSCALL_BASE + 153),
      (''sched_setparam'', NR_SYSCALL_BASE + 154), (''sched_getparam'', NR_SYSCALL_BASE + 155),
      (''sched_setscheduler'', NR_SYSCALL_BASE + 156),
      (''sched_getscheduler'', NR_SYSCALL_BASE + 157), (''sched_yield'', NR_SYSCALL_BASE + 158),
      (''sched_get_priority_max'', NR_SYSCALL_BASE + 159),
      (''sched_get_priority_min'', NR_SYSCALL_BASE + 160),
      (''sched_rr_get_interval'', NR_SYSCALL_BASE + 161), (''nanosleep'', NR_SYSCALL_BASE + 162),
      (''mremap'', NR_SYSCALL_BASE + 163), (''setresuid'', NR_SYSCALL_BASE + 164),
      (''getresuid'', NR_SYSCALL_BASE + 165), (''poll'', NR_SYSCALL_BASE + 168),
      (''nfsservctl'', NR_SYSCALL_BASE + 169), (''setresgid'', NR_SYSCALL_BASE + 170),
      (''getresgid'', NR_SYSCALL_BASE + 171), (''prctl'', NR_SYSCALL_BASE + 172),
      (''rt_sigreturn'', NR_SYSCALL_BASE + 173), (''rt_sigaction'', NR_SYSCALL_BASE + 174),
      (''rt_sigprocmask'', NR_SYSCALL_BASE + 175), (''rt_sigpending'', NR_SYSCALL_BASE + 176),
      (''rt_sigtimedwait'', NR_SYSCALL_BASE + 177), (''rt_sigqueueinfo'', NR_SYSCALL_BASE + 178),
      (''rt_sigsuspend'', NR_SYSCALL_BASE + 179), (''pread64'', NR_SYSCALL_BASE + 180),
      (''pwrite64'', NR_SYSCALL_BASE + 181), (''chown'', NR_SYSCALL_BASE + 182),
      (''getcwd'', NR_SYSCALL_BASE + 183), (''capget'', NR_SYSCALL_BASE + 184),
      (''capset'', NR_SYSCALL_BASE + 185), (''sigaltstack'', NR_SYSCALL_BASE + 186)]"

definition arm_syscalls_5 :: "(string \<times> nat) list" where
  "arm_syscalls_5 =
     [(''sendfile'', NR_SYSCALL_BASE + 187), (''vfork'', NR_SYSCALL_BASE + 190),
      (''ugetrlimit'', NR_SYSCALL_BASE + 191), (''mmap2'', NR_SYSCALL_BASE + 192),
      (''truncate64'', NR_SYSCALL_BASE + 193), (''ftruncate64'', NR_SYSCALL_BASE + 194),
      (''stat64'', NR_SYSCALL_BASE + 195), (''lstat64'', NR_SYSCALL_BASE + 196),
      (''fstat64'', NR_SYSCALL_BASE + 197), (''lchown32'', NR_SYSCALL_BASE + 198),
      (''getuid32'', NR_SYSCALL_BASE + 199), (''getgid32'', NR_SYSCALL_BASE + 200),
      (''geteuid32'', NR_SYSCALL_BASE + 201), (''getegid32'', NR_SYSCALL_BASE + 202),
      (''setreuid32'', NR_SYSCALL_BASE + 203), (''setregid32'', NR_SYSCALL_BASE + 204),
      (''getgroups32'', NR_SYSCALL_BASE + 205), (''setgroups32'', NR_SYSCALL_BASE + 206),
      (''fchown32'', NR_SYSCALL_BASE + 207), (''setresuid32'', NR_SYSCALL_BASE + 208),
      (''getresuid32'', NR_SYSCALL_BASE + 209), (''setresgid32'', NR_SYSCALL_BASE + 210),
      (''getresgid32'', NR_SYSCALL_BASE + 211), (''chown32'', NR_SYSCALL_BASE + 212),
      (''setuid32'', NR_SYSCALL_BASE + 213), (''setgid32'', NR_SYSCALL_BASE + 214),
      (''setfsuid32'', NR_SYSCALL_BASE + 215), (''setfsgid32'', NR_SYSCALL_BASE + 216),
      (''getdents64'', NR_SYSCALL_BASE + 217), (''pivot_root'', NR_SYSCALL_BASE + 218),
      (''mincore'', NR_SYSCALL_BASE + 219), (''madvise'', NR_SYSCALL_BASE + 220),
      (''fcntl64'', NR_SYSCALL_BASE + 221), (''gettid'', NR_SYSCALL_BASE + 224),
      (''readahead'', NR_SYSCALL_BASE + 225), (''setxattr'', NR_SYSCALL_BASE + 226),
      (''lsetxattr'', NR_SYSCALL_BASE + 227)]"

definition arm_syscalls_6 :: "(string \<times> nat) list" where
  "arm_syscalls_6 =
     [(''fsetxattr'', NR_SYSCALL_BASE + 228), (''getxattr'', NR_SYSCALL_BASE + 229),
      (''lgetxattr'', NR_SYSCALL_BASE + 230), (''fgetxattr'', NR_SYSCALL_BASE + 231),
      (''listxattr'', NR_SYSCALL_BASE + 232), (''llistxattr'', NR_SYSCALL_BASE + 233),
      (''flistxattr'', NR_SYSCALL_BASE + 234), (''removexattr'', NR_SYSCALL_BASE + 235),
      (''lremovexattr'', NR_SYSCALL_BASE + 236), (''fremovexattr'', NR_SYSCALL_BASE + 237),
      (''tkill'', NR_SYSCALL_BASE + 238), (''sendfile64'', NR_SYSCALL_BASE + 239),
      (''futex'', NR_SYSCALL_BASE + 240), (''sched_setaffinity'', NR_SYSCALL_BASE + 241),
      (''sched_getaffinity'', NR_SYSCALL_BASE + 242), (''io_setup'', NR_SYSCALL_BASE + 243),
      (''io_destroy'', NR_SYSCALL_BASE + 244), (''io_getevents'', NR_SYSCALL_BASE + 245),
      (''io_submit'', NR_SYSCALL_BASE + 246), (''io_cancel'', NR_SYSCALL_BASE + 247),
      (''exit_group'', NR_SYSCALL_BASE + 248), (''lookup_dcookie'', NR_SYSCALL_BASE + 249),
      (''epoll_create'', NR_SYSCALL_BASE + 250), (''epoll_ctl'', NR_SYSCALL_BASE + 251),
      (''epoll_wait'', NR_SYSCALL_BASE + 252), (''remap_file_pages'', NR_SYSCALL_BASE + 253),
      (''set_tid_address'', NR_SYSCALL_BASE + 256), (''timer_create'', NR_SYSCALL_BASE + 257),
      (''timer_settime'', NR_SYSCALL_BASE + 258), (''timer_gettime'', NR_SYSCALL_BASE + 259),
      (''timer_getoverrun'', NR_SYSCALL_BASE + 260), (''timer_delete'', NR_SYSCALL_BASE + 261),
      (''clock_settime'', NR_SYSCALL_BASE + 262), (''clock_gettime'', NR_SYSCALL_BASE + 263),
      (''clock_getres'', NR_SYSCALL_BASE + 264), (''clock_nanosleep'', NR_SYSCALL_BASE + 265),
      (''statfs64'', NR_SYSCALL_BASE + 266)]"

definition arm_syscalls_7 :: "(string \<times> nat) list" where
  "arm_syscalls_7 =
     [(''fstatfs64'', NR_SYSCALL_BASE + 267), (''tgkill'', NR_SYSCALL_BASE + 268),
      (''utimes'', NR_SYSCALL_BASE + 269), (''arm_fadvise64_64'', NR_SYSCALL_BASE + 270),
      (''pciconfig_iobase'', NR_SYSCALL_BASE + 271), (''pciconfig_read'', NR_SYSCALL_BASE + 272),
      (''pciconfig_write'', NR_SYSCALL_BASE + 273), (''mq_open'', NR_SYSCALL_BASE + 274),
      (''mq_unlink'', NR_SYSCALL_BASE + 275), (''mq_timedsend'', NR_SYSCALL_BASE + 276),
      (''mq_timedreceive'', NR_SYSCALL_BASE + 277), (''mq_notify'', NR_SYSCALL_BASE + 278),
      (''mq_getsetattr'', NR_SYSCALL_BASE + 279), (''waitid'', NR_SYSCALL_BASE + 280),
      (''socket'', NR_SYSCALL_BASE + 281), (''bind'', NR_SYSCALL_BASE + 282),
      (''connect'', NR_SYSCALL_BASE + 283), (''listen'', NR_SYSCALL_BASE + 284),
      (''accept'', NR_SYSCALL_BASE + 285), (''getsockname'', NR_SYSCALL_BASE + 286),
      (''getpeername'', NR_SYSCALL_BASE + 287), (''socketpair'', NR_SYSCALL_BASE + 288),
      (''send'', NR_SYSCALL_BASE + 289), (''sendto'', NR_SYSCALL_BASE + 290),
      (''recv'', NR_SYSCALL_BASE + 291), (''recvfrom'', NR_SYSCALL_BASE + 292),
      (''shutdown'', NR_SYSCALL_BASE + 293), (''setsockopt'', NR_SYSCALL_BASE + 294),
      (''getsockopt'', NR_SYSCALL_BASE + 295), (''sendmsg'', NR_SYSCALL_BASE + 296),
      (''recvmsg'', NR_SYSCALL_BASE + 297), (''semop'', NR_SYSCALL_BASE + 298),
      (''semget'', NR_SYSCALL_BASE + 299), (''semctl'', NR_SYSCALL_BASE + 300),
      (''msgsnd'', NR_SYSCALL_BASE + 301), (''msgrcv'', NR_SYSCALL_BASE + 302),
      (''msgget'', NR_SYSCALL_BASE + 303)]"

definition arm_syscalls_8 :: "(string \<times> nat) list" where
  "arm_syscalls_8 =
     [(''msgctl'', NR_SYSCALL_BASE + 304), (''shmat'', NR_SYSCALL_BASE + 305),
      (''shmdt'', NR_SYSCALL_BASE + 306), (''shmget'', NR_SYSCALL_BASE + 307),
      (''shmctl'', NR_SYSCALL_BASE + 308), (''add_key'', NR_SYSCALL_BASE + 309),
      (''request_key'', NR_SYSCALL_BASE + 310), (''keyctl'', NR_SYSCALL_BASE + 311),
      (''semtimedop'', NR_SYSCALL_BASE + 312), (''vserver'', NR_SYSCALL_BASE + 313),
      (''ioprio_set'', NR_SYSCALL_BASE + 314), (''ioprio_get'', NR_SYSCALL_BASE + 315),
      (''inotify_init'', NR_SYSCALL_BASE + 316), (''inotify_add_watch'', NR_SYSCALL_BASE + 317),
      (''inotify_rm_watch'', NR_SYSCALL_BASE + 318), (''mbind'', NR_SYSCALL_BASE + 319),
      (''get_mempolicy'', NR_SYSCALL_BASE + 320), (''set_mempolicy'', NR_SYSCALL_BASE + 321),
      (''openat'', NR_SYSCALL_BASE + 322), (''mkdirat'', NR_SYSCALL_BASE + 323),
      (''mknodat'', NR_SYSCALL_BASE + 324), (''fchownat'', NR_SYSCALL_BASE + 325),
      (''futimesat'', NR_SYSCALL_BASE + 326), (''fstatat64'', NR_SYSCALL_BASE + 327),
      (''unlinkat'', NR_SYSCALL_BASE + 328), (''renameat'', NR_SYSCALL_BASE + 329),
      (''linkat'', NR_SYSCALL_BASE + 330), (''symlinkat'', NR_SYSCALL_BASE + 331),
      (''readlinkat'', NR_SYSCALL_BASE + 332), (''fchmodat'', NR_SYSCALL_BASE + 333),
      (''faccessat'', NR_SYSCALL_BASE + 334), (''pselect6'', NR_SYSCALL_BASE + 335),
      (''ppoll'', NR_SYSCALL_BASE + 336), (''unshare'', NR_SYSCALL_BASE + 337),
      (''set_robust_list'', NR_SYSCALL_BASE + 338), (''get_robust_list'', NR_SYSCALL_BASE + 339),
      (''splice'', NR_SYSCALL_BASE + 340)]"

definition arm_syscalls_9 :: "(string \<times> nat) list" where
  "arm_syscalls_9 =
     [(''arm_sync_file_range'', NR_SYSCALL_BASE + 341),
      (''sync_file_range2'', NR_SYSCALL_BASE + 341), (''tee'', NR_SYSCALL_BASE + 342),
      (''vmsplice'', NR_SYSCALL_BASE + 343), (''move_pages'', NR_SYSCALL_BASE + 344),
      (''getcpu'', NR_SYSCALL_BASE + 345), (''epoll_pwait'', NR_SYSCALL_BASE + 346),
      (''kexec_load'', NR_SYSCALL_BASE + 347), (''utimensat'', NR_SYSCALL_BASE + 348),
      (''signalfd'', NR_SYSCALL_BASE + 349), (''timerfd_create'', NR_SYSCALL_BASE + 350),
      (''eventfd'', NR_SYSCALL_BASE + 351), (''fallocate'', NR_SYSCALL_BASE + 352),
      (''timerfd_settime'', NR_SYSCALL_BASE + 353), (''timerfd_gettime'', NR_SYSCALL_BASE + 354),
      (''signalfd4'', NR_SYSCALL_BASE + 355), (''eventfd2'', NR_SYSCALL_BASE + 356),
      (''epoll_create1'', NR_SYSCALL_BASE + 357), (''dup3'', NR_SYSCALL_BASE + 358),
      (''pipe2'', NR_SYSCALL_BASE + 359), (''inotify_init1'', NR_SYSCALL_BASE + 360),
      (''preadv'', NR_SYSCALL_BASE + 361), (''pwritev'', NR_SYSCALL_BASE + 362),
      (''rt_tgsigqueueinfo'', NR_SYSCALL_BASE + 363),
      (''perf_event_open'', NR_SYSCALL_BASE + 364), (''recvmmsg'', NR_SYSCALL_BASE + 365),
      (''accept4'', NR_SYSCALL_BASE + 366), (''fanotify_init'', NR_SYSCALL_BASE + 367),
      (''fanotify_mark'', NR_SYSCALL_BASE + 368), (''prlimit64'', NR_SYSCALL_BASE + 369),
      (''name_to_handle_at'', NR_SYSCALL_BASE + 370),
      (''open_by_handle_at'', NR_SYSCALL_BASE + 371), (''clock_adjtime'', NR_SYSCALL_BASE + 372),
      (''syncfs'', NR_SYSCALL_BASE + 373), (''sendmmsg'', NR_SYSCALL_BASE + 374),
      (''setns'', NR_SYSCALL_BASE + 375), (''process_vm_readv'', NR_SYSCALL_BASE + 376)]"

definition arm_syscalls_10 :: "(string \<times> nat) list" where
  "arm_syscalls_10 =
     [(''process_vm_writev'', NR_SYSCALL_BASE + 377), (''kcmp'', NR_SYSCALL_BASE + 378),
      (''finit_module'', NR_SYSCALL_BASE + 379), (''sched_setattr'', NR_SYSCALL_BASE + 380),
      (''sched_getattr'', NR_SYSCALL_BASE + 381), (''renameat2'', NR_SYSCALL_BASE + 382),
      (''seccomp'', NR_SYSCALL_BASE + 383), (''getrandom'', NR_SYSCALL_BASE + 384),
      (''memfd_create'', NR_SYSCALL_BASE + 385), (''ARM_NR_breakpoint'', ARM_NR_BASE + 1),
      (''ARM_NR_cacheflush'', ARM_NR_BASE + 2), (''ARM_NR_usr26'', ARM_NR_BASE + 3),
      (''ARM_NR_usr32'', ARM_NR_BASE + 4), (''ARM_NR_set_tls'', ARM_NR_BASE + 5),
      (''ARM_NR_cmpxchg'', ARM_NR_BASE + 0x00fff0)]"

section \<open>arm64\<close>

definition arm64_syscalls_1 :: "(string \<times> nat) list" where
  "arm64_syscalls_1 =
     [(''io_setup'', 0), (''io_destroy'', 1), (''io_submit'', 2), (''io_cancel'', 3),
      (''io_getevents'', 4), (''setxattr'', 5), (''lsetxattr'', 6), (''fsetxattr'', 7),
      (''getxattr'', 8), (''lgetxattr'', 9), (''fgetxattr'', 10), (''listxattr'', 11),
      (''llistxattr'', 12), (''flistxattr'', 13), (''removexattr'', 14), (''lremovexattr'', 15),
      (''fremovexattr'', 16), (''getcwd'', 17), (''lookup_dcookie'', 18), (''eventfd2'', 19),
      (''epoll_create1'', 20), (''epoll_ctl'', 21), (''epoll_pwait'', 22), (''dup'', 23),
      (''dup3'', 24), (''fcntl'', 25), (''inotify_init1'', 26), (''inotify_add_watch'', 27),
      (''inotify_rm_watch'', 28), (''ioctl'', 29), (''ioprio_set'', 30), (''ioprio_get'', 31),
      (''flock'', 32), (''mknodat'', 33), (''mkdirat'', 34), (''unlinkat'', 35),
      (''symlinkat'', 36)]"

definition arm64_syscalls_2 :: "(string \<times> nat) list" where
  "arm64_syscalls_2 =
     [(''linkat'', 37), (''renameat'', 38), (''umount2'', 39), (''mount'', 40),
      (''pivot_root'', 41), (''nfsservctl'', 42), (''statfs'', 43), (''fstatfs'', 44),
      (''truncate'', 45), (''ftruncate'', 46), (''fallocate'', 47), (''faccessat'', 48),
      (''chdir'', 49), (''fchdir'', 50), (''chroot'', 51), (''fchmod'', 52), (''fchmodat'', 53),
      (''fchownat'', 54), (''fchown'', 55), (''openat'', 56), (''close'', 57), (''vhangup'', 58),
      (''pipe2'', 59), (''quotactl'', 60), (''getdents64'', 61), (''lseek'', 62), (''read'', 63),
      (''write'', 64), (''readv'', 65), (''writev'', 66), (''pread64'', 67), (''pwrite64'', 68),
      (''preadv'', 69), (''pwritev'', 70), (''sendfile'', 71), (''pselect6'', 72),
      (''ppoll'', 73)]"

definition arm64_syscalls_3 :: "(string \<times> nat) list" where
  "arm64_syscalls_3 =
     [(''signalfd4'', 74), (''vmsplice'', 75), (''splice'', 76), (''tee'', 77),
      (''readlinkat'', 78), (''newfstatat'', 79), (''fstat'', 80), (''sync'', 81),
      (''fsync'', 82), (''fdatasync'', 83), (''sync_file_range'', 84), (''timerfd_create'', 85),
      (''timerfd_settime'', 86), (''timerfd_gettime'', 87), (''utimensat'', 88), (''acct'', 89),
      (''capget'', 90), (''capset'', 91), (''personality'', 92), (''exit'', 93),
      (''exit_group'', 94), (''waitid'', 95), (''set_tid_address'', 96), (''unshare'', 97),
      (''futex'', 98), (''set_robust_list'', 99), (''get_robust_list'', 100),
      (''nanosleep'', 101), (''getitimer'', 102), (''setitimer'', 103), (''kexec_load'', 104),
      (''init_module'', 105), (''delete_module'', 106), (''timer_create'', 107),
      (''timer_gettime'', 108), (''timer_getoverrun'', 109), (''timer_settime'', 110)]"

definition arm64_syscalls_4 :: "(string \<times> nat) list" where
  "arm64_syscalls_4 =
     [(''timer_delete'', 111), (''clock_settime'', 112), (''clock_gettime'', 113),
      (''clock_getres'', 114), (''clock_nanosleep'', 115), (''syslog'', 116), (''ptrace'', 117),
      (''sched_setparam'', 118), (''sched_setscheduler'', 119), (''sched_getscheduler'', 120),
      (''sched_getparam'', 121), (''sched_setaffinity'', 122), (''sched_getaffinity'', 123),
      (''sched_yield'', 124), (''sched_get_priority_max'', 125),
      (''sched_get_priority_min'', 126), (''sched_rr_get_interval'', 127),
      (''restart_syscall'', 128), (''kill'', 129), (''tkill'', 130), (''tgkill'', 131),
      (''sigaltstack'', 132), (''rt_sigsuspend'', 133), (''rt_sigaction'', 134),
      (''rt_sigprocmask'', 135), (''rt_sigpending'', 136), (''rt_sigtimedwait'', 137),
      (''rt_sigqueueinfo'', 138), (''rt_sigreturn'', 139), (''setpriority'', 140),
      (''getpriority'', 141), (''reboot'', 142), (''setregid'', 143), (''setgid'', 144),
      (''setreuid'', 145), (''setuid'', 146), (''setresuid'', 147)]"

definition arm64_syscalls_5 :: "(string \<times> nat) list" where
  "arm64_syscalls_5 =
     [(''getresuid'', 148), (''setresgid'', 149), (''getresgid'', 150), (''setfsuid'', 151),
      (''setfsgid'', 152), (''times'', 153), (''setpgid'', 154), (''getpgid'', 155),
      (''getsid'', 156), (''setsid'', 157), (''getgroups'', 158), (''setgroups'', 159),
      (''uname'', 160), (''sethostname'', 161), (''setdomainname'', 162), (''getrlimit'', 163),
      (''setrlimit'', 164), (''getrusage'', 165), (''umask'', 166), (''prctl'', 167),
      (''getcpu'', 168), (''gettimeofday'', 169), (''settimeofday'', 170), (''adjtimex'', 171),
      (''getpid'', 172), (''getppid'', 173), (''getuid'', 174), (''geteuid'', 175),
      (''getgid'', 176), (''getegid'', 177), (''gettid'', 178), (''sysinfo'', 179),
      (''mq_open'', 180), (''mq_unlink'', 181), (''mq_timedsend'', 182),
      (''mq_timedreceive'', 183), (''mq_notify'', 184)]"

definition arm64_syscalls_6 :: "(string \<times> nat) list" where
  "arm64_syscalls_6 =
     [(''mq_getsetattr'', 185), (''msgget'', 186), (''msgctl'', 187), (''msgrcv'', 188),
      (''msgsnd'', 189), (''semget'', 190), (''semctl'', 191), (''semtimedop'', 192),
      (''semop'', 193), (''shmget'', 194), (''shmctl'', 195), (''shmat'', 196), (''shmdt'', 197),
      (''socket'', 198), (''socketpair'', 199), (''bind'', 200), (''listen'', 201),
      (''accept'', 202), (''connect'', 203), (''getsockname'', 204), (''getpeername'', 205),
      (''sendto'', 206), (''recvfrom'', 207), (''setsockopt'', 208), (''getsockopt'', 209),
      (''shutdown'', 210), (''sendmsg'', 211), (''recvmsg'', 212), (''readahead'', 213),
      (''brk'', 214), (''munmap'', 215), (''mremap'', 216), (''add_key'', 217),
      (''request_key'', 218), (''keyctl'', 219), (''clone'', 220), (''execve'', 221)]"

definition arm64_syscalls_7 :: "(string \<times> nat) list" where
  "arm64_syscalls_7 =
     [(''mmap'', 222), (''fadvise64'', 223), (''swapon'', 224), (''swapoff'', 225),
      (''mprotect'', 226), (''msync'', 227), (''mlock'', 228), (''munlock'', 229),
      (''mlockall'', 230), (''munlockall'', 231), (''mincore'', 232), (''madvise'', 233),
      (''remap_file_pages'', 234), (''mbind'', 235), (''get_mempolicy'', 236),
      (''set_mempolicy'', 237), (''migrate_pages'', 238), (''move_pages'', 239),
      (''rt_tgsigqueueinfo'', 240), (''perf_event_open'', 241), (''accept4'', 242),
      (''recvmmsg'', 243), (''wait4'', 260), (''prlimit64'', 261), (''fanotify_init'', 262),
      (''fanotify_mark'', 263), (''name_to_handle_at'', 264), (''open_by_handle_at'', 265),
      (''clock_adjtime'', 266), (''syncfs'', 267), (''setns'', 268), (''sendmmsg'', 269),
      (''process_vm_readv'', 270), (''process_vm_writev'', 271), (''kcmp'', 272),
      (''finit_module'', 273), (''sched_setattr'', 274)]"

definition arm64_syscalls_8 :: "(string \<times> nat) list" where
  "arm64_syscalls_8 =
     [(''sched_getattr'', 275), (''renameat2'', 276), (''seccomp'', 277), (''getrandom'', 278)]"

section \<open>The tables of the builds\<close>

text \<open>
  The number headers define a number where the C library has not.  An x32 build has no table: its
  numbers are those of the C library, which have bit 30 set, and the header's are not in effect.
\<close>

fun syscall_table :: "arch \<Rightarrow> (string \<times> nat) list" where
  "syscall_table X86_64 = 
     x86_64_syscalls_1 @ x86_64_syscalls_2 @ x86_64_syscalls_3 @ x86_64_syscalls_4 @
     x86_64_syscalls_5 @ x86_64_syscalls_6 @ x86_64_syscalls_7 @ x86_64_syscalls_8 @
     x86_64_syscalls_9"
| "syscall_table I386 = 
     i386_syscalls_1 @ i386_syscalls_2 @ i386_syscalls_3 @ i386_syscalls_4 @
     i386_syscalls_5 @ i386_syscalls_6 @ i386_syscalls_7 @ i386_syscalls_8 @
     i386_syscalls_9 @ i386_syscalls_10"
| "syscall_table ARM = 
     arm_syscalls_1 @ arm_syscalls_2 @ arm_syscalls_3 @ arm_syscalls_4 @
     arm_syscalls_5 @ arm_syscalls_6 @ arm_syscalls_7 @ arm_syscalls_8 @
     arm_syscalls_9 @ arm_syscalls_10"
| "syscall_table AARCH64 = 
     arm64_syscalls_1 @ arm64_syscalls_2 @ arm64_syscalls_3 @ arm64_syscalls_4 @
     arm64_syscalls_5 @ arm64_syscalls_6 @ arm64_syscalls_7 @ arm64_syscalls_8"

lemmas x86_64_tables = x86_64_syscalls_1_def
  x86_64_syscalls_2_def
  x86_64_syscalls_3_def
  x86_64_syscalls_4_def
  x86_64_syscalls_5_def
  x86_64_syscalls_6_def
  x86_64_syscalls_7_def
  x86_64_syscalls_8_def
  x86_64_syscalls_9_def
lemmas i386_tables = i386_syscalls_1_def
  i386_syscalls_2_def
  i386_syscalls_3_def
  i386_syscalls_4_def
  i386_syscalls_5_def
  i386_syscalls_6_def
  i386_syscalls_7_def
  i386_syscalls_8_def
  i386_syscalls_9_def
  i386_syscalls_10_def
lemmas arm_tables = arm_syscalls_1_def
  arm_syscalls_2_def
  arm_syscalls_3_def
  arm_syscalls_4_def
  arm_syscalls_5_def
  arm_syscalls_6_def
  arm_syscalls_7_def
  arm_syscalls_8_def
  arm_syscalls_9_def
  arm_syscalls_10_def
lemmas arm64_tables = arm64_syscalls_1_def
  arm64_syscalls_2_def
  arm64_syscalls_3_def
  arm64_syscalls_4_def
  arm64_syscalls_5_def
  arm64_syscalls_6_def
  arm64_syscalls_7_def
  arm64_syscalls_8_def

lemmas arm_bases = ARM_NR_BASE_def NR_SYSCALL_BASE_def

section \<open>Numbers ascend and lie in the valid ranges\<close>

lemma ascending_sorted:
  "successively (<) (ns :: nat list) \<Longrightarrow> sorted_wrt (<) ns" "successively (\<le>) ns \<Longrightarrow> sorted ns"
  by (simp_all add: successively_conv_sorted_wrt)

lemma ascending_x86_64: "sorted_wrt (<) (map snd (syscall_table X86_64))"
  by (rule ascending_sorted) (simp add: x86_64_tables nr_defs)

lemma ascending_i386: "sorted_wrt (<) (map snd (syscall_table I386))"
  by (rule ascending_sorted) (simp add: i386_tables)

lemma ascending_arm: "sorted (map snd (syscall_table ARM))"
  by (rule ascending_sorted) (simp add: arm_tables arm_bases)

lemma ascending_arm64: "sorted_wrt (<) (map snd (syscall_table AARCH64))"
  by (rule ascending_sorted) (simp add: arm64_tables)

lemma valid_numbers:
  "list_all (\<lambda>(name, nr). SyscallSet_IsValid X86_64 nr) (syscall_table X86_64)"
  "list_all (\<lambda>(name, nr). SyscallSet_IsValid I386 nr) (syscall_table I386)"
  "list_all (\<lambda>(name, nr). SyscallSet_IsValid ARM nr) (syscall_table ARM)"
  "list_all (\<lambda>(name, nr). SyscallSet_IsValid AARCH64 nr) (syscall_table AARCH64)"
  by (simp_all add: IsValid_simps x86_64_tables nr_defs i386_tables arm_tables arm_bases arm64_tables)

declare syscall_table.simps [simp del]

lemma syscall_numbers_valid:
  "a \<noteq> X32 \<Longrightarrow> list_all (\<lambda>(name, nr). SyscallSet_IsValid a nr) (syscall_table a) \<and>
   sorted_wrt (if a = ARM then (\<le>) else (<)) (map snd (syscall_table a))"
  by (cases a) (simp_all add: valid_numbers ascending_x86_64 ascending_i386 ascending_arm ascending_arm64)

end
