(* ===== verification/SyscallSets.thy ===== *)
theory SyscallSets
  imports SyscallNumbers "HOL-Library.Multiset"
begin

text \<open>
  sandbox/linux/seccomp-bpf-helpers/syscall_sets.cc, for the x86-64 build: each predicate is a switch
  over the system call number, with the labels that return true and those that fall to the default,
  which returns false.  The file's comment says that the sets so listed partition the system calls;
  that is proved here.
\<close>

text \<open>A switch whose first labels return true; the others and the default return false.\<close>

definition switch_true :: "int list \<times> int list \<Rightarrow> int \<Rightarrow> bool" where
  "switch_true labels sysno \<longleftrightarrow> sysno \<in> set (fst labels)"

named_theorems switch_defs \<open>the label lists of the switches\<close>

definition IsKill_cases :: "int list \<times> int list" where [switch_defs]:
  "IsKill_cases =
    ([NR_kill, NR_tgkill, NR_tkill],
     [])"

definition IsKill :: "int \<Rightarrow> bool" where
  "IsKill sysno = switch_true IsKill_cases sysno"

definition IsAllowedGettime_cases :: "int list \<times> int list" where [switch_defs]:
  "IsAllowedGettime_cases =
    ([NR_gettimeofday, NR_time],
     [NR_adjtimex, NR_clock_adjtime, NR_clock_getres, NR_clock_gettime, NR_clock_nanosleep,
      NR_clock_settime, NR_settimeofday])"

definition IsAllowedGettime :: "int \<Rightarrow> bool" where
  "IsAllowedGettime sysno = switch_true IsAllowedGettime_cases sysno"

definition IsCurrentDirectory_cases :: "int list \<times> int list" where [switch_defs]:
  "IsCurrentDirectory_cases =
    ([NR_getcwd, NR_chdir, NR_fchdir],
     [])"

definition IsCurrentDirectory :: "int \<Rightarrow> bool" where
  "IsCurrentDirectory sysno = switch_true IsCurrentDirectory_cases sysno"

definition IsUmask_cases :: "int list \<times> int list" where [switch_defs]:
  "IsUmask_cases =
    ([NR_umask],
     [])"

definition IsUmask :: "int \<Rightarrow> bool" where
  "IsUmask sysno = switch_true IsUmask_cases sysno"

definition IsFileSystem_cases :: "int list \<times> int list" where [switch_defs]:
  "IsFileSystem_cases =
    ([NR_access, NR_chmod, NR_chown, NR_creat, NR_futimesat, NR_lchown, NR_link, NR_lstat,
      NR_mkdir, NR_mknod, NR_open, NR_readlink, NR_rename, NR_rmdir, NR_stat, NR_symlink,
      NR_unlink, NR_uselib, NR_ustat, NR_utimes, NR_execve, NR_faccessat, NR_fchmodat,
      NR_fchownat, NR_newfstatat, NR_linkat, NR_lookup_dcookie, NR_memfd_create, NR_mkdirat,
      NR_mknodat, NR_openat, NR_readlinkat, NR_renameat, NR_renameat2, NR_statfs, NR_symlinkat,
      NR_truncate, NR_unlinkat, NR_utime, NR_utimensat],
     [])"

definition IsFileSystem :: "int \<Rightarrow> bool" where
  "IsFileSystem sysno = switch_true IsFileSystem_cases sysno"

definition IsAllowedFileSystemAccessViaFd_cases :: "int list \<times> int list" where [switch_defs]:
  "IsAllowedFileSystemAccessViaFd_cases =
    ([NR_fstat],
     [NR_fadvise64, NR_fdatasync, NR_flock, NR_fstatfs, NR_fsync, NR_sync_file_range])"

definition IsAllowedFileSystemAccessViaFd :: "int \<Rightarrow> bool" where
  "IsAllowedFileSystemAccessViaFd sysno = switch_true IsAllowedFileSystemAccessViaFd_cases sysno"

definition IsDeniedFileSystemAccessViaFd_cases :: "int list \<times> int list" where [switch_defs]:
  "IsDeniedFileSystemAccessViaFd_cases =
    ([NR_fallocate, NR_fchmod, NR_fchown, NR_ftruncate, NR_getdents, NR_getdents64],
     [])"

definition IsDeniedFileSystemAccessViaFd :: "int \<Rightarrow> bool" where
  "IsDeniedFileSystemAccessViaFd sysno = switch_true IsDeniedFileSystemAccessViaFd_cases sysno"

definition IsGetSimpleId_cases :: "int list \<times> int list" where [switch_defs]:
  "IsGetSimpleId_cases =
    ([NR_capget, NR_getegid, NR_geteuid, NR_getgid, NR_getgroups, NR_getpid, NR_getppid,
      NR_getresgid, NR_getsid, NR_gettid, NR_getuid, NR_getresuid],
     [])"

definition IsGetSimpleId :: "int \<Rightarrow> bool" where
  "IsGetSimpleId sysno = switch_true IsGetSimpleId_cases sysno"

definition IsProcessPrivilegeChange_cases :: "int list \<times> int list" where [switch_defs]:
  "IsProcessPrivilegeChange_cases =
    ([NR_capset, NR_ioperm, NR_iopl, NR_setfsgid, NR_setfsuid, NR_setgid, NR_setgroups,
      NR_setregid, NR_setresgid, NR_setresuid, NR_setreuid, NR_setuid],
     [])"

definition IsProcessPrivilegeChange :: "int \<Rightarrow> bool" where
  "IsProcessPrivilegeChange sysno = switch_true IsProcessPrivilegeChange_cases sysno"

definition IsProcessGroupOrSession_cases :: "int list \<times> int list" where [switch_defs]:
  "IsProcessGroupOrSession_cases =
    ([NR_setpgid, NR_getpgrp, NR_setsid, NR_getpgid],
     [])"

definition IsProcessGroupOrSession :: "int \<Rightarrow> bool" where
  "IsProcessGroupOrSession sysno = switch_true IsProcessGroupOrSession_cases sysno"

definition IsAllowedSignalHandling_cases :: "int list \<times> int list" where [switch_defs]:
  "IsAllowedSignalHandling_cases =
    ([NR_rt_sigaction, NR_rt_sigprocmask, NR_rt_sigreturn],
     [NR_rt_sigpending, NR_rt_sigqueueinfo, NR_rt_sigsuspend, NR_rt_sigtimedwait,
      NR_rt_tgsigqueueinfo, NR_sigaltstack, NR_signalfd, NR_signalfd4])"

definition IsAllowedSignalHandling :: "int \<Rightarrow> bool" where
  "IsAllowedSignalHandling sysno = switch_true IsAllowedSignalHandling_cases sysno"

definition IsAllowedOperationOnFd_cases :: "int list \<times> int list" where [switch_defs]:
  "IsAllowedOperationOnFd_cases =
    ([NR_close, NR_dup, NR_dup2, NR_dup3, NR_shutdown],
     [NR_fcntl])"

definition IsAllowedOperationOnFd :: "int \<Rightarrow> bool" where
  "IsAllowedOperationOnFd sysno = switch_true IsAllowedOperationOnFd_cases sysno"

definition IsKernelInternalApi_cases :: "int list \<times> int list" where [switch_defs]:
  "IsKernelInternalApi_cases =
    ([NR_restart_syscall],
     [])"

definition IsKernelInternalApi :: "int \<Rightarrow> bool" where
  "IsKernelInternalApi sysno = switch_true IsKernelInternalApi_cases sysno"

definition IsAllowedProcessStartOrDeath_cases :: "int list \<times> int list" where [switch_defs]:
  "IsAllowedProcessStartOrDeath_cases =
    ([NR_exit, NR_exit_group, NR_wait4, NR_waitid],
     [NR_clone, NR_setns, NR_fork, NR_get_thread_area, NR_set_thread_area, NR_set_tid_address,
      NR_unshare, NR_vfork])"

definition IsAllowedProcessStartOrDeath :: "int \<Rightarrow> bool" where
  "IsAllowedProcessStartOrDeath sysno = switch_true IsAllowedProcessStartOrDeath_cases sysno"

definition IsAllowedFutex_cases :: "int list \<times> int list" where [switch_defs]:
  "IsAllowedFutex_cases =
    ([],
     [NR_get_robust_list, NR_set_robust_list, NR_futex])"

definition IsAllowedFutex :: "int \<Rightarrow> bool" where
  "IsAllowedFutex sysno = switch_true IsAllowedFutex_cases sysno"

definition IsAllowedEpoll_cases :: "int list \<times> int list" where [switch_defs]:
  "IsAllowedEpoll_cases =
    ([NR_epoll_create, NR_epoll_wait, NR_epoll_create1, NR_epoll_ctl],
     [NR_epoll_ctl_old, NR_epoll_pwait, NR_epoll_wait_old])"

definition IsAllowedEpoll :: "int \<Rightarrow> bool" where
  "IsAllowedEpoll sysno = switch_true IsAllowedEpoll_cases sysno"

definition IsAllowedGetOrModifySocket_cases :: "int list \<times> int list" where [switch_defs]:
  "IsAllowedGetOrModifySocket_cases =
    ([NR_pipe, NR_pipe2],
     [NR_socketpair])"

definition IsAllowedGetOrModifySocket :: "int \<Rightarrow> bool" where
  "IsAllowedGetOrModifySocket sysno = switch_true IsAllowedGetOrModifySocket_cases sysno"

definition IsDeniedGetOrModifySocket_cases :: "int list \<times> int list" where [switch_defs]:
  "IsDeniedGetOrModifySocket_cases =
    ([NR_accept, NR_accept4, NR_bind, NR_connect, NR_socket, NR_listen],
     [])"

definition IsDeniedGetOrModifySocket :: "int \<Rightarrow> bool" where
  "IsDeniedGetOrModifySocket sysno = switch_true IsDeniedGetOrModifySocket_cases sysno"

definition IsNetworkSocketInformation_cases :: "int list \<times> int list" where [switch_defs]:
  "IsNetworkSocketInformation_cases =
    ([NR_getpeername, NR_getsockname, NR_getsockopt, NR_setsockopt],
     [])"

definition IsNetworkSocketInformation :: "int \<Rightarrow> bool" where
  "IsNetworkSocketInformation sysno = switch_true IsNetworkSocketInformation_cases sysno"

definition IsAllowedAddressSpaceAccess_cases :: "int list \<times> int list" where [switch_defs]:
  "IsAllowedAddressSpaceAccess_cases =
    ([NR_brk, NR_mlock, NR_munlock, NR_munmap],
     [NR_madvise, NR_mincore, NR_mlockall, NR_mmap, NR_modify_ldt, NR_mprotect, NR_mremap,
      NR_msync, NR_munlockall, NR_readahead, NR_remap_file_pages])"

definition IsAllowedAddressSpaceAccess :: "int \<Rightarrow> bool" where
  "IsAllowedAddressSpaceAccess sysno = switch_true IsAllowedAddressSpaceAccess_cases sysno"

definition IsAllowedGeneralIo_cases :: "int list \<times> int list" where [switch_defs]:
  "IsAllowedGeneralIo_cases =
    ([NR_lseek, NR_poll, NR_ppoll, NR_pselect6, NR_read, NR_readv, NR_recvfrom, NR_recvmsg,
      NR_select, NR_sendmsg, NR_sendto, NR_write, NR_writev],
     [NR_ioctl, NR_pread64, NR_preadv, NR_pwrite64, NR_pwritev, NR_recvmmsg, NR_sendfile,
      NR_sendmmsg, NR_splice, NR_tee, NR_vmsplice])"

definition IsAllowedGeneralIo :: "int \<Rightarrow> bool" where
  "IsAllowedGeneralIo sysno = switch_true IsAllowedGeneralIo_cases sysno"

definition IsPrctl_cases :: "int list \<times> int list" where [switch_defs]:
  "IsPrctl_cases =
    ([NR_arch_prctl, NR_prctl],
     [])"

definition IsPrctl :: "int \<Rightarrow> bool" where
  "IsPrctl sysno = switch_true IsPrctl_cases sysno"

definition IsSeccomp_cases :: "int list \<times> int list" where [switch_defs]:
  "IsSeccomp_cases =
    ([NR_seccomp],
     [])"

definition IsSeccomp :: "int \<Rightarrow> bool" where
  "IsSeccomp sysno = switch_true IsSeccomp_cases sysno"

definition IsAllowedBasicScheduler_cases :: "int list \<times> int list" where [switch_defs]:
  "IsAllowedBasicScheduler_cases =
    ([NR_sched_yield, NR_pause, NR_nanosleep],
     [NR_getpriority, NR_setpriority])"

definition IsAllowedBasicScheduler :: "int \<Rightarrow> bool" where
  "IsAllowedBasicScheduler sysno = switch_true IsAllowedBasicScheduler_cases sysno"

definition IsAdminOperation_cases :: "int list \<times> int list" where [switch_defs]:
  "IsAdminOperation_cases =
    ([NR_kexec_load, NR_reboot, NR_setdomainname, NR_sethostname, NR_syslog],
     [])"

definition IsAdminOperation :: "int \<Rightarrow> bool" where
  "IsAdminOperation sysno = switch_true IsAdminOperation_cases sysno"

definition IsKernelModule_cases :: "int list \<times> int list" where [switch_defs]:
  "IsKernelModule_cases =
    ([NR_create_module, NR_get_kernel_syms, NR_query_module, NR_delete_module, NR_init_module,
      NR_finit_module],
     [])"

definition IsKernelModule :: "int \<Rightarrow> bool" where
  "IsKernelModule sysno = switch_true IsKernelModule_cases sysno"

definition IsGlobalFSViewChange_cases :: "int list \<times> int list" where [switch_defs]:
  "IsGlobalFSViewChange_cases =
    ([NR_pivot_root, NR_chroot, NR_sync],
     [])"

definition IsGlobalFSViewChange :: "int \<Rightarrow> bool" where
  "IsGlobalFSViewChange sysno = switch_true IsGlobalFSViewChange_cases sysno"

definition IsFsControl_cases :: "int list \<times> int list" where [switch_defs]:
  "IsFsControl_cases =
    ([NR_mount, NR_nfsservctl, NR_quotactl, NR_swapoff, NR_swapon, NR_umount2],
     [])"

definition IsFsControl :: "int \<Rightarrow> bool" where
  "IsFsControl sysno = switch_true IsFsControl_cases sysno"

definition IsNuma_cases :: "int list \<times> int list" where [switch_defs]:
  "IsNuma_cases =
    ([NR_get_mempolicy, NR_getcpu, NR_mbind, NR_migrate_pages, NR_move_pages, NR_set_mempolicy],
     [])"

definition IsNuma :: "int \<Rightarrow> bool" where
  "IsNuma sysno = switch_true IsNuma_cases sysno"

definition IsMessageQueue_cases :: "int list \<times> int list" where [switch_defs]:
  "IsMessageQueue_cases =
    ([NR_mq_getsetattr, NR_mq_notify, NR_mq_open, NR_mq_timedreceive, NR_mq_timedsend,
      NR_mq_unlink],
     [])"

definition IsMessageQueue :: "int \<Rightarrow> bool" where
  "IsMessageQueue sysno = switch_true IsMessageQueue_cases sysno"

definition IsGlobalProcessEnvironment_cases :: "int list \<times> int list" where [switch_defs]:
  "IsGlobalProcessEnvironment_cases =
    ([NR_acct, NR_getrlimit, NR_getrusage, NR_personality, NR_prlimit64, NR_setrlimit, NR_times],
     [])"

definition IsGlobalProcessEnvironment :: "int \<Rightarrow> bool" where
  "IsGlobalProcessEnvironment sysno = switch_true IsGlobalProcessEnvironment_cases sysno"

definition IsDebug_cases :: "int list \<times> int list" where [switch_defs]:
  "IsDebug_cases =
    ([NR_ptrace, NR_process_vm_readv, NR_process_vm_writev, NR_kcmp],
     [])"

definition IsDebug :: "int \<Rightarrow> bool" where
  "IsDebug sysno = switch_true IsDebug_cases sysno"

definition IsGlobalSystemStatus_cases :: "int list \<times> int list" where [switch_defs]:
  "IsGlobalSystemStatus_cases =
    ([NR__sysctl, NR_sysfs, NR_sysinfo, NR_uname],
     [])"

definition IsGlobalSystemStatus :: "int \<Rightarrow> bool" where
  "IsGlobalSystemStatus sysno = switch_true IsGlobalSystemStatus_cases sysno"

definition IsEventFd_cases :: "int list \<times> int list" where [switch_defs]:
  "IsEventFd_cases =
    ([NR_eventfd, NR_eventfd2],
     [])"

definition IsEventFd :: "int \<Rightarrow> bool" where
  "IsEventFd sysno = switch_true IsEventFd_cases sysno"

definition IsAsyncIo_cases :: "int list \<times> int list" where [switch_defs]:
  "IsAsyncIo_cases =
    ([NR_io_cancel, NR_io_destroy, NR_io_getevents, NR_io_setup, NR_io_submit],
     [])"

definition IsAsyncIo :: "int \<Rightarrow> bool" where
  "IsAsyncIo sysno = switch_true IsAsyncIo_cases sysno"

definition IsKeyManagement_cases :: "int list \<times> int list" where [switch_defs]:
  "IsKeyManagement_cases =
    ([NR_add_key, NR_keyctl, NR_request_key],
     [])"

definition IsKeyManagement :: "int \<Rightarrow> bool" where
  "IsKeyManagement sysno = switch_true IsKeyManagement_cases sysno"

definition IsSystemVSemaphores_cases :: "int list \<times> int list" where [switch_defs]:
  "IsSystemVSemaphores_cases =
    ([NR_semctl, NR_semget, NR_semop, NR_semtimedop],
     [])"

definition IsSystemVSemaphores :: "int \<Rightarrow> bool" where
  "IsSystemVSemaphores sysno = switch_true IsSystemVSemaphores_cases sysno"

definition IsSystemVSharedMemory_cases :: "int list \<times> int list" where [switch_defs]:
  "IsSystemVSharedMemory_cases =
    ([NR_shmat, NR_shmctl, NR_shmdt, NR_shmget],
     [])"

definition IsSystemVSharedMemory :: "int \<Rightarrow> bool" where
  "IsSystemVSharedMemory sysno = switch_true IsSystemVSharedMemory_cases sysno"

definition IsSystemVMessageQueue_cases :: "int list \<times> int list" where [switch_defs]:
  "IsSystemVMessageQueue_cases =
    ([NR_msgctl, NR_msgget, NR_msgrcv, NR_msgsnd],
     [])"

definition IsSystemVMessageQueue :: "int \<Rightarrow> bool" where
  "IsSystemVMessageQueue sysno = switch_true IsSystemVMessageQueue_cases sysno"

definition IsAnySystemV :: "int \<Rightarrow> bool" where
  "IsAnySystemV sysno \<longleftrightarrow> IsSystemVMessageQueue sysno \<or> IsSystemVSemaphores sysno \<or>
     IsSystemVSharedMemory sysno"

definition IsAdvancedScheduler_cases :: "int list \<times> int list" where [switch_defs]:
  "IsAdvancedScheduler_cases =
    ([NR_ioprio_get, NR_ioprio_set, NR_sched_get_priority_max, NR_sched_get_priority_min,
      NR_sched_getaffinity, NR_sched_getattr, NR_sched_getparam, NR_sched_getscheduler,
      NR_sched_rr_get_interval, NR_sched_setaffinity, NR_sched_setattr, NR_sched_setparam,
      NR_sched_setscheduler],
     [])"

definition IsAdvancedScheduler :: "int \<Rightarrow> bool" where
  "IsAdvancedScheduler sysno = switch_true IsAdvancedScheduler_cases sysno"

definition IsInotify_cases :: "int list \<times> int list" where [switch_defs]:
  "IsInotify_cases =
    ([NR_inotify_add_watch, NR_inotify_init, NR_inotify_init1, NR_inotify_rm_watch],
     [])"

definition IsInotify :: "int \<Rightarrow> bool" where
  "IsInotify sysno = switch_true IsInotify_cases sysno"

definition IsFaNotify_cases :: "int list \<times> int list" where [switch_defs]:
  "IsFaNotify_cases =
    ([NR_fanotify_init, NR_fanotify_mark],
     [])"

definition IsFaNotify :: "int \<Rightarrow> bool" where
  "IsFaNotify sysno = switch_true IsFaNotify_cases sysno"

definition IsTimer_cases :: "int list \<times> int list" where [switch_defs]:
  "IsTimer_cases =
    ([NR_getitimer, NR_alarm, NR_setitimer],
     [])"

definition IsTimer :: "int \<Rightarrow> bool" where
  "IsTimer sysno = switch_true IsTimer_cases sysno"

definition IsAdvancedTimer_cases :: "int list \<times> int list" where [switch_defs]:
  "IsAdvancedTimer_cases =
    ([NR_timer_create, NR_timer_delete, NR_timer_getoverrun, NR_timer_gettime, NR_timer_settime,
      NR_timerfd_create, NR_timerfd_gettime, NR_timerfd_settime],
     [])"

definition IsAdvancedTimer :: "int \<Rightarrow> bool" where
  "IsAdvancedTimer sysno = switch_true IsAdvancedTimer_cases sysno"

definition IsExtendedAttributes_cases :: "int list \<times> int list" where [switch_defs]:
  "IsExtendedAttributes_cases =
    ([NR_fgetxattr, NR_flistxattr, NR_fremovexattr, NR_fsetxattr, NR_getxattr, NR_lgetxattr,
      NR_listxattr, NR_llistxattr, NR_lremovexattr, NR_lsetxattr, NR_removexattr, NR_setxattr],
     [])"

definition IsExtendedAttributes :: "int \<Rightarrow> bool" where
  "IsExtendedAttributes sysno = switch_true IsExtendedAttributes_cases sysno"

definition IsMisc_cases :: "int list \<times> int list" where [switch_defs]:
  "IsMisc_cases =
    ([NR_getrandom, NR_name_to_handle_at, NR_open_by_handle_at, NR_perf_event_open, NR_syncfs,
      NR_vhangup, NR_afs_syscall, NR_getpmsg, NR_putpmsg, NR_security, NR_tuxcall, NR_vserver],
     [])"

definition IsMisc :: "int \<Rightarrow> bool" where
  "IsMisc sysno = switch_true IsMisc_cases sysno"

section \<open>The partition\<close>

definition all_switches :: "(int list \<times> int list) list" where
  "all_switches =
    [IsKill_cases, IsAllowedGettime_cases, IsCurrentDirectory_cases,
     IsUmask_cases, IsFileSystem_cases, IsAllowedFileSystemAccessViaFd_cases,
     IsDeniedFileSystemAccessViaFd_cases, IsGetSimpleId_cases, IsProcessPrivilegeChange_cases,
     IsProcessGroupOrSession_cases, IsAllowedSignalHandling_cases, IsAllowedOperationOnFd_cases,
     IsKernelInternalApi_cases, IsAllowedProcessStartOrDeath_cases, IsAllowedFutex_cases,
     IsAllowedEpoll_cases, IsAllowedGetOrModifySocket_cases, IsDeniedGetOrModifySocket_cases,
     IsNetworkSocketInformation_cases, IsAllowedAddressSpaceAccess_cases, IsAllowedGeneralIo_cases,
     IsPrctl_cases, IsSeccomp_cases, IsAllowedBasicScheduler_cases,
     IsAdminOperation_cases, IsKernelModule_cases, IsGlobalFSViewChange_cases,
     IsFsControl_cases, IsNuma_cases, IsMessageQueue_cases,
     IsGlobalProcessEnvironment_cases, IsDebug_cases, IsGlobalSystemStatus_cases,
     IsEventFd_cases, IsAsyncIo_cases, IsKeyManagement_cases,
     IsSystemVSemaphores_cases, IsSystemVSharedMemory_cases, IsSystemVMessageQueue_cases,
     IsAdvancedScheduler_cases, IsInotify_cases, IsFaNotify_cases,
     IsTimer_cases, IsAdvancedTimer_cases, IsExtendedAttributes_cases,
     IsMisc_cases]"

definition switch_labels :: "int list" where
  "switch_labels = concat (map (\<lambda>(yes, no). yes @ no) all_switches)"

text \<open>A merge sort that evaluates fast, to compare the labels with the table.\<close>

fun merge_lists :: "int list \<Rightarrow> int list \<Rightarrow> int list" where
  "merge_lists [] ys = ys"
| "merge_lists xs [] = xs"
| "merge_lists (x # xs) (y # ys) =
     (if x \<le> y then x # merge_lists xs (y # ys) else y # merge_lists (x # xs) ys)"

fun deal :: "int list \<Rightarrow> int list \<times> int list" where
  "deal [] = ([], [])"
| "deal [x] = ([x], [])"
| "deal (x # y # zs) = (let (xs, ys) = deal zs in (x # xs, y # ys))"

primrec merge_sort :: "nat \<Rightarrow> int list \<Rightarrow> int list" where
  "merge_sort 0 xs = xs"
| "merge_sort (Suc k) xs = (let (ys, zs) = deal xs in merge_lists (merge_sort k ys) (merge_sort k zs))"

lemma mset_merge_lists: "mset (merge_lists xs ys) = mset xs + mset ys"
  by (induction xs ys rule: merge_lists.induct) simp_all

lemma mset_deal: "mset (fst (deal xs)) + mset (snd (deal xs)) = mset xs"
  by (induction xs rule: deal.induct) (auto split: prod.splits)

lemma mset_merge_sort: "mset (merge_sort k xs) = mset xs"
  using mset_deal by (induction k arbitrary: xs) (simp_all add: mset_merge_lists split: prod.splits, metis fst_conv snd_conv)

lemma sorted_labels: "\<exists>k. merge_sort k switch_labels = map (int \<circ> snd) (syscall_table X86_64)"
proof
  show "merge_sort (Suc (Suc (Suc (Suc (Suc (Suc (Suc (Suc (Suc 0))))))))) switch_labels =
      map (int \<circ> snd) (syscall_table X86_64)"
    by code_simp
qed

lemma mset_labels: "mset switch_labels = mset (map (int \<circ> snd) (syscall_table X86_64))"
  using sorted_labels mset_merge_sort by metis

text \<open>
  C15.  The sets of syscall_sets.cc partition the system calls, as the file says: every number of the
  x86-64 header is listed by exactly one label of one switch, and no other number is.
\<close>

theorem syscall_sets_partition:
  "distinct switch_labels \<and> set switch_labels = (int \<circ> snd) ` set (syscall_table X86_64)"
proof
  have "distinct (map snd (syscall_table X86_64))"
    using ascending_x86_64 by (simp add: strict_sorted_iff)
  then have "distinct (map (int \<circ> snd) (syscall_table X86_64))"
    by (simp add: distinct_map inj_on_def)
  then show "distinct switch_labels" using mset_labels mset_eq_imp_distinct_iff by blast
  show "set switch_labels = (int \<circ> snd) ` set (syscall_table X86_64)"
    using mset_eq_setD [OF mset_labels] by simp
qed

end
