(* ===== verification/Restrictions.thy ===== *)
theory Restrictions
  imports CompiledPolicy SyscallSets
begin

text \<open>
  sandbox/linux/seccomp-bpf-helpers/syscall_parameters_restrictions.cc and the result expressions of
  sigsys_handlers.cc, for x86-64 Linux: the restrictions a policy puts on the arguments of a system
  call.  The constants of the kernel's interface come from the C library's headers, those of
  linux_futex.h and linux_time.h from system_headers.  An operation fails where a CHECK of the policy
  language would abort.
\<close>

section \<open>Constants of the kernel's interface\<close>

named_theorems abi_defs \<open>flags and commands of system calls on x86-64\<close>

definition CLONE_VM :: u64 where [abi_defs]: "CLONE_VM = 0x100"
definition CLONE_FS :: u64 where [abi_defs]: "CLONE_FS = 0x200"
definition CLONE_FILES :: u64 where [abi_defs]: "CLONE_FILES = 0x400"
definition CLONE_SIGHAND :: u64 where [abi_defs]: "CLONE_SIGHAND = 0x800"
definition CLONE_THREAD :: u64 where [abi_defs]: "CLONE_THREAD = 0x10000"
definition CLONE_SYSVSEM :: u64 where [abi_defs]: "CLONE_SYSVSEM = 0x40000"
definition CLONE_SETTLS :: u64 where [abi_defs]: "CLONE_SETTLS = 0x80000"
definition CLONE_PARENT_SETTID :: u64 where [abi_defs]: "CLONE_PARENT_SETTID = 0x100000"
definition CLONE_CHILD_CLEARTID :: u64 where [abi_defs]: "CLONE_CHILD_CLEARTID = 0x200000"
definition CLONE_DETACHED :: u64 where [abi_defs]: "CLONE_DETACHED = 0x400000"

definition MAP_SHARED :: u64 where [abi_defs]: "MAP_SHARED = 1"
definition MAP_PRIVATE :: u64 where [abi_defs]: "MAP_PRIVATE = 2"
definition MAP_FIXED :: u64 where [abi_defs]: "MAP_FIXED = 0x10"
definition MAP_ANONYMOUS :: u64 where [abi_defs]: "MAP_ANONYMOUS = 0x20"
definition MAP_DENYWRITE :: u64 where [abi_defs]: "MAP_DENYWRITE = 0x800"
definition MAP_NORESERVE :: u64 where [abi_defs]: "MAP_NORESERVE = 0x4000"
definition MAP_STACK :: u64 where [abi_defs]: "MAP_STACK = 0x20000"

definition PROT_READ :: u64 where [abi_defs]: "PROT_READ = 1"
definition PROT_WRITE :: u64 where [abi_defs]: "PROT_WRITE = 2"
definition PROT_EXEC :: u64 where [abi_defs]: "PROT_EXEC = 4"

definition O_ACCMODE :: u64 where [abi_defs]: "O_ACCMODE = 3"
definition O_APPEND :: u64 where [abi_defs]: "O_APPEND = 0x400"
definition O_NONBLOCK :: u64 where [abi_defs]: "O_NONBLOCK = 0x800"
definition O_NOATIME :: u64 where [abi_defs]: "O_NOATIME = 0x40000"
definition O_CLOEXEC :: u64 where [abi_defs]: "O_CLOEXEC = 0x80000"
definition O_SYNC :: u64 where [abi_defs]: "O_SYNC = 0x101000"

definition F_DUPFD :: int where [abi_defs]: "F_DUPFD = 0"
definition F_GETFD :: int where [abi_defs]: "F_GETFD = 1"
definition F_SETFD :: int where [abi_defs]: "F_SETFD = 2"
definition F_GETFL :: int where [abi_defs]: "F_GETFL = 3"
definition F_SETFL :: int where [abi_defs]: "F_SETFL = 4"
definition F_GETLK :: int where [abi_defs]: "F_GETLK = 5"
definition F_SETLK :: int where [abi_defs]: "F_SETLK = 6"
definition F_SETLKW :: int where [abi_defs]: "F_SETLKW = 7"
definition F_DUPFD_CLOEXEC :: int where [abi_defs]: "F_DUPFD_CLOEXEC = 1030"

definition PR_GET_DUMPABLE :: int where [abi_defs]: "PR_GET_DUMPABLE = 3"
definition PR_SET_DUMPABLE :: int where [abi_defs]: "PR_SET_DUMPABLE = 4"
definition PR_SET_NAME :: int where [abi_defs]: "PR_SET_NAME = 15"
definition PR_GET_NAME :: int where [abi_defs]: "PR_GET_NAME = 16"

definition TCGETS :: int where [abi_defs]: "TCGETS = 0x5401"
definition FIONREAD :: int where [abi_defs]: "FIONREAD = 0x541B"

definition FUTEX_WAIT :: int where [abi_defs]: "FUTEX_WAIT = 0"
definition FUTEX_WAKE :: int where [abi_defs]: "FUTEX_WAKE = 1"
definition FUTEX_REQUEUE :: int where [abi_defs]: "FUTEX_REQUEUE = 3"
definition FUTEX_CMP_REQUEUE :: int where [abi_defs]: "FUTEX_CMP_REQUEUE = 4"
definition FUTEX_WAKE_OP :: int where [abi_defs]: "FUTEX_WAKE_OP = 5"
definition FUTEX_WAIT_BITSET :: int where [abi_defs]: "FUTEX_WAIT_BITSET = 9"
definition FUTEX_WAKE_BITSET :: int where [abi_defs]: "FUTEX_WAKE_BITSET = 10"
definition FUTEX_CMP_REQUEUE_PI :: int where [abi_defs]: "FUTEX_CMP_REQUEUE_PI = 12"
definition FUTEX_PRIVATE_FLAG :: u64 where [abi_defs]: "FUTEX_PRIVATE_FLAG = 128"
definition FUTEX_CLOCK_REALTIME :: u64 where [abi_defs]: "FUTEX_CLOCK_REALTIME = 256"

definition CLOCK_REALTIME :: int where [abi_defs]: "CLOCK_REALTIME = 0"
definition CLOCK_MONOTONIC :: int where [abi_defs]: "CLOCK_MONOTONIC = 1"
definition CLOCK_PROCESS_CPUTIME_ID :: int where [abi_defs]: "CLOCK_PROCESS_CPUTIME_ID = 2"
definition CLOCK_THREAD_CPUTIME_ID :: int where [abi_defs]: "CLOCK_THREAD_CPUTIME_ID = 3"
definition CLOCK_REALTIME_COARSE :: int where [abi_defs]: "CLOCK_REALTIME_COARSE = 5"
definition CLOCK_MONOTONIC_COARSE :: int where [abi_defs]: "CLOCK_MONOTONIC_COARSE = 6"

definition PRIO_PROCESS :: int where [abi_defs]: "PRIO_PROCESS = 0"
definition RUSAGE_SELF :: int where [abi_defs]: "RUSAGE_SELF = 0"
definition MADV_DONTNEED :: int where [abi_defs]: "MADV_DONTNEED = 4"
definition AF_UNIX :: int where [abi_defs]: "AF_UNIX = 1"
definition SOL_SOCKET :: int where [abi_defs]: "SOL_SOCKET = 1"
definition SO_PEEK_OFF :: int where [abi_defs]: "SO_PEEK_OFF = 42"
definition EPERM :: int where [abi_defs]: "EPERM = 1"

definition O_LARGEFILE :: u64 where [abi_defs]: "O_LARGEFILE = 0"

text \<open>The build.\<close>

definition IsAndroid :: bool where "IsAndroid = False"
definition IsArchitectureX86_64 :: bool where "IsArchitectureX86_64 = True"
definition IsArchitectureI386 :: bool where "IsArchitectureI386 = False"
definition IsArchitectureMips :: bool where "IsArchitectureMips = False"

section \<open>Crashing results\<close>

definition CrashSIGSYS :: result_expr where "CrashSIGSYS = Trap CrashSIGSYS_Handler 0"
definition CrashSIGSYSClone :: result_expr where "CrashSIGSYSClone = Trap SIGSYSCloneFailure 0"
definition CrashSIGSYSPrctl :: result_expr where "CrashSIGSYSPrctl = Trap SIGSYSPrctlFailure 0"
definition CrashSIGSYSIoctl :: result_expr where "CrashSIGSYSIoctl = Trap SIGSYSIoctlFailure 0"
definition CrashSIGSYSKill :: result_expr where "CrashSIGSYSKill = Trap SIGSYSKillFailure 0"
definition CrashSIGSYSFutex :: result_expr where "CrashSIGSYSFutex = Trap SIGSYSFutexFailure 0"
definition RewriteSchedSIGSYS :: result_expr where "RewriteSchedSIGSYS = Trap SIGSYSSchedHandler 0"

section \<open>Restrictions\<close>

type_synonym expr_result = "dsl_error + result_expr"

definition RestrictCloneToThreadsAndEPERMFork :: expr_result where
  "RestrictCloneToThreadsAndEPERMFork =
     bindE (Arg 8 0) (\<lambda>flags.
     (let kAndroidCloneMask = CLONE_VM OR CLONE_FS OR CLONE_FILES OR CLONE_SIGHAND OR CLONE_THREAD
            OR CLONE_SYSVSEM;
          kObsoleteAndroidCloneMask = kAndroidCloneMask OR CLONE_DETACHED;
          kGlibcPthreadFlags = CLONE_VM OR CLONE_FS OR CLONE_FILES OR CLONE_SIGHAND OR CLONE_THREAD
            OR CLONE_SYSVSEM OR CLONE_SETTLS OR CLONE_PARENT_SETTID OR CLONE_CHILD_CLEARTID
      in bindE (EqualTo flags (uint kGlibcPthreadFlags)) (\<lambda>glibc_test.
         bindE (equal_to_each flags
             [uint kAndroidCloneMask, uint kObsoleteAndroidCloneMask, uint kGlibcPthreadFlags]) (\<lambda>tests.
         bindE (EqualTo (arg_and flags (CLONE_VM OR CLONE_THREAD)) 0) (\<lambda>forking.
         bindE (Error EPERM) (\<lambda>eperm.
           Inr (Else (ElseIf (If (if IsAndroid then AnyOf tests else glibc_test) Allow) forking eperm)
             CrashSIGSYSClone)))))))"

definition RestrictPrctl :: expr_result where
  "RestrictPrctl =
     bindE (Arg 4 0) (\<lambda>option.
     bindE (Cases (Switch option) [PR_GET_NAME, PR_SET_NAME, PR_GET_DUMPABLE, PR_SET_DUMPABLE] Allow) (\<lambda>c.
       Inr (Default c CrashSIGSYSPrctl)))"

definition RestrictIoctl :: expr_result where
  "RestrictIoctl =
     bindE (Arg 4 1) (\<lambda>request.
     bindE (Cases (Switch request) [TCGETS, FIONREAD] Allow) (\<lambda>c. Inr (Default c CrashSIGSYSIoctl)))"

definition mmap_allowed_mask :: u64 where
  "mmap_allowed_mask = MAP_SHARED OR MAP_PRIVATE OR MAP_ANONYMOUS OR MAP_STACK OR MAP_NORESERVE
     OR MAP_FIXED OR MAP_DENYWRITE"

definition RestrictMmapFlags :: expr_result where
  "RestrictMmapFlags =
     bindE (Arg 4 3) (\<lambda>flags.
     bindE (EqualTo (arg_and flags (NOT mmap_allowed_mask)) 0) (\<lambda>ok. Inr (Else (If ok Allow) CrashSIGSYS)))"

definition RestrictMprotectFlags :: expr_result where
  "RestrictMprotectFlags =
     (let kAllowedMask = PROT_READ OR PROT_WRITE OR PROT_EXEC
      in bindE (Arg 4 2) (\<lambda>prot.
         bindE (EqualTo (arg_and prot (NOT kAllowedMask)) 0) (\<lambda>ok. Inr (Else (If ok Allow) CrashSIGSYS))))"

text \<open>Glibc overrides the kernel's O_LARGEFILE value; the source accounts for it.\<close>

definition kOLargeFileFlag :: u64 where
  "kOLargeFileFlag =
     (if IsArchitectureX86_64 \<or> IsArchitectureI386 \<or> IsArchitectureMips then 0x8000 else O_LARGEFILE)"

definition fcntl_allowed_mask :: u64 where
  "fcntl_allowed_mask = O_ACCMODE OR O_APPEND OR O_NONBLOCK OR O_SYNC OR kOLargeFileFlag OR O_CLOEXEC
     OR O_NOATIME"

definition RestrictFcntlCommands :: expr_result where
  "RestrictFcntlCommands =
     bindE (Arg 4 1) (\<lambda>cmd.
     bindE (Arg 8 2) (\<lambda>long_arg.
     bindE (Cases (Switch cmd)
         [F_GETFL, F_GETFD, F_SETFD, F_SETLK, F_SETLKW, F_GETLK, F_DUPFD, F_DUPFD_CLOEXEC] Allow) (\<lambda>c.
     bindE (EqualTo (arg_and long_arg (NOT fcntl_allowed_mask)) 0) (\<lambda>ok.
     bindE (Case c F_SETFL (Else (If ok Allow) CrashSIGSYS)) (\<lambda>c.
       Inr (Default c CrashSIGSYS))))))"

definition RestrictKillTarget :: "int \<Rightarrow> int \<Rightarrow> expr_result" where
  "RestrictKillTarget target_pid sysno =
     (if sysno = NR_kill \<or> sysno = NR_tgkill then
        bindE (Arg 4 0) (\<lambda>pid.
        bindE (EqualTo pid target_pid) (\<lambda>self. Inr (Else (If self Allow) CrashSIGSYSKill)))
      else if sysno = NR_tkill then Inr CrashSIGSYSKill
      else Inr CrashSIGSYS)"

definition RestrictFutex :: expr_result where
  "RestrictFutex =
     (let kAllowedFutexFlags = FUTEX_PRIVATE_FLAG OR FUTEX_CLOCK_REALTIME
      in bindE (Arg 4 1) (\<lambda>op.
         bindE (Cases (Switch (arg_and op (NOT kAllowedFutexFlags)))
             [FUTEX_WAIT, FUTEX_WAKE, FUTEX_REQUEUE, FUTEX_CMP_REQUEUE, FUTEX_WAKE_OP,
              FUTEX_WAIT_BITSET, FUTEX_WAKE_BITSET] Allow) (\<lambda>c.
           Inr (Default c CrashSIGSYSFutex))))"

definition RestrictGetSetpriority :: "int \<Rightarrow> expr_result" where
  "RestrictGetSetpriority target_pid =
     bindE (Arg 4 0) (\<lambda>which.
     bindE (Arg 4 1) (\<lambda>who.
     bindE (EqualTo which PRIO_PROCESS) (\<lambda>is_process.
     bindE (Cases (Switch who) [0, target_pid] Allow) (\<lambda>c.
     bindE (Error EPERM) (\<lambda>eperm.
       Inr (Else (If is_process (Default c eperm)) CrashSIGSYS))))))"

definition sched_syscalls :: "int list" where
  "sched_syscalls =
     [NR_sched_getaffinity, NR_sched_getattr, NR_sched_getparam, NR_sched_getscheduler,
      NR_sched_rr_get_interval, NR_sched_setaffinity, NR_sched_setattr, NR_sched_setparam,
      NR_sched_setscheduler]"

definition RestrictSchedTarget :: "int \<Rightarrow> int \<Rightarrow> expr_result" where
  "RestrictSchedTarget target_pid sysno =
     (if sysno \<in> set sched_syscalls then
        bindE (Arg 4 0) (\<lambda>pid.
        bindE (Cases (Switch pid) [0, target_pid] Allow) (\<lambda>c. Inr (Default c RewriteSchedSIGSYS)))
      else Inr CrashSIGSYS)"

definition RestrictPrlimit64 :: "int \<Rightarrow> expr_result" where
  "RestrictPrlimit64 target_pid =
     bindE (Arg 4 0) (\<lambda>pid.
     bindE (Cases (Switch pid) [0, target_pid] Allow) (\<lambda>c. Inr (Default c CrashSIGSYS)))"

definition RestrictGetrusage :: expr_result where
  "RestrictGetrusage =
     bindE (Arg 4 0) (\<lambda>who.
     bindE (EqualTo who RUSAGE_SELF) (\<lambda>self. Inr (Else (If self Allow) CrashSIGSYS)))"

definition RestrictClockID :: expr_result where
  "RestrictClockID =
     bindE (Arg 4 0) (\<lambda>clockid.
     bindE (Cases (Switch clockid)
         [CLOCK_MONOTONIC, CLOCK_MONOTONIC_COARSE, CLOCK_PROCESS_CPUTIME_ID, CLOCK_REALTIME,
          CLOCK_REALTIME_COARSE, CLOCK_THREAD_CPUTIME_ID] Allow) (\<lambda>c.
       Inr (Default c CrashSIGSYS)))"

end
