(* ===== verification/BaselinePolicy.thy ===== *)
theory BaselinePolicy
  imports Restrictions
begin

text \<open>
  sandbox/linux/seccomp-bpf-helpers/baseline_policy.cc, for x86-64 Linux without sanitizers, and the
  signal handlers of sigsys_handlers.cc.  The policy decides on the number of a system call by the
  sets of syscall_sets.cc, in the order of the source, and restricts arguments where the source does.
\<close>

section \<open>The policy\<close>

definition IsBaselinePolicyAllowed :: "int \<Rightarrow> bool" where
  "IsBaselinePolicyAllowed sysno \<longleftrightarrow>
     IsAllowedAddressSpaceAccess sysno \<or> IsAllowedBasicScheduler sysno \<or> IsAllowedEpoll sysno \<or>
     IsAllowedFileSystemAccessViaFd sysno \<or> IsAllowedFutex sysno \<or> IsAllowedGeneralIo sysno \<or>
     IsAllowedGetOrModifySocket sysno \<or> IsAllowedGettime sysno \<or>
     IsAllowedProcessStartOrDeath sysno \<or> IsAllowedSignalHandling sysno \<or> IsGetSimpleId sysno \<or>
     IsKernelInternalApi sysno \<or> IsAllowedOperationOnFd sysno"

definition IsBaselinePolicyWatched :: "int \<Rightarrow> bool" where
  "IsBaselinePolicyWatched sysno \<longleftrightarrow>
     IsAdminOperation sysno \<or> IsAdvancedScheduler sysno \<or> IsAdvancedTimer sysno \<or> IsAsyncIo sysno \<or>
     IsDebug sysno \<or> IsEventFd sysno \<or> IsExtendedAttributes sysno \<or> IsFaNotify sysno \<or>
     IsFsControl sysno \<or> IsGlobalFSViewChange sysno \<or> IsGlobalProcessEnvironment sysno \<or>
     IsGlobalSystemStatus sysno \<or> IsInotify sysno \<or> IsKernelModule sysno \<or> IsKeyManagement sysno \<or>
     IsKill sysno \<or> IsMessageQueue sysno \<or> IsMisc sysno \<or> IsNetworkSocketInformation sysno \<or>
     IsNuma sysno \<or> IsPrctl sysno \<or> IsProcessGroupOrSession sysno \<or> IsTimer sysno"

definition EvaluateSyscallImpl :: "int \<Rightarrow> int \<Rightarrow> int \<Rightarrow> expr_result" where
  "EvaluateSyscallImpl fs_denied_errno current_pid sysno =
     (if IsBaselinePolicyAllowed sysno then Inr Allow
      else if sysno = NR_clock_gettime then RestrictClockID
      else if sysno = NR_clone then RestrictCloneToThreadsAndEPERMFork
      else if sysno = NR_fcntl then RestrictFcntlCommands
      else if sysno = NR_fork then Error EPERM
      else if sysno = NR_futex then RestrictFutex
      else if sysno = NR_set_robust_list then Error EPERM
      else if sysno = NR_getpriority \<or> sysno = NR_setpriority then RestrictGetSetpriority current_pid
      else if sysno = NR_madvise then
        bindE (Arg 4 2) (\<lambda>advice.
        bindE (EqualTo advice MADV_DONTNEED) (\<lambda>ok.
        bindE (Error EPERM) (\<lambda>eperm. Inr (Else (If ok Allow) eperm))))
      else if sysno = NR_mmap then RestrictMmapFlags
      else if sysno = NR_mprotect then RestrictMprotectFlags
      else if sysno = NR_prctl then RestrictPrctl
      else if sysno = NR_socketpair then
        bindE (Arg 4 0) (\<lambda>domain.
        bindE (EqualTo domain AF_UNIX) (\<lambda>ok. Inr (Else (If ok Allow) CrashSIGSYS)))
      else if IsKill sysno then RestrictKillTarget current_pid sysno
      else if IsFileSystem sysno \<or> IsCurrentDirectory sysno then Error fs_denied_errno
      else if IsSeccomp sysno then Error EPERM
      else if IsAnySystemV sysno then Error EPERM
      else if IsUmask sysno \<or> IsDeniedFileSystemAccessViaFd sysno \<or> IsDeniedGetOrModifySocket sysno \<or>
        IsProcessPrivilegeChange sysno then Error EPERM
      else if sysno = NR_getsockopt \<or> sysno = NR_setsockopt then
        bindE (Arg 4 1) (\<lambda>level.
        bindE (Arg 4 2) (\<lambda>optname.
        bindE (EqualTo level SOL_SOCKET) (\<lambda>l.
        bindE (EqualTo optname SO_PEEK_OFF) (\<lambda>opt. Inr (Else (If (AllOf [l, opt]) Allow) CrashSIGSYS)))))
      else if IsBaselinePolicyWatched sysno then Inr CrashSIGSYS
      else Inr CrashSIGSYS)"

text \<open>
  The policy object.  A CHECK that fails aborts the process, and the policy gives no expression; the
  model then takes Kill, and \<open>EvaluateSyscallImpl_total\<close> shows that it never does.
\<close>

definition BaselinePolicy :: "int \<Rightarrow> int \<Rightarrow> policy" where
  "BaselinePolicy fs_denied_errno policy_pid =
     \<lparr>EvaluateSyscall = (\<lambda>sysno. case EvaluateSyscallImpl fs_denied_errno policy_pid sysno of
        Inr e \<Rightarrow> e | Inl _ \<Rightarrow> Kill),
      InvalidSyscall = CrashSIGSYS\<rparr>"

section \<open>The signal handlers\<close>

text \<open>
  WriteToStdErr: write(2) is the list of its results; the value is the list of the calls made, each a
  suffix of the message.
\<close>

fun WriteToStdErr :: "int list \<Rightarrow> string \<Rightarrow> string list" where
  "WriteToStdErr results [] = []"
| "WriteToStdErr [] message = [message]"
| "WriteToStdErr (ret # results) message =
     message # (if ret \<le> 0 \<or> ret > int (length message) then []
                else WriteToStdErr results (drop (nat ret) message))"

definition SyscallNumberToOffsetFromBase :: "u32 \<Rightarrow> u32" where
  "SyscallNumberToOffsetFromBase sysno = (if sysno \<ge> 1024 then 0 else sysno)"

text \<open>The digits PrintSyscallError prints, the most significant first.\<close>

fun syscall_digits :: "nat \<Rightarrow> u32 \<Rightarrow> char list \<Rightarrow> char list" where
  "syscall_digits 0 rem ds = ds"
| "syscall_digits (Suc i) rem ds = syscall_digits i (rem div 10) (char_of (48 + unat (rem mod 10)) # ds)"

definition sysno_base10 :: "u32 \<Rightarrow> string" where
  "sysno_base10 sysno = syscall_digits 4 (if sysno \<ge> 1024 then 0 else sysno) []"

text \<open>The addresses a crash handler stores to, before it leaves with \<open>_exit(1)\<close>.\<close>

definition CrashSIGSYS_addresses :: "arch_seccomp_data \<Rightarrow> u32 list" where
  "CrashSIGSYS_addresses args =
     (let sysno = SyscallNumberToOffsetFromBase (sd_nr args);
          sysno = sysno OR ucast (push_bit 12 (sd_args args 0 AND 0xff));
          sysno = sysno OR ucast (push_bit 20 (sd_args args 1 AND 0xff))
      in [sysno, sysno AND 0xfff])"

definition SIGSYSClone_addresses :: "arch_seccomp_data \<Rightarrow> u64 list" where
  "SIGSYSClone_addresses args =
     (if IsArchitectureX86_64 then [sd_args args 0 AND 0xFFFFFF] else []) @ [sd_args args 0 AND 0xFFF]"

definition SIGSYSPrctl_addresses :: "arch_seccomp_data \<Rightarrow> u64 list" where
  "SIGSYSPrctl_addresses args = [sd_args args 0 AND 0xFFF]"

definition SIGSYSIoctl_addresses :: "arch_seccomp_data \<Rightarrow> u64 list" where
  "SIGSYSIoctl_addresses args = [sd_args args 1 AND 0xFFFF, sd_args args 1 AND 0xFFF]"

definition SIGSYSKill_addresses :: "u64 \<Rightarrow> u64 list" where
  "SIGSYSKill_addresses my_pid = [my_pid AND 0xFFF]"

definition SIGSYSFutex_addresses :: "arch_seccomp_data \<Rightarrow> u64 list" where
  "SIGSYSFutex_addresses args = [sd_args args 1 AND 0xFFF]"

text \<open>SIGSYSSchedHandler repeats the call with 0 for the caller's own thread id, or crashes.\<close>

datatype sched_action = SchedCall u32 "u64 list" | SchedCrash "u32 list"

definition SIGSYSSched_action :: "int \<Rightarrow> arch_seccomp_data \<Rightarrow> sched_action" where
  "SIGSYSSched_action tid args =
     (if sint (sd_nr args) \<in> set sched_syscalls \<and> sd_args args 0 = of_int tid
      then SchedCall (sd_nr args) (0 # map (sd_args args) [1, 2, 3, 4, 5])
      else SchedCrash (CrashSIGSYS_addresses args))"

end
