(* ===== verification/BaselineCorrect.thy ===== *)
theory BaselineCorrect
  imports BaselinePolicy
begin

text \<open>
  What the baseline policy means: the verdict of every restriction as a condition on the arguments,
  the policy as a whole as a table of verdicts (\<open>baseline_verdict\<close>), and from it the calls the policy
  lets through.  The policy's expressions are ones the compiler's correctness theorem applies to
  (\<open>known_baseline\<close>).
\<close>

section \<open>The meaning of the restrictions\<close>

text \<open>An expression was built, returns only codes the kernel knows, and gives the verdict v for d.\<close>

definition decides :: "expr_result \<Rightarrow> arch_seccomp_data \<Rightarrow> verdict option \<Rightarrow> bool" where
  "decides m d v \<longleftrightarrow>
     (\<exists>e. m = Inr e \<and> eval_result X86_64 d e = v \<and> known_codes e \<and> \<not> HasUnsafeTraps e)"

text \<open>A 32-bit argument; None for one that breaks the calling convention.\<close>

definition on_int_arg :: "arch_seccomp_data \<Rightarrow> nat \<Rightarrow> (u32 \<Rightarrow> verdict option) \<Rightarrow> verdict option" where
  "on_int_arg d i f = (if arg32_abi_ok X86_64 (sd_args d i) then f (lo32 (sd_args d i)) else None)"

definition allow :: verdict where "allow = VRet SECCOMP_RET_ALLOW"
definition errno :: "int \<Rightarrow> verdict" where "errno err = VRet (SECCOMP_RET_ERRNO + of_int err)"
definition crash :: "trap_fnc \<Rightarrow> verdict" where "crash func = VTrap func 0 True"

definition arg4 :: "int \<Rightarrow> bpf_arg" where
  "arg4 i = \<lparr>arg_num = i, arg_size = 4, arg_mask = 0xFFFFFFFF\<rparr>"

definition arg8 :: "int \<Rightarrow> bpf_arg" where
  "arg8 i = \<lparr>arg_num = i, arg_size = 8, arg_mask = 0xFFFFFFFFFFFFFFFF\<rparr>"

lemma Arg_eq: "Arg 4 i = Inr (arg4 i)" "Arg 8 i = Inr (arg8 i)"
  by (simp_all add: Arg_def DefaultMask_def arg4_def arg8_def)

text \<open>The test an argument of four bytes is compared by.\<close>

definition test4 :: "int \<Rightarrow> u64 \<Rightarrow> int \<Rightarrow> bool_expr" where
  "test4 i m val = MaskedEqualBoolExpr i 4 (0xFFFFFFFF AND m) (ucast (of_int val :: u32))"

lemma EqualTo_arg4:
  "EqualTo (arg4 i) val = Inr (test4 i (- 1) val)"
  "EqualTo (arg_and (arg4 i) m) val = Inr (test4 i m val)"
  by (simp_all add: EqualTo_def arg4_def arg_and_def ArgEq_def test4_def)

lemma eval_test4:
  "eval_bool X86_64 d (test4 i m val) =
    (if arg32_abi_ok X86_64 (sd_args d (nat i))
     then Some (lo32 (sd_args d (nat i)) AND lo32 m = of_int val) else None)"
proof -
  have "lo32 (ucast (of_int val :: u32)) = of_int val"
    by (rule bit_word_eqI) (simp only: bit_lo32, simp add: bit_simps)
  moreover have "lo32 0xFFFFFFFF = - 1" by (simp add: lo32_def)
  ultimately show ?thesis by (simp add: test4_def Let_def lo32_and)
qed

lemma lo32_minus_1 [simp]: "lo32 (- 1) = - 1"
  by (rule bit_word_eqI) (simp only: bit_lo32, simp)

definition test8 :: "int \<Rightarrow> u64 \<Rightarrow> int \<Rightarrow> bool_expr" where
  "test8 i m val = MaskedEqualBoolExpr i 8 m (of_int val)"

lemma EqualTo_arg8:
  "EqualTo (arg8 i) val = Inr (test8 i (- 1) val)"
  "EqualTo (arg_and (arg8 i) m) val = Inr (test8 i m val)"
proof -
  have "(0xFFFFFFFFFFFFFFFF :: u64) = - 1" by simp
  then show "EqualTo (arg8 i) val = Inr (test8 i (- 1) val)"
    "EqualTo (arg_and (arg8 i) m) val = Inr (test8 i m val)"
    by (simp_all only: EqualTo_def arg8_def arg_and_def ArgEq_def test8_def) simp_all
qed

lemma eval_test8: "eval_bool X86_64 d (test8 i m val) = Some (sd_args d (nat i) AND m = of_int val)"
  by (simp add: test8_def)

lemma equal_to_each_arg4:
  "equal_to_each (arg4 i) vals = Inr (map (test4 i (- 1)) vals)"
  "equal_to_each (arg_and (arg4 i) m) vals = Inr (map (test4 i m) vals)"
  by (induction vals) (simp_all add: EqualTo_arg4)

lemma equal_to_each_arg8: "equal_to_each (arg8 i) vals = Inr (map (test8 i (- 1)) vals)"
  by (induction vals) (simp_all add: EqualTo_arg8)

text \<open>A switch over a 32-bit argument, masked or not.\<close>

lemma eval_AnyOf_test4:
  "vals \<noteq> [] \<Longrightarrow> eval_bool X86_64 d (AnyOf (map (test4 i m) vals)) =
    (if arg32_abi_ok X86_64 (sd_args d (nat i))
     then Some (\<exists>v \<in> set vals. lo32 (sd_args d (nat i)) AND lo32 m = of_int v) else None)"
proof (cases "arg32_abi_ok X86_64 (sd_args d (nat i))")
  case True
  then show ?thesis using eval_AnyOf [of "map (test4 i m) vals" X86_64 d] by (simp add: eval_test4)
next
  case False
  assume "vals \<noteq> []"
  then obtain v vs where "vals = v # vs" by (cases vals) auto
  with False show ?thesis by (cases vs; cases "tl vs") (simp_all add: eval_test4)
qed

text \<open>The condition of a clause with several cases.\<close>

definition any_test :: "int \<Rightarrow> u64 \<Rightarrow> int list \<Rightarrow> bool_expr" where
  "any_test i m vals = AnyOf (map (test4 i m) vals)"

definition one_of :: "int list \<Rightarrow> u32 \<Rightarrow> bool" where
  "one_of vals v \<longleftrightarrow> (\<exists>c \<in> set vals. v = of_int c)"

lemma Cases_arg4:
  "Cases \<lparr>caser_arg = arg4 i, caser_elser = cs\<rparr> vals e =
    Inr \<lparr>caser_arg = arg4 i, caser_elser = (any_test i (- 1) vals, e) # cs\<rparr>"
  "Cases \<lparr>caser_arg = arg_and (arg4 i) m, caser_elser = cs\<rparr> vals e =
    Inr \<lparr>caser_arg = arg_and (arg4 i) m, caser_elser = (any_test i m vals, e) # cs\<rparr>"
  by (simp_all add: Cases_def equal_to_each_arg4 any_test_def ElseIf_def)

lemmas dsl_build = Arg_eq EqualTo_arg4 EqualTo_arg8 Cases_arg4 Case_def Switch_def
  equal_to_each_arg8 Default_def ElseIf_def If_def Else_def

lemma action_codes:
  "eval_result X86_64 d Allow = Some allow" "known_codes Allow" "\<not> HasUnsafeTraps Allow"
  "eval_result X86_64 d CrashSIGSYS = Some (crash CrashSIGSYS_Handler)" "known_codes CrashSIGSYS"
  "\<not> HasUnsafeTraps CrashSIGSYS"
  by (simp_all add: Allow_def allow_def known_action_def bpf_consts CrashSIGSYS_def crash_def Trap_def)

lemma crash_codes:
  "eval_result X86_64 d (Trap f 0) = Some (crash f)" "known_codes (Trap f 0)" "\<not> HasUnsafeTraps (Trap f 0)"
  by (simp_all add: crash_def Trap_def)

lemma errno_action:
  assumes "0 \<le> err" and "err \<le> 4095"
  shows "(SECCOMP_RET_ERRNO + of_int err) AND SECCOMP_RET_ACTION = SECCOMP_RET_ERRNO"
proof -
  obtain k where k: "err = int k" using assms(1) nonneg_int_cases by blast
  have "take_bit 12 k = k" using assms(2) k by (simp add: take_bit_nat_eq_self)
  then have "take_bit 12 (of_nat k :: u32) = of_nat k" by (metis of_nat_take_bit)
  then have low: "bit (of_nat k :: u32) i \<Longrightarrow> i < 12" for i
    by (metis bit_take_bit_iff)
  have e: "SECCOMP_RET_ERRNO = push_bit 16 5" by (simp add: bpf_consts)
  have hi: "bit SECCOMP_RET_ERRNO i \<Longrightarrow> 16 \<le> i" for i
    unfolding e bit_push_bit_iff by simp
  have "SECCOMP_RET_ERRNO AND (of_nat k :: u32) = 0"
    by (rule bit_word_eqI) (use low hi in \<open>fastforce simp: bit_and_iff\<close>)
  then have sum: "SECCOMP_RET_ERRNO + of_int err = SECCOMP_RET_ERRNO OR (of_nat k :: u32)"
    by (simp add: k disjunctive_add_eq_or)
  show ?thesis
    unfolding sum
  proof (rule bit_word_eqI)
    fix i
    assume i: "i < LENGTH(32)"
    have "bit SECCOMP_RET_ACTION i \<longleftrightarrow> 16 \<le> i"
      unfolding ret_fields bit_push_bit_iff bit_mask_iff using i by auto
    then show "bit ((SECCOMP_RET_ERRNO OR of_nat k) AND SECCOMP_RET_ACTION) i \<longleftrightarrow> bit SECCOMP_RET_ERRNO i"
      using low [of i] hi [of i] by (auto simp: bit_and_iff bit_or_iff)
  qed
qed

lemma Error_decides:
  assumes "0 \<le> err" and "err \<le> 4095"
  shows "\<exists>e. Error err = Inr e \<and> eval_result X86_64 d e = Some (errno err) \<and> known_codes e \<and> \<not> HasUnsafeTraps e"
  using assms errno_action [OF assms]
  by (simp add: Error_def ERR_MIN_ERRNO_def ERR_MAX_ERRNO_def errno_def known_action_def)

lemma eval_clause:
  "vals \<noteq> [] \<Longrightarrow> eval_result X86_64 d (IfThenResultExpr (any_test i m vals) e1 e2) =
    on_int_arg d (nat i) (\<lambda>v. if one_of vals (v AND lo32 m) then eval_result X86_64 d e1 else eval_result X86_64 d e2)"
  "eval_result X86_64 d (IfThenResultExpr (test4 i m c) e1 e2) =
    on_int_arg d (nat i) (\<lambda>v. if v AND lo32 m = of_int c then eval_result X86_64 d e1 else eval_result X86_64 d e2)"
  "eval_result X86_64 d (IfThenResultExpr (test8 i m c) e1 e2) =
    (if sd_args d (nat i) AND m = of_int c then eval_result X86_64 d e1 else eval_result X86_64 d e2)"
  by (simp_all add: on_int_arg_def any_test_def eval_AnyOf_test4 one_of_def eval_test4 eval_test8)

lemmas decide_simps = decides_def dsl_build eval_clause action_codes Let_def

declare if_weak_cong [cong del] eval_result.simps(3) [simp del]

lemma decides_CrashSIGSYS: "decides (Inr CrashSIGSYS) d (Some (crash CrashSIGSYS_Handler))"
  by (simp add: decide_simps)

lemma decides_Allow: "decides (Inr Allow) d (Some allow)"
  by (simp add: decide_simps)

lemma decides_Error: "0 \<le> err \<Longrightarrow> err \<le> 4095 \<Longrightarrow> decides (Error err) d (Some (errno err))"
  using Error_decides [of err d] by (simp add: decides_def)

definition eperm_expr :: result_expr where
  "eperm_expr = ReturnResultExpr (SECCOMP_RET_ERRNO + 1)"

lemma eperm_simps:
  "Error EPERM = Inr eperm_expr" "eval_result X86_64 d eperm_expr = Some (errno EPERM)"
  "known_codes eperm_expr" "\<not> HasUnsafeTraps eperm_expr"
proof -
  show e: "Error EPERM = Inr eperm_expr"
    by (simp add: Error_def EPERM_def ERR_MIN_ERRNO_def ERR_MAX_ERRNO_def eperm_expr_def)
  show "eval_result X86_64 d eperm_expr = Some (errno EPERM)" "known_codes eperm_expr"
    "\<not> HasUnsafeTraps eperm_expr"
    using decides_Error [of EPERM d] by (simp_all add: decides_def e) (simp_all add: EPERM_def)
qed

definition on_allowed :: "bool \<Rightarrow> trap_fnc \<Rightarrow> verdict option" where
  "on_allowed ok f = (if ok then Some allow else Some (crash f))"

lemmas decide_all = decide_simps eperm_simps on_allowed_def

lemma decides_ClockID:
  "decides RestrictClockID d (on_int_arg d 0 (\<lambda>v. on_allowed
     (one_of [CLOCK_MONOTONIC, CLOCK_MONOTONIC_COARSE, CLOCK_PROCESS_CPUTIME_ID, CLOCK_REALTIME,
        CLOCK_REALTIME_COARSE, CLOCK_THREAD_CPUTIME_ID] v) CrashSIGSYS_Handler))"
  by (simp add: RestrictClockID_def decide_all)

lemma decides_Mprotect:
  "decides RestrictMprotectFlags d (on_int_arg d 2 (\<lambda>v. on_allowed
     (v AND lo32 (NOT (PROT_READ OR PROT_WRITE OR PROT_EXEC)) = 0) CrashSIGSYS_Handler))"
  by (simp add: RestrictMprotectFlags_def decide_all)

lemma decides_Mmap:
  "decides RestrictMmapFlags d (on_int_arg d 3 (\<lambda>v. on_allowed
     (v AND lo32 (NOT mmap_allowed_mask) = 0) CrashSIGSYS_Handler))"
  by (simp add: RestrictMmapFlags_def decide_all)

lemma decides_Prctl:
  "decides RestrictPrctl d (on_int_arg d 0 (\<lambda>v. on_allowed
     (one_of [PR_GET_NAME, PR_SET_NAME, PR_GET_DUMPABLE, PR_SET_DUMPABLE] v) SIGSYSPrctlFailure))"
  by (simp add: RestrictPrctl_def decide_all CrashSIGSYSPrctl_def crash_codes)

lemma decides_Fcntl:
  "decides RestrictFcntlCommands d (on_int_arg d 1 (\<lambda>v. on_allowed
     (one_of [F_GETFL, F_GETFD, F_SETFD, F_SETLK, F_SETLKW, F_GETLK, F_DUPFD, F_DUPFD_CLOEXEC] v \<or>
      v = of_int F_SETFL \<and> sd_args d 2 AND NOT fcntl_allowed_mask = 0) CrashSIGSYS_Handler))"
  by (auto simp: RestrictFcntlCommands_def decide_all on_int_arg_def one_of_def)

lemma decides_Kill:
  "decides (RestrictKillTarget pid sysno) d
    (if sysno = NR_kill \<or> sysno = NR_tgkill then on_int_arg d 0 (\<lambda>v. on_allowed (v = of_int pid) SIGSYSKillFailure)
     else Some (crash (if sysno = NR_tkill then SIGSYSKillFailure else CrashSIGSYS_Handler)))"
  by (simp add: RestrictKillTarget_def decide_all CrashSIGSYSKill_def crash_codes)

lemma decides_Futex:
  "decides RestrictFutex d (on_int_arg d 1 (\<lambda>v. on_allowed
     (one_of [FUTEX_WAIT, FUTEX_WAKE, FUTEX_REQUEUE, FUTEX_CMP_REQUEUE, FUTEX_WAKE_OP, FUTEX_WAIT_BITSET,
        FUTEX_WAKE_BITSET] (v AND lo32 (NOT (FUTEX_PRIVATE_FLAG OR FUTEX_CLOCK_REALTIME)))) SIGSYSFutexFailure))"
  by (simp add: RestrictFutex_def decide_all CrashSIGSYSFutex_def crash_codes)

lemma decides_GetSetpriority:
  "decides (RestrictGetSetpriority pid) d (on_int_arg d 0 (\<lambda>which.
     if which = of_int PRIO_PROCESS
     then on_int_arg d 1 (\<lambda>who. if one_of [0, pid] who then Some allow else Some (errno EPERM))
     else Some (crash CrashSIGSYS_Handler)))"
  by (simp add: RestrictGetSetpriority_def decide_all)

lemma decides_Clone:
  "decides RestrictCloneToThreadsAndEPERMFork d
    (if sd_args d 0 = CLONE_VM OR CLONE_FS OR CLONE_FILES OR CLONE_SIGHAND OR CLONE_THREAD OR CLONE_SYSVSEM OR
        CLONE_SETTLS OR CLONE_PARENT_SETTID OR CLONE_CHILD_CLEARTID then Some allow
     else if sd_args d 0 AND (CLONE_VM OR CLONE_THREAD) = 0 then Some (errno EPERM)
     else Some (crash SIGSYSCloneFailure))"
  by (simp add: RestrictCloneToThreadsAndEPERMFork_def decide_all IsAndroid_def CrashSIGSYSClone_def crash_codes)


lemma decides_madvise:
  "decides (bindE (Arg 4 2) (\<lambda>advice. bindE (EqualTo advice MADV_DONTNEED) (\<lambda>ok.
      bindE (Error EPERM) (\<lambda>eperm. Inr (Else (If ok Allow) eperm))))) d
    (on_int_arg d 2 (\<lambda>v. if v = of_int MADV_DONTNEED then Some allow else Some (errno EPERM)))"
  by (simp add: decide_all)

lemma decides_socketpair:
  "decides (bindE (Arg 4 0) (\<lambda>domain. bindE (EqualTo domain AF_UNIX) (\<lambda>ok.
      Inr (Else (If ok Allow) CrashSIGSYS)))) d
    (on_int_arg d 0 (\<lambda>v. on_allowed (v = of_int AF_UNIX) CrashSIGSYS_Handler))"
  by (simp add: decide_all)

lemma decides_sockopt:
  "decides (bindE (Arg 4 1) (\<lambda>level. bindE (Arg 4 2) (\<lambda>optname.
      bindE (EqualTo level SOL_SOCKET) (\<lambda>l. bindE (EqualTo optname SO_PEEK_OFF) (\<lambda>opt.
      Inr (Else (If (AllOf [l, opt]) Allow) CrashSIGSYS)))))) d
    (on_int_arg d 1 (\<lambda>l. if l = of_int SOL_SOCKET
       then on_int_arg d 2 (\<lambda>opt. on_allowed (opt = of_int SO_PEEK_OFF) CrashSIGSYS_Handler)
       else Some (crash CrashSIGSYS_Handler)))"
  by (simp add: decide_all eval_result.simps(3) eval_test4 on_int_arg_def)

section \<open>The policy as a whole\<close>

text \<open>What a call is decided by, from its number and arguments.\<close>

definition baseline_verdict :: "int \<Rightarrow> int \<Rightarrow> int \<Rightarrow> arch_seccomp_data \<Rightarrow> verdict option" where
  "baseline_verdict fs pid n d =
    (if IsBaselinePolicyAllowed n then Some allow
     else if n = NR_clock_gettime then on_int_arg d 0 (\<lambda>v. on_allowed
       (one_of [CLOCK_MONOTONIC, CLOCK_MONOTONIC_COARSE, CLOCK_PROCESS_CPUTIME_ID, CLOCK_REALTIME,
        CLOCK_REALTIME_COARSE, CLOCK_THREAD_CPUTIME_ID] v) CrashSIGSYS_Handler)
     else if n = NR_clone then
       (if sd_args d 0 = CLONE_VM OR CLONE_FS OR CLONE_FILES OR CLONE_SIGHAND OR CLONE_THREAD OR
          CLONE_SYSVSEM OR CLONE_SETTLS OR CLONE_PARENT_SETTID OR CLONE_CHILD_CLEARTID then Some allow
        else if sd_args d 0 AND (CLONE_VM OR CLONE_THREAD) = 0 then Some (errno EPERM)
        else Some (crash SIGSYSCloneFailure))
     else if n = NR_fcntl then on_int_arg d 1 (\<lambda>v. on_allowed
       (one_of [F_GETFL, F_GETFD, F_SETFD, F_SETLK, F_SETLKW, F_GETLK, F_DUPFD, F_DUPFD_CLOEXEC] v \<or>
        v = of_int F_SETFL \<and> sd_args d 2 AND NOT fcntl_allowed_mask = 0) CrashSIGSYS_Handler)
     else if n = NR_fork then Some (errno EPERM)
     else if n = NR_futex then on_int_arg d 1 (\<lambda>v. on_allowed
       (one_of [FUTEX_WAIT, FUTEX_WAKE, FUTEX_REQUEUE, FUTEX_CMP_REQUEUE, FUTEX_WAKE_OP, FUTEX_WAIT_BITSET,
          FUTEX_WAKE_BITSET] (v AND lo32 (NOT (FUTEX_PRIVATE_FLAG OR FUTEX_CLOCK_REALTIME)))) SIGSYSFutexFailure)
     else if n = NR_set_robust_list then Some (errno EPERM)
     else if n = NR_getpriority \<or> n = NR_setpriority then on_int_arg d 0 (\<lambda>which.
       if which = of_int PRIO_PROCESS
       then on_int_arg d 1 (\<lambda>who. if one_of [0, pid] who then Some allow else Some (errno EPERM))
       else Some (crash CrashSIGSYS_Handler))
     else if n = NR_madvise then
       on_int_arg d 2 (\<lambda>v. if v = of_int MADV_DONTNEED then Some allow else Some (errno EPERM))
     else if n = NR_mmap then
       on_int_arg d 3 (\<lambda>v. on_allowed (v AND lo32 (NOT mmap_allowed_mask) = 0) CrashSIGSYS_Handler)
     else if n = NR_mprotect then on_int_arg d 2 (\<lambda>v. on_allowed
       (v AND lo32 (NOT (PROT_READ OR PROT_WRITE OR PROT_EXEC)) = 0) CrashSIGSYS_Handler)
     else if n = NR_prctl then on_int_arg d 0 (\<lambda>v. on_allowed
       (one_of [PR_GET_NAME, PR_SET_NAME, PR_GET_DUMPABLE, PR_SET_DUMPABLE] v) SIGSYSPrctlFailure)
     else if n = NR_socketpair then
       on_int_arg d 0 (\<lambda>v. on_allowed (v = of_int AF_UNIX) CrashSIGSYS_Handler)
     else if IsKill n then
       (if n = NR_kill \<or> n = NR_tgkill
        then on_int_arg d 0 (\<lambda>v. on_allowed (v = of_int pid) SIGSYSKillFailure)
        else Some (crash (if n = NR_tkill then SIGSYSKillFailure else CrashSIGSYS_Handler)))
     else if IsFileSystem n \<or> IsCurrentDirectory n then Some (errno fs)
     else if IsSeccomp n \<or> IsAnySystemV n \<or> IsUmask n \<or> IsDeniedFileSystemAccessViaFd n \<or>
       IsDeniedGetOrModifySocket n \<or> IsProcessPrivilegeChange n then Some (errno EPERM)
     else if n = NR_getsockopt \<or> n = NR_setsockopt then on_int_arg d 1 (\<lambda>l.
       if l = of_int SOL_SOCKET
       then on_int_arg d 2 (\<lambda>opt. on_allowed (opt = of_int SO_PEEK_OFF) CrashSIGSYS_Handler)
       else Some (crash CrashSIGSYS_Handler))
     else Some (crash CrashSIGSYS_Handler))"

lemma decides_if:
  "(b \<Longrightarrow> decides m d v) \<Longrightarrow> (\<not> b \<Longrightarrow> decides m' d v') \<Longrightarrow> decides (if b then m else m') d (if b then v else v')"
  by simp

lemma EvaluateSyscallImpl_decides:
  assumes "0 \<le> fs" and "fs \<le> 4095"
  shows "decides (EvaluateSyscallImpl fs pid n) d (baseline_verdict fs pid n d)"
proof -
  have e: "decides (Error EPERM) d (Some (errno EPERM))"
    by (intro decides_Error) (simp_all add: EPERM_def)
  have tail: "decides (if IsSeccomp n then Error EPERM else if IsAnySystemV n then Error EPERM
      else if IsUmask n \<or> IsDeniedFileSystemAccessViaFd n \<or> IsDeniedGetOrModifySocket n \<or>
        IsProcessPrivilegeChange n then Error EPERM else m) d
      (if IsSeccomp n \<or> IsAnySystemV n \<or> IsUmask n \<or> IsDeniedFileSystemAccessViaFd n \<or>
       IsDeniedGetOrModifySocket n \<or> IsProcessPrivilegeChange n then Some (errno EPERM) else v)"
    if "decides m d v" for m v using that e by simp
  have last: "decides (if IsBaselinePolicyWatched n then Inr CrashSIGSYS else Inr CrashSIGSYS) d
      (Some (crash CrashSIGSYS_Handler))" by (simp add: decides_CrashSIGSYS)
  show ?thesis
    unfolding EvaluateSyscallImpl_def baseline_verdict_def
    by (intro decides_if decides_Allow decides_ClockID decides_Clone decides_Fcntl e decides_Futex
        decides_GetSetpriority decides_madvise decides_Mmap decides_Mprotect decides_Prctl
        decides_socketpair decides_Kill decides_Error assms tail decides_sockopt last)
qed

definition baseline_config :: "int \<Rightarrow> int \<Rightarrow> pc_config" where
  "baseline_config fs pid = new_policy_compiler X86_64 (BaselinePolicy fs pid) 0 DefaultPanic []"

lemma BaselinePolicy_decides:
  assumes "0 \<le> fs" and "fs \<le> 4095"
  shows "decides (Inr (EvaluateSyscall (BaselinePolicy fs pid) n)) d (baseline_verdict fs pid n d)"
  using EvaluateSyscallImpl_decides [OF assms, of pid n d]
  by (auto simp: decides_def BaselinePolicy_def)

lemma baseline_config_simps:
  assumes "0 \<le> fs" and "fs \<le> 4095"
  shows "pc_arch (baseline_config fs pid) = X86_64" "pc_policy (baseline_config fs pid) = BaselinePolicy fs pid"
    "pc_panic (baseline_config fs pid) = DefaultPanic" "\<not> pc_has_unsafe (baseline_config fs pid)"
  using BaselinePolicy_decides [OF assms, of pid]
  by (auto simp: baseline_config_def new_policy_compiler_def policy_HasUnsafeTraps_def decides_def
      BaselinePolicy_def action_codes)

lemma known_baseline:
  assumes "0 \<le> fs" and "fs \<le> 4095"
  shows "known_policy (baseline_config fs pid)"
  using BaselinePolicy_decides [OF assms, of pid]
  by (simp add: known_policy_def baseline_config_simps [OF assms] decides_def DefaultPanic_def known_Kill)
    (simp add: BaselinePolicy_def action_codes)

text \<open>A call with the conventions of x86-64, of a number its kernel may have.\<close>

definition regular_call :: "arch_seccomp_data \<Rightarrow> bool" where
  "regular_call d \<longleftrightarrow> sd_arch d = SECCOMP_ARCH X86_64 \<and> sd_nr d AND 0x40000000 = 0 \<and>
     SyscallSet_IsValid X86_64 (unat (sd_nr d))"

lemma baseline_policy_verdict:
  assumes "0 \<le> fs" and "fs \<le> 4095"
  shows "regular_call d \<Longrightarrow> policy_verdict (baseline_config fs pid) d =
      (case baseline_verdict fs pid (sint (sd_nr d)) d of Some v \<Rightarrow> Some v | None \<Rightarrow> Some (VRet SECCOMP_RET_KILL))"
    and "\<not> regular_call d \<Longrightarrow>
      policy_verdict (baseline_config fs pid) d \<in> {Some (VRet SECCOMP_RET_KILL), Some (crash CrashSIGSYS_Handler)}"
proof -
  note c = baseline_config_simps [OF assms, of pid]
  have k: "eval_result X86_64 d (DefaultPanic m) = Some (VRet SECCOMP_RET_KILL)" for m
    by (simp add: DefaultPanic_def Kill_def)
  have i: "InvalidSyscall (BaselinePolicy fs pid) = CrashSIGSYS" by (simp add: BaselinePolicy_def)
  have intel: "kIsIntel X86_64" "\<not> kIsX32 X86_64" by (simp_all add: kIsIntel_def kIsX32_def)
  show "regular_call d \<Longrightarrow> policy_verdict (baseline_config fs pid) d =
      (case baseline_verdict fs pid (sint (sd_nr d)) d of Some v \<Rightarrow> Some v | None \<Rightarrow> Some (VRet SECCOMP_RET_KILL))"
    using BaselinePolicy_decides [OF assms, of pid "sint (sd_nr d)" d]
    by (auto simp: policy_verdict_def policy_expr_def resolve_def c k intel regular_call_def decides_def
        split: option.split)
  show "\<not> regular_call d \<Longrightarrow>
      policy_verdict (baseline_config fs pid) d \<in> {Some (VRet SECCOMP_RET_KILL), Some (crash CrashSIGSYS_Handler)}"
    by (auto simp: policy_verdict_def policy_expr_def resolve_def c k i intel regular_call_def action_codes)
qed

lemma verdicts_differ:
  "allow \<noteq> crash f" "crash f \<noteq> allow" "VRet SECCOMP_RET_KILL \<noteq> allow"
  "0 \<le> err \<Longrightarrow> err \<le> 4095 \<Longrightarrow> errno err \<noteq> allow"
proof -
  show "allow \<noteq> crash f" "crash f \<noteq> allow" "VRet SECCOMP_RET_KILL \<noteq> allow"
    by (simp_all add: allow_def crash_def bpf_consts)
  assume "0 \<le> err" "err \<le> 4095"
  from errno_action [OF this] show "errno err \<noteq> allow"
    by (auto simp: errno_def allow_def bpf_consts)
qed


section \<open>What the policy lets through\<close>

text \<open>A 32-bit argument that keeps to the calling convention and satisfies P.\<close>

definition int_arg :: "arch_seccomp_data \<Rightarrow> nat \<Rightarrow> (u32 \<Rightarrow> bool) \<Rightarrow> bool" where
  "int_arg d i P \<longleftrightarrow> arg32_abi_ok X86_64 (sd_args d i) \<and> P (lo32 (sd_args d i))"

definition baseline_permits :: "int \<Rightarrow> int \<Rightarrow> arch_seccomp_data \<Rightarrow> bool" where
  "baseline_permits pid n d \<longleftrightarrow>
     IsBaselinePolicyAllowed n \<or>
     n = NR_clock_gettime \<and> int_arg d 0 (one_of [CLOCK_MONOTONIC, CLOCK_MONOTONIC_COARSE,
       CLOCK_PROCESS_CPUTIME_ID, CLOCK_REALTIME, CLOCK_REALTIME_COARSE, CLOCK_THREAD_CPUTIME_ID]) \<or>
     n = NR_clone \<and> sd_args d 0 = CLONE_VM OR CLONE_FS OR CLONE_FILES OR CLONE_SIGHAND OR CLONE_THREAD OR
       CLONE_SYSVSEM OR CLONE_SETTLS OR CLONE_PARENT_SETTID OR CLONE_CHILD_CLEARTID \<or>
     n = NR_fcntl \<and> int_arg d 1 (\<lambda>v. one_of [F_GETFL, F_GETFD, F_SETFD, F_SETLK, F_SETLKW, F_GETLK,
         F_DUPFD, F_DUPFD_CLOEXEC] v \<or>
       v = of_int F_SETFL \<and> sd_args d 2 AND NOT fcntl_allowed_mask = 0) \<or>
     n = NR_futex \<and> int_arg d 1 (\<lambda>v. one_of [FUTEX_WAIT, FUTEX_WAKE, FUTEX_REQUEUE, FUTEX_CMP_REQUEUE,
         FUTEX_WAKE_OP, FUTEX_WAIT_BITSET, FUTEX_WAKE_BITSET]
       (v AND lo32 (NOT (FUTEX_PRIVATE_FLAG OR FUTEX_CLOCK_REALTIME)))) \<or>
     (n = NR_getpriority \<or> n = NR_setpriority) \<and> int_arg d 0 (\<lambda>v. v = of_int PRIO_PROCESS) \<and>
       int_arg d 1 (one_of [0, pid]) \<or>
     n = NR_madvise \<and> int_arg d 2 (\<lambda>v. v = of_int MADV_DONTNEED) \<or>
     n = NR_mmap \<and> int_arg d 3 (\<lambda>v. v AND lo32 (NOT mmap_allowed_mask) = 0) \<or>
     n = NR_mprotect \<and> int_arg d 2 (\<lambda>v. v AND lo32 (NOT (PROT_READ OR PROT_WRITE OR PROT_EXEC)) = 0) \<or>
     n = NR_prctl \<and> int_arg d 0 (one_of [PR_GET_NAME, PR_SET_NAME, PR_GET_DUMPABLE, PR_SET_DUMPABLE]) \<or>
     n = NR_socketpair \<and> int_arg d 0 (\<lambda>v. v = of_int AF_UNIX) \<or>
     (n = NR_kill \<or> n = NR_tgkill) \<and> int_arg d 0 (\<lambda>v. v = of_int pid) \<or>
     (n = NR_getsockopt \<or> n = NR_setsockopt) \<and> int_arg d 1 (\<lambda>v. v = of_int SOL_SOCKET) \<and>
       int_arg d 2 (\<lambda>v. v = of_int SO_PEEK_OFF)"

lemma allow_simps:
  "on_int_arg d i f = Some allow \<longleftrightarrow> arg32_abi_ok X86_64 (sd_args d i) \<and> f (lo32 (sd_args d i)) = Some allow"
  "on_allowed b g = Some allow \<longleftrightarrow> b" "errno EPERM \<noteq> allow" "allow \<noteq> errno EPERM"
proof -
  show e: "errno EPERM \<noteq> allow" by (rule verdicts_differ(4)) (simp_all add: EPERM_def)
  show "allow \<noteq> errno EPERM" using e by simp
qed (simp_all add: on_int_arg_def on_allowed_def verdicts_differ)

text \<open>The numbers with a restriction of their own are in none of the sets tested before or after.\<close>

lemmas set_members = IsKill_def IsFileSystem_def IsCurrentDirectory_def IsSeccomp_def IsAnySystemV_def
  IsSystemVMessageQueue_def IsSystemVSemaphores_def IsSystemVSharedMemory_def IsUmask_def
  IsDeniedFileSystemAccessViaFd_def IsDeniedGetOrModifySocket_def IsProcessPrivilegeChange_def
  switch_true_def switch_defs nr_defs

lemma baseline_verdict_allow:
  assumes "0 \<le> fs" and "fs \<le> 4095"
  shows "baseline_verdict fs pid n d = Some allow \<longleftrightarrow> baseline_permits pid n d"
proof -
  let ?special = "[NR_clock_gettime, NR_clone, NR_fcntl, NR_fork, NR_futex, NR_set_robust_list,
      NR_getpriority, NR_setpriority, NR_madvise, NR_mmap, NR_mprotect, NR_prctl, NR_socketpair, NR_kill,
      NR_tgkill, NR_tkill, NR_getsockopt, NR_setsockopt]"
  have kill: "IsKill n \<longleftrightarrow> n = NR_kill \<or> n = NR_tgkill \<or> n = NR_tkill" for n
    by (simp add: IsKill_def switch_true_def IsKill_cases_def)
  show ?thesis
  proof (cases "n \<in> set ?special")
    case True
    then show ?thesis
      unfolding baseline_verdict_def baseline_permits_def
      by (simp only: list.set insert_iff empty_iff, elim disjE)
        (auto simp: set_members allow_simps int_arg_def verdicts_differ)
  next
    case False
    then have "n \<noteq> NR_clock_gettime" "n \<noteq> NR_clone" "n \<noteq> NR_fcntl" "n \<noteq> NR_fork" "n \<noteq> NR_futex"
      "n \<noteq> NR_set_robust_list" "n \<noteq> NR_getpriority" "n \<noteq> NR_setpriority" "n \<noteq> NR_madvise"
      "n \<noteq> NR_mmap" "n \<noteq> NR_mprotect" "n \<noteq> NR_prctl" "n \<noteq> NR_socketpair" "\<not> IsKill n" "n \<noteq> NR_kill"
      "n \<noteq> NR_tgkill" "n \<noteq> NR_getsockopt" "n \<noteq> NR_setsockopt" by (auto simp: kill)
    then show ?thesis
      unfolding baseline_verdict_def baseline_permits_def
      using verdicts_differ verdicts_differ(4) [OF assms] allow_simps(3) by auto
  qed
qed



section \<open>The handlers\<close>

definition read_decimal :: "nat \<Rightarrow> string \<Rightarrow> nat" where
  "read_decimal n ds = foldl (\<lambda>v c. 10 * v + (of_char c - 48)) n ds"

lemma syscall_digits_value:
  "unat n < 10 ^ k \<Longrightarrow> read_decimal 0 (syscall_digits k n ds) = read_decimal (unat n) ds"
proof (induction k arbitrary: n ds)
  case (Suc k)
  have "unat (n div 10) < 10 ^ k" using Suc.prems by (simp add: unat_div less_mult_imp_div_less mult.commute)
  moreover have "unat (n mod 10) < 10" by (simp add: unat_mod)
  moreover have "10 * unat (n div 10) + unat (n mod 10) = unat n"
    by (simp add: unat_div unat_mod)
  ultimately show ?case
    using Suc.IH [of "n div 10"] by (simp add: read_decimal_def of_char_of)
qed (simp add: read_decimal_def)

lemma syscall_digits_form:
  "list_all (\<lambda>c. 48 \<le> (of_char c :: nat) \<and> of_char c \<le> (57 :: nat)) (syscall_digits k n []) \<and> length (syscall_digits k n []) = k"
proof -
  have "list_all (\<lambda>c. 48 \<le> (of_char c :: nat) \<and> of_char c \<le> (57 :: nat)) (syscall_digits k n ds) \<and>
      length (syscall_digits k n ds) = k + length ds"
    if "list_all (\<lambda>c. 48 \<le> (of_char c :: nat) \<and> of_char c \<le> (57 :: nat)) ds" for ds
    using that
  proof (induction k arbitrary: n ds)
    case (Suc k)
    have "unat (n mod 10) < 10" by (simp add: unat_mod)
    then show ?case using Suc.prems Suc.IH [of "char_of (48 + unat (n mod 10)) # ds" "n div 10"] by (simp add: of_char_of)
  qed simp
  from this [of "[]"] show ?thesis by simp
qed

lemma offset_small: "unat (SyscallNumberToOffsetFromBase n) < 1024"
  by (simp add: SyscallNumberToOffsetFromBase_def word_le_nat_alt)

lemma offset_value: "unat (SyscallNumberToOffsetFromBase n) = (if unat n < 1024 then unat n else 0)"
  by (simp add: SyscallNumberToOffsetFromBase_def word_le_nat_alt)

lemma bit_offset: "bit (SyscallNumberToOffsetFromBase n) i \<Longrightarrow> i < 10"
proof (rule ccontr)
  assume b: "bit (SyscallNumberToOffsetFromBase n) i" and "\<not> i < 10"
  then have "(2 :: nat) ^ 10 \<le> 2 ^ i" by (intro power_increasing) simp_all
  moreover have "2 ^ i \<le> unat (SyscallNumberToOffsetFromBase n)"
    using b by (rule bit_le_unat)
  ultimately show False using offset_small [of n] by simp
qed

lemma low_bits:
  "x AND 0xff = take_bit 8 x" "y AND 0xff = take_bit 8 y" "x AND 0xfff = take_bit 12 x"
  for x :: u32 and y :: u64
  by (simp_all add: take_bit_eq_mask mask_eq_exp_minus_1)

lemma crash_address:
  assumes "CrashSIGSYS_addresses args = [a, b]"
  shows "drop_bit 12 a AND 0xff = ucast (sd_args args 0 AND 0xff) \<and>
    drop_bit 20 a = ucast (sd_args args 1 AND 0xff) \<and> b = SyscallNumberToOffsetFromBase (sd_nr args)"
proof -
  let ?n = "SyscallNumberToOffsetFromBase (sd_nr args)"
  have a: "a = ?n OR ucast (push_bit 12 (sd_args args 0 AND 0xff)) OR ucast (push_bit 20 (sd_args args 1 AND 0xff))"
    and b: "b = a AND 0xfff"
    using assms unfolding CrashSIGSYS_addresses_def Let_def or.assoc by (simp_all only: list.inject) blast
  show ?thesis
    unfolding b a low_bits
    by (intro conjI; rule bit_word_eqI) (auto simp: bit_simps dest: bit_offset)
qed

lemma sysno_base10_value:
  "read_decimal 0 (sysno_base10 (SyscallNumberToOffsetFromBase n)) = unat (SyscallNumberToOffsetFromBase n)"
proof -
  have "unat (SyscallNumberToOffsetFromBase n) < 10 ^ 4" using offset_small [of n] by simp
  from syscall_digits_value [OF this, of "[]"] show ?thesis
    using offset_small [of n]
    by (simp add: sysno_base10_def word_le_nat_alt read_decimal_def)
qed

text \<open>RestrictSchedTarget lets a call through whose first argument is zero.\<close>

lemma decides_SchedTarget_0:
  assumes "n \<in> set sched_syscalls" and "sd_args d 0 = 0"
  shows "decides (RestrictSchedTarget pid n) d (Some allow)"
proof -
  have "decides (RestrictSchedTarget pid n) d (on_int_arg d 0 (\<lambda>v.
      if one_of [0, pid] v then Some allow else Some (crash SIGSYSSchedHandler)))"
    using assms(1) by (simp add: RestrictSchedTarget_def decide_all RewriteSchedSIGSYS_def crash_codes)
  then show ?thesis
    using assms(2) by (simp add: on_int_arg_def arg32_abi_ok_def one_of_def)
qed

section \<open>Properties\<close>

text \<open>
  C16.  What the baseline policy lets through, exactly: a call is allowed if and only if it follows
  the conventions of x86-64 and is one of the sets the policy allows as they are, or one of the calls
  it restricts, with arguments within the restriction (threads as glibc makes them, clocks by fixed
  name, memory without unusual flags, signals and priorities of the process itself, and so on).
\<close>

theorem baseline_permits_exactly:
  assumes "0 \<le> fs" and "fs \<le> 4095"
  shows "policy_verdict (baseline_config fs pid) d = Some (VRet SECCOMP_RET_ALLOW) \<longleftrightarrow>
    regular_call d \<and> baseline_permits pid (sint (sd_nr d)) d"
proof (cases "regular_call d")
  case True
  note v = baseline_policy_verdict(1) [OF assms True, of pid]
  show ?thesis
    unfolding v baseline_verdict_allow [OF assms, symmetric] allow_def [symmetric]
    using True verdicts_differ(3) by (simp split: option.split)
next
  case False
  with baseline_policy_verdict(2) [OF assms False, of pid] show ?thesis
    using verdicts_differ by (auto simp flip: allow_def)
qed

lemma baseline_permits_exactly_witness:
  "policy_verdict (baseline_config 1 100)
     \<lparr>sd_nr = 62, sd_arch = SECCOMP_ARCH X86_64, sd_ip = 0, sd_args = (\<lambda>_. 100)\<rparr> =
   Some (VRet SECCOMP_RET_ALLOW)"
  by (subst baseline_permits_exactly)
    (simp_all add: regular_call_def IsValid_simps baseline_permits_def nr_defs int_arg_def arg32_abi_ok_def
      hi32_def lo32_def)



text \<open>
  C18.  The crash handler's report names the call: it prints four decimal digits, which are the number of
  the system call if that is below 1024, and zero otherwise; the second address it stores to is the same
  number; the first has this number in its low 12 bits and above them the low bytes of the first two
  arguments.
\<close>

theorem crash_report_names_call:
  "let nr = (if unat (sd_nr args) < 1024 then unat (sd_nr args) else 0);
       digits = sysno_base10 (SyscallNumberToOffsetFromBase (sd_nr args))
   in length digits = 4 \<and> list_all (\<lambda>c. 48 \<le> (of_char c :: nat) \<and> of_char c \<le> (57 :: nat)) digits \<and>
     read_decimal 0 digits = nr \<and>
     (\<exists>a b. CrashSIGSYS_addresses args = [a, b] \<and> unat b = nr \<and> unat (a AND 0xfff) = nr \<and>
        drop_bit 12 a AND 0xff = ucast (sd_args args 0 AND 0xff) \<and>
        drop_bit 20 a = ucast (sd_args args 1 AND 0xff))"
proof -
  have n: "unat (SyscallNumberToOffsetFromBase (sd_nr args)) = (if unat (sd_nr args) < 1024 then unat (sd_nr args) else 0)"
    by (rule offset_value)
  obtain a b where ab: "CrashSIGSYS_addresses args = [a, b]" "b = a AND 0xfff"
    by (simp add: CrashSIGSYS_addresses_def Let_def)
  show ?thesis
    unfolding Let_def sysno_base10_value n [symmetric]
    using crash_address [OF ab(1)] ab syscall_digits_form by (auto simp: sysno_base10_def)
qed

text \<open>
  C19.  The handler for scheduling calls makes progress: it repeats a trapped call only for the
  caller's own thread id, with zero in its place, and the restriction that trapped the call lets
  the repeated one through.
\<close>

theorem sched_retry_is_allowed:
  assumes "SIGSYSSched_action tid d = SchedCall nr params"
  shows "sd_args d 0 = of_int tid \<and> params ! 0 = 0 \<and> tl params = map (sd_args d) [1, 2, 3, 4, 5] \<and>
    decides (RestrictSchedTarget pid (sint nr)) \<lparr>sd_nr = nr, sd_arch = sd_arch d, sd_ip = ip,
      sd_args = (\<lambda>i. params ! i)\<rparr> (Some allow)"
proof -
  have a: "sint nr \<in> set sched_syscalls" "sd_args d 0 = of_int tid" "params = 0 # map (sd_args d) [1, 2, 3, 4, 5]"
    using assms by (auto simp: SIGSYSSched_action_def split: if_splits)
  then show ?thesis
    using decides_SchedTarget_0 [OF a(1), of "\<lparr>sd_nr = nr, sd_arch = sd_arch d, sd_ip = ip, sd_args = (\<lambda>i. params ! i)\<rparr>" pid]
    by simp
qed

lemma sched_retry_is_allowed_witness:
  "decides (RestrictSchedTarget 100 203) \<lparr>sd_nr = 203, sd_arch = 0, sd_ip = 0,
     sd_args = (\<lambda>i. [0, 8, 9, 0, 0, 0] ! i)\<rparr> (Some allow)"
proof -
  have "SIGSYSSched_action 4242 \<lparr>sd_nr = 203, sd_arch = 0, sd_ip = 0,
      sd_args = (\<lambda>i. [4242, 8, 9, 0, 0, 0] ! i)\<rparr> = SchedCall 203 [0, 8, 9, 0, 0, 0]"
    by (simp add: SIGSYSSched_action_def sched_syscalls_def nr_defs)
  from sched_retry_is_allowed [OF this, of 100 0] show ?thesis by simp
qed

end
