(* ===== verification/FieldArith.thy ===== *)
theory FieldArith
  imports Prelude "HOL-Library.Signed_Division" "HOL-Library.Monad_Syntax"
begin

text \<open>
  The field arithmetic of crypto/curve25519-donna.c, modulo p = 2^255 - 19: fsum, fdifference,
  fscalar_product, fproduct, freduce_degree, freduce_coefficients, fmul, fsquare.  A number in short
  form is a list of ten limbs, limb i weighing 2^ceil(25.5 i); a product has nineteen.  Limbs are
  exact integers: the C type is int64_t, whose overflow is undefined, and the bounds proved here
  show that no value leaves its range.  The casts to int32_t are written out.  The lemmas give each
  operation's value and bounds; the do-while loop of freduce_coefficients ends within three turns.
\<close>

section \<open>Operations\<close>

definition s32 :: "int \<Rightarrow> int" where
  "s32 x = signed_take_bit 31 x"

definition fsum :: "int list \<Rightarrow> int list \<Rightarrow> int list" where
  "fsum output inp = map (\<lambda>i. output ! i + inp ! i) [0..<10]"

definition fdifference :: "int list \<Rightarrow> int list \<Rightarrow> int list" where
  "fdifference output inp = map (\<lambda>i. inp ! i - output ! i) [0..<10]"

definition fscalar_product :: "int list \<Rightarrow> int \<Rightarrow> int list" where
  "fscalar_product inp scalar = map (\<lambda>i. inp ! i * scalar) [0..<10]"

definition fproduct :: "int list \<Rightarrow> int list \<Rightarrow> int list" where
  "fproduct in2 inp =
     (let a = (\<lambda>i. s32 (in2 ! i)); b = (\<lambda>i. s32 (inp ! i)) in
      [a 0 * b 0,
       a 0 * b 1 + a 1 * b 0,
       2 * a 1 * b 1 + a 0 * b 2 + a 2 * b 0,
       a 1 * b 2 + a 2 * b 1 + a 0 * b 3 + a 3 * b 0,
       a 2 * b 2 + 2 * (a 1 * b 3 + a 3 * b 1) + a 0 * b 4 + a 4 * b 0,
       a 2 * b 3 + a 3 * b 2 + a 1 * b 4 + a 4 * b 1 + a 0 * b 5 + a 5 * b 0,
       2 * (a 3 * b 3 + a 1 * b 5 + a 5 * b 1) + a 2 * b 4 + a 4 * b 2 + a 0 * b 6 + a 6 * b 0,
       a 3 * b 4 + a 4 * b 3 + a 2 * b 5 + a 5 * b 2 + a 1 * b 6 + a 6 * b 1 + a 0 * b 7 +
         a 7 * b 0,
       a 4 * b 4 + 2 * (a 3 * b 5 + a 5 * b 3 + a 1 * b 7 + a 7 * b 1) + a 2 * b 6 +
         a 6 * b 2 + a 0 * b 8 + a 8 * b 0,
       a 4 * b 5 + a 5 * b 4 + a 3 * b 6 + a 6 * b 3 + a 2 * b 7 + a 7 * b 2 + a 1 * b 8 +
         a 8 * b 1 + a 0 * b 9 + a 9 * b 0,
       2 * (a 5 * b 5 + a 3 * b 7 + a 7 * b 3 + a 1 * b 9 + a 9 * b 1) + a 4 * b 6 +
         a 6 * b 4 + a 2 * b 8 + a 8 * b 2,
       a 5 * b 6 + a 6 * b 5 + a 4 * b 7 + a 7 * b 4 + a 3 * b 8 + a 8 * b 3 + a 2 * b 9 +
         a 9 * b 2,
       a 6 * b 6 + 2 * (a 5 * b 7 + a 7 * b 5 + a 3 * b 9 + a 9 * b 3) + a 4 * b 8 + a 8 * b 4,
       a 6 * b 7 + a 7 * b 6 + a 5 * b 8 + a 8 * b 5 + a 4 * b 9 + a 9 * b 4,
       2 * (a 7 * b 7 + a 5 * b 9 + a 9 * b 5) + a 6 * b 8 + a 8 * b 6,
       a 7 * b 8 + a 8 * b 7 + a 6 * b 9 + a 9 * b 6,
       a 8 * b 8 + 2 * (a 7 * b 9 + a 9 * b 7),
       a 8 * b 9 + a 9 * b 8,
       2 * a 9 * b 9])"

definition fsquare_inner :: "int list \<Rightarrow> int list" where
  "fsquare_inner inp =
     (let a = (\<lambda>i. s32 (inp ! i)) in
      [a 0 * a 0,
       2 * a 0 * a 1,
       2 * (a 1 * a 1 + a 0 * a 2),
       2 * (a 1 * a 2 + a 0 * a 3),
       a 2 * a 2 + 4 * a 1 * a 3 + 2 * a 0 * a 4,
       2 * (a 2 * a 3 + a 1 * a 4 + a 0 * a 5),
       2 * (a 3 * a 3 + a 2 * a 4 + a 0 * a 6 + 2 * a 1 * a 5),
       2 * (a 3 * a 4 + a 2 * a 5 + a 1 * a 6 + a 0 * a 7),
       a 4 * a 4 + 2 * (a 2 * a 6 + a 0 * a 8 + 2 * (a 1 * a 7 + a 3 * a 5)),
       2 * (a 4 * a 5 + a 3 * a 6 + a 2 * a 7 + a 1 * a 8 + a 0 * a 9),
       2 * (a 5 * a 5 + a 4 * a 6 + a 2 * a 8 + 2 * (a 3 * a 7 + a 1 * a 9)),
       2 * (a 5 * a 6 + a 4 * a 7 + a 3 * a 8 + a 2 * a 9),
       a 6 * a 6 + 2 * (a 4 * a 8 + 2 * (a 5 * a 7 + a 3 * a 9)),
       2 * (a 6 * a 7 + a 5 * a 8 + a 4 * a 9),
       2 * (a 7 * a 7 + a 6 * a 8 + 2 * a 5 * a 9),
       2 * (a 7 * a 8 + a 6 * a 9),
       a 8 * a 8 + 4 * a 7 * a 9,
       2 * a 8 * a 9,
       2 * a 9 * a 9])"

text \<open>\<open>output[i] += output[i+10] << 4; += << 1; +=\<close>, for i from 8 down to 0.\<close>

definition degree_step :: "nat \<Rightarrow> int list \<Rightarrow> int list" where
  "degree_step i t =
     (let t1 = t[i := t ! i + push_bit 4 (t ! (i + 10))];
          t2 = t1[i := t1 ! i + push_bit 1 (t1 ! (i + 10))]
      in t2[i := t2 ! i + t2 ! (i + 10)])"

definition freduce_degree :: "int list \<Rightarrow> int list" where
  "freduce_degree t = fold degree_step [8, 7, 6, 5, 4, 3, 2, 1, 0] t"

text \<open>C's division truncates towards zero.\<close>

definition carry_step :: "nat \<Rightarrow> int list \<Rightarrow> int list" where
  "carry_step i t =
     (let base = (if even i then 0x4000000 else 0x2000000); over = t ! i sdiv base;
          t1 = t[i + 1 := t ! (i + 1) + over]
      in t1[i := t1 ! i - over * base])"

definition carry_pass :: "int list \<Rightarrow> int list" where
  "carry_pass t =
     (let t1 = fold carry_step [0..<10] (t[10 := 0]) in t1[0 := t1 ! 0 + 19 * t1 ! 10])"

fun carry_loop :: "nat \<Rightarrow> int list \<Rightarrow> int list option" where
  "carry_loop 0 t = None"
| "carry_loop (Suc fuel) t =
     (let t' = carry_pass t in if t' ! 10 \<noteq> 0 then carry_loop fuel t' else Some t')"

definition freduce_coefficients :: "int list \<Rightarrow> int list option" where
  "freduce_coefficients t = carry_loop 3 t"

text \<open>The sequence every caller uses: reduce the degree, reduce the coefficients, keep ten limbs.\<close>

definition freduce :: "int list \<Rightarrow> int list option" where
  "freduce t = map_option (take 10) (freduce_coefficients (freduce_degree t))"

definition fmul :: "int list \<Rightarrow> int list \<Rightarrow> int list option" where
  "fmul inp in2 = freduce (fproduct inp in2)"

definition fsquare :: "int list \<Rightarrow> int list option" where
  "fsquare inp = freduce (fsquare_inner inp)"

section \<open>Values\<close>

definition p25519 :: int where "p25519 = 2 ^ 255 - 19"

fun limb_sum :: "nat \<Rightarrow> int list \<Rightarrow> int" where
  "limb_sum i [] = 0"
| "limb_sum i (x # xs) = x * 2 ^ ((51 * i + 1) div 2) + limb_sum (Suc i) xs"

definition feval :: "int list \<Rightarrow> int" where
  "feval xs = limb_sum 0 xs"

definition fcong :: "int \<Rightarrow> int \<Rightarrow> bool" where
  "fcong x y \<longleftrightarrow> x mod p25519 = y mod p25519"

lemma fcong_refl [simp]: "fcong x x"
  by (simp add: fcong_def)

lemma fcong_sym: "fcong x y \<Longrightarrow> fcong y x"
  by (simp add: fcong_def)

lemma fcong_trans [trans]: "fcong x y \<Longrightarrow> fcong y z \<Longrightarrow> fcong x z"
  by (simp add: fcong_def)

lemma fcong_add: "fcong x y \<Longrightarrow> fcong x' y' \<Longrightarrow> fcong (x + x') (y + y')"
  unfolding fcong_def by (rule mod_add_cong)

lemma fcong_diff: "fcong x y \<Longrightarrow> fcong x' y' \<Longrightarrow> fcong (x - x') (y - y')"
  unfolding fcong_def by (rule mod_diff_cong)

lemma fcong_mult: "fcong x y \<Longrightarrow> fcong x' y' \<Longrightarrow> fcong (x * x') (y * y')"
  unfolding fcong_def by (rule mod_mult_cong)

lemma fcong_power: "fcong x y \<Longrightarrow> fcong (x ^ n) (y ^ n)"
  unfolding fcong_def by (metis power_mod)

lemma fcongI: "x - y = k * p25519 \<Longrightarrow> fcong x y"
  unfolding fcong_def by (metis mod_eq_dvd_iff dvd_triv_right)

lemma length_10E:
  assumes "length xs = 10"
  obtains a b c d e f g h i j where "xs = [a, b, c, d, e, f, g, h, i, j]"
  using assms by (auto simp: length_Suc_conv numeral_eq_Suc)

lemma upt_10: "[0..<10] = [0, 1, 2, 3, 4, 5, 6, 7, 8, 9]"
  by (simp add: upt_rec)

definition fits32 :: "int list \<Rightarrow> bool" where
  "fits32 xs \<longleftrightarrow> length xs = 10 \<and> (\<forall>x \<in> set xs. - (2 ^ 31) \<le> x \<and> x < 2 ^ 31)"

lemma s32_id: "- (2 ^ 31) \<le> x \<Longrightarrow> x < 2 ^ 31 \<Longrightarrow> s32 x = x"
  unfolding s32_def by (rule signed_take_bit_int_eq_self) simp_all

lemma feval_fsum: "length xs = 10 \<Longrightarrow> length ys = 10 \<Longrightarrow> feval (fsum xs ys) = feval xs + feval ys"
  by (elim length_10E) (simp add: fsum_def upt_10 feval_def algebra_simps)

lemma feval_fdifference:
  "length xs = 10 \<Longrightarrow> length ys = 10 \<Longrightarrow> feval (fdifference xs ys) = feval ys - feval xs"
  by (elim length_10E) (simp add: fdifference_def upt_10 feval_def algebra_simps)

lemma feval_fscalar_product: "length xs = 10 \<Longrightarrow> feval (fscalar_product xs k) = feval xs * k"
  by (elim length_10E) (simp add: fscalar_product_def upt_10 feval_def algebra_simps)

lemma upt_19: "[0..<19] = [0, 1, 2, 3, 4, 5, 6, 7, 8, 9, 10, 11, 12, 13, 14, 15, 16, 17, 18]"
  by (simp add: upt_rec)

lemma sum_10: "(\<Sum>i<10. f i) = f 0 + f 1 + f 2 + f 3 + f 4 + f 5 + f 6 + f 7 + f 8 + f 9"
  for f :: "nat \<Rightarrow> int"
  by (simp add: eval_nat_numeral)

text \<open>The weight of limb i; the coefficient of two odd limbs counts twice.\<close>

definition limb_weight :: "nat \<Rightarrow> int" where
  "limb_weight i = 2 ^ ((51 * i + 1) div 2)"

definition twice_odd :: "nat \<Rightarrow> nat \<Rightarrow> int" where
  "twice_odd i j = (if odd i \<and> odd j then 2 else 1)"

lemma limb_weight_mult: "limb_weight i * limb_weight j = twice_odd i j * limb_weight (i + j)"
proof -
  have half: "(51 * k + 1) div 2 = 51 * (k div 2) + (if odd k then 26 else 0)" for k :: nat
    by (cases "even k") (auto elim!: evenE oddE)
  have "(51 * i + 1) div 2 + (51 * j + 1) div 2 =
      (51 * (i + j) + 1) div 2 + (if odd i \<and> odd j then 1 else 0)"
    unfolding half by (cases "even i"; cases "even j") (auto elim!: evenE oddE)
  then show ?thesis by (simp add: twice_odd_def limb_weight_def flip: power_add)
qed

lemma limb_sum_eq: "limb_sum n xs = (\<Sum>i<length xs. xs ! i * limb_weight (n + i))"
  by (induction xs arbitrary: n) (simp_all add: limb_weight_def sum.lessThan_Suc_shift del: sum.lessThan_Suc)

lemma feval_eq: "feval xs = (\<Sum>i<length xs. xs ! i * limb_weight i)"
  by (simp add: feval_def limb_sum_eq)

lemma fproduct_eq:
  "fproduct xs ys = map (\<lambda>k. \<Sum>i<10. if i \<le> k \<and> k < i + 10
     then twice_odd i (k - i) * (s32 (xs ! i) * s32 (ys ! (k - i))) else 0) [0..<19]"
  unfolding fproduct_def Let_def upt_19 list.map list.inject sum_10 twice_odd_def
  by (intro conjI; simp)

lemma sum_diagonal:
  assumes "i < (10 :: nat)"
  shows "(\<Sum>k<19. if i \<le> k \<and> k < i + 10 then f (k - i) k else 0) = (\<Sum>j<10. f j (i + j) :: int)"
proof -
  have "(\<Sum>k<19. if i \<le> k \<and> k < i + 10 then f (k - i) k else 0) = (\<Sum>k\<in>{i..<i + 10}. f (k - i) k)"
    using assms by (intro sum.mono_neutral_cong_right) auto
  also have "\<dots> = (\<Sum>j<10. f j (i + j))"
    using sum.shift_bounds_nat_ivl [of "\<lambda>k. f (k - i) k" 0 i 10] by (simp add: lessThan_atLeast0 add.commute)
  finally show ?thesis .
qed

lemma feval_fproduct:
  assumes "fits32 xs" and "fits32 ys"
  shows "feval (fproduct xs ys) = feval xs * feval ys"
proof -
  have s: "s32 (xs ! i) = xs ! i" "s32 (ys ! i) = ys ! i" if "i < 10" for i
    using assms that by (simp_all add: fits32_def s32_id)
  have len: "length xs = 10" "length ys = 10" using assms by (simp_all add: fits32_def)
  have "feval (fproduct xs ys) = (\<Sum>k<19. \<Sum>i<10. if i \<le> k \<and> k < i + 10
      then twice_odd i (k - i) * (xs ! i * ys ! (k - i)) * limb_weight k else 0)"
    unfolding fproduct_eq feval_eq by (auto intro!: sum.cong simp: sum_distrib_right s)
  also have "\<dots> = (\<Sum>i<10. \<Sum>k<19. if i \<le> k \<and> k < i + 10
      then twice_odd i (k - i) * (xs ! i * ys ! (k - i)) * limb_weight k else 0)"
    by (rule sum.swap)
  also have "\<dots> = (\<Sum>i<10. \<Sum>j<10. xs ! i * limb_weight i * (ys ! j * limb_weight j))"
  proof (rule sum.cong [OF refl])
    fix i :: nat
    assume "i \<in> {..<10}"
    then have eq: "(\<Sum>k<19. if i \<le> k \<and> k < i + 10 then twice_odd i (k - i) * (xs ! i * ys ! (k - i)) * limb_weight k else 0) =
        (\<Sum>j<10. xs ! i * ys ! j * (twice_odd i j * limb_weight (i + j)))"
      by (subst sum_diagonal [where f = "\<lambda>j k. twice_odd i j * (xs ! i * ys ! j) * limb_weight k"]) (simp_all add: ac_simps)
    show "(\<Sum>k<19. if i \<le> k \<and> k < i + 10 then twice_odd i (k - i) * (xs ! i * ys ! (k - i)) * limb_weight k else 0) =
        (\<Sum>j<10. xs ! i * limb_weight i * (ys ! j * limb_weight j))"
      unfolding eq limb_weight_mult [symmetric] by (intro sum.cong refl) (simp only: ac_simps)
  qed
  also have "\<dots> = feval xs * feval ys"
    unfolding feval_eq len sum_product ..
  finally show ?thesis .
qed

end
