(* ===== verification/FieldBounds.thy ===== *)
theory FieldBounds
  imports FieldArith
begin

text \<open>
  Bounds for the field arithmetic of FieldArith: products of sums of two reduced numbers stay below
  2^57, their degree reductions below 2^62, and freduce_coefficients brings any number whose limbs
  are below 2^62 back to limbs below 2^26 and 2^25 in at most three turns.
\<close>

section \<open>Bounds of limbs\<close>

definition limb_base :: "nat \<Rightarrow> int" where
  "limb_base i = (if even i then 0x4000000 else 0x2000000)"

text \<open>Ten limbs, each below k times the base of its position.\<close>

definition bounded :: "int \<Rightarrow> int list \<Rightarrow> bool" where
  "bounded k xs \<longleftrightarrow> length xs = 10 \<and> (\<forall>i < 10. \<bar>xs ! i\<bar> < k * limb_base i)"

lemma all_10: "(\<forall>i < 10. P i) \<longleftrightarrow> P 0 \<and> P 1 \<and> P 2 \<and> P 3 \<and> P 4 \<and> P 5 \<and> P 6 \<and> P 7 \<and> P 8 \<and> P (9 :: nat)"
proof -
  have "(\<forall>i < 10. P i) \<longleftrightarrow> (\<forall>i \<in> set [0..<10]. P i)" by auto
  then show ?thesis by (simp add: upt_10)
qed

lemma bounded_10:
  "bounded k [a, b, c, d, e, f, g, h, i, j] \<longleftrightarrow>
    \<bar>a\<bar> < k * 0x4000000 \<and> \<bar>b\<bar> < k * 0x2000000 \<and> \<bar>c\<bar> < k * 0x4000000 \<and> \<bar>d\<bar> < k * 0x2000000 \<and>
    \<bar>e\<bar> < k * 0x4000000 \<and> \<bar>f\<bar> < k * 0x2000000 \<and> \<bar>g\<bar> < k * 0x4000000 \<and> \<bar>h\<bar> < k * 0x2000000 \<and>
    \<bar>i\<bar> < k * 0x4000000 \<and> \<bar>j\<bar> < k * 0x2000000"
  by (simp add: bounded_def all_10 limb_base_def)

lemma bounded_length: "bounded k xs \<Longrightarrow> length xs = 10"
  by (simp add: bounded_def)

lemma limb_base_pos: "0 < limb_base i" "limb_base i \<le> 2 ^ 26"
  by (simp_all add: limb_base_def)

lemma bounded_mono: "bounded k xs \<Longrightarrow> k \<le> k' \<Longrightarrow> bounded k' xs"
  unfolding bounded_def using limb_base_pos(1)
  by (meson less_le_trans mult_right_mono order_less_imp_le)

lemma bounded_fits32:
  assumes "bounded 2 xs"
  shows "fits32 xs"
proof -
  have "- (2 ^ 31) \<le> xs ! i \<and> xs ! i < 2 ^ 31" if "i < 10" for i
  proof -
    have "\<bar>xs ! i\<bar> < 2 * limb_base i" using assms that by (simp add: bounded_def)
    with limb_base_pos(2) [of i] show ?thesis by auto
  qed
  with assms show ?thesis by (auto simp: fits32_def bounded_def in_set_conv_nth)
qed

lemma bounded_nth: "bounded k xs \<Longrightarrow> i < 10 \<Longrightarrow> \<bar>xs ! i\<bar> < k * limb_base i"
  by (simp add: bounded_def)

lemma bounded_fsum:
  assumes "bounded 1 xs" and "bounded 1 ys"
  shows "bounded 2 (fsum xs ys)"
proof -
  have "\<bar>xs ! i + ys ! i\<bar> < 2 * limb_base i" if "i < 10" for i
    using bounded_nth [OF assms(1) that] bounded_nth [OF assms(2) that] by linarith
  then show ?thesis by (simp add: bounded_def fsum_def)
qed

lemma bounded_fdifference:
  assumes "bounded 1 xs" and "bounded 1 ys"
  shows "bounded 2 (fdifference xs ys)"
proof -
  have "\<bar>ys ! i - xs ! i\<bar> < 2 * limb_base i" if "i < 10" for i
    using bounded_nth [OF assms(1) that] bounded_nth [OF assms(2) that] by linarith
  then show ?thesis by (simp add: bounded_def fdifference_def)
qed

section \<open>Products\<close>

lemma product_bound:
  fixes x y :: int
  assumes "\<bar>x\<bar> \<le> X" and "\<bar>y\<bar> \<le> Y" and "X * Y = Z"
  shows "- Z \<le> x * y" "x * y \<le> Z"
proof -
  have "\<bar>x * y\<bar> \<le> Z"
    using assms unfolding abs_mult by (metis abs_ge_zero mult_mono order_trans)
  then show "- Z \<le> x * y" "x * y \<le> Z" by linarith+
qed

lemma s32_small: "\<bar>x\<bar> \<le> 2 ^ k \<Longrightarrow> k \<le> 30 \<Longrightarrow> s32 x = x"
proof (rule s32_id)
  assume x: "\<bar>x\<bar> \<le> 2 ^ k" and "k \<le> 30"
  then have "(2 :: int) ^ k \<le> 2 ^ 30" by (intro power_increasing) auto
  with x show "- (2 ^ 31) \<le> x" "x < 2 ^ 31" by auto
qed

text \<open>The bound for products is 2^57.\<close>

definition all_below :: "int \<Rightarrow> int list \<Rightarrow> bool" where
  "all_below m xs \<longleftrightarrow> (\<forall>x \<in> set xs. \<bar>x\<bar> < m)"

lemma limb_product:
  assumes "bounded 2 xs" and "bounded 2 ys" and "i < 10" and "j < 10"
  shows "- (4 * (limb_base i * limb_base j)) \<le> xs ! i * ys ! j"
    and "xs ! i * ys ! j \<le> 4 * (limb_base i * limb_base j)"
  using product_bound [of "xs ! i" "2 * limb_base i" "ys ! j" "2 * limb_base j"]
    bounded_nth [OF assms(1,3)] bounded_nth [OF assms(2,4)] by simp_all

lemma limb_base_numeral:
  "limb_base 0 = 0x4000000" "limb_base (Suc 0) = 0x2000000"
  "limb_base (numeral (num.Bit0 n)) = 0x4000000" "limb_base (numeral (num.Bit1 n)) = 0x2000000"
  by (simp_all add: limb_base_def)

lemma s32_limb: "fits32 xs \<Longrightarrow> i < 10 \<Longrightarrow> s32 (xs ! i) = xs ! i"
  by (intro s32_id) (auto simp: fits32_def)

text \<open>No coefficient of a product, nor any partial sum of one, leaves the range of int64_t.\<close>

lemma fproduct_bound:
  assumes "bounded 2 xs" and "bounded 2 ys"
  shows "all_below 144115188075855872 (fproduct xs ys)"
proof -
  note m = limb_product [OF assms, simplified limb_base_numeral]
  note s = s32_limb [OF bounded_fits32 [OF assms(1)]] s32_limb [OF bounded_fits32 [OF assms(2)]]
  have e0: "\<bar>xs ! 0 * ys ! 0\<bar> < 144115188075855872"
    using m [of 0 0]
    unfolding abs_less_iff distrib_left mult.assoc by (intro conjI; simp add: limb_base_numeral)
  have e1: "\<bar>xs ! 0 * ys ! 1 + xs ! 1 * ys ! 0\<bar> < 144115188075855872"
    using m [of 0 1] m [of 1 0]
    unfolding abs_less_iff distrib_left mult.assoc by (intro conjI; simp add: limb_base_numeral)
  have e2: "\<bar>2 * xs ! 1 * ys ! 1 + xs ! 0 * ys ! 2 + xs ! 2 * ys ! 0\<bar> < 144115188075855872"
    using m [of 1 1] m [of 0 2] m [of 2 0]
    unfolding abs_less_iff distrib_left mult.assoc by (intro conjI; simp add: limb_base_numeral)
  have e3: "\<bar>xs ! 1 * ys ! 2 + xs ! 2 * ys ! 1 + xs ! 0 * ys ! 3 + xs ! 3 * ys ! 0\<bar> < 144115188075855872"
    using m [of 1 2] m [of 2 1] m [of 0 3] m [of 3 0]
    unfolding abs_less_iff distrib_left mult.assoc by (intro conjI; simp add: limb_base_numeral)
  have e4: "\<bar>xs ! 2 * ys ! 2 + 2 * (xs ! 1 * ys ! 3 + xs ! 3 * ys ! 1) +
      xs ! 0 * ys ! 4 + xs ! 4 * ys ! 0\<bar> < 144115188075855872"
    using m [of 2 2] m [of 1 3] m [of 3 1] m [of 0 4] m [of 4 0]
    unfolding abs_less_iff distrib_left mult.assoc by (intro conjI; simp add: limb_base_numeral)
  have e5: "\<bar>xs ! 2 * ys ! 3 + xs ! 3 * ys ! 2 + xs ! 1 * ys ! 4 + xs ! 4 * ys ! 1 +
      xs ! 0 * ys ! 5 + xs ! 5 * ys ! 0\<bar> < 144115188075855872"
    using m [of 2 3] m [of 3 2] m [of 1 4] m [of 4 1] m [of 0 5] m [of 5 0]
    unfolding abs_less_iff distrib_left mult.assoc by (intro conjI; simp add: limb_base_numeral)
  have e6: "\<bar>2 * (xs ! 3 * ys ! 3 + xs ! 1 * ys ! 5 + xs ! 5 * ys ! 1) +
      xs ! 2 * ys ! 4 + xs ! 4 * ys ! 2 + xs ! 0 * ys ! 6 + xs ! 6 * ys ! 0\<bar> < 144115188075855872"
    using m [of 3 3] m [of 1 5] m [of 5 1] m [of 2 4] m [of 4 2] m [of 0 6] m [of 6 0]
    unfolding abs_less_iff distrib_left mult.assoc by (intro conjI; simp add: limb_base_numeral)
  have e7: "\<bar>xs ! 3 * ys ! 4 + xs ! 4 * ys ! 3 + xs ! 2 * ys ! 5 + xs ! 5 * ys ! 2 +
      xs ! 1 * ys ! 6 + xs ! 6 * ys ! 1 + xs ! 0 * ys ! 7 + xs ! 7 * ys ! 0\<bar> < 144115188075855872"
    using m [of 3 4] m [of 4 3] m [of 2 5] m [of 5 2] m [of 1 6] m [of 6 1] m [of 0 7] m [of 7 0]
    unfolding abs_less_iff distrib_left mult.assoc by (intro conjI; simp add: limb_base_numeral)
  have e8: "\<bar>xs ! 4 * ys ! 4 + 2 * (xs ! 3 * ys ! 5 + xs ! 5 * ys ! 3 +
      xs ! 1 * ys ! 7 + xs ! 7 * ys ! 1) + xs ! 2 * ys ! 6 + xs ! 6 * ys ! 2 +
      xs ! 0 * ys ! 8 + xs ! 8 * ys ! 0\<bar> < 144115188075855872"
    using m [of 4 4] m [of 3 5] m [of 5 3] m [of 1 7] m [of 7 1] m [of 2 6] m [of 6 2] m [of 0 8]
      m [of 8 0]
    unfolding abs_less_iff distrib_left mult.assoc by (intro conjI; simp add: limb_base_numeral)
  have e9: "\<bar>xs ! 4 * ys ! 5 + xs ! 5 * ys ! 4 + xs ! 3 * ys ! 6 + xs ! 6 * ys ! 3 +
      xs ! 2 * ys ! 7 + xs ! 7 * ys ! 2 + xs ! 1 * ys ! 8 + xs ! 8 * ys ! 1 +
      xs ! 0 * ys ! 9 + xs ! 9 * ys ! 0\<bar> < 144115188075855872"
    using m [of 4 5] m [of 5 4] m [of 3 6] m [of 6 3] m [of 2 7] m [of 7 2] m [of 1 8] m [of 8 1]
      m [of 0 9] m [of 9 0]
    unfolding abs_less_iff distrib_left mult.assoc by (intro conjI; simp add: limb_base_numeral)
  have e10: "\<bar>2 * (xs ! 5 * ys ! 5 + xs ! 3 * ys ! 7 + xs ! 7 * ys ! 3 +
      xs ! 1 * ys ! 9 + xs ! 9 * ys ! 1) + xs ! 4 * ys ! 6 + xs ! 6 * ys ! 4 +
      xs ! 2 * ys ! 8 + xs ! 8 * ys ! 2\<bar> < 144115188075855872"
    using m [of 5 5] m [of 3 7] m [of 7 3] m [of 1 9] m [of 9 1] m [of 4 6] m [of 6 4] m [of 2 8]
      m [of 8 2]
    unfolding abs_less_iff distrib_left mult.assoc by (intro conjI; simp add: limb_base_numeral)
  have e11: "\<bar>xs ! 5 * ys ! 6 + xs ! 6 * ys ! 5 + xs ! 4 * ys ! 7 + xs ! 7 * ys ! 4 +
      xs ! 3 * ys ! 8 + xs ! 8 * ys ! 3 + xs ! 2 * ys ! 9 + xs ! 9 * ys ! 2\<bar> < 144115188075855872"
    using m [of 5 6] m [of 6 5] m [of 4 7] m [of 7 4] m [of 3 8] m [of 8 3] m [of 2 9] m [of 9 2]
    unfolding abs_less_iff distrib_left mult.assoc by (intro conjI; simp add: limb_base_numeral)
  have e12: "\<bar>xs ! 6 * ys ! 6 + 2 * (xs ! 5 * ys ! 7 + xs ! 7 * ys ! 5 +
      xs ! 3 * ys ! 9 + xs ! 9 * ys ! 3) + xs ! 4 * ys ! 8 + xs ! 8 * ys ! 4\<bar> < 144115188075855872"
    using m [of 6 6] m [of 5 7] m [of 7 5] m [of 3 9] m [of 9 3] m [of 4 8] m [of 8 4]
    unfolding abs_less_iff distrib_left mult.assoc by (intro conjI; simp add: limb_base_numeral)
  have e13: "\<bar>xs ! 6 * ys ! 7 + xs ! 7 * ys ! 6 + xs ! 5 * ys ! 8 + xs ! 8 * ys ! 5 +
      xs ! 4 * ys ! 9 + xs ! 9 * ys ! 4\<bar> < 144115188075855872"
    using m [of 6 7] m [of 7 6] m [of 5 8] m [of 8 5] m [of 4 9] m [of 9 4]
    unfolding abs_less_iff distrib_left mult.assoc by (intro conjI; simp add: limb_base_numeral)
  have e14: "\<bar>2 * (xs ! 7 * ys ! 7 + xs ! 5 * ys ! 9 + xs ! 9 * ys ! 5) +
      xs ! 6 * ys ! 8 + xs ! 8 * ys ! 6\<bar> < 144115188075855872"
    using m [of 7 7] m [of 5 9] m [of 9 5] m [of 6 8] m [of 8 6]
    unfolding abs_less_iff distrib_left mult.assoc by (intro conjI; simp add: limb_base_numeral)
  have e15: "\<bar>xs ! 7 * ys ! 8 + xs ! 8 * ys ! 7 + xs ! 6 * ys ! 9 + xs ! 9 * ys ! 6\<bar> < 144115188075855872"
    using m [of 7 8] m [of 8 7] m [of 6 9] m [of 9 6]
    unfolding abs_less_iff distrib_left mult.assoc by (intro conjI; simp add: limb_base_numeral)
  have e16: "\<bar>xs ! 8 * ys ! 8 + 2 * (xs ! 7 * ys ! 9 + xs ! 9 * ys ! 7)\<bar> < 144115188075855872"
    using m [of 8 8] m [of 7 9] m [of 9 7]
    unfolding abs_less_iff distrib_left mult.assoc by (intro conjI; simp add: limb_base_numeral)
  have e17: "\<bar>xs ! 8 * ys ! 9 + xs ! 9 * ys ! 8\<bar> < 144115188075855872"
    using m [of 8 9] m [of 9 8]
    unfolding abs_less_iff distrib_left mult.assoc by (intro conjI; simp add: limb_base_numeral)
  have e18: "\<bar>2 * xs ! 9 * ys ! 9\<bar> < 144115188075855872"
    using m [of 9 9]
    unfolding abs_less_iff distrib_left mult.assoc by (intro conjI; simp add: limb_base_numeral)
  show ?thesis
    unfolding all_below_def fproduct_def Let_def
    by (simp only: s list.set ball_simps simp_thms e0 e1 e2 e3 e4 e5 e6 e7 e8 e9 e10 e11 e12 e13 e14 e15 e16 e17 e18)

qed

lemma fsquare_inner_eq: "fsquare_inner xs = fproduct xs xs"
  by (simp add: fsquare_inner_def fproduct_def Let_def algebra_simps)

lemma length_19E:
  assumes "length xs = 19"
  obtains a b c d e f g h i j k l m n p q r s t where "xs = [a, b, c, d, e, f, g, h, i, j, k, l, m, n, p, q, r, s, t]"
  using assms by (auto simp: length_Suc_conv numeral_eq_Suc)

lemma degree_step_eq:
  "i + 10 < length t \<Longrightarrow> degree_step i t = t[i := t ! i + 19 * t ! (i + 10)]"
  by (simp add: degree_step_def Let_def push_bit_eq_mult algebra_simps)

lemma freduce_degree_eq:
  assumes "length t = 19"
  shows "freduce_degree t = map (\<lambda>i. t ! i + 19 * t ! (i + 10)) [0..<9] @ drop 9 t"
  using assms by (elim length_19E) (simp add: freduce_degree_def degree_step_eq upt_rec)

lemma feval_freduce_degree:
  assumes "length t = 19"
  shows "fcong (feval (take 10 (freduce_degree t))) (feval t)"
  using assms
proof (elim length_19E)
  fix a b c d e f g h i j k l m n q r s u v
  assume t: "t = [a, b, c, d, e, f, g, h, i, j, k, l, m, n, q, r, s, u, v]"
  show ?thesis
    by (rule fcongI [where k = "- (k + l * 2 ^ 26 + m * 2 ^ 51 + n * 2 ^ 77 + q * 2 ^ 102 + r * 2 ^ 128
        + s * 2 ^ 153 + u * 2 ^ 179 + v * 2 ^ 204)"])
      (simp add: freduce_degree_eq assms, simp add: t feval_def upt_rec p25519_def algebra_simps)
qed

lemma nth_all_below: "all_below m xs \<Longrightarrow> i < length xs \<Longrightarrow> \<bar>xs ! i\<bar> < m"
  by (simp add: all_below_def)

lemma freduce_degree_bound:
  assumes "all_below m t" and "length t = 19"
  shows "all_below (20 * m) (freduce_degree t)"
proof -
  have "\<bar>t ! i + 19 * t ! (i + 10)\<bar> < 20 * m" if "i < 9" for i
    using nth_all_below [OF assms(1), of i] nth_all_below [OF assms(1), of "i + 10"] that assms(2) by linarith
  moreover have "\<bar>x\<bar> < 20 * m" if "x \<in> set (drop 9 t)" for x
    using assms(1) in_set_dropD [OF that] by (fastforce simp: all_below_def)
  ultimately show ?thesis
    by (auto simp: freduce_degree_eq [OF assms(2)] all_below_def)
qed

section \<open>Reducing the coefficients\<close>

lemma sdiv_cases:
  fixes u b :: int
  assumes "0 < b"
  shows "0 \<le> u \<Longrightarrow> 0 \<le> u sdiv b \<and> 0 \<le> u - u sdiv b * b \<and> u - u sdiv b * b < b"
    and "u \<le> 0 \<Longrightarrow> u sdiv b \<le> 0 \<and> u - u sdiv b * b \<le> 0 \<and> - b < u - u sdiv b * b"
proof -
  have d: "u sdiv b = sgn u * (\<bar>u\<bar> div b)"
    using assms by (simp add: signed_divide_int_def)
  show "0 \<le> u \<Longrightarrow> 0 \<le> u sdiv b \<and> 0 \<le> u - u sdiv b * b \<and> u - u sdiv b * b < b"
    using assms d by (cases "u = 0") (auto simp: minus_div_mult_eq_mod pos_imp_zdiv_nonneg_iff)
  show "u \<le> 0 \<Longrightarrow> u sdiv b \<le> 0 \<and> u - u sdiv b * b \<le> 0 \<and> - b < u - u sdiv b * b"
  proof (cases "u = 0")
    case False
    assume "u \<le> 0"
    with False have s: "u sdiv b = - ((- u) div b)" using d by simp
    have "(- u) - (- u) div b * b = (- u) mod b" by (simp add: minus_div_mult_eq_mod)
    moreover have "0 \<le> (- u) mod b" "(- u) mod b < b" using assms by simp_all
    moreover have "0 \<le> (- u) div b" using \<open>u \<le> 0\<close> assms by (simp add: pos_imp_zdiv_nonneg_iff)
    ultimately show ?thesis unfolding s by simp
  qed (simp add: d assms)
qed

text \<open>What is left of a limb, and how much it carries.\<close>

lemma carry_rest: "0 < b \<Longrightarrow> \<bar>u - u sdiv b * b\<bar> < b" for u b :: int
  using sdiv_cases [of b u] by (cases "0 \<le> u") auto

lemma carry_over: "0 < b \<Longrightarrow> \<bar>u\<bar> < (m + 1) * b \<Longrightarrow> \<bar>u sdiv b\<bar> \<le> m" for u b m :: int
proof -
  assume b: "0 < b" and u: "\<bar>u\<bar> < (m + 1) * b"
  have "\<bar>u\<bar> div b * b \<le> \<bar>u\<bar>"
    using b pos_mod_sign [of b "\<bar>u\<bar>"] by (simp add: minus_mod_eq_div_mult [symmetric])
  with u have "\<bar>u\<bar> div b * b < (m + 1) * b" by linarith
  then have "\<bar>u\<bar> div b < m + 1" using b by (simp only: mult_less_cancel_right_pos)
  moreover have "\<bar>u sdiv b\<bar> \<le> \<bar>u\<bar> div b"
    using b by (simp add: signed_divide_int_def abs_mult pos_imp_zdiv_nonneg_iff sgn_if)
  ultimately show ?thesis by simp
qed

lemma carry_none: "\<bar>u\<bar> < b \<Longrightarrow> u sdiv b = 0" for u b :: int
  using carry_over [of b u 0] by (cases "0 < b") auto

lemma carry_over1: "0 < b \<Longrightarrow> \<bar>u\<bar> < 2 * b \<Longrightarrow> \<bar>u sdiv b\<bar> \<le> 1" for u b :: int
  using carry_over [of b u 1] by simp

text \<open>A carry of at most one ripples on only through limbs it leaves at zero.\<close>

lemma carry_ripple:
  fixes x c b :: int
  assumes "1 < b" and "\<bar>x\<bar> < b" and "\<bar>c\<bar> \<le> 1"
  shows "\<bar>(x + c) sdiv b\<bar> \<le> 1"
    and "(x + c) sdiv b \<noteq> 0 \<Longrightarrow> c \<noteq> 0 \<and> x + c - (x + c) sdiv b * b = 0"
proof -
  have le: "\<bar>x + c\<bar> \<le> b" using assms by linarith
  then show "\<bar>(x + c) sdiv b\<bar> \<le> 1" using assms(1) by (intro carry_over1) linarith+
  assume nz: "(x + c) sdiv b \<noteq> 0"
  have "\<not> \<bar>x + c\<bar> < b"
    using nz assms(1) by (auto simp: signed_divide_int_def)
  with le have "x + c = b \<or> x + c = - b" by linarith
  then show "c \<noteq> 0 \<and> x + c - (x + c) sdiv b * b = 0"
    using assms by (auto simp: signed_divide_int_def)
qed


lemma carry_ripple_first:
  fixes x c b m :: int
  assumes "m < b" and "\<bar>x\<bar> < b" and "\<bar>c\<bar> \<le> m" and "0 < b"
  shows "\<bar>(x + c) sdiv b\<bar> \<le> 1"
    and "(x + c) sdiv b \<noteq> 0 \<Longrightarrow> \<bar>x + c - (x + c) sdiv b * b\<bar> < m"
proof -
  have lt: "\<bar>x + c\<bar> < 2 * b" using assms by linarith
  from carry_over1 [OF assms(4) lt] show le: "\<bar>(x + c) sdiv b\<bar> \<le> 1" .
  assume nz: "(x + c) sdiv b \<noteq> 0"
  from le nz have "(x + c) sdiv b = 1 \<or> (x + c) sdiv b = - 1" by linarith
  then show "\<bar>x + c - (x + c) sdiv b * b\<bar> < m"
  proof
    assume q: "(x + c) sdiv b = 1"
    then have "0 \<le> x + c - b"
      using sdiv_cases [OF assms(4), of "x + c"] assms(4) by (cases "0 \<le> x + c") auto
    with q assms(1-3) show ?thesis unfolding q by linarith
  next
    assume q: "(x + c) sdiv b = - 1"
    then have "x + c + b \<le> 0"
      using sdiv_cases [OF assms(4), of "x + c"] assms(4) by (cases "x + c \<le> 0") auto
    with q assms(1-3) show ?thesis unfolding q by linarith
  qed
qed

text \<open>The carry into limb i, and the limb a pass leaves.\<close>

fun carry :: "int list \<Rightarrow> nat \<Rightarrow> int" where
  "carry t 0 = 0"
| "carry t (Suc i) = (t ! i + carry t i) sdiv limb_base i"

definition rest :: "int list \<Rightarrow> nat \<Rightarrow> int" where
  "rest t i = t ! i + carry t i - carry t (Suc i) * limb_base i"

lemma carry_step_nth:
  assumes "i + 1 < length t"
  shows "length (carry_step i t) = length t"
    and "carry_step i t ! j = (if j = i then t ! i - t ! i sdiv limb_base i * limb_base i
      else if j = i + 1 then t ! (i + 1) + t ! i sdiv limb_base i else t ! j)"
  using assms by (auto simp: carry_step_def Let_def limb_base_def nth_list_update)

lemma fold_carry_step:
  assumes "k \<le> 10" and "length t = 19"
  shows "length (fold carry_step [0..<k] t) = 19 \<and>
    (\<forall>j. fold carry_step [0..<k] t ! j =
      (if j < k then rest t j else if j = k then t ! k + carry t k else t ! j))"
  using assms(1)
proof (induction k)
  case 0
  with assms(2) show ?case by simp
next
  case (Suc k)
  then have IH: "length (fold carry_step [0..<k] t) = 19"
    "fold carry_step [0..<k] t ! j = (if j < k then rest t j else if j = k then t ! k + carry t k else t ! j)" for j
    by auto
  have "k + 1 < length (fold carry_step [0..<k] t)" using IH(1) Suc.prems by simp
  note step = carry_step_nth [OF this]
  show ?case
    using step(1) IH(1) by (auto simp: step(2) IH(2) rest_def less_Suc_eq)
qed

lemma carry_cong: "\<forall>j < i. t ! j = t' ! j \<Longrightarrow> carry t i = carry t' i"
  by (induction i) auto

lemma carry_pass_nth:
  assumes "length t = 19"
  shows "length (carry_pass t) = 19" and "carry_pass t ! 0 = rest t 0 + 19 * carry t 10"
    and "0 < i \<Longrightarrow> i < 10 \<Longrightarrow> carry_pass t ! i = rest t i" and "carry_pass t ! 10 = carry t 10"
proof -
  let ?t = "t[10 := 0]"
  have c: "carry ?t i = carry t i" if "i \<le> 10" for i
    using that by (intro carry_cong) auto
  then have r: "rest ?t i = rest t i" if "i < 10" for i
    using that by (simp add: rest_def)
  have f: "length (fold carry_step [0..<10] ?t) = 19"
    "fold carry_step [0..<10] ?t ! j = (if j < 10 then rest ?t j else if j = 10 then ?t ! 10 + carry ?t 10 else ?t ! j)" for j
    using fold_carry_step [of 10 ?t] assms by auto
  show "length (carry_pass t) = 19"
    using f(1) by (simp add: carry_pass_def Let_def)
  show "carry_pass t ! 0 = rest t 0 + 19 * carry t 10"
    using f(1) assms by (simp add: carry_pass_def Let_def f(2) r c)
  show "0 < i \<Longrightarrow> i < 10 \<Longrightarrow> carry_pass t ! i = rest t i"
    using f(1) by (simp add: carry_pass_def Let_def f(2) r)
  show "carry_pass t ! 10 = carry t 10"
    using f(1) assms by (simp add: carry_pass_def Let_def f(2) c)
qed

lemma take_10_nth: "10 \<le> length xs \<Longrightarrow> take 10 xs = map ((!) xs) [0..<10]"
  by (rule nth_equalityI) simp_all

text \<open>A pass takes the carry out of the top limb, times p, off the value.\<close>

lemma feval_carry_pass:
  assumes "length t = 19"
  shows "feval (take 10 (carry_pass t)) = feval (take 10 t) - carry t 10 * p25519"
proof -
  note n = carry_pass_nth [OF assms]
  have two: "carry t (Suc (Suc 0)) = carry t 2" by (simp only: numeral_2_eq_2)
  show ?thesis
    using n(1) assms
    by (simp add: take_10_nth upt_10 n(2,3) feval_def p25519_def rest_def limb_base_numeral
        algebra_simps two del: carry.simps(2))
qed


lemma rest_limb: "\<bar>rest t i\<bar> < limb_base i"
  using carry_rest [where b = "limb_base i" and u = "t ! i + carry t i"] limb_base_pos(1) [of i] by (simp add: rest_def)

lemma carry_pass_bounded:
  assumes "length t = 19" and "carry t 10 = 0"
  shows "bounded 1 (take 10 (carry_pass t))"
proof -
  note n = carry_pass_nth [OF assms(1)]
  have "\<bar>carry_pass t ! i\<bar> < limb_base i" if "i < 10" for i
    using rest_limb [of t i] n(2) n(3) [of i] that assms(2) by (cases "i = 0") simp_all
  then show ?thesis using n(1) by (simp add: bounded_def)
qed

lemma carry_loop_Some:
  "carry_loop k t = Some t' \<Longrightarrow> length t = 19 \<Longrightarrow>
    bounded 1 (take 10 t') \<and> fcong (feval (take 10 t')) (feval (take 10 t))"
proof (induction k arbitrary: t)
  case (Suc k)
  note n = carry_pass_nth [OF Suc.prems(2)]
  have c: "fcong (feval (take 10 (carry_pass t))) (feval (take 10 t))"
    by (rule fcongI [where k = "- carry t 10"]) (simp add: feval_carry_pass [OF Suc.prems(2)])
  show ?case
  proof (cases "carry_pass t ! 10 = 0")
    case True
    then show ?thesis
      using Suc.prems c n(4) carry_pass_bounded [OF Suc.prems(2)] by (simp add: Let_def)
  next
    case False
    then have "carry_loop k (carry_pass t) = Some t'" using Suc.prems(1) by (simp add: Let_def)
    from Suc.IH [OF this n(1)] c show ?thesis using fcong_trans by blast
  qed
qed simp

text \<open>The states after one turn from limbs below 2^62, and after a second one that carried out.\<close>

definition one_turn :: "int list \<Rightarrow> bool" where
  "one_turn t \<longleftrightarrow> length t = 19 \<and> \<bar>t ! 0\<bar> < 2 ^ 43 \<and> (\<forall>i. 0 < i \<and> i < 10 \<longrightarrow> \<bar>t ! i\<bar> < limb_base i)"

definition two_turns :: "int list \<Rightarrow> bool" where
  "two_turns t \<longleftrightarrow> length t = 19 \<and> \<bar>t ! 0\<bar> < 2 ^ 26 + 19 \<and> \<bar>t ! 1\<bar> < 2 ^ 17 + 1 \<and>
     (\<forall>i. 1 < i \<and> i < 10 \<longrightarrow> t ! i = 0)"

lemma limb_base_ge: "2 ^ 25 \<le> limb_base i"
  by (simp add: limb_base_def)

lemma carry_large:
  assumes "all_below (2 ^ 62) t" and "length t = 19"
  shows "i \<le> 10 \<Longrightarrow> \<bar>carry t i\<bar> \<le> 2 ^ 38"
proof (induction i)
  case (Suc i)
  have "\<bar>t ! i\<bar> < 2 ^ 62" using nth_all_below [OF assms(1)] assms(2) Suc.prems by simp
  then have "\<bar>t ! i + carry t i\<bar> < (2 ^ 38 + 1) * 2 ^ 25" using Suc by simp
  also have "\<dots> \<le> (2 ^ 38 + 1) * limb_base i" using limb_base_ge by (intro mult_left_mono) simp_all
  finally show ?case using carry_over [OF limb_base_pos(1)] by simp
qed simp

lemma first_turn:
  assumes "all_below (2 ^ 62) t" and "length t = 19"
  shows "one_turn (carry_pass t)"
proof -
  note n = carry_pass_nth [OF assms(2)]
  have "\<bar>carry_pass t ! 0\<bar> < 2 ^ 43"
    using carry_large [OF assms, of 10] rest_limb [of t 0] limb_base_pos(2) [of 0] unfolding n(2) by simp
  moreover have "\<bar>carry_pass t ! i\<bar> < limb_base i" if "0 < i" "i < 10" for i
    using that n(3) rest_limb [of t i] by simp
  ultimately show ?thesis using n(1) by (simp add: one_turn_def)
qed

lemma second_carry:
  assumes "one_turn t"
  shows "i < 9 \<Longrightarrow> \<bar>carry t (i + 2)\<bar> \<le> 1 \<and>
    (carry t (i + 2) \<noteq> 0 \<longrightarrow> \<bar>rest t 1\<bar> < 2 ^ 17 + 1 \<and> (\<forall>j. 1 < j \<and> j < i + 2 \<longrightarrow> rest t j = 0))"
proof (induction i)
  case 0
  have "\<bar>t ! 0\<bar> < (2 ^ 17 + 1) * limb_base 0" using assms by (simp add: one_turn_def limb_base_def)
  then have c1: "\<bar>carry t 1\<bar> \<le> 2 ^ 17" using carry_over [OF limb_base_pos(1)] by simp
  have t1: "\<bar>t ! 1\<bar> < limb_base 1" using assms by (simp add: one_turn_def)
  have b: "2 ^ 17 + 1 < limb_base 1" by (simp add: limb_base_def)
  have c2: "carry t (0 + 2) = (t ! 1 + carry t 1) sdiv limb_base 1" by (simp add: numeral_2_eq_2)
  have r1: "rest t 1 = t ! 1 + carry t 1 - carry t (0 + 2) * limb_base 1" by (simp add: rest_def numeral_2_eq_2)
  have "\<bar>carry t 1\<bar> \<le> 2 ^ 17 + 1" using c1 by simp
  from carry_ripple_first [OF b t1 this limb_base_pos(1)] show ?case
    unfolding r1 c2 by auto
next
  case (Suc i)
  then have IH: "\<bar>carry t (i + 2)\<bar> \<le> 1"
    "carry t (i + 2) \<noteq> 0 \<Longrightarrow> \<bar>rest t 1\<bar> < 2 ^ 17 + 1 \<and> (\<forall>j. 1 < j \<and> j < i + 2 \<longrightarrow> rest t j = 0)" by auto
  have ti: "\<bar>t ! (i + 2)\<bar> < limb_base (i + 2)" using assms Suc.prems by (simp add: one_turn_def)
  have c: "carry t (Suc i + 2) = (t ! (i + 2) + carry t (i + 2)) sdiv limb_base (i + 2)" by simp
  have r: "rest t (i + 2) = t ! (i + 2) + carry t (i + 2) - carry t (Suc i + 2) * limb_base (i + 2)"
    by (simp add: rest_def)
  have "1 < limb_base (i + 2)" using limb_base_ge [of "i + 2"] by simp
  note k = carry_ripple [OF this ti IH(1), folded c, folded r]
  show ?case
    using k IH(2) by (auto simp: less_Suc_eq)
qed

lemma second_turn:
  assumes "one_turn t" and "carry t 10 \<noteq> 0"
  shows "two_turns (carry_pass t)"
proof -
  have len: "length t = 19" using assms(1) by (simp add: one_turn_def)
  note n = carry_pass_nth [OF len]
  have c: "\<bar>carry t 10\<bar> \<le> 1" "\<bar>rest t 1\<bar> < 2 ^ 17 + 1" "\<And>j. 1 < j \<Longrightarrow> j < 10 \<Longrightarrow> rest t j = 0"
    using second_carry [OF assms(1), of 8] assms(2) by auto
  have "\<bar>carry_pass t ! 0\<bar> < 2 ^ 26 + 19"
    using c(1) rest_limb [of t 0] limb_base_pos(2) [of 0] unfolding n(2) by simp
  then show ?thesis
    using n(1,3) c(2,3) by (simp add: two_turns_def)
qed

lemma third_carry:
  assumes "two_turns t"
  shows "i < 9 \<Longrightarrow> carry t (i + 2) = 0"
proof (induction i)
  case 0
  have "\<bar>t ! 0\<bar> < 2 * limb_base 0" using assms by (simp add: two_turns_def limb_base_def)
  then have "\<bar>carry t 1\<bar> \<le> 1" using carry_over1 [OF limb_base_pos(1)] by simp
  moreover have "\<bar>t ! 1\<bar> < 2 ^ 17 + 1" using assms by (simp add: two_turns_def)
  ultimately have "\<bar>t ! 1 + carry t 1\<bar> < limb_base 1" by (simp add: limb_base_def)
  from carry_none [OF this] show ?case by (simp add: numeral_2_eq_2)
next
  case (Suc i)
  then have "t ! (i + 2) = 0" "carry t (i + 2) = 0" using assms by (simp_all add: two_turns_def)
  then show ?case by simp
qed

lemma carry_loop_total:
  assumes "all_below (2 ^ 62) t" and "length t = 19"
  shows "\<exists>t'. carry_loop 3 t = Some t'"
proof -
  note n1 = carry_pass_nth [OF assms(2)]
  note n2 = carry_pass_nth [OF n1(1)]
  note n3 = carry_pass_nth [OF n2(1)]
  have "carry_pass (carry_pass (carry_pass t)) ! 10 = 0"
    if "carry_pass (carry_pass t) ! 10 \<noteq> 0"
    using second_turn [OF first_turn [OF assms]] third_carry [of _ 8] that n2(4) n3(4) by simp
  then show ?thesis by (simp add: numeral_3_eq_3 Let_def)
qed

section \<open>Contracts\<close>

lemma freduce_contract:
  assumes "all_below 144115188075855872 t" and "length t = 19"
  shows "\<exists>r. freduce t = Some r \<and> bounded 1 r \<and> fcong (feval r) (feval t)"
proof -
  let ?d = "freduce_degree t"
  have len: "length ?d = 19" by (simp add: freduce_degree_eq [OF assms(2)] assms(2))
  have "all_below (2 ^ 62) ?d"
    using freduce_degree_bound [OF assms] by (auto simp: all_below_def)
  from carry_loop_total [OF this len] obtain t' where t': "carry_loop 3 ?d = Some t'" by blast
  with carry_loop_Some [OF t' len] feval_freduce_degree [OF assms(2)] show ?thesis
    unfolding freduce_def freduce_coefficients_def by (auto intro: fcong_trans)
qed

lemma length_fproduct [simp]: "length (fproduct xs ys) = 19"
  by (simp add: fproduct_def Let_def)

lemma fmul_contract:
  assumes "bounded 2 xs" and "bounded 2 ys"
  shows "\<exists>r. fmul xs ys = Some r \<and> bounded 1 r \<and> fcong (feval r) (feval xs * feval ys)"
  using freduce_contract [OF fproduct_bound [OF assms]] assms
  unfolding fmul_def by (simp add: feval_fproduct bounded_fits32)

lemma fsquare_contract:
  assumes "bounded 2 xs"
  shows "\<exists>r. fsquare xs = Some r \<and> bounded 1 r \<and> fcong (feval r) (feval xs ^ 2)"
  using freduce_contract [OF fproduct_bound [OF assms assms]] assms
  unfolding fsquare_def by (simp add: fsquare_inner_eq feval_fproduct bounded_fits32 power2_eq_square)

section \<open>Properties\<close>

text \<open>C11. freduce_coefficients ends: from limbs below 2^62 in magnitude, as its comment allows, the
  do-while loop leaves after at most three turns, with ten limbs below 2^26 and 2^25 in turn, and the
  number they stand for is unchanged modulo 2^255 - 19.\<close>

theorem freduce_coefficients_terminates:
  assumes "length t = 19" and "list_all (\<lambda>x. \<bar>x\<bar> < 2 ^ 62) t"
  shows "\<exists>r. freduce_coefficients t = Some r \<and> bounded 1 (take 10 r) \<and>
    feval (take 10 r) mod p25519 = feval (take 10 t) mod p25519"
proof -
  have "all_below (2 ^ 62) t" using assms(2) by (simp add: all_below_def list_all_iff)
  then obtain r where "carry_loop 3 t = Some r" using carry_loop_total assms(1) by blast
  then show ?thesis
    using carry_loop_Some [OF _ assms(1)] unfolding freduce_coefficients_def fcong_def by blast
qed

lemma freduce_coefficients_terminates_witness:
  "\<exists>r. freduce_coefficients (replicate 19 (2 ^ 61)) = Some r \<and> bounded 1 (take 10 r) \<and>
    feval (take 10 r) mod p25519 = feval (take 10 (replicate 19 (2 ^ 61))) mod p25519"
  by (rule freduce_coefficients_terminates) (simp_all add: list_all_iff)

text \<open>C12. No overflow: for inputs of sums or differences of reduced numbers, every coefficient that
  fproduct or fsquare_inner computes stays below 2^57 and every one that freduce_degree leaves stays
  below 2^62, so int64_t holds them and freduce_coefficients may be applied.\<close>

theorem field_products_fit:
  assumes "bounded 2 xs" and "bounded 2 ys"
  shows "list_all (\<lambda>x. \<bar>x\<bar> < 2 ^ 57) (fproduct xs ys) \<and>
    list_all (\<lambda>x. \<bar>x\<bar> < 2 ^ 57) (fsquare_inner xs) \<and>
    list_all (\<lambda>x. \<bar>x\<bar> < 2 ^ 62) (freduce_degree (fproduct xs ys))"
proof (intro conjI)
  note p = fproduct_bound [OF assms]
  show "list_all (\<lambda>x. \<bar>x\<bar> < 2 ^ 57) (fproduct xs ys)"
    using p by (simp add: all_below_def list_all_iff)
  show "list_all (\<lambda>x. \<bar>x\<bar> < 2 ^ 57) (fsquare_inner xs)"
    using fproduct_bound [OF assms(1,1)] by (simp add: fsquare_inner_eq all_below_def list_all_iff)
  show "list_all (\<lambda>x. \<bar>x\<bar> < 2 ^ 62) (freduce_degree (fproduct xs ys))"
    using freduce_degree_bound [OF p length_fproduct] by (auto simp: all_below_def list_all_iff)
qed

lemma field_products_fit_witness:
  "list_all (\<lambda>x. \<bar>x\<bar> < 2 ^ 57) (fproduct (replicate 10 (2 ^ 25)) (replicate 10 (- (2 ^ 25)))) \<and>
    list_all (\<lambda>x. \<bar>x\<bar> < 2 ^ 57) (fsquare_inner (replicate 10 (2 ^ 25))) \<and>
    list_all (\<lambda>x. \<bar>x\<bar> < 2 ^ 62)
      (freduce_degree (fproduct (replicate 10 (2 ^ 25)) (replicate 10 (- (2 ^ 25)))))"
  by (rule field_products_fit) (simp_all add: bounded_def all_10 limb_base_numeral)

text \<open>C13. The squaring routine, with its own shortened coefficients, computes what multiplying a
  number by itself computes, coefficient by coefficient.\<close>

theorem fsquare_is_fmul: "fsquare xs = fmul xs xs"
  by (simp add: fsquare_def fmul_def fsquare_inner_eq)

end
