(* ===== verification/Curve25519.thy ===== *)
theory Curve25519
  imports FieldBounds "HOL-Library.Word"
begin

text \<open>
  The rest of crypto/curve25519-donna.c: fexpand and fcontract between 32 bytes and ten limbs, the
  Montgomery ladder (fmonty, cmult), the inversion crecip and the entry point curve25519_donna.  An
  output array is a result; the buffers nqx and nqx2 (and so on), swapped by pointer, are the old and
  the new value.  Loops whose end depends on the data carry fuel, and Curve25519Bytes shows that it
  suffices.
\<close>

unbundle bit_operations_syntax

section \<open>Byte strings\<close>

text \<open>The macro F of fexpand: four bytes, shifted and masked.\<close>

definition expand_limb :: "8 word list \<Rightarrow> nat \<Rightarrow> nat \<Rightarrow> int \<Rightarrow> int" where
  "expand_limb inp start shift msk =
     drop_bit shift (uint (inp ! start) OR push_bit 8 (uint (inp ! (start + 1)))
       OR push_bit 16 (uint (inp ! (start + 2))) OR push_bit 24 (uint (inp ! (start + 3)))) AND msk"

definition fexpand :: "8 word list \<Rightarrow> int list" where
  "fexpand inp =
     [expand_limb inp 0 0 0x3ffffff, expand_limb inp 3 2 0x1ffffff, expand_limb inp 6 3 0x3ffffff,
      expand_limb inp 9 5 0x1ffffff, expand_limb inp 12 6 0x3ffffff, expand_limb inp 16 0 0x1ffffff,
      expand_limb inp 19 1 0x3ffffff, expand_limb inp 22 3 0x1ffffff, expand_limb inp 25 4 0x3ffffff,
      expand_limb inp 28 6 0x1ffffff]"

text \<open>The inner while loops of fcontract, with the borrow out of limb i.\<close>

fun borrow_limb :: "nat \<Rightarrow> nat \<Rightarrow> int list \<Rightarrow> int list option" where
  "borrow_limb 0 i inp = None"
| "borrow_limb (Suc fuel) i inp =
     (if inp ! i < 0
      then borrow_limb fuel i
        (inp[i := inp ! i + (if odd i then 0x2000000 else 0x4000000), i + 1 := inp ! (i + 1) - 1])
      else Some inp)"

fun borrow_limbs :: "nat list \<Rightarrow> int list \<Rightarrow> int list option" where
  "borrow_limbs [] inp = Some inp"
| "borrow_limbs (i # is) inp = borrow_limb 2 i inp \<bind> borrow_limbs is"

fun wrap_limb :: "nat \<Rightarrow> int list \<Rightarrow> int list option" where
  "wrap_limb 0 inp = None"
| "wrap_limb (Suc fuel) inp =
     (if inp ! 9 < 0 then wrap_limb fuel (inp[9 := inp ! 9 + 0x2000000, 0 := inp ! 0 - 19])
      else Some inp)"

fun normalise :: "nat \<Rightarrow> int list \<Rightarrow> int list option" where
  "normalise 0 inp = None"
| "normalise (Suc fuel) inp =
     do { t \<leftarrow> borrow_limbs [0..<9] inp;
          t \<leftarrow> wrap_limb 2 t;
          if t ! 0 < 0 then normalise fuel t else Some t }"

definition limb_shifts :: "nat list" where
  "limb_shifts = [0, 2, 3, 5, 6, 0, 1, 3, 4, 6]"

text \<open>The macro F of fcontract.\<close>

definition store_limb :: "int list \<Rightarrow> nat \<Rightarrow> nat \<Rightarrow> 8 word list \<Rightarrow> 8 word list" where
  "store_limb inp i s output =
     output[s := output ! s OR word_of_int (inp ! i AND 0xff),
            s + 1 := word_of_int (drop_bit 8 (inp ! i) AND 0xff),
            s + 2 := word_of_int (drop_bit 16 (inp ! i) AND 0xff),
            s + 3 := word_of_int (drop_bit 24 (inp ! i) AND 0xff)]"

definition store_limbs :: "int list \<Rightarrow> 8 word list \<Rightarrow> 8 word list" where
  "store_limbs inp output =
     fold (\<lambda>(i, s). store_limb inp i s)
       [(0, 0), (1, 3), (2, 6), (3, 9), (4, 12), (5, 16), (6, 19), (7, 22), (8, 25), (9, 28)]
       (output[0 := 0, 16 := 0])"

definition fcontract :: "8 word list \<Rightarrow> int list \<Rightarrow> 8 word list option" where
  "fcontract output inp =
     do { t \<leftarrow> normalise 2 inp;
          Some (store_limbs (map2 push_bit limb_shifts t) output) }"

section \<open>The ladder\<close>

text \<open>
  fmonty: the inputs are destroyed and not read again; of the long form outputs only the first ten
  limbs are ever read.  The results are x2, z2, x3, z3.
\<close>

definition fmonty :: "int list \<Rightarrow> int list \<Rightarrow> int list \<Rightarrow> int list \<Rightarrow> int list \<Rightarrow>
    ((int list \<times> int list) \<times> (int list \<times> int list)) option" where
  "fmonty x0 z0 xprime0 zprime0 qmqp =
     (let origx = x0; x = fsum x0 z0; z = fdifference z0 origx;
          origxprime = xprime0; xprime = fsum xprime0 zprime0;
          zprime = fdifference zprime0 origxprime
      in do {
        xxprime \<leftarrow> freduce (fproduct xprime z);
        zzprime \<leftarrow> freduce (fproduct x zprime);
        let origxprime = xxprime;
        let xxprime = fsum xxprime zzprime;
        let zzprime = fdifference zzprime origxprime;
        xxxprime \<leftarrow> fsquare xxprime;
        zzzprime \<leftarrow> fsquare zzprime;
        zzprime \<leftarrow> freduce (fproduct zzzprime qmqp);
        let x3 = xxxprime;
        let z3 = zzprime;
        xx \<leftarrow> fsquare x;
        zz \<leftarrow> fsquare z;
        x2 \<leftarrow> freduce (fproduct xx zz);
        let zz = fdifference zz xx;
        zzz \<leftarrow> freduce (fscalar_product zz 121665 @ replicate 9 0);
        let zzz = fsum zzz xx;
        z2 \<leftarrow> freduce (fproduct zz zzz);
        Some ((x2, z2), (x3, z3)) })"

record ladder =
  nqx :: "int list"
  nqz :: "int list"
  nqpqx :: "int list"
  nqpqz :: "int list"

definition ladder_bit :: "int list \<Rightarrow> bool \<Rightarrow> ladder \<Rightarrow> ladder option" where
  "ladder_bit q one s =
     (if one
      then do { ((x2, z2), (x3, z3)) \<leftarrow> fmonty (nqpqx s) (nqpqz s) (nqx s) (nqz s) q;
                Some \<lparr>nqx = x3, nqz = z3, nqpqx = x2, nqpqz = z2\<rparr> }
      else do { ((x2, z2), (x3, z3)) \<leftarrow> fmonty (nqx s) (nqz s) (nqpqx s) (nqpqz s) q;
                Some \<lparr>nqx = x2, nqz = z2, nqpqx = x3, nqpqz = z3\<rparr> })"

fun bit_loop :: "int list \<Rightarrow> nat \<Rightarrow> 8 word \<Rightarrow> ladder \<Rightarrow> ladder option" where
  "bit_loop q 0 byte s = Some s"
| "bit_loop q (Suc j) byte s =
     do { s' \<leftarrow> ladder_bit q (byte AND 0x80 \<noteq> 0) s; bit_loop q j (push_bit 1 byte) s' }"

text \<open>The bytes n[k - 1], ..., n[0].\<close>

fun byte_loop :: "int list \<Rightarrow> 8 word list \<Rightarrow> nat \<Rightarrow> ladder \<Rightarrow> ladder option" where
  "byte_loop q n 0 s = Some s"
| "byte_loop q n (Suc k) s = do { s' \<leftarrow> bit_loop q 8 (n ! k) s; byte_loop q n k s' }"

definition limb_const :: "int \<Rightarrow> int list" where
  "limb_const x = x # replicate 9 0"

definition cmult :: "8 word list \<Rightarrow> int list \<Rightarrow> (int list \<times> int list) option" where
  "cmult n q =
     do { s \<leftarrow> byte_loop q n 32
            \<lparr>nqx = limb_const 1, nqz = limb_const 0, nqpqx = q, nqpqz = limb_const 1\<rparr>;
          Some (nqx s, nqz s) }"

section \<open>Inversion\<close>

text \<open>k turns of the loops \<open>fsquare(t0, t1); fsquare(t1, t0)\<close>.\<close>

fun fsquare_pairs :: "nat \<Rightarrow> int list \<Rightarrow> int list option" where
  "fsquare_pairs 0 t = Some t"
| "fsquare_pairs (Suc k) t = do { u \<leftarrow> fsquare t; t \<leftarrow> fsquare u; fsquare_pairs k t }"

definition crecip :: "int list \<Rightarrow> int list option" where
  "crecip z = do {
     z2 \<leftarrow> fsquare z;
     t1 \<leftarrow> fsquare z2;
     t0 \<leftarrow> fsquare t1;
     z9 \<leftarrow> fmul t0 z;
     z11 \<leftarrow> fmul z9 z2;
     t0 \<leftarrow> fsquare z11;
     z2_5_0 \<leftarrow> fmul t0 z9;
     t0 \<leftarrow> fsquare z2_5_0;
     t1 \<leftarrow> fsquare t0;
     t0 \<leftarrow> fsquare t1;
     t1 \<leftarrow> fsquare t0;
     t0 \<leftarrow> fsquare t1;
     z2_10_0 \<leftarrow> fmul t0 z2_5_0;
     t0 \<leftarrow> fsquare z2_10_0;
     t1 \<leftarrow> fsquare t0;
     t1 \<leftarrow> fsquare_pairs 4 t1;
     z2_20_0 \<leftarrow> fmul t1 z2_10_0;
     t0 \<leftarrow> fsquare z2_20_0;
     t1 \<leftarrow> fsquare t0;
     t1 \<leftarrow> fsquare_pairs 9 t1;
     t0 \<leftarrow> fmul t1 z2_20_0;
     t1 \<leftarrow> fsquare t0;
     t0 \<leftarrow> fsquare t1;
     t0 \<leftarrow> fsquare_pairs 4 t0;
     z2_50_0 \<leftarrow> fmul t0 z2_10_0;
     t0 \<leftarrow> fsquare z2_50_0;
     t1 \<leftarrow> fsquare t0;
     t1 \<leftarrow> fsquare_pairs 24 t1;
     z2_100_0 \<leftarrow> fmul t1 z2_50_0;
     t1 \<leftarrow> fsquare z2_100_0;
     t0 \<leftarrow> fsquare t1;
     t0 \<leftarrow> fsquare_pairs 49 t0;
     t1 \<leftarrow> fmul t0 z2_100_0;
     t0 \<leftarrow> fsquare t1;
     t1 \<leftarrow> fsquare t0;
     t1 \<leftarrow> fsquare_pairs 24 t1;
     t0 \<leftarrow> fmul t1 z2_50_0;
     t1 \<leftarrow> fsquare t0;
     t0 \<leftarrow> fsquare t1;
     t1 \<leftarrow> fsquare t0;
     t0 \<leftarrow> fsquare t1;
     t1 \<leftarrow> fsquare t0;
     fmul t1 z11 }"

definition clamp :: "8 word list \<Rightarrow> 8 word list" where
  "clamp e =
     (let e = e[0 := e ! 0 AND 248]; e = e[31 := e ! 31 AND 127] in e[31 := e ! 31 OR 64])"

definition curve25519_donna :: "8 word list \<Rightarrow> 8 word list \<Rightarrow> 8 word list \<Rightarrow> 8 word list option" where
  "curve25519_donna mypublic secret basepoint =
     (let e = clamp (map (\<lambda>i. secret ! i) [0..<32]); bp = fexpand basepoint
      in do { (x, z) \<leftarrow> cmult e bp;
              zmone \<leftarrow> crecip z;
              z \<leftarrow> fmul x zmone;
              fcontract mypublic z })"

end
