(* ===== verification/Bytes.thy ===== *)
theory Bytes
  imports Prelude
begin

text \<open>
  Byte strings as little-endian numbers: \<open>le_int\<close> reads one, \<open>bytes_of\<close> writes one of a given width,
  and \<open>le_word\<close> and \<open>word_bytes\<close> are the same for machine words, as memcpy sees them on the
  little-endian machines of the build.
\<close>

section \<open>Reading numbers\<close>

definition le_int :: "8 word list \<Rightarrow> int" where
  "le_int bs = horner_sum uint 256 bs"

lemma le_int_simps [simp]: "le_int [] = 0" "le_int (b # bs) = uint b + 256 * le_int bs"
  by (simp_all add: le_int_def)

lemma byte_range: "0 \<le> uint b" "uint b < 256" for b :: "8 word"
  using uint_ge_0 [of b] uint_lt2p [of b] by simp_all

lemma le_int_range: "0 \<le> le_int bs \<and> le_int bs < 256 ^ length bs"
proof (induction bs)
  case (Cons b bs)
  have "uint b + 256 * le_int bs < 256 * 256 ^ length bs"
    using Cons byte_range [of b] by linarith
  then show ?case using Cons byte_range [of b] by simp
qed simp

lemma le_int_drop: "s \<le> length bs \<Longrightarrow> le_int (drop s bs) = le_int bs div 256 ^ s"
proof (induction s arbitrary: bs)
  case (Suc s)
  then obtain b cs where bs: "bs = b # cs" by (cases bs) auto
  have "le_int bs div 256 = le_int cs" using byte_range [of b] by (simp add: bs)
  then show ?case using Suc bs by (simp add: zdiv_zmult2_eq)
qed simp

lemma le_int_take: "s \<le> length bs \<Longrightarrow> le_int (take s bs) = le_int bs mod 256 ^ s"
proof (induction s arbitrary: bs)
  case (Suc s)
  then obtain b cs where bs: "bs = b # cs" by (cases bs) auto
  have "le_int bs mod (256 * 256 ^ s) = uint b + 256 * (le_int cs mod 256 ^ s)"
    using byte_range [of b] by (simp add: bs zmod_zmult2_eq)
  then show ?case using Suc bs by simp
qed simp

lemma le_int_append: "le_int (xs @ ys) = le_int xs + 256 ^ length xs * le_int ys"
  by (induction xs) (simp_all add: algebra_simps)

lemma le_int_inj: "length xs = length ys \<Longrightarrow> le_int xs = le_int ys \<Longrightarrow> xs = ys"
proof (induction xs ys rule: list_induct2)
  case (Cons x xs y ys)
  have "uint x = (uint x + 256 * le_int xs) mod 256" "uint y = (uint y + 256 * le_int ys) mod 256"
    using byte_range [of x] byte_range [of y] by simp_all
  with Cons.prems have "uint x = uint y" by simp
  with Cons show ?case by (simp add: word_uint_eq_iff)
qed simp

section \<open>Writing numbers\<close>

fun bytes_of :: "nat \<Rightarrow> int \<Rightarrow> 8 word list" where
  "bytes_of 0 x = []"
| "bytes_of (Suc k) x = word_of_int x # bytes_of k (x div 256)"

lemma length_bytes_of [simp]: "length (bytes_of k x) = k"
  by (induction k arbitrary: x) simp_all

lemma le_int_bytes_of [simp]: "le_int (bytes_of k x) = x mod 256 ^ k"
proof (induction k arbitrary: x)
  case (Suc k)
  have "uint (word_of_int x :: 8 word) = x mod 256" by (simp add: uint_word_of_int)
  then show ?case using Suc by (simp add: zmod_zmult2_eq)
qed simp

lemma bytes_of_le_int [simp]: "bytes_of (length bs) (le_int bs) = bs"
  using le_int_range [of bs] by (intro le_int_inj) simp_all

definition le_word :: "8 word list \<Rightarrow> 'a :: len word" where
  "le_word bs = word_of_int (le_int bs)"

definition word_bytes :: "nat \<Rightarrow> 'a :: len word \<Rightarrow> 8 word list" where
  "word_bytes k w = bytes_of k (uint w)"

lemma length_word_bytes [simp]: "length (word_bytes k w) = k"
  by (simp add: word_bytes_def)

lemma le_word_bytes: "LENGTH('a) = 8 * k \<Longrightarrow> le_word (word_bytes k (w :: 'a :: len word)) = w"
proof -
  assume k: "LENGTH('a) = 8 * k"
  have "(256 :: int) ^ k = 2 ^ (8 * k)" by (simp add: power_mult)
  then have "uint w mod 256 ^ k = uint w" using uint_lt2p [of w] by (simp add: k)
  then show ?thesis by (simp add: le_word_def word_bytes_def)
qed

lemma word_bytes_le_word:
  assumes "length bs = k" and "8 * k \<le> LENGTH('a)"
  shows "word_bytes k (le_word bs :: 'a :: len word) = bs"
proof -
  have "(256 :: int) ^ k = 2 ^ (8 * k)" by (simp add: power_mult)
  also have "\<dots> \<le> 2 ^ LENGTH('a)" using assms(2) by (intro power_increasing) simp_all
  finally have "le_int bs mod 2 ^ LENGTH('a) = le_int bs"
    using le_int_range [of bs] assms(1) by simp
  then show ?thesis
    using assms(1) by (auto simp: word_bytes_def le_word_def uint_word_of_int)
qed

end
