(* ===== verification/Curve25519Bytes.thy ===== *)
theory Curve25519Bytes
  imports Curve25519 Bytes
begin

text \<open>
  fexpand and fcontract: fexpand cuts the little-endian number, without its top bit, into limbs;
  fcontract borrows until every limb is in range, within two turns, and stores the limbs as 32 bytes
  of the same residue.
\<close>

unbundle bit_operations_syntax

text \<open>Or of disjoint bits adds.\<close>

lemma or_shift_eq_add: "0 \<le> x \<Longrightarrow> x < 2 ^ k \<Longrightarrow> x OR push_bit k y = x + push_bit k y" for x y :: int
proof (rule disjunctive_add_eq_or [symmetric])
  assume "0 \<le> x" "x < 2 ^ k"
  then have t: "take_bit k x = x" by (simp add: take_bit_int_eq_self)
  show "x AND push_bit k y = 0"
  proof (rule bit_eqI)
    fix n
    have "k \<le> n \<Longrightarrow> \<not> bit x n" using bit_take_bit_iff [of k x n] unfolding t by simp
    then show "bit (x AND push_bit k y) n = bit 0 n"
      by (cases "k \<le> n") (simp_all add: bit_and_iff bit_push_bit_iff)
  qed
qed

lemma byte_or: "uint b OR push_bit 8 y = uint b + 256 * y" for b :: "8 word"
  using or_shift_eq_add [of "uint b" 8 y] byte_range [of b] by (simp add: push_bit_eq_mult)

lemma expand_word:
  assumes "s + 4 \<le> length inp"
  shows "uint (inp ! s) OR push_bit 8 (uint (inp ! (s + 1))) OR push_bit 16 (uint (inp ! (s + 2)))
      OR push_bit 24 (uint (inp ! (s + 3))) = le_int inp div 256 ^ s mod 2 ^ 32"
proof -
  let ?a = "uint (inp ! s)" and ?b = "uint (inp ! (s + 1))" and ?c = "uint (inp ! (s + 2))"
    and ?d = "uint (inp ! (s + 3))"
  have "?a OR push_bit 8 ?b OR push_bit 16 ?c OR push_bit 24 ?d = ?a OR push_bit 8 (?b OR push_bit 8 (?c OR push_bit 8 ?d))"
    by (simp add: push_bit_or)
  also have "\<dots> = ?a + 256 * (?b + 256 * (?c + 256 * ?d))"
    by (simp only: byte_or)
  also have "\<dots> = le_int (take 4 (drop s inp))"
    using assms by (simp add: take_Suc_conv_app_nth numeral_eq_Suc)
  also have "\<dots> = le_int inp div 256 ^ s mod 2 ^ 32"
    using assms by (simp add: le_int_take le_int_drop)
  finally show ?thesis .
qed

lemma expand_limb_eq:
  assumes "s + 4 \<le> length inp" and "h + k \<le> 32" and "msk = 2 ^ k - 1" and "j = 8 * s + h"
  shows "expand_limb inp s h msk = take_bit k (drop_bit j (le_int inp))"
proof -
  have "expand_limb inp s h msk = take_bit k (drop_bit h (le_int inp div 256 ^ s mod 2 ^ 32))"
    unfolding expand_limb_def expand_word [OF assms(1)] by (simp add: assms(3) take_bit_eq_mask mask_eq_exp_minus_1)
  also have "le_int inp div 256 ^ s mod 2 ^ 32 = take_bit 32 (drop_bit (8 * s) (le_int inp))"
    by (simp add: take_bit_eq_mod drop_bit_eq_div power_mult)
  also have "take_bit k (drop_bit h (take_bit 32 (drop_bit (8 * s) (le_int inp)))) =
      take_bit k (drop_bit j (le_int inp))"
    using assms(2) by (auto simp: bit_eq_iff bit_simps assms(4) ac_simps)
  finally show ?thesis .
qed

lemma take_bit_split: "take_bit k (drop_bit j n) * 2 ^ j + take_bit j n = take_bit (j + k) n" for n :: int
  by (simp add: take_bit_eq_mod drop_bit_eq_div mod_mult2_eq power_add zmod_zmult2_eq)

lemma fexpand_eq:
  assumes "length inp = 32"
  shows "fexpand inp = map2 (\<lambda>k j. take_bit k (drop_bit j (le_int inp)))
    [26, 25, 26, 25, 26, 25, 26, 25, 26, 25] [0, 26, 51, 77, 102, 128, 153, 179, 204, 230]"
proof -
  note e = expand_limb_eq [where inp = inp, unfolded assms]
  show ?thesis
    unfolding fexpand_def
    by (simp add: e [where k = 26 and s = 0] e [where k = 25 and s = 3] e [where k = 26 and s = 6] 
       e [where k = 25 and s = 9]e [where k = 26 and s = 12]e [where k = 25 and s = 16]e [where k = 26 and s = 19]
       e [where k = 25 and s = 22] e [where k = 26 and s = 25] e [where k = 25 and s = 28])
qed

lemma bounded_fexpand:
  assumes "length inp = 32"
  shows "bounded 1 (fexpand inp)"
proof -
  have "take_bit 26 n < 67108864" "take_bit 25 n < 33554432" for n :: int
    using take_bit_int_less_exp [of 26 n] take_bit_int_less_exp [of 25 n] by simp_all
  then show ?thesis
    unfolding fexpand_eq [OF assms] by (simp add: bounded_10)
qed

lemma feval_fexpand:
  assumes "length inp = 32"
  shows "feval (fexpand inp) = le_int inp mod 2 ^ 255"
proof -
  let ?n = "le_int inp"
  have "feval (fexpand inp) = take_bit 26 ?n + take_bit 25 (drop_bit 26 ?n) * 2 ^ 26 + take_bit 26 (drop_bit 51 ?n) * 2 ^ 51 
    + take_bit 25 (drop_bit 77 ?n) * 2 ^ 77 + take_bit 26 (drop_bit 102 ?n) * 2 ^ 102
    + take_bit 25 (drop_bit 128 ?n) * 2 ^ 128 + take_bit 26 (drop_bit 153 ?n) * 2 ^ 153
    + take_bit 25 (drop_bit 179 ?n) * 2 ^ 179 + take_bit 26 (drop_bit 204 ?n) * 2 ^ 204
    + take_bit 25 (drop_bit 230 ?n) * 2 ^ 230"
    unfolding fexpand_eq [OF assms] feval_def by simp
  also have "\<dots> = take_bit 255 ?n"
    using take_bit_split [of 25 26 ?n] take_bit_split [of 26 51 ?n] take_bit_split [of 25 77 ?n]
     take_bit_split [of 26 102 ?n] take_bit_split [of 25 128 ?n] take_bit_split [of 26 153 ?n]
     take_bit_split [of 25 179 ?n] take_bit_split [of 26 204 ?n] take_bit_split [of 25 230 ?n] by simp
  finally show ?thesis by (simp add: take_bit_eq_mod)
qed

section \<open>Contracting\<close>

text \<open>The borrow into limb i, and the limb the chain leaves.\<close>

fun borrow :: "int list \<Rightarrow> nat \<Rightarrow> int" where
  "borrow t 0 = 0"
| "borrow t (Suc i) = (if t ! i - borrow t i < 0 then 1 else 0)"

lemma borrow_range: "0 \<le> borrow t i" "borrow t i \<le> 1"
  by (cases i; simp)+

lemma borrow_limb_eq:
  assumes "- limb_base i \<le> t ! i" and "i + 1 < length t"
  shows "borrow_limb 2 i t = Some (if t ! i < 0 then t[i := t ! i + limb_base i, i + 1 := t ! (i + 1) - 1] else t)"
proof -
  have "borrow_limb (Suc (Suc 0)) i t = Some (if t ! i < 0 then t[i := t ! i + limb_base i, i + 1 := t ! (i + 1) - 1] else t)"
    using assms by (auto simp: limb_base_def)
  then show ?thesis by (simp only: numeral_2_eq_2)
qed

text \<open>Limbs after the borrows out of the first k of them.\<close>

definition borrowed :: "int list \<Rightarrow> nat \<Rightarrow> int list" where
  "borrowed t k = map (\<lambda>i. if i < k then t ! i - borrow t i + borrow t (Suc i) * limb_base i
     else if i = k then t ! k - borrow t k else t ! i) [0..<10]"

lemma borrow_limbs_append: "borrow_limbs (xs @ ys) t = borrow_limbs xs t \<bind> borrow_limbs ys"
  by (induction xs arbitrary: t) (simp_all split: bind_split)

lemma borrow_limbs_eq:
  assumes "length t = 10" and "\<And>i. i < 10 \<Longrightarrow> - limb_base i < t ! i"
  shows "k \<le> 9 \<Longrightarrow> borrow_limbs [0..<k] t = Some (borrowed t k)"
proof (induction k)
  case 0
  show ?case using assms(1) by (simp add: borrowed_def list_eq_iff_nth_eq)
next
  case (Suc k)
  then have IH: "borrow_limbs [0..<k] t = Some (borrowed t k)" and k: "k < 10" "k + 1 < 10" by simp_all
  have nth: "borrowed t k ! k = t ! k - borrow t k" "borrowed t k ! Suc k = t ! Suc k" using k by (simp_all add: borrowed_def)
  have "- limb_base k \<le> borrowed t k ! k"
    using assms(2) [OF k(1)] borrow_range(2) [of t k] by (simp add: nth)
  note b = borrow_limb_eq [OF this]
  have len: "length (borrowed t k) = 10" by (simp add: borrowed_def)
  have "borrow_limbs [0..<Suc k] t = borrow_limb 2 k (borrowed t k)"
    using IH by (simp add: borrow_limbs_append bind_eq_Some_conv split: bind_split)
  also have "\<dots> = Some (borrowed t (Suc k))"
    unfolding b [unfolded len, OF k(2)]
    using k by (auto simp: nth borrowed_def list_eq_iff_nth_eq nth_list_update less_Suc_eq)
  finally show ?case .
qed

definition reduced :: "int list \<Rightarrow> bool" where
  "reduced t \<longleftrightarrow> length t = 10 \<and> (\<forall>i < 10. 0 \<le> t ! i \<and> t ! i < limb_base i)"

lemma borrowed_nth:
  "length (borrowed t k) = 10"
  "i < 9 \<Longrightarrow> borrowed t 9 ! i = t ! i - borrow t i + borrow t (Suc i) * limb_base i"
  "borrowed t 9 ! 9 = t ! 9 - borrow t 9"
  by (simp_all add: borrowed_def)

lemma feval_borrowed:
  assumes "length t = 10"
  shows "feval (borrowed t 9) = feval t"
proof -
  obtain a b c d e f g h i j where t: "t = [a, b, c, d, e, f, g, h, i, j]"
    using assms by (rule length_10E)
  have two: "borrow t (Suc (Suc 0)) = borrow t 2" by (simp only: numeral_2_eq_2)
  have "feval (borrowed t 9) = feval (map ((!) t) [0..<10])"
    by (simp add: borrowed_def upt_10 feval_def limb_base_numeral two algebra_simps del: borrow.simps(2))
  then show ?thesis by (simp add: t upt_10)
qed

lemma borrowed_range:
  assumes "bounded 1 t"
  shows "i < 9 \<Longrightarrow> 0 \<le> borrowed t 9 ! i \<and> borrowed t 9 ! i < limb_base i"
    and "- limb_base 9 \<le> borrowed t 9 ! 9 \<and> borrowed t 9 ! 9 < limb_base 9"
proof -
  have b: "- limb_base i < t ! i" "t ! i < limb_base i" if "i < 10" for i
    using bounded_nth [OF assms that] by auto
  show "0 \<le> borrowed t 9 ! i \<and> borrowed t 9 ! i < limb_base i" if "i < 9"
    using b [of i] borrow_range [of t i] that by (auto simp: borrowed_nth)
  show "- limb_base 9 \<le> borrowed t 9 ! 9 \<and> borrowed t 9 ! 9 < limb_base 9"
    using b [of 9] borrow_range [of t 9] by (auto simp: borrowed_nth simp del: borrow.simps)
qed

text \<open>One turn of the outer loop.\<close>

definition wrapped :: "int list \<Rightarrow> int list" where
  "wrapped u = (if u ! 9 < 0 then u[9 := u ! 9 + 0x2000000, 0 := u ! 0 - 19] else u)"

lemma wrap_limb_eq:
  assumes "- limb_base 9 \<le> u ! 9" and "length u = 10"
  shows "wrap_limb 2 u = Some (wrapped u)"
proof -
  have "wrap_limb (Suc (Suc 0)) u = Some (wrapped u)"
    using assms by (auto simp: limb_base_def wrapped_def)
  then show ?thesis by (simp only: numeral_2_eq_2)
qed

lemma feval_wrapped:
  assumes "length u = 10"
  shows "fcong (feval (wrapped u)) (feval u)"
proof (cases "u ! 9 < 0")
  case True
  obtain a b c d e f g h i j where u: "u = [a, b, c, d, e, f, g, h, i, j]"
    using assms by (rule length_10E)
  show ?thesis
    using True by (intro fcongI [where k = 1]) (simp add: wrapped_def u feval_def p25519_def)
qed (simp add: wrapped_def)

lemma normalise_Suc:
  assumes "bounded 1 t"
  shows "normalise (Suc k) t =
    (let w = wrapped (borrowed t 9) in if w ! 0 < 0 then normalise k w else Some w)"
proof -
  have "length t = 10" "\<And>i. i < 10 \<Longrightarrow> - limb_base i < t ! i"
    using assms bounded_nth [OF assms] by (fastforce simp: bounded_def)+
  then have "borrow_limbs [0..<9] t = Some (borrowed t 9)" by (intro borrow_limbs_eq) auto
  then show ?thesis
    using wrap_limb_eq [of "borrowed t 9"] borrowed_range [OF assms] borrowed_nth(1)
    by (simp add: Let_def)
qed

lemma wrapped_range:
  assumes "bounded 1 t"
  defines "w \<equiv> wrapped (borrowed t 9)"
  shows "length w = 10" and "0 < i \<Longrightarrow> i < 10 \<Longrightarrow> 0 \<le> w ! i \<and> w ! i < limb_base i"
    and "w ! 0 < limb_base 0" and "borrowed t 9 ! 0 - 19 \<le> w ! 0"
proof -
  note r = borrowed_range [OF assms(1)]
  show "length w = 10" by (simp add: w_def wrapped_def borrowed_nth(1))
  show "0 < i \<Longrightarrow> i < 10 \<Longrightarrow> 0 \<le> w ! i \<and> w ! i < limb_base i"
    using r(1) [of i] r(2) by (cases "i = 9") (auto simp: w_def wrapped_def borrowed_nth(1) limb_base_def)
  show "w ! 0 < limb_base 0" "borrowed t 9 ! 0 - 19 \<le> w ! 0"
    using r(1) [of 0] by (auto simp: w_def wrapped_def borrowed_nth(1))
qed

lemma reducedI:
  assumes "bounded 1 t" and "0 \<le> wrapped (borrowed t 9) ! 0"
  shows "reduced (wrapped (borrowed t 9))"
  unfolding reduced_def
  using wrapped_range [OF assms(1)] assms(2) by (metis bot_nat_0.not_eq_extremum)

lemma feval_turn: "bounded 1 t \<Longrightarrow> fcong (feval (wrapped (borrowed t 9))) (feval t)"
  using feval_wrapped [OF borrowed_nth(1)] feval_borrowed bounded_length by metis

lemma normalise_contract:
  assumes "bounded 1 t"
  shows "\<exists>r. normalise 2 t = Some r \<and> reduced r \<and> fcong (feval r) (feval t)"
proof -
  let ?w = "wrapped (borrowed t 9)"
  show ?thesis
  proof (cases "0 \<le> ?w ! 0")
    case True
    then show ?thesis
      using normalise_Suc [OF assms, of 1] reducedI [OF assms] feval_turn [OF assms]
      by (simp add: Let_def numeral_2_eq_2)
  next
    case False
    note w = wrapped_range [OF assms]
    have "0 \<le> borrowed t 9 ! 0" using borrowed_range(1) [OF assms, of 0] by simp
    then have w0: "- 19 \<le> ?w ! 0" using w(4) by simp
    have "\<bar>?w ! i\<bar> < limb_base i" if "i < 10" for i
      using w(2) [of i] w(3) w0 False that by (cases "i = 0") (auto simp: limb_base_def)
    then have b: "bounded 1 ?w" using w(1) by (simp add: bounded_def)
    have "0 \<le> wrapped (borrowed ?w 9) ! 0"
      using wrapped_range(4) [OF b] borrowed_nth(2) [of 0 ?w] w0 False by (simp add: limb_base_def)
    note r = reducedI [OF b this]
    have "normalise 2 t = Some (wrapped (borrowed ?w 9))"
      using normalise_Suc [OF assms, of 1] normalise_Suc [OF b, of 0] False
        \<open>0 \<le> wrapped (borrowed ?w 9) ! 0\<close> by (simp add: Let_def numeral_2_eq_2)
    then show ?thesis using r feval_turn [OF b] feval_turn [OF assms] fcong_trans by blast
  qed
qed

lemma length_store_limb [simp]: "length (store_limb inp i s out) = length out"
  by (simp add: store_limb_def)

lemma store_limb_above: "s + 4 \<le> j \<Longrightarrow> store_limb inp i s out ! j = out ! j"
  by (simp add: store_limb_def)

lemma uint_byte: "uint (word_of_int (x AND 0xff) :: 8 word) = take_bit 8 x"
proof -
  have "x AND 0xff = take_bit 8 x" by (simp add: take_bit_eq_mask mask_eq_exp_minus_1)
  then show ?thesis by (simp add: uint_word_of_int take_bit_eq_mod)
qed

lemma four_bytes:
  fixes x :: int
  assumes "0 \<le> x" and "x < 2 ^ 32"
  shows "take_bit 8 x + 256 * (take_bit 8 (drop_bit 8 x) + 256 * (take_bit 8 (drop_bit 16 x)
    + 256 * take_bit 8 (drop_bit 24 x))) = x"
proof -
  have "take_bit 32 x = x" using assms by (simp add: take_bit_int_eq_self)
  then show ?thesis
    using take_bit_split [of 8 8 x] take_bit_split [of 8 16 x] take_bit_split [of 8 24 x] by simp
qed

lemma store_limb_value:
  assumes "s + 4 \<le> length out" and "le_int (take (s + 1) out) = v" and "v < 2 ^ (8 * s + h)"
    and "inp ! i = push_bit h x" and "0 \<le> x" and "push_bit h x < 2 ^ 32" and "h \<le> 8"
  shows "le_int (take (s + 4) (store_limb inp i s out)) = v + 2 ^ (8 * s + h) * x"
proof -
  let ?L = "push_bit h x"
  have v: "v = le_int (take s out) + 256 ^ s * uint (out ! s)"
    using assms(1,2) by (simp add: take_Suc_conv_app_nth le_int_append)
  have "v < 256 ^ s * 2 ^ h" using assms(3) by (simp add: power_add power_mult)
  with v le_int_range [of "take s out"] have "256 ^ s * uint (out ! s) < 256 ^ s * 2 ^ h" by linarith
  then have o: "uint (out ! s) < 2 ^ h" by simp
  have low: "take_bit 8 ?L = push_bit h (take_bit (8 - h) x)"
    using assms(7) by (simp add: take_bit_push_bit)
  have "uint (out ! s OR word_of_int (?L AND 0xff)) = uint (out ! s) OR take_bit 8 ?L"
    by (simp only: uint_or uint_byte)
  also have "\<dots> = uint (out ! s) + take_bit 8 ?L"
    unfolding low using o by (intro or_shift_eq_add) simp_all
  finally have first: "uint (out ! s OR word_of_int (?L AND 0xff)) = uint (out ! s) + take_bit 8 ?L" .
  have "take (s + 4) (store_limb inp i s out) =
      take s out @ [out ! s OR word_of_int (?L AND 0xff), word_of_int (drop_bit 8 ?L AND 0xff),
        word_of_int (drop_bit 16 ?L AND 0xff), word_of_int (drop_bit 24 ?L AND 0xff)]"
    using assms(1) by (simp add: store_limb_def assms(4) take_Suc_conv_app_nth numeral_eq_Suc)
  then have "le_int (take (s + 4) (store_limb inp i s out)) = le_int (take s out) + 256 ^ s *
      (uint (out ! s) + (take_bit 8 ?L + 256 * (take_bit 8 (drop_bit 8 ?L) +
        256 * (take_bit 8 (drop_bit 16 ?L) + 256 * take_bit 8 (drop_bit 24 ?L)))))"
    using assms(1) by (simp add: le_int_append first uint_byte)
  also have "\<dots> = v + 256 ^ s * ?L"
    using assms(5,6) by (subst four_bytes) (simp_all add: v algebra_simps)
  also have "256 ^ s * ?L = 2 ^ (8 * s + h) * x"
    by (simp add: push_bit_eq_mult power_add power_mult)
  finally show ?thesis .
qed


text \<open>Extending a value below \<open>2 ^ j\<close> by a limb of k bits.\<close>

lemma limb_below: "v < 2 ^ j \<Longrightarrow> x < 2 ^ k \<Longrightarrow> v + 2 ^ j * x < 2 ^ (j + k)" for v x :: int
proof -
  assume v: "v < 2 ^ j" and x: "x < 2 ^ k"
  then have "2 ^ j * (x + 1) \<le> 2 ^ j * (2 ^ k :: int)" by (intro mult_left_mono) simp_all
  with v show ?thesis by (simp add: power_add algebra_simps)
qed

text \<open>Where limb i starts in the byte string; its shift is \<open>limb_shifts ! i\<close>.\<close>

definition limb_starts :: "nat list" where
  "limb_starts = [0, 3, 6, 9, 12, 16, 19, 22, 25, 28]"

lemma limb_starts_4: "limb_starts ! 4 = 12" "limb_starts ! 5 = 16"
  by (simp_all add: limb_starts_def)

abbreviation limb_pos :: "nat \<Rightarrow> nat" where
  "limb_pos i \<equiv> (51 * i + 1) div 2"

lemma limb_pos_Suc: "limb_pos (Suc i) = limb_pos i + (if even i then 26 else 25)"
  by presburger

lemma limb_layout:
  "i < 10 \<Longrightarrow> limb_starts ! i + 4 \<le> 32 \<and> 8 * limb_starts ! i + limb_shifts ! i = limb_pos i \<and> limb_shifts ! i \<le> 6"
  "i < 9 \<Longrightarrow> limb_starts ! (i + 1) = (if i = 4 then 16 else limb_starts ! i + 3)"
  "i < 5 \<Longrightarrow> limb_starts ! i + 4 \<le> 16"
proof -
  have l: "\<forall>i < 10. limb_starts ! i + 4 \<le> 32 \<and> 8 * limb_starts ! i + limb_shifts ! i = limb_pos i \<and>
      limb_shifts ! i \<le> 6 \<and> (i < 9 \<longrightarrow> limb_starts ! (i + 1) = (if i = 4 then 16 else limb_starts ! i + 3)) \<and>
      (i < 5 \<longrightarrow> limb_starts ! i + 4 \<le> 16)"
    unfolding all_10 by (simp add: limb_starts_def limb_shifts_def)
  from l show "i < 10 \<Longrightarrow> limb_starts ! i + 4 \<le> 32 \<and> 8 * limb_starts ! i + limb_shifts ! i = limb_pos i \<and> limb_shifts ! i \<le> 6"
    "i < 9 \<Longrightarrow> limb_starts ! (i + 1) = (if i = 4 then 16 else limb_starts ! i + 3)"
    "i < 5 \<Longrightarrow> limb_starts ! i + 4 \<le> 16"
    by auto
qed

lemma limb_sum_append: "limb_sum i (xs @ [x]) = limb_sum i xs + x * 2 ^ limb_pos (i + length xs)"
  by (induction xs arbitrary: i) simp_all

lemma reduced_prefix:
  assumes "reduced t" and "i < 10"
  shows "limb_sum 0 (take (Suc i) t) = limb_sum 0 (take i t) + 2 ^ limb_pos i * t ! i"
    and "limb_sum 0 (take i t) < 2 ^ limb_pos i"
proof -
  have len: "length t = 10" using assms(1) by (simp add: reduced_def)
  have s: "limb_sum 0 (take (Suc i) t) = limb_sum 0 (take i t) + 2 ^ limb_pos i * t ! i" if "i < 10" for i
    using len that by (simp add: take_Suc_conv_app_nth limb_sum_append)
  then show "limb_sum 0 (take (Suc i) t) = limb_sum 0 (take i t) + 2 ^ limb_pos i * t ! i"
    using assms(2) .
  show "limb_sum 0 (take i t) < 2 ^ limb_pos i"
    using assms(2)
  proof (induction i)
    case (Suc i)
    have "t ! i < limb_base i" using assms(1) Suc.prems by (simp add: reduced_def)
    then have "t ! i < 2 ^ (if even i then 26 else 25)" by (simp add: limb_base_def split: if_splits)
    from limb_below [OF Suc.IH this] Suc.prems show ?case unfolding limb_pos_Suc by (simp add: s)
  qed simp
qed

text \<open>The bytes written by the first k limbs hold their value.\<close>

definition stored :: "int list \<Rightarrow> 8 word list \<Rightarrow> nat \<Rightarrow> 8 word list" where
  "stored inp out k = fold (\<lambda>i. store_limb inp i (limb_starts ! i)) [0..<k] (out[0 := 0, 16 := 0])"

lemma store_limbs_stored: "store_limbs inp out = stored inp out 10"
  by (simp add: store_limbs_def stored_def upt_10 limb_starts_def)

lemma stored_Suc: "stored inp out (Suc k) = store_limb inp k (limb_starts ! k) (stored inp out k)"
  by (simp add: stored_def)

lemma length_stored [simp]: "length (stored inp out k) = length out"
  by (induction k) (simp_all add: stored_def)

lemma stored_16: "length out = 32 \<Longrightarrow> k \<le> 5 \<Longrightarrow> stored inp out k ! 16 = 0"
proof (induction k)
  case (Suc k)
  then show ?case using limb_layout(3) [of k] by (simp add: stored_def store_limb_above)
qed (simp add: stored_def)

lemma shifted_limb:
  assumes "reduced t" and "i < 10"
  shows "0 \<le> t ! i" and "push_bit (limb_shifts ! i) (t ! i) < 2 ^ 32"
proof -
  show "0 \<le> t ! i" using assms by (simp add: reduced_def)
  have "t ! i < limb_base i" using assms by (simp add: reduced_def)
  then have "t ! i < 2 ^ 26" using limb_base_pos(2) [of i] by linarith
  then have "t ! i * 2 ^ (limb_shifts ! i) < 2 ^ 26 * 2 ^ (limb_shifts ! i)" by simp
  also have "\<dots> \<le> 2 ^ 26 * (2 ^ 6 :: int)"
    using limb_layout(1) [OF assms(2)] by (intro mult_left_mono power_increasing) auto
  finally show "push_bit (limb_shifts ! i) (t ! i) < 2 ^ 32" by (simp add: push_bit_eq_mult)
qed

lemma le_int_stored:
  assumes "reduced t" and "length out = 32"
  defines "L \<equiv> map2 push_bit limb_shifts t"
  shows "k < 10 \<Longrightarrow> le_int (take (limb_starts ! k + 4) (stored L out (Suc k))) = limb_sum 0 (take (Suc k) t)"
proof -
  have len: "length t = 10" "length limb_shifts = 10" using assms(1) by (simp_all add: reduced_def limb_shifts_def)
  have L: "L ! i = push_bit (limb_shifts ! i) (t ! i)" if "i < 10" for i
    using that len by (simp add: L_def)
  have step: "le_int (take (limb_starts ! i + 4) (stored L out (Suc i))) = limb_sum 0 (take (Suc i) t)"
    if i: "i < 10" and v: "le_int (take (limb_starts ! i + 1) (stored L out i)) = limb_sum 0 (take i t)" for i
  proof -
    note l = limb_layout(1) [OF i] and r = reduced_prefix [OF assms(1) i]
    show ?thesis
      using store_limb_value [OF _ v _ L [OF i] shifted_limb [OF assms(1) i]] l r assms(2)
      by (simp add: stored_Suc)
  qed
  show "k < 10 \<Longrightarrow> le_int (take (limb_starts ! k + 4) (stored L out (Suc k))) = limb_sum 0 (take (Suc k) t)"
  proof (induction k)
    case 0
    then show ?case
      using assms(2) by (intro step) (simp_all add: stored_def limb_starts_def take_Suc_conv_app_nth)
  next
    case (Suc k)
    have "take 17 (stored L out 5) = take 16 (stored L out 5) @ [0]"
      using assms(2) stored_16 [of out 5 L] take_Suc_conv_app_nth [of 16 "stored L out 5"] by simp
    with Suc limb_layout(2) [of k] have "le_int (take (limb_starts ! Suc k + 1) (stored L out (Suc k))) = limb_sum 0 (take (Suc k) t)"
      by (cases "k = 4") (simp_all add: le_int_append limb_starts_4 add.commute)
    with Suc.prems show ?case by (rule step)
  qed
qed

lemma le_int_store_limbs:
  assumes "reduced t" and "length out = 32"
  shows "le_int (store_limbs (map2 push_bit limb_shifts t) out) = feval t"
  using le_int_stored [OF assms, of 9] assms
  by (simp add: store_limbs_stored feval_def reduced_def limb_starts_def)

lemma fcontract_contract:
  assumes "bounded 1 t" and "length out = 32"
  shows "\<exists>bs. fcontract out t = Some bs \<and> length bs = 32 \<and> le_int bs < 2 ^ 255 \<and> fcong (le_int bs) (feval t)"
proof -
  obtain r where r: "normalise 2 t = Some r" "reduced r" "fcong (feval r) (feval t)"
    using normalise_contract [OF assms(1)] by blast
  let ?b = "store_limbs (map2 push_bit limb_shifts r) out"
  have "length r = 10" using r(2) by (simp add: reduced_def)
  moreover have "r ! 9 < limb_base 9" using r(2) by (simp add: reduced_def)
  then have "r ! 9 < 2 ^ 25" by (simp add: limb_base_def)
  then have "limb_sum 0 (take (Suc 9) r) < 2 ^ 255"
    using reduced_prefix [OF r(2), of 9] limb_below [of "limb_sum 0 (take 9 r)" 230 "r ! 9" 25] by simp
  ultimately have "feval r < 2 ^ 255" by (simp add: feval_def)
  then show ?thesis
    using r le_int_store_limbs [OF r(2) assms(2)] assms(2)
    by (simp add: fcontract_def store_limbs_stored)
qed

end
