(* ===== verification/Curve25519Correct.thy ===== *)
theory Curve25519Correct
  imports Curve25519Bytes
begin

text \<open>
  The ladder refines the formulas of RFC 7748 modulo p, crecip raises to p - 2, and curve25519_donna
  composes them.  \<open>repr t v\<close> says that the limbs t are reduced and stand for v modulo p.
\<close>

unbundle bit_operations_syntax

section \<open>The ladder step\<close>

text \<open>The differential addition and doubling of RFC 7748, modulo p.\<close>

definition mont_double :: "int \<Rightarrow> int \<Rightarrow> int \<times> int" where
  "mont_double x z =
     (let aa = (x + z) ^ 2; bb = (x - z) ^ 2; e = aa - bb
      in (aa * bb mod p25519, e * (aa + 121665 * e) mod p25519))"

definition mont_add :: "int \<Rightarrow> int \<Rightarrow> int \<Rightarrow> int \<Rightarrow> int \<Rightarrow> int \<times> int" where
  "mont_add q x z x' z' =
     (let da = (x' - z') * (x + z); cb = (x' + z') * (x - z)
      in ((da + cb) ^ 2 mod p25519, q * (da - cb) ^ 2 mod p25519))"

definition repr :: "int list \<Rightarrow> int \<Rightarrow> bool" where
  "repr t v \<longleftrightarrow> bounded 1 t \<and> fcong (feval t) v"

lemma fcong_mod [simp]: "fcong x (y mod p25519) \<longleftrightarrow> fcong x y"
  by (simp add: fcong_def)

lemma repr_mod: "repr t (v mod p25519) \<longleftrightarrow> repr t v"
  by (simp add: repr_def)

lemma bounded_1_2: "bounded 1 t \<Longrightarrow> bounded 2 t"
  by (erule bounded_mono) simp

lemma repr_fmul:
  assumes "bounded 2 s" and "fcong (feval s) u" and "bounded 2 t" and "fcong (feval t) v"
  shows "\<exists>r. fmul s t = Some r \<and> repr r (u * v)"
  using fmul_contract [OF assms(1,3)] fcong_mult [OF assms(2,4)] fcong_trans unfolding repr_def by blast

lemma repr_fsquare:
  assumes "bounded 2 s" and "fcong (feval s) u"
  shows "\<exists>r. fsquare s = Some r \<and> repr r (u ^ 2)"
  using fsquare_contract [OF assms(1)] fcong_power [OF assms(2)] fcong_trans unfolding repr_def by blast

lemma repr_fsum: "repr s u \<Longrightarrow> repr t v \<Longrightarrow> bounded 2 (fsum s t) \<and> fcong (feval (fsum s t)) (u + v)"
  by (auto simp: repr_def feval_fsum bounded_length intro: bounded_fsum fcong_add)

lemma repr_fdifference:
  "repr s u \<Longrightarrow> repr t v \<Longrightarrow> bounded 2 (fdifference s t) \<and> fcong (feval (fdifference s t)) (v - u)"
  by (auto simp: repr_def feval_fdifference bounded_length intro: bounded_fdifference fcong_diff)

lemma all_below_scaled:
  assumes "bounded 2 t"
  shows "all_below 144115188075855872 (fscalar_product t 121665 @ replicate 9 0)"
proof -
  have "\<bar>t ! i * 121665\<bar> < 144115188075855872" if "i < 10" for i
    using bounded_nth [OF assms that] limb_base_pos(2) [of i] by simp
  then show ?thesis by (auto simp: all_below_def fscalar_product_def)
qed

lemma limb_sum_zeros [simp]: "limb_sum i (replicate k 0) = 0"
  by (induction k arbitrary: i) simp_all

lemma limb_sum_pad: "limb_sum i (xs @ replicate k 0) = limb_sum i xs"
  by (induction xs arbitrary: i) simp_all

lemma repr_scaled:
  assumes "bounded 2 t" and "fcong (feval t) u"
  shows "\<exists>r. freduce (fscalar_product t 121665 @ replicate 9 0) = Some r \<and> repr r (121665 * u)"
proof -
  have "feval (fscalar_product t 121665 @ replicate 9 0) = 121665 * feval t"
    using feval_fscalar_product [of t 121665] bounded_length [OF assms(1)]
    by (simp add: feval_def limb_sum_pad)
  moreover have "length (fscalar_product t 121665 @ replicate 9 0) = 19"
    by (simp add: fscalar_product_def)
  moreover note freduce_contract [OF all_below_scaled [OF assms(1)] this]
  ultimately obtain r where r: "freduce (fscalar_product t 121665 @ replicate 9 0) = Some r"
    "bounded 1 r" "fcong (feval r) (121665 * feval t)" by auto
  with fcong_mult [OF fcong_refl assms(2), of 121665] show ?thesis
    unfolding repr_def using fcong_trans by blast
qed

lemma fmonty_contract:
  assumes "repr x X" and "repr z Z" and "repr x' X'" and "repr z' Z'" and "repr q Q"
  shows "\<exists>x2 z2 x3 z3. fmonty x z x' z' q = Some ((x2, z2), (x3, z3)) \<and>
    repr x2 (fst (mont_double X Z)) \<and> repr z2 (snd (mont_double X Z)) \<and>
    repr x3 (fst (mont_add Q X Z X' Z')) \<and> repr z3 (snd (mont_add Q X Z X' Z'))"
proof -
  note s = repr_fsum [OF assms(1,2)] repr_fdifference [OF assms(2,1)]
  note s' = repr_fsum [OF assms(3,4)] repr_fdifference [OF assms(4,3)]
  have up: "bounded 2 r \<and> fcong (feval r) v" if "repr r v" for r v
    using that by (simp add: repr_def bounded_1_2)
  obtain xx' where xx': "fmul (fsum x' z') (fdifference z x) = Some xx'" "repr xx' ((X' + Z') * (X - Z))"
    using repr_fmul s s' by blast
  obtain zz' where zz': "fmul (fsum x z) (fdifference z' x') = Some zz'" "repr zz' ((X + Z) * (X' - Z'))"
    using repr_fmul s s' by blast
  note t = repr_fsum [OF xx'(2) zz'(2)] repr_fdifference [OF zz'(2) xx'(2)]
  obtain x3 where x3: "fsquare (fsum xx' zz') = Some x3" "repr x3 (((X' + Z') * (X - Z) + (X + Z) * (X' - Z')) ^ 2)"
    using repr_fsquare t by blast
  obtain d where d: "fsquare (fdifference zz' xx') = Some d" "repr d (((X' + Z') * (X - Z) - (X + Z) * (X' - Z')) ^ 2)"
    using repr_fsquare t by blast
  obtain z3 where z3: "fmul d q = Some z3" "repr z3 (((X' + Z') * (X - Z) - (X + Z) * (X' - Z')) ^ 2 * Q)"
    using repr_fmul up [OF d(2)] up [OF assms(5)] by blast
  obtain aa where aa: "fsquare (fsum x z) = Some aa" "repr aa ((X + Z) ^ 2)"
    using repr_fsquare s by blast
  obtain bb where bb: "fsquare (fdifference z x) = Some bb" "repr bb ((X - Z) ^ 2)"
    using repr_fsquare s by blast
  obtain x2 where x2: "fmul aa bb = Some x2" "repr x2 ((X + Z) ^ 2 * (X - Z) ^ 2)"
    using repr_fmul up [OF aa(2)] up [OF bb(2)] by blast
  note e = repr_fdifference [OF bb(2) aa(2)]
  obtain ee where ee: "freduce (fscalar_product (fdifference bb aa) 121665 @ replicate 9 0) = Some ee"
    "repr ee (121665 * ((X + Z) ^ 2 - (X - Z) ^ 2))"
    using repr_scaled e by blast
  note f = repr_fsum [OF ee(2) aa(2)]
  obtain z2 where z2: "fmul (fdifference bb aa) (fsum ee aa) = Some z2"
    "repr z2 (((X + Z) ^ 2 - (X - Z) ^ 2) * (121665 * ((X + Z) ^ 2 - (X - Z) ^ 2) + (X + Z) ^ 2))"
    using repr_fmul e f by blast
  note run = xx'(1) zz'(1) x3(1) d(1) z3(1) aa(1) bb(1) x2(1) ee(1) z2(1)
  have "fmonty x z x' z' q = Some ((x2, z2), (x3, z3))"
    unfolding fmonty_def Let_def using run unfolding fmul_def by simp
  moreover have "repr x2 (fst (mont_double X Z))" "repr x3 (fst (mont_add Q X Z X' Z'))"
    using x2(2) x3(2) by (simp_all add: mont_double_def mont_add_def Let_def repr_mod add.commute mult.commute)
  moreover have "repr z2 (snd (mont_double X Z))"
    using z2(2) by (simp add: mont_double_def Let_def repr_mod add.commute)
  moreover have "repr z3 (snd (mont_add Q X Z X' Z'))"
    using z3(2) by (simp add: mont_add_def Let_def repr_mod power2_commute mult.commute)
  ultimately show ?thesis by blast
qed

text \<open>The ladder over the bits of a scalar, most significant first, from the points Q and Q'.\<close>

type_synonym point = "int \<times> int"

definition mont_step :: "int \<Rightarrow> bool \<Rightarrow> point \<times> point \<Rightarrow> point \<times> point" where
  "mont_step q one s =
     (let ((x, z), (x', z')) = s
      in if one then (mont_add q x' z' x z, mont_double x' z')
         else (mont_double x z, mont_add q x z x' z'))"

definition byte_bits :: "8 word \<Rightarrow> bool list" where
  "byte_bits b = map (bit b) [7, 6, 5, 4, 3, 2, 1, 0]"

definition scalar_bits :: "8 word list \<Rightarrow> bool list" where
  "scalar_bits n = concat (map byte_bits (rev n))"

definition mont_ladder :: "bool list \<Rightarrow> int \<Rightarrow> point" where
  "mont_ladder bits q = fst (fold (mont_step q) bits ((1, 0), (q, 1)))"

definition ladder_repr :: "ladder \<Rightarrow> point \<times> point \<Rightarrow> bool" where
  "ladder_repr s v \<longleftrightarrow> repr (nqx s) (fst (fst v)) \<and> repr (nqz s) (snd (fst v)) \<and>
     repr (nqpqx s) (fst (snd v)) \<and> repr (nqpqz s) (snd (snd v))"

lemma ladder_bit_contract:
  assumes "ladder_repr s v" and "repr q Q"
  shows "\<exists>s'. ladder_bit q one s = Some s' \<and> ladder_repr s' (mont_step Q one v)"
proof -
  obtain x z x' z' where v: "v = ((x, z), (x', z'))" by (metis prod.exhaust)
  have r: "repr (nqx s) x" "repr (nqz s) z" "repr (nqpqx s) x'" "repr (nqpqz s) z'"
    using assms(1) by (simp_all add: ladder_repr_def v)
  show ?thesis
  proof (cases one)
    case True
    then show ?thesis
      using fmonty_contract [OF r(3,4,1,2) assms(2)]
      by (auto simp: ladder_bit_def mont_step_def v ladder_repr_def)
  next
    case False
    then show ?thesis
      using fmonty_contract [OF r assms(2)]
      by (auto simp: ladder_bit_def mont_step_def v ladder_repr_def)
  qed
qed

lemma top_bit: "b AND 0x80 \<noteq> 0 \<longleftrightarrow> bit b 7" for b :: "8 word"
proof -
  have "(0x80 :: 8 word) = push_bit 7 1" by simp
  then show ?thesis
    by (metis (no_types, lifting) and_exp_eq_0_iff_not_bit push_bit_of_1)
qed

lemma bit_loop_contract:
  assumes "repr q Q"
  shows "ladder_repr s v \<Longrightarrow> \<exists>s'. bit_loop q j b s = Some s' \<and>
    ladder_repr s' (fold (mont_step Q) (map (\<lambda>i. bit (push_bit i b) 7) [0..<j]) v)"
proof (induction j arbitrary: b s v)
  case (Suc j)
  obtain s' where s': "ladder_bit q (bit b 7) s = Some s'" "ladder_repr s' (mont_step Q (bit b 7) v)"
    using ladder_bit_contract [OF Suc.prems assms] by blast
  have "map (\<lambda>i. bit (push_bit i b) 7) [0..<Suc j] = bit b 7 # map (\<lambda>i. bit (push_bit i (push_bit 1 b)) 7) [0..<j]"
    by (simp add: map_upt_Suc del: upt_Suc)
  with Suc.IH [OF s'(2), of "push_bit 1 b"] s'(1) show ?case
    by (simp add: top_bit)
qed simp

lemma byte_bits_eq: "map (\<lambda>i. bit (push_bit i b) 7) [0..<8] = byte_bits b"
  by (simp add: byte_bits_def upt_rec bit_push_bit_iff)

lemma byte_loop_contract:
  assumes "repr q Q"
  shows "k \<le> length n \<Longrightarrow> ladder_repr s v \<Longrightarrow> \<exists>s'. byte_loop q n k s = Some s' \<and>
    ladder_repr s' (fold (mont_step Q) (scalar_bits (take k n)) v)"
proof (induction k arbitrary: s v)
  case (Suc k)
  obtain s' where s': "bit_loop q 8 (n ! k) s = Some s'" "ladder_repr s' (fold (mont_step Q) (byte_bits (n ! k)) v)"
    using bit_loop_contract [OF assms Suc.prems(2), of 8 "n ! k"] byte_bits_eq by metis
  have "scalar_bits (take (Suc k) n) = byte_bits (n ! k) @ scalar_bits (take k n)"
    using Suc.prems(1) by (simp add: scalar_bits_def take_Suc_conv_app_nth)
  with Suc.IH [OF _ s'(2)] Suc.prems(1) s'(1) show ?case by simp
qed (simp add: scalar_bits_def)

lemma repr_limb_const: "0 \<le> c \<Longrightarrow> c < 2 ^ 25 \<Longrightarrow> repr (limb_const c) c"
proof -
  assume c: "0 \<le> c" "c < 2 ^ 25"
  have "feval (limb_const c) = c" by (simp add: limb_const_def feval_def)
  moreover have "bounded 1 (limb_const c)"
    using c by (auto simp: bounded_def limb_const_def nth_Cons' limb_base_def)
  ultimately show ?thesis by (simp add: repr_def)
qed

lemma cmult_contract:
  assumes "repr q Q" and "length n = 32"
  shows "\<exists>x z. cmult n q = Some (x, z) \<and> repr x (fst (mont_ladder (scalar_bits n) Q)) \<and>
    repr z (snd (mont_ladder (scalar_bits n) Q))"
proof -
  let ?s = "\<lparr>nqx = limb_const 1, nqz = limb_const 0, nqpqx = q, nqpqz = limb_const 1\<rparr>"
  have "ladder_repr ?s ((1, 0), (Q, 1))"
    using assms(1) by (simp add: ladder_repr_def repr_limb_const)
  from byte_loop_contract [OF assms(1) _ this, of 32 n] assms(2) show ?thesis
    by (auto simp: cmult_def mont_ladder_def ladder_repr_def)
qed

section \<open>Inversion\<close>

text \<open>A computation that ends in a power of z.\<close>

definition yields_power :: "int \<Rightarrow> int list option \<Rightarrow> nat \<Rightarrow> bool" where
  "yields_power z m k \<longleftrightarrow> (\<exists>r. m = Some r \<and> repr r (z ^ k))"

lemma yields_power_bind:
  assumes "yields_power z m a" and "\<And>r. repr r (z ^ a) \<Longrightarrow> yields_power z (f r) k"
  shows "yields_power z (m \<bind> f) k"
  using assms by (auto simp: yields_power_def)

lemma yields_fmul: "repr s (z ^ a) \<Longrightarrow> repr t (z ^ b) \<Longrightarrow> yields_power z (fmul s t) (a + b)"
  using repr_fmul [of s "z ^ a" t "z ^ b"] by (auto simp: repr_def bounded_1_2 power_add yields_power_def)

lemma yields_fsquare: "repr s (z ^ a) \<Longrightarrow> yields_power z (fsquare s) (2 * a)"
  using repr_fsquare [of s "z ^ a"] by (auto simp: repr_def bounded_1_2 mult.commute power_mult yields_power_def)

lemma yields_fsquare_pairs: "repr s (z ^ a) \<Longrightarrow> yields_power z (fsquare_pairs k s) (4 ^ k * a)"
proof (induction k arbitrary: s a)
  case (Suc k)
  have "yields_power z (fsquare_pairs (Suc k) s) (4 ^ k * (2 * (2 * a)))"
    unfolding fsquare_pairs.simps
    by (rule yields_power_bind [OF yields_fsquare [OF Suc.prems]])
      (erule yields_power_bind [OF yields_fsquare Suc.IH])
  then show ?case by (simp add: ac_simps)
qed (simp add: yields_power_def)

lemmas yields_then = yields_power_bind [OF yields_fmul] yields_power_bind [OF yields_fsquare]
  yields_power_bind [OF yields_fsquare_pairs]

lemma crecip_yields:
  assumes "repr z Z"
  shows "yields_power Z (crecip z) (2 ^ 255 - 21)"
proof -
  have z: "repr z (Z ^ 1)" using assms by simp
  have *: "yields_power Z m a \<Longrightarrow> a = b \<Longrightarrow> yields_power Z m b" for m a b by simp
  show ?thesis
    unfolding crecip_def
    by ((assumption | rule z | rule yields_then)+, rule * [OF yields_fmul], assumption, assumption, simp)
qed

section \<open>The whole computation\<close>

definition x25519_value :: "8 word list \<Rightarrow> 8 word list \<Rightarrow> int" where
  "x25519_value secret basepoint =
     (let (x, z) = mont_ladder (scalar_bits (clamp secret)) (le_int basepoint mod 2 ^ 255)
      in x * z ^ (2 ^ 255 - 21) mod p25519)"

lemma clamp_take: "length secret = 32 \<Longrightarrow> map (\<lambda>i. secret ! i) [0..<32] = secret"
  by (rule nth_equalityI) simp_all

lemma length_clamp [simp]: "length (clamp e) = length e"
  by (simp add: clamp_def Let_def)

lemma curve25519_donna_contract:
  assumes "length out = 32" and "length secret = 32" and "length basepoint = 32"
  shows "\<exists>bs. curve25519_donna out secret basepoint = Some bs \<and> length bs = 32 \<and>
    le_int bs < 2 ^ 255 \<and> le_int bs mod p25519 = x25519_value secret basepoint"
proof -
  let ?q = "le_int basepoint mod 2 ^ 255"
  have q: "repr (fexpand basepoint) ?q"
    using bounded_fexpand [OF assms(3)] feval_fexpand [OF assms(3)] by (simp add: repr_def)
  obtain x z where xz: "mont_ladder (scalar_bits (clamp secret)) ?q = (x, z)" by fastforce
  obtain x' z' where m: "cmult (clamp secret) (fexpand basepoint) = Some (x', z')" "repr x' x" "repr z' z"
    using cmult_contract [OF q, of "clamp secret"] assms(2) xz by auto
  obtain i where i: "crecip z' = Some i" "repr i (z ^ (2 ^ 255 - 21))"
    using crecip_yields [OF m(3)] unfolding yields_power_def by blast
  obtain r where r: "fmul x' i = Some r" "repr r (x * z ^ (2 ^ 255 - 21))"
    using repr_fmul [of x' x i "z ^ (2 ^ 255 - 21)"] m(2) i(2) bounded_1_2 unfolding repr_def by blast
  obtain bs where bs: "fcontract out r = Some bs" "length bs = 32" "le_int bs < 2 ^ 255"
    "fcong (le_int bs) (feval r)"
    using fcontract_contract [of r out] r(2) assms(1) unfolding repr_def by blast
  have "fcong (le_int bs) (x * z ^ (2 ^ 255 - 21))" using bs(4) r(2) fcong_trans unfolding repr_def by blast
  then have "le_int bs mod p25519 = x25519_value secret basepoint"
    unfolding x25519_value_def xz fcong_def by simp
  moreover have "curve25519_donna out secret basepoint = Some bs"
    unfolding curve25519_donna_def Let_def clamp_take [OF assms(2)] using m(1) i(1) r(1) bs(1) by simp
  ultimately show ?thesis using bs(2,3) by blast
qed

section \<open>Round trip\<close>

lemma reduced_nth: "reduced t \<Longrightarrow> i < 10 \<Longrightarrow> 0 \<le> t ! i"
  by (simp add: reduced_def)

lemma borrow_reduced: "reduced t \<Longrightarrow> i \<le> 10 \<Longrightarrow> borrow t i = 0"
  using reduced_nth by (induction i) (auto simp: not_less)

lemma reduced_bounded: "reduced t \<Longrightarrow> bounded 1 t"
  by (auto simp: reduced_def bounded_def)

lemma normalise_reduced: "reduced t \<Longrightarrow> normalise (Suc k) t = Some t"
proof -
  assume r: "reduced t"
  have "borrowed t 9 ! i = t ! i" if "i < 10" for i
    using that borrow_reduced [OF r] by (cases "i = 9") (simp_all add: borrowed_def del: borrow.simps)
  moreover have len: "length t = 10" using r by (simp add: reduced_def)
  ultimately have "borrowed t 9 = t"
    by (intro nth_equalityI) (simp_all add: borrowed_nth(1))
  moreover have "0 \<le> t ! 9" "0 \<le> t ! 0" using r by (simp_all add: reduced_def)
  ultimately show ?thesis
    using normalise_Suc [OF reduced_bounded [OF r], of k] by (simp add: wrapped_def Let_def)
qed

lemma reduced_fexpand: "length inp = 32 \<Longrightarrow> reduced (fexpand inp)"
  using bounded_fexpand [of inp]
  by (auto simp: reduced_def bounded_def fexpand_eq nth_Cons' less_Suc_eq numeral_eq_Suc)

lemma le_int_update_last:
  assumes "length bs = 32"
  shows "le_int (bs[31 := bs ! 31 AND 127]) = le_int bs mod 2 ^ 255"
proof -
  have bs: "bs = take 31 bs @ [bs ! 31]"
    using assms take_Suc_conv_app_nth [of 31 bs] by simp
  have u: "bs[31 := c] = take 31 bs @ [c]" for c
    using assms by (subst bs) (simp add: list_update_append)
  have "uint (bs ! 31 AND 127) = uint (bs ! 31) mod 2 ^ 7"
    using take_bit_eq_mask [of 7 "uint (bs ! 31)"]
    by (simp only: uint_and take_bit_eq_mod mask_eq_exp_minus_1) simp
  moreover have "le_int bs = le_int (take 31 bs) + 256 ^ 31 * uint (bs ! 31)"
    using assms by (subst bs) (simp add: le_int_append)
  moreover have "(le_int (take 31 bs) + 256 ^ 31 * uint (bs ! 31)) mod (256 ^ 31 * 2 ^ 7) =
      le_int (take 31 bs) + 256 ^ 31 * (uint (bs ! 31) mod 2 ^ 7)"
    using le_int_range [of "take 31 bs"] assms by (subst zmod_zmult2_eq) simp_all
  ultimately show ?thesis
    unfolding u using assms by (simp add: le_int_append)
qed

lemma fcontract_fexpand:
  assumes "length out = 32" and "length inp = 32"
  shows "fcontract out (fexpand inp) = Some (inp[31 := inp ! 31 AND 127])"
proof -
  note r = reduced_fexpand [OF assms(2)]
  let ?b = "store_limbs (map2 push_bit limb_shifts (fexpand inp)) out"
  have "le_int ?b = le_int (inp[31 := inp ! 31 AND 127])"
    using le_int_store_limbs [OF r assms(1)] by (simp add: feval_fexpand le_int_update_last assms(2))
  moreover have "length ?b = length (inp[31 := inp ! 31 AND 127])"
    by (simp add: store_limbs_stored assms)
  ultimately have "?b = inp[31 := inp ! 31 AND 127]" by (intro le_int_inj)
  then show ?thesis
    using normalise_reduced [OF r, of 1] by (simp add: fcontract_def numeral_2_eq_2)
qed

section \<open>Properties\<close>

text \<open>C9. curve25519_donna computes X25519: for a 32 byte secret and base point it returns, every loop
  ending, 32 bytes whose number is below 2^255 and congruent modulo 2^255 - 19 to x * z^(p - 2), where
  (x : z) is the end of RFC 7748's ladder over the bits of the clamped secret, from the base point with
  its top bit ignored.\<close>

theorem curve25519_donna_correct:
  assumes "length out = 32" and "length secret = 32" and "length basepoint = 32"
  shows "\<exists>bs. curve25519_donna out secret basepoint = Some bs \<and> length bs = 32 \<and>
    le_int bs < 2 ^ 255 \<and> le_int bs mod p25519 = x25519_value secret basepoint"
  by (rule curve25519_donna_contract [OF assms])

lemma curve25519_donna_correct_witness:
  "\<exists>bs. curve25519_donna (replicate 32 0) (replicate 32 7) (9 # replicate 31 0) = Some bs \<and>
    length bs = 32 \<and> le_int bs < 2 ^ 255 \<and>
    le_int bs mod p25519 = x25519_value (replicate 32 7) (9 # replicate 31 0)"
  by (rule curve25519_donna_correct) simp_all

text \<open>C10. fcontract gives back the bytes that fexpand read, but for the top bit, which fexpand
  drops; what the output buffer held before does not show.\<close>

theorem fcontract_inverts_fexpand:
  assumes "length out = 32" and "length inp = 32"
  shows "fcontract out (fexpand inp) = Some (inp[31 := inp ! 31 AND 127])"
  by (rule fcontract_fexpand [OF assms])

lemma fcontract_inverts_fexpand_witness:
  "fcontract (replicate 32 0xaa) (fexpand (replicate 32 0xff)) =
    Some ((replicate 32 0xff)[31 := (replicate 32 0xff) ! 31 AND 127])"
  by (rule fcontract_inverts_fexpand) simp_all

text \<open>C14. One call of fmonty doubles Q and adds Q and Q' by the formulas of RFC 7748: from reduced
  limbs it leaves reduced limbs, congruent to the doubled point and to the differential sum.\<close>

theorem fmonty_refines_rfc7748:
  assumes "bounded 1 x" and "bounded 1 z" and "bounded 1 x'" and "bounded 1 z'" and "bounded 1 q"
  shows "\<exists>x2 z2 x3 z3. fmonty x z x' z' q = Some ((x2, z2), (x3, z3)) \<and>
    list_all (bounded 1) [x2, z2, x3, z3] \<and>
    (feval x2 mod p25519, feval z2 mod p25519) = mont_double (feval x) (feval z) \<and>
    (feval x3 mod p25519, feval z3 mod p25519) =
      mont_add (feval q) (feval x) (feval z) (feval x') (feval z')"
proof -
  have r: "bounded 1 t \<Longrightarrow> repr t (feval t)" for t by (simp add: repr_def)
  have m: "fst (mont_double a b) mod p25519 = fst (mont_double a b)"
    "snd (mont_double a b) mod p25519 = snd (mont_double a b)"
    "fst (mont_add c a b d e) mod p25519 = fst (mont_add c a b d e)"
    "snd (mont_add c a b d e) mod p25519 = snd (mont_add c a b d e)" for a b c d e
    by (simp_all add: mont_double_def mont_add_def Let_def)
  show ?thesis
    using fmonty_contract [OF assms [THEN r]] m by (fastforce simp: repr_def fcong_def prod_eq_iff)
qed

lemma fmonty_refines_rfc7748_witness:
  "\<exists>x2 z2 x3 z3. fmonty (limb_const 9) (limb_const 1) (limb_const 1) (limb_const 0) (limb_const 9) =
      Some ((x2, z2), (x3, z3)) \<and> list_all (bounded 1) [x2, z2, x3, z3] \<and>
    (feval x2 mod p25519, feval z2 mod p25519) =
      mont_double (feval (limb_const 9)) (feval (limb_const 1)) \<and>
    (feval x3 mod p25519, feval z3 mod p25519) =
      mont_add (feval (limb_const 9)) (feval (limb_const 9)) (feval (limb_const 1))
        (feval (limb_const 1)) (feval (limb_const 0))"
  using repr_limb_const by (intro fmonty_refines_rfc7748) (simp_all add: repr_def)

end
