(* ===== verification/Bits.thy ===== *)
theory Bits
  imports Prelude
begin

text \<open>
  base/bits.h: Log2Floor, Log2Ceiling and Align.  \<open>Align\<close> is the source's bit trick on size_t; the
  components use \<open>align_up\<close>, the least multiple that is not smaller, which it computes.
\<close>

section \<open>Logarithms\<close>

text \<open>The turns i = 4, ..., 0 of the loop; the value and the logarithm so far.\<close>

definition log2_step :: "nat \<Rightarrow> u32 \<times> int \<Rightarrow> u32 \<times> int" where
  "log2_step i s =
     (let (val, lg) = s; shift = 2 ^ i; x = drop_bit shift val
      in if x \<noteq> 0 then (x, lg + int shift) else (val, lg))"

definition Log2Floor :: "u32 \<Rightarrow> int" where
  "Log2Floor n = (if n = 0 then - 1 else snd (fold log2_step [4, 3, 2, 1, 0] (n, 0)))"

definition Log2Ceiling :: "u32 \<Rightarrow> int" where
  "Log2Ceiling n = (if n = 0 then - 1 else 1 + Log2Floor (n - 1))"

definition Align :: "u64 \<Rightarrow> u64 \<Rightarrow> u64" where
  "Align sz alignment = (sz + alignment - 1) AND NOT (alignment - 1)"

text \<open>After the turn for i the value is below \<open>2 ^ 2 ^ i\<close>, and shifted back it is n.\<close>

lemma log2_step_inv:
  assumes "val \<noteq> 0" and "unat val < 2 ^ (2 * 2 ^ i)" and "0 \<le> lg" and "drop_bit (nat lg) n = val"
  shows "case log2_step i (val, lg) of (val', lg') \<Rightarrow>
    val' \<noteq> 0 \<and> unat val' < 2 ^ 2 ^ i \<and> 0 \<le> lg' \<and> drop_bit (nat lg') n = val'"
proof (cases "drop_bit (2 ^ i) val = 0")
  case True
  then have "unat val div 2 ^ 2 ^ i = 0" by (metis drop_bit_eq_div unat_0 unat_drop_bit_eq)
  then show ?thesis using True assms by (simp add: log2_step_def div_eq_0_iff)
next
  case False
  have "unat (drop_bit (2 ^ i) val) = unat val div 2 ^ 2 ^ i"
    by (simp only: unat_drop_bit_eq) (simp add: drop_bit_eq_div)
  moreover have "unat val < 2 ^ 2 ^ i * 2 ^ 2 ^ i" using assms(2) by (simp add: mult_2 power_add)
  ultimately have "unat (drop_bit (2 ^ i) val) < 2 ^ 2 ^ i"
    by (simp add: less_mult_imp_div_less)
  moreover have "drop_bit (2 ^ i) val = drop_bit (nat (lg + 2 ^ i)) n"
    unfolding assms(4) [symmetric] drop_bit_drop_bit
    using assms(3) by (simp add: nat_add_distrib nat_power_eq add.commute)
  ultimately show ?thesis using False assms by (simp add: log2_step_def)
qed

definition log2_inv :: "u32 \<Rightarrow> nat \<Rightarrow> u32 \<times> int \<Rightarrow> bool" where
  "log2_inv n k s \<longleftrightarrow> (case s of (val, lg) \<Rightarrow>
     val \<noteq> 0 \<and> unat val < 2 ^ k \<and> 0 \<le> lg \<and> drop_bit (nat lg) n = val)"

lemma log2_inv_step: "log2_inv n (2 * 2 ^ i) s \<Longrightarrow> log2_inv n (2 ^ i) (log2_step i s)"
  using log2_step_inv [of "fst s" i "snd s" n] by (simp add: log2_inv_def split: prod.splits)

lemma Log2Floor_inv:
  assumes "n \<noteq> 0"
  shows "log2_inv n 1 (fold log2_step [4, 3, 2, 1, 0] (n, 0))"
proof -
  have "log2_inv n (2 * 2 ^ 4) (n, 0)" using assms unsigned_less [of n] by (simp add: log2_inv_def)
  from log2_inv_step [OF this] have "log2_inv n (2 * 2 ^ 3) (log2_step 4 (n, 0))" by simp
  from log2_inv_step [OF this] have "log2_inv n (2 * 2 ^ 2) (log2_step 3 (log2_step 4 (n, 0)))" by simp
  from log2_inv_step [OF this] have "log2_inv n (2 * 2 ^ 1) (log2_step 2 (log2_step 3 (log2_step 4 (n, 0))))"
    by simp
  from log2_inv_step [OF this]
  have "log2_inv n (2 * 2 ^ 0) (log2_step 1 (log2_step 2 (log2_step 3 (log2_step 4 (n, 0)))))" by simp
  from log2_inv_step [OF this] show ?thesis by simp
qed

lemma Log2Floor_bounds:
  assumes "n \<noteq> 0"
  shows "0 \<le> Log2Floor n \<and> 2 ^ nat (Log2Floor n) \<le> unat n \<and> unat n < 2 ^ (nat (Log2Floor n) + 1)"
proof -
  obtain val lg where f: "fold log2_step [4, 3, 2, 1, 0] (n, 0) = (val, lg)" by fastforce
  have i: "val \<noteq> 0" "unat val < 2" "0 \<le> lg" "drop_bit (nat lg) n = val"
    using Log2Floor_inv [OF assms] unfolding f by (simp_all add: log2_inv_def)
  then have "unat val = 1" using unat_eq_zero by fastforce
  then have "unat n div 2 ^ nat lg = 1"
    using i(4) by (metis drop_bit_eq_div unat_drop_bit_eq)
  then have "unat n = 2 ^ nat lg + unat n mod 2 ^ nat lg"
    by (metis div_mult_mod_eq mult_1)
  moreover have "unat n mod 2 ^ nat lg < 2 ^ nat lg" by simp
  ultimately have "2 ^ nat lg \<le> unat n \<and> unat n < 2 * 2 ^ nat lg" by linarith
  moreover have "Log2Floor n = lg" using assms f by (simp add: Log2Floor_def)
  ultimately show ?thesis using i(3) by (simp add: mult.commute)
qed

text \<open>
  C25. For every positive 32-bit number n, Log2Floor returns the i for which n is at least 2^i and below
  2^(i+1), and Log2Ceiling the i for which n is above 2^(i-1) and at most 2^i (0 for 1); both return -1
  for 0.
\<close>

theorem logarithms_exact:
  "Log2Floor 0 = - 1 \<and> Log2Ceiling 0 = - 1 \<and> Log2Ceiling 1 = 0
   \<and> (n \<noteq> 0 \<longrightarrow> 0 \<le> Log2Floor n \<and> 2 ^ nat (Log2Floor n) \<le> unat n
        \<and> unat n < 2 ^ (nat (Log2Floor n) + 1))
   \<and> (1 < n \<longrightarrow> 1 \<le> Log2Ceiling n \<and> 2 ^ nat (Log2Ceiling n - 1) < unat n
        \<and> unat n \<le> 2 ^ nat (Log2Ceiling n))"
proof -
  have c: "1 \<le> Log2Ceiling n \<and> 2 ^ nat (Log2Ceiling n - 1) < unat n \<and> unat n \<le> 2 ^ nat (Log2Ceiling n)"
    if n: "1 < n"
  proof -
    have "n - 1 \<noteq> 0" "n \<noteq> 0" using n by auto
    then have u: "unat (n - 1) = unat n - 1" by (simp add: unat_minus_one)
    have "1 < unat n" using n by (simp add: word_less_nat_alt)
    with Log2Floor_bounds [OF \<open>n - 1 \<noteq> 0\<close>] \<open>n \<noteq> 0\<close> u show ?thesis
      by (auto simp: Log2Ceiling_def nat_add_distrib)
  qed
  have "Log2Floor 0 = - 1 \<and> Log2Ceiling 0 = - 1 \<and> Log2Ceiling 1 = 0"
    by (simp add: Log2Floor_def Log2Ceiling_def)
  with c Log2Floor_bounds show ?thesis by blast
qed

lemma logarithms_exact_witness:
  "2 ^ nat (Log2Floor 100) \<le> (100 :: nat) \<and> (100 :: nat) \<le> 2 ^ nat (Log2Ceiling 100)"
  using logarithms_exact [of 100] by simp

section \<open>Alignment\<close>

definition align_up :: "nat \<Rightarrow> nat \<Rightarrow> nat" where
  "align_up n a = (n + a - 1) div a * a"

lemma align_up_bounds: "0 < a \<Longrightarrow> n \<le> align_up n a" "0 < a \<Longrightarrow> align_up n a < n + a" "a dvd align_up n a"
proof -
  show "a dvd align_up n a" by (simp add: align_up_def)
  assume a: "0 < a"
  have m: "(n + a - 1) mod a < a" using a by simp
  have d: "align_up n a + (n + a - 1) mod a = n + a - 1" by (simp add: align_up_def)
  show "n \<le> align_up n a" "align_up n a < n + a" using m d a by linarith+
qed

text \<open>The bit trick rounds up, for an alignment that is a power of two and without overflow.\<close>

lemma Align_align_up:
  assumes "unat alignment = 2 ^ k" and "unat sz + unat alignment - 1 < 2 ^ 64"
  shows "unat (Align sz alignment) = align_up (unat sz) (unat alignment)"
proof -
  have m: "alignment - 1 = mask k"
  proof -
    have "of_nat (unat alignment) = alignment" by simp
    then have "alignment = 2 ^ k" unfolding assms(1) by simp
    then show ?thesis by (simp add: mask_eq_exp_minus_1)
  qed
  let ?x = "sz + alignment - 1"
  have pos: "0 < unat alignment" using assms(1) by simp
  have x: "unat ?x = unat sz + unat alignment - 1"
  proof -
    have "alignment \<noteq> 0" using pos by auto
    then have "unat (alignment - 1) = unat alignment - 1" by (rule unat_minus_one)
    moreover have "unat (sz + (alignment - 1)) = (unat sz + unat (alignment - 1)) mod 2 ^ 64"
      by (simp add: unat_word_ariths)
    ultimately have "unat (sz + (alignment - 1)) = unat sz + unat alignment - 1"
      using assms(2) pos by simp
    then show ?thesis by (simp add: algebra_simps)
  qed
  have "?x AND NOT (mask k) = push_bit k (drop_bit k ?x)"
    by (rule bit_word_eqI) (auto simp: bit_simps)
  then have "unat (Align sz alignment) = take_bit 64 (unat ?x div 2 ^ k * 2 ^ k)"
    unfolding Align_def m
    by (simp only: unsigned_push_bit_eq unat_drop_bit_eq) (simp add: push_bit_eq_mult drop_bit_eq_div)
  also have "\<dots> = unat ?x div 2 ^ k * 2 ^ k"
  proof (rule take_bit_nat_eq_self)
    have "unat ?x < 2 ^ 64" using assms(2) by (simp only: x)
    with div_times_less_eq_dividend [of "unat ?x" "2 ^ k"]
    show "unat ?x div 2 ^ k * 2 ^ k < 2 ^ 64" by (rule le_less_trans)
  qed
  finally show ?thesis by (simp add: align_up_def x assms(1))
qed

end
