(* ===== verification/Pickle.thy ===== *)
theory Pickle
  imports Bits Bytes
begin

text \<open>
  base/pickle.cc and base/pickle.h: a Pickle is a header, which starts with the size of the payload,
  and a payload of fields aligned to four bytes; a PickleIterator reads the fields back.  The header's
  extra bytes are whatever the allocation held.  Floating point numbers are their bit patterns.  A
  null header that is dereferenced and a write to a read-only pickle are errors.
\<close>

section \<open>State\<close>

text \<open>
  header_ is None when null, and otherwise the payload size it records and the bytes after it;
  capacity_after_header_ is None for kCapacityReadOnly; pk_buffer is the memory behind the header.
\<close>

record pickle =
  pk_header :: "(u32 \<times> u8 list) option"
  pk_header_size :: nat
  pk_capacity :: "nat option"
  pk_write_offset :: nat
  pk_buffer :: "u8 list"

datatype pickle_error = NullHeader | ReadOnlyPickle

definition kPayloadUnit :: nat where "kPayloadUnit = 64"
definition kHeaderSize :: nat where "kHeaderSize = 4"
definition kPickleHeapAlign :: nat where "kPickleHeapAlign = 4096"

definition pk_payload_size :: "pickle \<Rightarrow> nat" where
  "pk_payload_size p = (case pk_header p of None \<Rightarrow> 0 | Some (n, _) \<Rightarrow> unat n)"

definition pk_payload :: "pickle \<Rightarrow> u8 list" where
  "pk_payload p = take (pk_payload_size p) (pk_buffer p)"

definition pk_size :: "pickle \<Rightarrow> pickle_error + nat" where
  "pk_size p =
     (case pk_header p of None \<Rightarrow> Inl NullHeader | Some (n, _) \<Rightarrow> Inr (pk_header_size p + unat n))"

text \<open>The size() bytes at data().\<close>

definition pk_data :: "pickle \<Rightarrow> pickle_error + u8 list" where
  "pk_data p =
     (case pk_header p of None \<Rightarrow> Inl NullHeader
      | Some (n, extra) \<Rightarrow> Inr (word_bytes 4 n @ extra @ pk_payload p))"

definition GetTotalAllocatedSize :: "pickle \<Rightarrow> nat" where
  "GetTotalAllocatedSize p =
     (case pk_capacity p of None \<Rightarrow> 0 | Some cap \<Rightarrow> pk_header_size p + cap)"

section \<open>Construction\<close>

definition pk_Resize :: "nat \<Rightarrow> pickle \<Rightarrow> pickle_error + pickle" where
  "pk_Resize new_capacity p =
     (case pk_capacity p of None \<Rightarrow> Inl ReadOnlyPickle
      | Some _ \<Rightarrow> Inr (p\<lparr>pk_capacity := Some (align_up new_capacity kPayloadUnit)\<rparr>))"

text \<open>Pickle(int header_size) and, with the size of Header, Pickle().\<close>

definition new_pickle_header :: "nat \<Rightarrow> u8 list \<Rightarrow> pickle" where
  "new_pickle_header header_size extra =
     \<lparr>pk_header = Some (0, extra), pk_header_size = align_up header_size 4,
      pk_capacity = Some (align_up kPayloadUnit kPayloadUnit), pk_write_offset = 0, pk_buffer = []\<rparr>"

definition new_pickle :: pickle where
  "new_pickle =
     \<lparr>pk_header = Some (0, []), pk_header_size = kHeaderSize,
      pk_capacity = Some (align_up kPayloadUnit kPayloadUnit), pk_write_offset = 0, pk_buffer = []\<rparr>"

text \<open>Pickle(const char* data, int data_len); the subtraction is one of uint32_t.\<close>

definition pickle_of_data :: "u8 list \<Rightarrow> pickle" where
  "pickle_of_data data =
     (let data_len = length data;
          recorded = (le_word (take 4 data) :: u32);
          size1 = (if data_len \<ge> kHeaderSize then unat (of_nat data_len - recorded) else 0);
          size2 = (if size1 > data_len then 0 else size1);
          size3 = (if size2 \<noteq> align_up size2 4 then 0 else size2)
      in \<lparr>pk_header = (if size3 = 0 then None else Some (recorded, drop 4 (take size3 data))),
          pk_header_size = size3, pk_capacity = None, pk_write_offset = 0,
          pk_buffer = drop size3 data\<rparr>)"

text \<open>The copy constructor; operator= between two objects ends in the same state.\<close>

definition pk_copy :: "pickle \<Rightarrow> pickle_error + pickle" where
  "pk_copy other =
     (case pk_header other of None \<Rightarrow> Inl NullHeader
      | Some (n, extra) \<Rightarrow>
          Inr \<lparr>pk_header = Some (n, extra), pk_header_size = pk_header_size other,
               pk_capacity = Some (align_up (unat n) kPayloadUnit),
               pk_write_offset = pk_write_offset other, pk_buffer = pk_payload other\<rparr>)"

definition pk_assign :: "pickle \<Rightarrow> pickle \<Rightarrow> pickle_error + pickle" where
  "pk_assign this other =
     (let p1 = (if pk_capacity this = None then this\<lparr>pk_header := None, pk_capacity := Some 0\<rparr> else this);
          p2 = (if pk_header_size p1 \<noteq> pk_header_size other
                then p1\<lparr>pk_header := None, pk_header_size := pk_header_size other\<rparr> else p1)
      in case pk_header other of None \<Rightarrow> Inl NullHeader
         | Some (n, extra) \<Rightarrow>
             bindE (pk_Resize (unat n) p2) (\<lambda>p3.
               Inr (p3\<lparr>pk_header := Some (n, extra), pk_buffer := pk_payload other,
                       pk_write_offset := pk_write_offset other\<rparr>)))"

section \<open>Writing\<close>

definition pk_Reserve :: "nat \<Rightarrow> pickle \<Rightarrow> pickle_error + pickle" where
  "pk_Reserve len p =
     (let data_len = align_up len 4; new_size = pk_write_offset p + data_len
      in case pk_capacity p of None \<Rightarrow> Inr p
         | Some cap \<Rightarrow> if new_size > cap then pk_Resize (cap * 2 + new_size) p else Inr p)"

text \<open>ClaimUninitializedBytesInternal followed by the copy of the bytes.\<close>

definition WriteBytesCommon :: "u8 list \<Rightarrow> pickle \<Rightarrow> pickle_error + pickle" where
  "WriteBytesCommon data p =
     (case (pk_header p, pk_capacity p) of
        (None, _) \<Rightarrow> Inl NullHeader
      | (_, None) \<Rightarrow> Inl ReadOnlyPickle
      | (Some (_, extra), Some cap) \<Rightarrow>
          let data_len = align_up (length data) 4;
              new_size = pk_write_offset p + data_len;
              doubled = cap * 2;
              new_capacity = (if doubled > kPickleHeapAlign
                              then align_up doubled kPickleHeapAlign - kPayloadUnit else doubled)
          in bindE (if new_size > cap then pk_Resize (max new_capacity new_size) p else Inr p) (\<lambda>p1.
               Inr (p1\<lparr>pk_header := Some (of_nat new_size, extra), pk_write_offset := new_size,
                       pk_buffer := take (pk_write_offset p) (pk_buffer p) @ data
                         @ replicate (data_len - length data) 0\<rparr>)))"

definition ClaimBytes :: "nat \<Rightarrow> pickle \<Rightarrow> pickle_error + pickle" where
  "ClaimBytes num_bytes p = WriteBytesCommon (replicate num_bytes 0) p"

definition WriteInt :: "u32 \<Rightarrow> pickle \<Rightarrow> pickle_error + pickle" where
  "WriteInt v p = WriteBytesCommon (word_bytes 4 v) p"

definition WriteBool :: "bool \<Rightarrow> pickle \<Rightarrow> pickle_error + pickle" where
  "WriteBool b p = WriteInt (if b then 1 else 0) p"

definition WriteUInt16 :: "u16 \<Rightarrow> pickle \<Rightarrow> pickle_error + pickle" where
  "WriteUInt16 v p = WriteBytesCommon (word_bytes 2 v) p"

text \<open>Also WriteInt64, WriteSizeT, WriteLong... and WriteDouble, of eight bytes each.\<close>

definition WriteUInt64 :: "u64 \<Rightarrow> pickle \<Rightarrow> pickle_error + pickle" where
  "WriteUInt64 v p = WriteBytesCommon (word_bytes 8 v) p"

definition WriteString :: "u8 list \<Rightarrow> pickle \<Rightarrow> pickle_error + pickle" where
  "WriteString s p = bindE (WriteInt (of_nat (length s)) p) (WriteBytesCommon s)"

definition WriteString16 :: "u16 list \<Rightarrow> pickle \<Rightarrow> pickle_error + pickle" where
  "WriteString16 s p =
     bindE (WriteInt (of_nat (length s)) p) (WriteBytesCommon (concat (map (word_bytes 2) s)))"

definition WriteData :: "u8 list \<Rightarrow> pickle \<Rightarrow> pickle_error + pickle" where
  "WriteData s p = bindE (WriteInt (of_nat (length s)) p) (WriteBytesCommon s)"

section \<open>Reading\<close>

record pickle_iter =
  it_payload :: "u8 list"
  it_read :: nat
  it_end :: nat

definition new_iter :: "pickle \<Rightarrow> pickle_iter" where
  "new_iter p = \<lparr>it_payload = pk_buffer p, it_read = 0, it_end = pk_payload_size p\<rparr>"

definition Advance :: "nat \<Rightarrow> pickle_iter \<Rightarrow> pickle_iter" where
  "Advance sz it =
     (let aligned_size = align_up sz 4
      in if it_end it - it_read it < aligned_size then it\<lparr>it_read := it_end it\<rparr>
         else it\<lparr>it_read := it_read it + aligned_size\<rparr>)"

text \<open>A reader returns what it read, None for false, and the iterator.\<close>

type_synonym 'a reader = "pickle_iter \<Rightarrow> 'a option \<times> pickle_iter"

definition read_type :: "nat \<Rightarrow> u8 list reader" where
  "read_type sz it =
     (if sz > it_end it - it_read it then (None, it\<lparr>it_read := it_end it\<rparr>)
      else (Some (take sz (drop (it_read it) (it_payload it))), Advance sz it))"

text \<open>ReadBytes, and SkipBytes; the number of bytes is an int.\<close>

definition ReadBytes :: "int \<Rightarrow> u8 list reader" where
  "ReadBytes num_bytes it =
     (if num_bytes < 0 \<or> it_end it - it_read it < nat num_bytes then (None, it\<lparr>it_read := it_end it\<rparr>)
      else (Some (take (nat num_bytes) (drop (it_read it) (it_payload it))), Advance (nat num_bytes) it))"

definition read_elements :: "int \<Rightarrow> nat \<Rightarrow> u8 list reader" where
  "read_elements num_elements size_element it =
     (let num_bytes = num_elements * int size_element
      in if num_bytes \<noteq> sint (of_int num_bytes :: u32) then (None, it) else ReadBytes num_bytes it)"

definition bind_reader :: "'a reader \<Rightarrow> ('a \<Rightarrow> 'b reader) \<Rightarrow> 'b reader" where
  "bind_reader m f it = (case m it of (None, it') \<Rightarrow> (None, it') | (Some x, it') \<Rightarrow> f x it')"

definition map_reader :: "('a \<Rightarrow> 'b) \<Rightarrow> 'a reader \<Rightarrow> 'b reader" where
  "map_reader f m it = apfst (map_option f) (m it)"

definition ReadInt :: "u32 reader" where
  "ReadInt = map_reader le_word (read_type 4)"

definition ReadBool :: "bool reader" where
  "ReadBool = map_reader (\<lambda>bs. bs \<noteq> [0]) (read_type 1)"

definition ReadUInt16 :: "u16 reader" where
  "ReadUInt16 = map_reader le_word (read_type 2)"

definition ReadUInt64 :: "u64 reader" where
  "ReadUInt64 = map_reader le_word (read_type 8)"

definition ReadLength :: "u32 reader" where
  "ReadLength it =
     (case ReadInt it of (Some v, it') \<Rightarrow> (if 0 \<le> sint v then Some v else None, it') | r \<Rightarrow> r)"

definition ReadString :: "u8 list reader" where
  "ReadString = bind_reader ReadInt (\<lambda>len. ReadBytes (sint len))"

fun units_of :: "u8 list \<Rightarrow> u16 list" where
  "units_of (a # b # bs) = le_word [a, b] # units_of bs"
| "units_of _ = []"

definition ReadString16 :: "u16 list reader" where
  "ReadString16 = bind_reader ReadInt (\<lambda>len. map_reader units_of (read_elements (sint len) 2))"

definition ReadData :: "u8 list reader" where
  "ReadData = bind_reader ReadInt (\<lambda>len. ReadBytes (sint len))"

section \<open>Framing\<close>

definition SIZE_MAX :: nat where "SIZE_MAX = 2 ^ 64 - 1"

definition PeekNext :: "nat \<Rightarrow> u8 list \<Rightarrow> nat option" where
  "PeekNext header_size buf =
     (if length buf < kHeaderSize then None
      else if length buf < header_size then None
      else let payload_size = unat (le_word (take 4 buf) :: u32)
           in Some (if payload_size > SIZE_MAX - header_size then SIZE_MAX else header_size + payload_size))"

definition FindNext :: "nat \<Rightarrow> u8 list \<Rightarrow> nat option" where
  "FindNext header_size buf =
     (case PeekNext header_size buf of None \<Rightarrow> None
      | Some pickle_size \<Rightarrow> if pickle_size > length buf then None else Some pickle_size)"

end
