(* ===== verification/UnixSocket.thy ===== *)
theory UnixSocket
  imports Bytes
begin

text \<open>
  base/posix/unix_domain_socket_linux.cc: messages with file descriptors over SOCK_SEQPACKET sockets.
  What the kernel returns from sendmsg(2), recvmsg(2) and socketpair(2) is an argument; the functions
  say what is handed to it, what the caller gets and which descriptors are closed.
\<close>

section \<open>Messages\<close>

text \<open>A control message: SCM_RIGHTS with descriptors, SCM_CREDENTIALS with a process id, or another.\<close>

datatype cmsg = ScmRights "u32 list" | ScmCredentials u32 | OtherCmsg

text \<open>A return of recvmsg: -1, or the length, with the bytes, the control messages and msg_flags.\<close>

record kernel_recv =
  kr_ret :: int
  kr_data :: "u8 list"
  kr_control :: "cmsg list"
  kr_trunc :: bool
  kr_ctrunc :: bool

record received =
  rc_ret :: int
  rc_data :: "u8 list"
  rc_fds :: "u32 list"
  rc_pid :: u32
  rc_closed :: "u32 list"
  rc_emsgsize :: bool

definition kMaxFileDescriptors :: nat where "kMaxFileDescriptors = 16"

section \<open>Receiving\<close>

text \<open>The loop over the control messages, for the descriptors and the process id.\<close>

definition scan_cmsg :: "cmsg \<Rightarrow> u32 list option \<times> u32 \<Rightarrow> u32 list option \<times> u32" where
  "scan_cmsg c s =
     (case c of ScmRights fds \<Rightarrow> (Some fds, snd s) | ScmCredentials pid \<Rightarrow> (fst s, pid) | OtherCmsg \<Rightarrow> s)"

definition RecvMsgWithFlags :: "kernel_recv \<Rightarrow> received" where
  "RecvMsgWithFlags k =
     (if kr_ret k = - 1
      then \<lparr>rc_ret = - 1, rc_data = [], rc_fds = [], rc_pid = - 1, rc_closed = [], rc_emsgsize = False\<rparr>
      else let (wire_fds, pid) = fold scan_cmsg (kr_control k) (None, - 1);
               fds = (case wire_fds of None \<Rightarrow> [] | Some l \<Rightarrow> l)
           in if kr_trunc k \<or> kr_ctrunc k
              then \<lparr>rc_ret = - 1, rc_data = kr_data k, rc_fds = [], rc_pid = - 1, rc_closed = fds,
                    rc_emsgsize = True\<rparr>
              else \<lparr>rc_ret = kr_ret k, rc_data = kr_data k, rc_fds = fds, rc_pid = pid, rc_closed = [],
                    rc_emsgsize = False\<rparr>)"

section \<open>Sending\<close>

text \<open>The message that is handed to sendmsg, whose result is compared with the length.\<close>

definition SendMsg_message :: "u8 list \<Rightarrow> u32 list \<Rightarrow> u8 list \<times> cmsg list" where
  "SendMsg_message buf fds = (buf, if fds \<noteq> [] then [ScmRights fds] else [])"

definition SendMsg :: "(u8 list \<times> cmsg list \<Rightarrow> int) \<Rightarrow> u8 list \<Rightarrow> u32 list \<Rightarrow> bool" where
  "SendMsg sendmsg buf fds \<longleftrightarrow> int (length buf) = sendmsg (SendMsg_message buf fds)"

section \<open>A request and its reply\<close>

text \<open>
  SendRecvMsgWithFlags: pair is the result of socketpair (the receiving and the sending socket),
  peer what recvmsg returns on the receiving socket for the request.  The result is the length of
  the reply, its bytes, the descriptor (-1 for none), and the received descriptors that were closed.
  Whether the caller passes a pointer for the descriptor is result_fd; without one a reply may carry none.
  The NOTREACHED() at a reply with more is what it is in builds without DCHECKs: the error is returned.
\<close>

definition SendRecvMsgWithFlags ::
    "bool \<Rightarrow> (u32 \<times> u32) option \<Rightarrow> (u8 list \<times> cmsg list \<Rightarrow> int) \<Rightarrow> (u8 list \<times> cmsg list \<Rightarrow> kernel_recv)
       \<Rightarrow> u8 list \<Rightarrow> int \<times> u8 list \<times> u32 \<times> u32 list" where
  "SendRecvMsgWithFlags result_fd pair sendmsg peer request =
     (case pair of
        None \<Rightarrow> (- 1, [], - 1, [])
      | Some (recv_sock, send_sock) \<Rightarrow>
          if \<not> SendMsg sendmsg request [send_sock] then (- 1, [], - 1, [])
          else let r = RecvMsgWithFlags (peer (SendMsg_message request [send_sock]))
               in if rc_ret r = - 1 then (- 1, rc_data r, - 1, rc_closed r)
                  else if length (rc_fds r) > (if result_fd then 1 else 0) then (- 1, rc_data r, - 1, rc_fds r)
                  else (rc_ret r, rc_data r, case rc_fds r of [] \<Rightarrow> - 1 | fd # _ \<Rightarrow> fd, []))"

section \<open>No descriptor is lost\<close>

text \<open>All descriptors of the control messages, of which the kernel sends one SCM_RIGHTS at most.\<close>

definition cmsg_fds :: "cmsg list \<Rightarrow> u32 list" where
  "cmsg_fds cs = concat (map (\<lambda>c. case c of ScmRights fds \<Rightarrow> fds | _ \<Rightarrow> []) cs)"

fun is_rights :: "cmsg \<Rightarrow> bool" where
  "is_rights (ScmRights _) = True"
| "is_rights _ = False"

lemma scan_cmsg_simps [simp]:
  "scan_cmsg (ScmRights fds) s = (Some fds, snd s)"
  "scan_cmsg (ScmCredentials p) s = (fst s, p)"
  "scan_cmsg OtherCmsg s = s"
  by (simp_all add: scan_cmsg_def)

lemma cmsg_fds_simps [simp]:
  "cmsg_fds [] = []"
  "cmsg_fds (ScmRights fds # cs) = fds @ cmsg_fds cs"
  "cmsg_fds (ScmCredentials p # cs) = cmsg_fds cs"
  "cmsg_fds (OtherCmsg # cs) = cmsg_fds cs"
  by (simp_all add: cmsg_fds_def)

lemma cmsg_fds_none: "filter is_rights cs = [] \<Longrightarrow> cmsg_fds cs = []"
proof (induction cs)
  case (Cons c cs)
  then show ?case by (cases c) simp_all
qed simp

lemma scan_none: "filter is_rights cs = [] \<Longrightarrow> fst (fold scan_cmsg cs s) = fst s"
proof (induction cs arbitrary: s)
  case (Cons c cs)
  then show ?case by (cases c) simp_all
qed simp

lemma scan_rights:
  "length (filter is_rights cs) \<le> 1 \<Longrightarrow>
    (case fst (fold scan_cmsg cs (None, pid)) of None \<Rightarrow> [] | Some l \<Rightarrow> l) = cmsg_fds cs"
proof (induction cs arbitrary: pid)
  case (Cons c cs)
  show ?case
  proof (cases c)
    case (ScmRights fds)
    with Cons.prems have "filter is_rights cs = []" by simp
    then show ?thesis using ScmRights by (simp add: cmsg_fds_none scan_none)
  qed (use Cons in simp_all)
qed simp

lemma RecvMsg_keeps_fds:
  assumes "length (filter is_rights (kr_control k)) \<le> 1" and "kr_ret k \<noteq> - 1"
  shows "rc_fds (RecvMsgWithFlags k) @ rc_closed (RecvMsgWithFlags k) = cmsg_fds (kr_control k)"
  using scan_rights [OF assms(1), of "- 1"] assms(2)
  by (auto simp: RecvMsgWithFlags_def Let_def split: prod.splits)

lemma RecvMsg_fds_ok: "rc_fds (RecvMsgWithFlags k) \<noteq> [] \<Longrightarrow> rc_ret (RecvMsgWithFlags k) \<noteq> - 1"
  by (auto simp: RecvMsgWithFlags_def Let_def split: prod.splits if_splits)

lemma RecvMsg_closed: "rc_ret (RecvMsgWithFlags k) \<noteq> - 1 \<Longrightarrow> rc_closed (RecvMsgWithFlags k) = []"
  by (auto simp: RecvMsgWithFlags_def Let_def split: prod.splits if_splits)

text \<open>
  C31. A request leaks no descriptor: of the descriptors that come with the reply each is either handed
  to the caller, who gets one at most and none without a place for it, or closed; on every error the
  caller gets none.
\<close>

theorem SendRecvMsg_leaks_no_fd:
  assumes "SendRecvMsgWithFlags result_fd (Some (recv_sock, send_sock)) sendmsg peer request = (len, data, fd, closed)"
    and "SendMsg sendmsg request [send_sock]"
    and "length (filter is_rights (kr_control (peer (request, [ScmRights [send_sock]])))) \<le> 1"
    and "kr_ret (peer (request, [ScmRights [send_sock]])) \<noteq> - 1"
    and "- 1 \<notin> set (cmsg_fds (kr_control (peer (request, [ScmRights [send_sock]]))))"
  shows "cmsg_fds (kr_control (peer (request, [ScmRights [send_sock]])))
      = (if fd = - 1 then closed else [fd])
    \<and> (fd \<noteq> - 1 \<longrightarrow> result_fd \<and> closed = [] \<and> len \<noteq> - 1)"
proof -
  let ?k = "peer (request, [ScmRights [send_sock]])"
  define r where "r = RecvMsgWithFlags ?k"
  have keep: "rc_fds r @ rc_closed r = cmsg_fds (kr_control ?k)"
    unfolding r_def using assms(3,4) by (rule RecvMsg_keeps_fds)
  have no: "- 1 \<notin> set (rc_fds r)" using assms(5) unfolding keep [symmetric] by simp
  have s: "(len, data, fd, closed) =
      (if rc_ret r = - 1 then (- 1, rc_data r, - 1, rc_closed r)
       else if length (rc_fds r) > (if result_fd then 1 else 0) then (- 1, rc_data r, - 1, rc_fds r)
       else (rc_ret r, rc_data r, case rc_fds r of [] \<Rightarrow> - 1 | f # _ \<Rightarrow> f, []))"
    using assms(2) unfolding assms(1) [symmetric]
    by (simp only: SendRecvMsgWithFlags_def r_def SendMsg_message_def Let_def option.case prod.case) simp
  consider (bad) "rc_ret r = - 1" | (many) "rc_ret r \<noteq> - 1" "length (rc_fds r) > (if result_fd then 1 else 0)"
    | (none) "rc_ret r \<noteq> - 1" "rc_fds r = []"
    | (one) f where "rc_ret r \<noteq> - 1" "rc_fds r = [f]" result_fd
    by (cases "rc_fds r" rule: remdups_adj.cases; cases result_fd) auto
  then show ?thesis
  proof cases
    case bad
    then have "rc_fds r = []" using RecvMsg_fds_ok [of ?k] unfolding r_def by blast
    then show ?thesis using s bad keep by simp
  next
    case many
    then show ?thesis using s keep RecvMsg_closed [of ?k] unfolding r_def by simp
  next
    case none
    then show ?thesis using s keep RecvMsg_closed [of ?k] unfolding r_def by simp
  next
    case one
    moreover have "f \<noteq> - 1" using no one(2) by auto
    ultimately show ?thesis using s keep RecvMsg_closed [of ?k] unfolding r_def by simp
  qed
qed

definition sample_reply :: kernel_recv where
  "sample_reply = \<lparr>kr_ret = 2, kr_data = [8, 8], kr_control = [ScmCredentials 9, ScmRights [7]],
     kr_trunc = False, kr_ctrunc = False\<rparr>"

lemma SendRecvMsg_leaks_no_fd_witness:
  "cmsg_fds (kr_control sample_reply) = (if (7 :: u32) = - 1 then [] else [7])"
  by (rule conjunct1,
      rule SendRecvMsg_leaks_no_fd [where result_fd = True and recv_sock = 4 and send_sock = 5 and request = "[1, 2, 3]"
        and sendmsg = "\<lambda>m. int (length (fst m))" and peer = "\<lambda>_. sample_reply" and len = 2 and data = "[8, 8]"])
    (simp_all add: SendRecvMsgWithFlags_def SendMsg_def SendMsg_message_def RecvMsgWithFlags_def sample_reply_def)

end
