(* ===== verification/Broker.thy ===== *)
theory Broker
  imports Pickle UnixSocket
begin

text \<open>
  sandbox/linux/syscall_broker: a sandboxed client asks the broker process to open or access files.
  BrokerFilePermission and BrokerPolicy decide, BrokerClient sends the request as a pickle, BrokerHost
  parses it, calls the kernel and replies.  Paths are C strings (lists of bytes without the final 0),
  ints are 32-bit words.  The kernel's answers to openat, access and unlink are arguments; the calls
  that the host makes are recorded.
\<close>

section \<open>Flags\<close>

text \<open>Values of fcntl.h and unistd.h on x86-64 Linux.\<close>

named_theorems open_flags \<open>the constants of fcntl.h\<close>

definition open_ACCMODE :: u32 where [open_flags]: "open_ACCMODE = 3"
definition open_RDONLY :: u32 where [open_flags]: "open_RDONLY = 0"
definition open_WRONLY :: u32 where [open_flags]: "open_WRONLY = 1"
definition open_RDWR :: u32 where [open_flags]: "open_RDWR = 2"
definition open_CREAT :: u32 where [open_flags]: "open_CREAT = 0x40"
definition open_EXCL :: u32 where [open_flags]: "open_EXCL = 0x80"
definition open_CLOEXEC :: u32 where [open_flags]: "open_CLOEXEC = 0x80000"
definition open_SYNC :: u32 where [open_flags]: "open_SYNC = 0x101000"
definition F_OK :: u32 where [open_flags]: "F_OK = 0"
definition W_OK :: u32 where [open_flags]: "W_OK = 2"
definition R_OK :: u32 where [open_flags]: "R_OK = 4"

definition kCurrentProcessOpenFlagsMask :: u32 where [open_flags]: "kCurrentProcessOpenFlagsMask = open_CLOEXEC"
definition kMaxMessageLength :: nat where "kMaxMessageLength = 4096"

text \<open>
  O_APPEND, O_ASYNC, O_CLOEXEC, O_CREAT, O_DIRECT, O_DIRECTORY, O_EXCL, O_LARGEFILE (0 for 64-bit
  programs), O_NOATIME, O_NOCTTY, O_NOFOLLOW, O_NONBLOCK (which is O_NDELAY), O_SYNC and O_TRUNC.
\<close>

definition known_flags :: u32 where [open_flags]:
  "known_flags = 0x400 OR 0x2000 OR open_CLOEXEC OR open_CREAT OR 0x4000 OR 0x10000 OR open_EXCL OR 0
     OR 0x40000 OR 0x100 OR 0x20000 OR 0x800 OR open_SYNC OR 0x200"

section \<open>File permissions\<close>

type_synonym path = "u8 list"

text \<open>'/' and '.'\<close>

definition slash :: u8 where "slash = 47"
definition dot :: u8 where "dot = 46"

record file_permission =
  fp_path :: path
  fp_recursive :: bool
  fp_unlink :: bool
  fp_allow_read :: bool
  fp_allow_write :: bool
  fp_allow_create :: bool

text \<open>std::string::c_str() as a C function sees it.\<close>

definition c_str :: "u8 list \<Rightarrow> path" where
  "c_str s = takeWhile (\<lambda>b. b \<noteq> 0) s"

text \<open>strncmp(a, b, n) == 0 on C strings.\<close>

definition strncmp_eq :: "path \<Rightarrow> path \<Rightarrow> nat \<Rightarrow> bool" where
  "strncmp_eq a b n \<longleftrightarrow> take n a = take n b"

definition ValidatePath :: "path option \<Rightarrow> bool" where
  "ValidatePath p =
     (case p of None \<Rightarrow> False
      | Some path \<Rightarrow>
          let len = length path in
          if len = 0 then False
          else if path ! 0 \<noteq> slash then False
          else if len > 1 \<and> path ! (len - 1) = slash then False
          else if len \<ge> 3 \<and> path ! (len - 3) = slash \<and> path ! (len - 2) = dot \<and> path ! (len - 1) = dot then False
          else \<not> list_ex (\<lambda>i. path ! i = slash \<and> len - i > 3 \<and> path ! (i + 1) = dot \<and> path ! (i + 2) = dot
                             \<and> path ! (i + 3) = slash) [0 ..< len])"

definition MatchPath :: "file_permission \<Rightarrow> path \<Rightarrow> bool" where
  "MatchPath perm requested =
     (let path = c_str (fp_path perm) in
      if fp_recursive perm \<and> strncmp_eq requested path (length path) then True
      else requested = path)"

text \<open>The file that is returned through the pointer argument; None is false.\<close>

definition CheckAccess :: "file_permission \<Rightarrow> path option \<Rightarrow> u32 \<Rightarrow> path option" where
  "CheckAccess perm requested mode =
     (if mode \<noteq> F_OK \<and> mode AND NOT (R_OK OR W_OK) \<noteq> 0 then None
      else if \<not> ValidatePath requested then None
      else if \<not> MatchPath perm (the requested) then None
      else let allowed =
             (if mode = F_OK then fp_allow_read perm \<or> fp_allow_write perm
              else if mode = R_OK then fp_allow_read perm
              else if mode = W_OK then fp_allow_write perm
              else if mode = R_OK OR W_OK then fp_allow_read perm \<and> fp_allow_write perm
              else False)
           in if \<not> allowed then None
              else Some (if \<not> fp_recursive perm then c_str (fp_path perm) else the requested))"

text \<open>The file and unlink_after_open.\<close>

definition CheckOpen :: "file_permission \<Rightarrow> path option \<Rightarrow> u32 \<Rightarrow> (path \<times> bool) option" where
  "CheckOpen perm requested flags =
     (let access_mode = flags AND open_ACCMODE;
          creat = flags AND open_CREAT \<noteq> 0
      in if \<not> ValidatePath requested then None
         else if \<not> MatchPath perm (the requested) then None
         else if access_mode \<noteq> open_RDONLY \<and> access_mode \<noteq> open_WRONLY \<and> access_mode \<noteq> open_RDWR then None
         else if \<not> fp_allow_read perm \<and> (access_mode = open_RDONLY \<or> access_mode = open_RDWR) then None
         else if \<not> fp_allow_write perm \<and> (access_mode = open_WRONLY \<or> access_mode = open_RDWR) then None
         else if \<not> fp_allow_create perm \<and> creat then None
         else if creat \<and> flags AND open_EXCL = 0 then None
         else if fp_unlink perm \<and> \<not> creat then None
         else if flags AND kCurrentProcessOpenFlagsMask \<noteq> 0 then None
         else if (flags AND NOT open_ACCMODE) AND NOT known_flags \<noteq> 0 then None
         else Some (if \<not> fp_recursive perm then c_str (fp_path perm) else the requested, fp_unlink perm))"

datatype broker_error = Fatal | CheckFailed | NotReached | PickleFailed pickle_error

text \<open>The constructor; last_char is that of the whole std::string.\<close>

definition BrokerFilePermission ::
    "path \<Rightarrow> bool \<Rightarrow> bool \<Rightarrow> bool \<Rightarrow> bool \<Rightarrow> bool \<Rightarrow> broker_error + file_permission" where
  "BrokerFilePermission path recursive unlink allow_read allow_write allow_create =
     bindE (check (length path > 0) CheckFailed) (\<lambda>_.
     bindE (check (path ! 0 = slash) CheckFailed) (\<lambda>_.
     bindE (check (\<not> unlink \<or> allow_create) CheckFailed) (\<lambda>_.
     bindE (check (if recursive then last path = slash else last path \<noteq> slash) CheckFailed) (\<lambda>_.
       Inr \<lparr>fp_path = path, fp_recursive = recursive, fp_unlink = unlink, fp_allow_read = allow_read,
            fp_allow_write = allow_write, fp_allow_create = allow_create\<rparr>))))"

definition fp_ReadOnly where
  "fp_ReadOnly path = BrokerFilePermission path False False True False False"
definition fp_ReadOnlyRecursive where
  "fp_ReadOnlyRecursive path = BrokerFilePermission path True False True False False"
definition fp_WriteOnly where
  "fp_WriteOnly path = BrokerFilePermission path False False False True False"
definition fp_ReadWrite where
  "fp_ReadWrite path = BrokerFilePermission path False False True True False"
definition fp_ReadWriteCreate where
  "fp_ReadWriteCreate path = BrokerFilePermission path False False True True True"
definition fp_ReadWriteCreateUnlink where
  "fp_ReadWriteCreateUnlink path = BrokerFilePermission path False True True True True"
definition fp_ReadWriteCreateUnlinkRecursive where
  "fp_ReadWriteCreateUnlinkRecursive path = BrokerFilePermission path True True True True True"

section \<open>Policy\<close>

record broker_policy =
  bp_denied_errno :: u32
  bp_permissions :: "file_permission list"

primrec first_some :: "('a \<Rightarrow> 'b option) \<Rightarrow> 'a list \<Rightarrow> 'b option" where
  "first_some f [] = None"
| "first_some f (x # xs) = (case f x of None \<Rightarrow> first_some f xs | Some y \<Rightarrow> Some y)"

text \<open>The pointer argument: NULL, or what it points to.\<close>

definition GetFileNameIfAllowedToAccess ::
    "broker_policy \<Rightarrow> path option \<Rightarrow> u32 \<Rightarrow> path option option \<Rightarrow> broker_error + path option" where
  "GetFileNameIfAllowedToAccess policy requested mode file_to_access =
     (case file_to_access of Some (Some _) \<Rightarrow> Inl Fatal
      | _ \<Rightarrow> Inr (first_some (\<lambda>perm. CheckAccess perm requested mode) (bp_permissions policy)))"

definition GetFileNameIfAllowedToOpen ::
    "broker_policy \<Rightarrow> path option \<Rightarrow> u32 \<Rightarrow> path option option \<Rightarrow> broker_error + (path \<times> bool) option" where
  "GetFileNameIfAllowedToOpen policy requested flags file_to_open =
     (case file_to_open of Some (Some _) \<Rightarrow> Inl Fatal
      | _ \<Rightarrow> Inr (first_some (\<lambda>perm. CheckOpen perm requested flags) (bp_permissions policy)))"

section \<open>Host\<close>

datatype file_action = OpenFile path u32 u32 | UnlinkFile path | AccessFile path u32

text \<open>What openat returns (an errno or a descriptor) and what access returns.\<close>

record kernel =
  k_open :: "path \<Rightarrow> u32 \<Rightarrow> u32 \<Rightarrow> u32 + u32"
  k_access :: "path \<Rightarrow> u32 \<Rightarrow> u32 option"

definition open_mode :: "u32 \<Rightarrow> u32" where
  "open_mode flags = (if flags AND open_CREAT \<noteq> 0 then 0x180 else 0)"

definition sys_open :: "kernel \<Rightarrow> path \<Rightarrow> u32 \<Rightarrow> u32 + u32" where
  "sys_open k pathname flags = k_open k pathname flags (open_mode flags)"

definition liftP :: "pickle_error + 'a \<Rightarrow> broker_error + 'a" where
  "liftP r = (case r of Inl e \<Rightarrow> Inl (PickleFailed e) | Inr x \<Rightarrow> Inr x)"

text \<open>The reply so far, the opened descriptors and the calls made.\<close>

type_synonym ipc_state = "pickle \<times> u32 list \<times> file_action list"

definition OpenFileForIPC ::
    "broker_policy \<Rightarrow> kernel \<Rightarrow> u8 list \<Rightarrow> u32 \<Rightarrow> ipc_state \<Rightarrow> broker_error + ipc_state" where
  "OpenFileForIPC policy k requested_filename flags s =
     (let (write_pickle, opened_files, acts) = s in
      bindE (GetFileNameIfAllowedToOpen policy (Some (c_str requested_filename)) flags (Some None)) (\<lambda>safe.
      case safe of
        None \<Rightarrow> bindE (liftP (WriteInt (- bp_denied_errno policy) write_pickle)) (\<lambda>p. Inr (p, opened_files, acts))
      | Some (file_to_open, unlink_after_open) \<Rightarrow>
          let acts1 = acts @ [OpenFile file_to_open flags (open_mode flags)] in
          (case sys_open k file_to_open flags of
             Inl errno \<Rightarrow> bindE (liftP (WriteInt (- errno) write_pickle)) (\<lambda>p. Inr (p, opened_files, acts1))
           | Inr opened_fd \<Rightarrow>
               let acts2 = (if unlink_after_open then acts1 @ [UnlinkFile file_to_open] else acts1)
               in bindE (liftP (WriteInt 0 write_pickle)) (\<lambda>p. Inr (p, opened_files @ [opened_fd], acts2)))))"

definition AccessFileForIPC ::
    "broker_policy \<Rightarrow> kernel \<Rightarrow> u8 list \<Rightarrow> u32 \<Rightarrow> ipc_state \<Rightarrow> broker_error + ipc_state" where
  "AccessFileForIPC policy k requested_filename mode s =
     (let (write_pickle, opened_files, acts) = s in
      bindE (GetFileNameIfAllowedToAccess policy (Some (c_str requested_filename)) mode (Some None)) (\<lambda>safe.
      case safe of
        None \<Rightarrow> bindE (liftP (WriteInt (- bp_denied_errno policy) write_pickle)) (\<lambda>p. Inr (p, opened_files, acts))
      | Some file_to_access \<Rightarrow>
          bindE (liftP (case k_access k file_to_access mode of
                          None \<Rightarrow> WriteInt 0 write_pickle
                        | Some access_errno \<Rightarrow> WriteInt (- access_errno) write_pickle)) (\<lambda>p.
            Inr (p, opened_files, acts @ [AccessFile file_to_access mode]))))"

datatype IPCCommand = COMMAND_INVALID | COMMAND_OPEN | COMMAND_ACCESS

fun command_code :: "IPCCommand \<Rightarrow> u32" where
  "command_code COMMAND_INVALID = 0"
| "command_code COMMAND_OPEN = 1"
| "command_code COMMAND_ACCESS = 2"

text \<open>What a request leads to: the message handed to the reply socket, with the descriptors in it, which are then closed here, and the calls made.\<close>

record host_result =
  hr_handled :: bool
  hr_reply :: "(u8 list \<times> u32 list) option"
  hr_closed :: "u32 list"
  hr_actions :: "file_action list"

definition HandleRemoteCommand ::
    "broker_policy \<Rightarrow> kernel \<Rightarrow> (u8 list \<times> cmsg list \<Rightarrow> int) \<Rightarrow> IPCCommand \<Rightarrow> pickle_iter
       \<Rightarrow> broker_error + host_result" where
  "HandleRemoteCommand policy k sendmsg command_type iter =
     (case bind_reader ReadString (\<lambda>f. map_reader (\<lambda>v. (f, v)) ReadInt) iter of
        (None, _) \<Rightarrow> Inr \<lparr>hr_handled = False, hr_reply = None, hr_closed = [], hr_actions = []\<rparr>
      | (Some (requested_filename, flags), _) \<Rightarrow>
          bindE (case command_type of
                   COMMAND_ACCESS \<Rightarrow> AccessFileForIPC policy k requested_filename flags (new_pickle, [], [])
                 | COMMAND_OPEN \<Rightarrow> OpenFileForIPC policy k requested_filename flags (new_pickle, [], [])
                 | COMMAND_INVALID \<Rightarrow> Inr (new_pickle, [], [])) (\<lambda>(write_pickle, opened_files, acts).
          bindE (liftP (pk_size write_pickle)) (\<lambda>sz.
          bindE (check (sz \<le> kMaxMessageLength) CheckFailed) (\<lambda>_.
          bindE (liftP (pk_data write_pickle)) (\<lambda>bytes.
            Inr \<lparr>hr_handled = SendMsg sendmsg bytes opened_files, hr_reply = Some (bytes, opened_files),
                 hr_closed = opened_files, hr_actions = acts\<rparr>)))))"

datatype request_status = LOST_CLIENT | SUCCESS | FAILURE

text \<open>
  RecvMsg's result and errno, here whether it is ECONNRESET.  The NOTREACHED() for an unknown command is
  DCHECK(false): it aborts a build with DCHECKs, and other builds go on.
\<close>

definition HandleRequest ::
    "bool \<Rightarrow> broker_policy \<Rightarrow> kernel \<Rightarrow> (u8 list \<times> cmsg list \<Rightarrow> int) \<Rightarrow> received \<Rightarrow> bool
       \<Rightarrow> broker_error + request_status \<times> host_result" where
  "HandleRequest dcheck_is_on policy k sendmsg r econnreset =
     (let nothing = \<lparr>hr_handled = False, hr_reply = None, hr_closed = [], hr_actions = []\<rparr> in
      if rc_ret r = 0 \<or> rc_ret r = - 1 \<and> econnreset then Inr (LOST_CLIENT, nothing)
      else if rc_ret r < 0 \<or> length (rc_fds r) \<noteq> 1 \<or> sint (rc_fds r ! 0) < 0 then Inr (FAILURE, nothing)
      else case ReadInt (new_iter (pickle_of_data (rc_data r))) of
             (None, _) \<Rightarrow> Inr (FAILURE, nothing)
           | (Some command_type, iter) \<Rightarrow>
               if command_type = command_code COMMAND_ACCESS then
                 bindE (HandleRemoteCommand policy k sendmsg COMMAND_ACCESS iter) (\<lambda>h.
                   Inr (if hr_handled h then SUCCESS else FAILURE, h))
               else if command_type = command_code COMMAND_OPEN then
                 bindE (HandleRemoteCommand policy k sendmsg COMMAND_OPEN iter) (\<lambda>h.
                   Inr (if hr_handled h then SUCCESS else FAILURE, h))
               else if dcheck_is_on then Inl NotReached
               else Inr (FAILURE, nothing))"

text \<open>
  The loop of the broker process over the requests that arrive, each with the kernel of its moment:
  all results until the client is lost or the process aborts.
\<close>

record arrival =
  ar_received :: received
  ar_econnreset :: bool
  ar_kernel :: kernel
  ar_sendmsg :: "u8 list \<times> cmsg list \<Rightarrow> int"

primrec broker_loop :: "bool \<Rightarrow> broker_policy \<Rightarrow> arrival list \<Rightarrow> host_result list" where
  "broker_loop dcheck_is_on policy [] = []"
| "broker_loop dcheck_is_on policy (a # rest) =
     (case HandleRequest dcheck_is_on policy (ar_kernel a) (ar_sendmsg a) (ar_received a) (ar_econnreset a) of
        Inl _ \<Rightarrow> []
      | Inr (LOST_CLIENT, _) \<Rightarrow> []
      | Inr (_, h) \<Rightarrow> h # broker_loop dcheck_is_on policy rest)"

section \<open>Client\<close>

record broker_client =
  bc_policy :: broker_policy
  bc_fast_check :: bool

definition EFAULT :: u32 where "EFAULT = 14"
definition ENOMEM :: u32 where "ENOMEM = 12"
definition ENOSYS :: u32 where "ENOSYS = 38"

text \<open>What happens before the request is sent: a return value, or the request and MSG_CMSG_CLOEXEC.\<close>

definition client_request ::
    "broker_client \<Rightarrow> IPCCommand \<Rightarrow> path option \<Rightarrow> u32 \<Rightarrow> broker_error + (u32 + u8 list \<times> bool)" where
  "client_request c syscall_type pathname flags0 =
     bindE (check (syscall_type = COMMAND_OPEN \<or> syscall_type = COMMAND_ACCESS) CheckFailed) (\<lambda>_.
     case pathname of None \<Rightarrow> Inr (Inl (- EFAULT))
     | Some name \<Rightarrow>
         let cloexec = (syscall_type = COMMAND_OPEN \<and> flags0 AND kCurrentProcessOpenFlagsMask \<noteq> 0);
             flags = (if cloexec then flags0 AND NOT open_CLOEXEC else flags0)
         in bindE (if bc_fast_check c \<and> syscall_type = COMMAND_OPEN
                   then bindE (GetFileNameIfAllowedToOpen (bc_policy c) pathname flags None) (\<lambda>r. Inr (r = None))
                   else if bc_fast_check c \<and> syscall_type = COMMAND_ACCESS
                   then bindE (GetFileNameIfAllowedToAccess (bc_policy c) pathname flags None) (\<lambda>r. Inr (r = None))
                   else Inr False) (\<lambda>denied.
            if denied then Inr (Inl (- bp_denied_errno (bc_policy c)))
            else bindE (liftP (WriteInt (command_code syscall_type) new_pickle)) (\<lambda>p1.
                 bindE (liftP (WriteString name p1)) (\<lambda>p2.
                 bindE (liftP (WriteInt flags p2)) (\<lambda>p3.
                 bindE (liftP (pk_size p3)) (\<lambda>sz.
                 bindE (check (sz \<le> kMaxMessageLength) CheckFailed) (\<lambda>_.
                 bindE (liftP (pk_data p3)) (\<lambda>bytes. Inr (Inr (bytes, cloexec))))))))))"

text \<open>What is made of the length, the bytes and the descriptor that come back.\<close>

definition client_reply :: "IPCCommand \<Rightarrow> int \<Rightarrow> u8 list \<Rightarrow> u32 \<Rightarrow> broker_error + u32" where
  "client_reply syscall_type msg_len reply_buf returned_fd =
     (if msg_len \<le> 0 then Inr (- ENOMEM)
      else case fst (ReadInt (new_iter (pickle_of_data (take (nat msg_len) reply_buf)))) of
             None \<Rightarrow> Inr (- ENOMEM)
           | Some return_value \<Rightarrow>
               (case syscall_type of
                  COMMAND_ACCESS \<Rightarrow>
                    bindE (check (returned_fd = - 1) CheckFailed) (\<lambda>_. Inr return_value)
                | COMMAND_OPEN \<Rightarrow>
                    if sint return_value < 0
                    then bindE (check (returned_fd = - 1) CheckFailed) (\<lambda>_. Inr return_value)
                    else bindE (check (sint returned_fd \<ge> 0) CheckFailed) (\<lambda>_. Inr returned_fd)
                | COMMAND_INVALID \<Rightarrow> Inr (- ENOSYS)))"

text \<open>The transport sends the request with MSG_CMSG_CLOEXEC or without and returns SendRecvMsgWithFlags's results.\<close>

definition PathAndFlagsSyscall ::
    "broker_client \<Rightarrow> (u8 list \<Rightarrow> bool \<Rightarrow> int \<times> u8 list \<times> u32) \<Rightarrow> IPCCommand \<Rightarrow> path option \<Rightarrow> u32
       \<Rightarrow> broker_error + u32" where
  "PathAndFlagsSyscall c transport syscall_type pathname flags =
     bindE (client_request c syscall_type pathname flags) (\<lambda>r.
     case r of Inl v \<Rightarrow> Inr v
     | Inr (bytes, cloexec) \<Rightarrow>
         (case transport bytes cloexec of (msg_len, reply_buf, returned_fd) \<Rightarrow>
            client_reply syscall_type msg_len reply_buf returned_fd))"

definition client_Access where
  "client_Access c transport pathname mode = PathAndFlagsSyscall c transport COMMAND_ACCESS pathname mode"

definition client_Open where
  "client_Open c transport pathname flags = PathAndFlagsSyscall c transport COMMAND_OPEN pathname flags"

section \<open>Process\<close>

text \<open>BrokerProcess in the parent; the client is set by Init and reset by CloseChannel.\<close>

record broker_process =
  br_initialized :: bool
  br_fast_check :: bool
  br_pid :: u32
  br_policy :: broker_policy
  br_client :: "broker_client option"

definition BrokerProcess :: "u32 \<Rightarrow> file_permission list \<Rightarrow> bool \<Rightarrow> broker_process" where
  "BrokerProcess denied_errno permissions fast_check =
     \<lparr>br_initialized = False, br_fast_check = fast_check, br_pid = - 1,
      br_policy = \<lparr>bp_denied_errno = denied_errno, bp_permissions = permissions\<rparr>, br_client = None\<rparr>"

text \<open>Init in the process that calls it, with the result of fork, which is not 0 there.\<close>

definition br_Init :: "u32 \<Rightarrow> broker_process \<Rightarrow> broker_error + bool \<times> broker_process" where
  "br_Init child_pid b =
     bindE (check (\<not> br_initialized b) CheckFailed) (\<lambda>_.
     if child_pid = - 1 then Inr (False, b)
     else Inr (True, b\<lparr>br_pid := child_pid, br_initialized := True,
                       br_client := Some \<lparr>bc_policy = br_policy b, bc_fast_check = br_fast_check b\<rparr>\<rparr>))"

definition br_CloseChannel :: "broker_process \<Rightarrow> broker_process" where
  "br_CloseChannel b = b\<lparr>br_client := None\<rparr>"

text \<open>A call through the null client is the error Fatal.\<close>

definition br_call ::
    "IPCCommand \<Rightarrow> broker_process \<Rightarrow> (u8 list \<Rightarrow> bool \<Rightarrow> int \<times> u8 list \<times> u32) \<Rightarrow> path option \<Rightarrow> u32
       \<Rightarrow> broker_error + u32" where
  "br_call cmd b transport pathname flags =
     bindE (check (br_initialized b) CheckFailed) (\<lambda>_.
     case br_client b of None \<Rightarrow> Inl Fatal
     | Some c \<Rightarrow> PathAndFlagsSyscall c transport cmd pathname flags)"

definition br_Access where "br_Access = br_call COMMAND_ACCESS"
definition br_Open where "br_Open = br_call COMMAND_OPEN"

end
