(* ===== verification/BrokerPaths.thy ===== *)
theory BrokerPaths
  imports Broker
begin

text \<open>
  Paths as the kernel walks them: components between slashes, resolved without the file system.  What
  ValidatePath and MatchPath accept is stated in these terms.
\<close>

section \<open>Components\<close>

fun components :: "path \<Rightarrow> path list" where
  "components [] = [[]]"
| "components (c # cs) =
     (if c = slash then [] # components cs
      else case components cs of [] \<Rightarrow> [[c]] | d # ds \<Rightarrow> (c # d) # ds)"

definition dotdot :: path where "dotdot = [dot, dot]"

lemma slash_dot [simp]: "slash \<noteq> dot" "dot \<noteq> slash" "slash \<noteq> 0"
  by (simp_all add: slash_def dot_def)

lemma components_nonempty [simp]: "components p \<noteq> []"
  by (cases p) (auto split: list.splits)

lemma components_append: "components (xs @ slash # ys) = components xs @ components ys"
proof (induction xs)
  case (Cons c xs)
  then show ?case using components_nonempty [of xs] by (auto split: list.splits)
qed simp

lemma components_single: "slash \<notin> set c \<Longrightarrow> components c = [c]"
  by (induction c) auto

definition component_at :: "path \<Rightarrow> path \<Rightarrow> path \<Rightarrow> path \<Rightarrow> bool" where
  "component_at c pre post p \<longleftrightarrow> p = pre @ c @ post \<and> (pre = [] \<or> last pre = slash) \<and> (post = [] \<or> hd post = slash)"

lemma components_unfold:
  "components p = takeWhile (\<lambda>b. b \<noteq> slash) p
     # (case dropWhile (\<lambda>b. b \<noteq> slash) p of [] \<Rightarrow> [] | _ # r \<Rightarrow> components r)"
  by (induction p) (auto split: list.splits)

lemma components_at: "c \<in> set (components p) \<Longrightarrow> \<exists>pre post. component_at c pre post p"
proof (induction p arbitrary: c rule: length_induct)
  case (1 p)
  let ?t = "takeWhile (\<lambda>b. b \<noteq> slash) p" and ?d = "dropWhile (\<lambda>b. b \<noteq> slash) p"
  have p: "p = ?t @ ?d" by simp
  have d: "?d = [] \<or> hd ?d = slash" using hd_dropWhile [of "\<lambda>b. b \<noteq> slash" p] by blast
  show ?case
  proof (cases "c = ?t")
    case True
    with p d have "component_at c [] ?d p" unfolding component_at_def by simp
    then show ?thesis by blast
  next
    case False
    with 1(2) have "c \<in> set (case ?d of [] \<Rightarrow> [] | _ # r \<Rightarrow> components r)"
      by (subst (asm) components_unfold) simp
    then obtain x r where r: "?d = x # r" "c \<in> set (components r)"
      by (cases ?d) auto
    with d have x: "x = slash" by simp
    have "length r < length p" using arg_cong [OF p, of length] r(1) by simp
    with 1(1) r(2) obtain pre post where "component_at c pre post r" by blast
    then have "component_at c (?t @ slash # pre) post p"
      using p r(1) x unfolding component_at_def by (metis append.assoc append_Cons last_appendR last.simps list.distinct(1))
    then show ?thesis by blast
  qed
qed

lemma at_components:
  assumes "component_at c pre post p" and "slash \<notin> set c"
  shows "c \<in> set (components p)"
proof -
  have post: "c \<in> set (components (c @ post))"
  proof (cases post)
    case (Cons x q)
    with assms have "x = slash" by (simp add: component_at_def)
    then show ?thesis using Cons assms(2) by (simp add: components_append components_single)
  qed (simp add: components_single assms(2))
  show ?thesis
  proof (cases pre rule: rev_cases)
    case (snoc q x)
    with assms have "p = q @ slash # (c @ post)" by (simp add: component_at_def)
    then show ?thesis using post by (simp add: components_append)
  qed (use assms post in \<open>simp add: component_at_def\<close>)
qed

section \<open>ValidatePath\<close>

lemma trailing_dotdot:
  "(length p \<ge> 3 \<and> p ! (length p - 3) = a \<and> p ! (length p - 2) = b \<and> p ! (length p - 1) = c)
    \<longleftrightarrow> (\<exists>pre. p = pre @ [a, b, c])"
proof
  assume a: "length p \<ge> 3 \<and> p ! (length p - 3) = a \<and> p ! (length p - 2) = b \<and> p ! (length p - 1) = c"
  obtain m where m: "length p = m + 3" using a by (metis add.commute le_Suc_ex)
  have "drop m p = [p ! m, p ! (m + 1), p ! (m + 2)]"
    using m by (simp add: Cons_nth_drop_Suc [symmetric])
  then have "p = take m p @ [a, b, c]" using a m by (metis append_take_drop_id add_diff_cancel_right' diff_add_inverse2
        numeral_3_eq_3 numeral_2_eq_2 One_nat_def add_Suc_right add_0_right diff_Suc_Suc diff_zero)
  then show "\<exists>pre. p = pre @ [a, b, c]" by blast
qed (auto simp: nth_append)

lemma middle_dotdot:
  "(\<exists>i < length p. p ! i = a \<and> length p - i > 3 \<and> p ! (i + 1) = b \<and> p ! (i + 2) = c \<and> p ! (i + 3) = d)
    \<longleftrightarrow> (\<exists>pre post. p = pre @ [a, b, c, d] @ post)"
proof
  assume "\<exists>i < length p. p ! i = a \<and> length p - i > 3 \<and> p ! (i + 1) = b \<and> p ! (i + 2) = c \<and> p ! (i + 3) = d"
  then obtain i where i: "p ! i = a" "i + 3 < length p" "p ! (i + 1) = b" "p ! (i + 2) = c" "p ! (i + 3) = d"
    by auto
  have "drop i p = [p ! i, p ! (i + 1), p ! (i + 2), p ! (i + 3)] @ drop (i + 4) p"
    using i(2) by (simp add: Cons_nth_drop_Suc [symmetric] numeral_eq_Suc)
  then have "p = take i p @ [a, b, c, d] @ drop (i + 4) p" using i by (metis append_take_drop_id)
  then show "\<exists>pre post. p = pre @ [a, b, c, d] @ post" by blast
next
  assume "\<exists>pre post. p = pre @ [a, b, c, d] @ post"
  then obtain pre post where "p = pre @ [a, b, c, d] @ post" by blast
  then show "\<exists>i < length p. p ! i = a \<and> length p - i > 3 \<and> p ! (i + 1) = b \<and> p ! (i + 2) = c \<and> p ! (i + 3) = d"
    by (intro exI [of _ "length pre"]) (simp add: nth_append)
qed

lemma dotdot_component:
  assumes "p \<noteq> []" and "hd p = slash"
  shows "dotdot \<in> set (components p) \<longleftrightarrow>
    (\<exists>pre. p = pre @ [slash, dot, dot]) \<or> (\<exists>pre post. p = pre @ [slash, dot, dot, slash] @ post)"
    (is "?l \<longleftrightarrow> ?r")
proof
  assume ?l
  then obtain pre post where "component_at dotdot pre post p" using components_at by blast
  then have at: "p = pre @ [dot, dot] @ post" "pre = [] \<or> last pre = slash" "post = [] \<or> hd post = slash"
    by (auto simp: component_at_def dotdot_def)
  have "pre \<noteq> []" using at(1) assms by auto
  then obtain q where q: "pre = q @ [slash]" using at(2) by (metis append_butlast_last_id)
  show ?r
  proof (cases post)
    case (Cons x r)
    then show ?thesis using at q by auto
  qed (use at q in auto)
next
  assume ?r
  then have "\<exists>pre post. component_at dotdot pre post p"
  proof (elim disjE exE)
    fix pre
    assume "p = pre @ [slash, dot, dot]"
    then have "component_at dotdot (pre @ [slash]) [] p" by (simp add: component_at_def dotdot_def)
    then show ?thesis by blast
  next
    fix pre post
    assume "p = pre @ [slash, dot, dot, slash] @ post"
    then have "component_at dotdot (pre @ [slash]) (slash # post) p" by (simp add: component_at_def dotdot_def)
    then show ?thesis by blast
  qed
  moreover have "slash \<notin> set dotdot" by (simp add: dotdot_def)
  ultimately show ?l using at_components by blast
qed

text \<open>What ValidatePath accepts: an absolute path, with no slash at its end but the root's, and no "..".\<close>

definition plain_path :: "path \<Rightarrow> bool" where
  "plain_path p \<longleftrightarrow> p \<noteq> [] \<and> hd p = slash \<and> (p = [slash] \<or> last p \<noteq> slash) \<and> dotdot \<notin> set (components p)"

lemma ValidatePath_plain: "ValidatePath (Some p) \<longleftrightarrow> plain_path p"
proof (cases "p \<noteq> [] \<and> hd p = slash")
  case True
  have l: "length p > 1 \<and> p ! (length p - 1) = slash \<longleftrightarrow> p \<noteq> [slash] \<and> last p = slash"
    using True by (cases p) (auto simp: last_conv_nth)
  have e: "list_ex P [0 ..< length p] \<longleftrightarrow> (\<exists>i < length p. P i)" for P
    by (auto simp: list_ex_iff)
  have "ValidatePath (Some p) \<longleftrightarrow> \<not> (p \<noteq> [slash] \<and> last p = slash)
      \<and> \<not> (length p \<ge> 3 \<and> p ! (length p - 3) = slash \<and> p ! (length p - 2) = dot \<and> p ! (length p - 1) = dot)
      \<and> \<not> (\<exists>i < length p. p ! i = slash \<and> length p - i > 3 \<and> p ! (i + 1) = dot \<and> p ! (i + 2) = dot
            \<and> p ! (i + 3) = slash)"
    unfolding ValidatePath_def option.case Let_def e l [symmetric] using True by (auto simp: hd_conv_nth)
  then show ?thesis
    unfolding trailing_dotdot middle_dotdot plain_path_def using True dotdot_component [of p] by blast
next
  case False
  then show ?thesis by (auto simp: ValidatePath_def plain_path_def hd_conv_nth Let_def)
qed

section \<open>Resolution\<close>

text \<open>The walk of a path without symbolic links: "." stays, ".." goes up.\<close>

definition walk :: "path \<Rightarrow> path list \<Rightarrow> path list" where
  "walk c st = (if c = [] \<or> c = [dot] then st else if c = dotdot then butlast st else st @ [c])"

definition resolve_path :: "path \<Rightarrow> path list" where
  "resolve_path p = fold walk (components p) []"

lemma walk_no_dotdot:
  "dotdot \<notin> set cs \<Longrightarrow> fold walk cs st = st @ filter (\<lambda>c. c \<noteq> [] \<and> c \<noteq> [dot]) cs"
  by (induction cs arbitrary: st) (auto simp: walk_def)

text \<open>A path lies below another when it leads through it.\<close>

definition below :: "path \<Rightarrow> path \<Rightarrow> bool" where
  "below p q \<longleftrightarrow> (\<exists>cs. resolve_path p = resolve_path q @ cs)"

lemma below_refl [simp]: "below p p"
  by (simp add: below_def)

lemma below_prefix:
  assumes "plain_path (d @ [slash] @ r)"
  shows "below (d @ [slash] @ r) (d @ [slash])"
proof -
  have c: "components (d @ [slash] @ r) = components d @ components r"
    "components (d @ [slash]) = components d @ [[]]"
    by (simp_all add: components_append)
  have "dotdot \<notin> set (components d @ components r)" using assms by (simp add: plain_path_def components_append)
  then show ?thesis
    unfolding below_def resolve_path_def c by (simp add: walk_no_dotdot) (simp add: walk_def)
qed

section \<open>MatchPath\<close>

text \<open>A permission as its constructor leaves it, with a path that holds no 0.\<close>

definition wf_permission :: "file_permission \<Rightarrow> bool" where
  "wf_permission perm \<longleftrightarrow> fp_path perm \<noteq> [] \<and> hd (fp_path perm) = slash \<and> 0 \<notin> set (fp_path perm)
     \<and> (fp_unlink perm \<longrightarrow> fp_allow_create perm) \<and> (fp_recursive perm \<longleftrightarrow> last (fp_path perm) = slash)"

lemma BrokerFilePermission_wf:
  "BrokerFilePermission path rcr unl rd wr cr = Inr perm \<Longrightarrow> 0 \<notin> set path \<Longrightarrow> wf_permission perm"
  by (auto simp: BrokerFilePermission_def wf_permission_def monad_simps hd_conv_nth split: if_splits)

lemma c_str_id [simp]: "0 \<notin> set p \<Longrightarrow> c_str p = p"
  unfolding c_str_def by (rule takeWhile_eq_all_conv [THEN iffD2]) auto

definition covers :: "file_permission \<Rightarrow> path \<Rightarrow> bool" where
  "covers perm f \<longleftrightarrow> plain_path f \<and> below f (fp_path perm) \<and> (\<not> fp_recursive perm \<longrightarrow> f = fp_path perm)"

lemma MatchPath_covers:
  assumes "wf_permission perm" and "ValidatePath (Some r)" and "MatchPath perm r"
  shows "covers perm r"
proof -
  have c: "c_str (fp_path perm) = fp_path perm" using assms(1) by (simp add: wf_permission_def)
  have v: "plain_path r" using assms(2) by (simp add: ValidatePath_plain)
  show ?thesis
  proof (cases "r = fp_path perm")
    case False
    with assms(3) have rc: "fp_recursive perm" "take (length (fp_path perm)) r = fp_path perm"
      by (auto simp: MatchPath_def c strncmp_eq_def Let_def split: if_splits)
    then have "fp_path perm \<noteq> [] \<and> last (fp_path perm) = slash"
      using assms(1) by (auto simp: wf_permission_def)
    then obtain d where d: "fp_path perm = d @ [slash]" by (metis append_butlast_last_id)
    obtain t where "r = d @ [slash] @ t" using rc(2) d by (metis append_take_drop_id append.assoc)
    then show ?thesis using v d rc(1) below_prefix [of d t] by (simp add: covers_def)
  qed (use v in \<open>simp add: covers_def\<close>)
qed

end
