(* ===== verification/PickleRoundtrip.thy ===== *)
theory PickleRoundtrip
  imports Pickle
begin

text \<open>
  What is written into a pickle is read back.  A locale states what a kind of field promises (its
  writer appends the encoding, its reader consumes it); every kind of base/pickle.h is an
  interpretation, and sequences of fields follow.
\<close>

section \<open>Padding\<close>

definition pad4 :: "u8 list \<Rightarrow> u8 list" where
  "pad4 bs = bs @ replicate (align_up (length bs) 4 - length bs) 0"

lemma align_up_4 [simp]: "n \<le> align_up n 4" "4 dvd align_up n 4"
  using align_up_bounds [of 4 n] by simp_all

lemma align_up_dvd: "4 dvd n \<Longrightarrow> align_up n 4 = n"
  by (auto simp: align_up_def)

lemma align_up_0 [simp]: "align_up 0 4 = 0"
  by (simp add: align_up_def)

lemma length_pad4 [simp]: "length (pad4 bs) = align_up (length bs) 4"
  using align_up_4 by (simp add: pad4_def)

lemma take_pad4 [simp]: "take (length bs) (pad4 bs) = bs"
  by (simp add: pad4_def)

section \<open>A pickle that is being written\<close>

text \<open>The fields so far are the whole payload, within the capacity.\<close>

definition writable :: "pickle \<Rightarrow> bool" where
  "writable p \<longleftrightarrow>
     (case (pk_header p, pk_capacity p) of
        (Some (n, _), Some cap) \<Rightarrow>
          unat n = pk_write_offset p \<and> length (pk_buffer p) = pk_write_offset p
            \<and> 4 dvd pk_write_offset p \<and> pk_write_offset p \<le> cap
      | _ \<Rightarrow> False)"

lemma align_unit_le: "n \<le> align_up n kPayloadUnit"
  by (rule align_up_bounds) (simp add: kPayloadUnit_def)

lemma new_pickle_writable [simp]: "writable new_pickle"
  by (simp add: writable_def new_pickle_def)

lemma new_pickle_header_writable [simp]: "writable (new_pickle_header n extra)"
  by (simp add: writable_def new_pickle_header_def)

lemma new_pickle_buffer [simp]: "pk_buffer new_pickle = []"
  by (simp add: new_pickle_def)

definition appends :: "pickle_error + pickle \<Rightarrow> pickle \<Rightarrow> u8 list \<Rightarrow> bool" where
  "appends r p bs \<longleftrightarrow>
     (\<exists>q. r = Inr q \<and> writable q \<and> pk_buffer q = pk_buffer p @ bs
        \<and> pk_header_size q = pk_header_size p
        \<and> map_option snd (pk_header q) = map_option snd (pk_header p))"

text \<open>One write appends the padded bytes, and the capacity follows the write offset.\<close>

lemma WriteBytesCommon_appends:
  assumes "writable p" and "length (pk_buffer p) + length (pad4 data) < 2 ^ 32"
  shows "appends (WriteBytesCommon data p) p (pad4 data)"
proof -
  obtain n extra cap where p: "pk_header p = Some (n, extra)" "pk_capacity p = Some cap"
      "unat n = pk_write_offset p" "length (pk_buffer p) = pk_write_offset p"
      "4 dvd pk_write_offset p" "pk_write_offset p \<le> cap"
    using assms(1) by (auto simp: writable_def split: option.splits)
  have n: "unat (of_nat (pk_write_offset p + align_up (length data) 4) :: u32)
      = pk_write_offset p + align_up (length data) 4"
    using assms(2) p(4) by (intro unat_of_nat_u32) simp
  have cap: "pk_write_offset p + align_up (length data) 4
      \<le> align_up (max m (pk_write_offset p + align_up (length data) 4)) kPayloadUnit" for m
    using align_unit_le [of "max m (pk_write_offset p + align_up (length data) 4)"] by simp
  show ?thesis
    using p n cap
    by (auto simp: appends_def WriteBytesCommon_def pk_Resize_def writable_def Let_def pad4_def)
qed

lemma appends_bind:
  assumes "appends r p bs" and "\<And>q. writable q \<Longrightarrow> length (pk_buffer q) = length (pk_buffer p) + length bs
    \<Longrightarrow> appends (f q) q cs"
  shows "appends (bindE r f) p (bs @ cs)"
proof -
  obtain q where q: "r = Inr q" "writable q" "pk_buffer q = pk_buffer p @ bs"
      "pk_header_size q = pk_header_size p" "map_option snd (pk_header q) = map_option snd (pk_header p)"
    using assms(1) by (auto simp: appends_def)
  with assms(2) [of q] show ?thesis by (auto simp: appends_def)
qed

section \<open>An iterator over encoded fields\<close>

text \<open>The bytes that are still to be read.\<close>

definition remaining :: "pickle_iter \<Rightarrow> u8 list" where
  "remaining it = take (it_end it - it_read it) (drop (it_read it) (it_payload it))"

definition it_inv :: "pickle_iter \<Rightarrow> bool" where
  "it_inv it \<longleftrightarrow> it_read it \<le> it_end it \<and> it_end it \<le> length (it_payload it)"

lemma length_remaining: "it_inv it \<Longrightarrow> length (remaining it) = it_end it - it_read it"
  by (auto simp: remaining_def it_inv_def)

definition consumes :: "'a reader \<Rightarrow> u8 list \<Rightarrow> 'a \<Rightarrow> bool" where
  "consumes r bs x \<longleftrightarrow>
     (\<forall>it rest. it_inv it \<longrightarrow> remaining it = bs @ rest \<longrightarrow>
        (\<exists>it'. r it = (Some x, it') \<and> it_inv it' \<and> remaining it' = rest))"

lemma Advance_remaining:
  assumes "it_inv it" and "remaining it = pad4 bs @ rest"
  shows "it_inv (Advance (length bs) it) \<and> remaining (Advance (length bs) it) = rest"
proof -
  have l: "it_end it - it_read it = align_up (length bs) 4 + length rest"
    using length_remaining [OF assms(1)] assms(2) by simp
  have r: "rest = drop (align_up (length bs) 4) (remaining it)" using assms(2) by simp
  show ?thesis
    using assms(1) l unfolding r
    by (auto simp: Advance_def Let_def it_inv_def remaining_def drop_take add.commute diff_diff_left)
qed

lemma ReadBytes_consumes: "consumes (ReadBytes (int (length bs))) (pad4 bs) bs"
  unfolding consumes_def
proof (intro allI impI)
  fix it rest
  assume it: "it_inv it" "remaining it = pad4 bs @ rest"
  have l: "it_end it - it_read it = align_up (length bs) 4 + length rest"
    using length_remaining [OF it(1)] it(2) by simp
  have le: "length bs \<le> it_end it - it_read it" using l align_up_4(1) [of "length bs"] by linarith
  have "bs = take (length bs) (remaining it)"
    using it(2) align_up_4(1) [of "length bs"] by simp
  also have "\<dots> = take (length bs) (drop (it_read it) (it_payload it))"
    using le by (simp add: remaining_def min_absorb1)
  finally have t: "take (length bs) (drop (it_read it) (it_payload it)) = bs" by simp
  show "\<exists>it'. ReadBytes (int (length bs)) it = (Some bs, it') \<and> it_inv it' \<and> remaining it' = rest"
    using Advance_remaining [OF it] le t by (simp add: ReadBytes_def)
qed

lemma read_type_ReadBytes: "it_inv it \<Longrightarrow> read_type n it = ReadBytes (int n) it"
  by (auto simp: read_type_def ReadBytes_def)

lemma read_type_consumes: "consumes (read_type (length bs)) (pad4 bs) bs"
  using ReadBytes_consumes [of bs] by (auto simp: consumes_def read_type_ReadBytes)

lemma map_reader_consumes: "consumes r bs x \<Longrightarrow> consumes (map_reader f r) bs (f x)"
  unfolding consumes_def map_reader_def by fastforce

lemma bind_reader_consumes:
  "consumes m bs x \<Longrightarrow> consumes (f x) cs y \<Longrightarrow> consumes (bind_reader m f) (bs @ cs) y"
  by (fastforce simp: consumes_def bind_reader_def)

section \<open>Kinds of field\<close>

locale pickle_field =
  fixes put :: "'a \<Rightarrow> pickle \<Rightarrow> pickle_error + pickle"
    and get :: "'a reader"
    and encode :: "'a \<Rightarrow> u8 list"
    and valid :: "'a \<Rightarrow> bool"
  assumes put_appends:
      "valid x \<Longrightarrow> writable p \<Longrightarrow> length (pk_buffer p) + length (encode x) < 2 ^ 32
         \<Longrightarrow> appends (put x p) p (encode x)"
    and get_consumes: "valid x \<Longrightarrow> consumes get (encode x) x"
begin

lemma get_put:
  assumes "valid x" and "writable p" and "length (pk_buffer p) + length (encode x) < 2 ^ 32"
  shows "\<exists>q. put x p = Inr q \<and> writable q \<and>
    (\<forall>it rest. it_inv it \<longrightarrow> remaining it = drop (length (pk_buffer p)) (pk_buffer q) @ rest \<longrightarrow>
      (\<exists>it'. get it = (Some x, it') \<and> it_inv it' \<and> remaining it' = rest))"
  using put_appends [OF assms] get_consumes [OF assms(1)] by (auto simp: appends_def consumes_def)

end

text \<open>Plain values of four, two and eight bytes.\<close>

lemma word_bytes_pad4: "pad4 (word_bytes 4 w) = word_bytes 4 w" "pad4 (word_bytes 8 w) = word_bytes 8 w"
  by (simp_all add: pad4_def align_up_def)

lemma plain_field:
  assumes "LENGTH('a) = 8 * k"
  shows "pickle_field (\<lambda>v :: 'a :: len word. WriteBytesCommon (word_bytes k v))
    (map_reader le_word (read_type k)) (\<lambda>v. pad4 (word_bytes k v)) (\<lambda>_. True)"
proof
  fix x :: "'a word" and p
  assume "writable p" "length (pk_buffer p) + length (pad4 (word_bytes k x)) < 2 ^ 32"
  then show "appends (WriteBytesCommon (word_bytes k x) p) p (pad4 (word_bytes k x))"
    by (rule WriteBytesCommon_appends)
next
  fix x :: "'a word"
  have "consumes (read_type k) (pad4 (word_bytes k x)) (word_bytes k x)"
    using read_type_consumes [of "word_bytes k x"] by simp
  from map_reader_consumes [OF this]
  show "consumes (map_reader le_word (read_type k)) (pad4 (word_bytes k x)) x"
    by (metis le_word_bytes [OF assms])
qed

interpretation int_field: pickle_field WriteInt ReadInt "\<lambda>v. pad4 (word_bytes 4 v)" "\<lambda>_. True"
  unfolding WriteInt_def [abs_def] ReadInt_def by (rule plain_field) simp

interpretation u16_field: pickle_field WriteUInt16 ReadUInt16 "\<lambda>v. pad4 (word_bytes 2 v)" "\<lambda>_. True"
  unfolding WriteUInt16_def [abs_def] ReadUInt16_def by (rule plain_field) simp

interpretation u64_field: pickle_field WriteUInt64 ReadUInt64 "\<lambda>v. pad4 (word_bytes 8 v)" "\<lambda>_. True"
  unfolding WriteUInt64_def [abs_def] ReadUInt64_def by (rule plain_field) simp

text \<open>A bool is written as an int and read as its first byte.\<close>

lemma pad4_single: "pad4 [b] = [b, 0, 0, 0]"
proof -
  have "align_up 1 4 - 1 = Suc (Suc (Suc 0))" by (simp add: align_up_def)
  then show ?thesis by (simp add: pad4_def)
qed

lemma bytes_of_4: "bytes_of 4 x =
    [word_of_int x, word_of_int (x div 256), word_of_int (x div 256 div 256), word_of_int (x div 256 div 256 div 256)]"
proof -
  have "(4 :: nat) = Suc (Suc (Suc (Suc 0)))" by simp
  then show ?thesis by (simp only: bytes_of.simps)
qed

lemma word_bytes_bool: "word_bytes 4 (if b then 1 else 0 :: u32) = pad4 [if b then 1 else 0]"
  by (cases b) (simp_all add: word_bytes_def bytes_of_4 pad4_single)

interpretation bool_field:
  pickle_field WriteBool ReadBool "\<lambda>b. pad4 [if b then 1 else 0]" "\<lambda>_. True"
proof
  fix b p
  assume "writable p" "length (pk_buffer p) + length (pad4 [if b then 1 else 0]) < 2 ^ 32"
  then show "appends (WriteBool b p) p (pad4 [if b then 1 else 0])"
    using int_field.put_appends [of p "if b then 1 else 0"]
    unfolding WriteBool_def word_bytes_bool [symmetric] word_bytes_pad4 by simp
next
  fix b
  show "consumes ReadBool (pad4 [if b then 1 else 0]) b"
    using map_reader_consumes [OF read_type_consumes [of "[if b then 1 else 0]"], of "\<lambda>bs. bs \<noteq> [0]"]
    unfolding ReadBool_def by (cases b) simp_all
qed

text \<open>A length, which is an int that must not be negative, and that many bytes.\<close>

definition encode_sized :: "nat \<Rightarrow> u8 list \<Rightarrow> u8 list" where
  "encode_sized n bs = pad4 (word_bytes 4 (of_nat n :: u32)) @ pad4 bs"

lemma sint_of_nat: "n < 2 ^ 31 \<Longrightarrow> sint (of_nat n :: u32) = int n"
  by (simp add: signed_of_nat signed_take_bit_int_eq_self)

lemma put_sized:
  assumes "writable p" and "length (pk_buffer p) + length (encode_sized n bs) < 2 ^ 32"
  shows "appends (bindE (WriteInt (of_nat n) p) (WriteBytesCommon bs)) p (encode_sized n bs)"
  unfolding encode_sized_def
proof (rule appends_bind)
  show "appends (WriteInt (of_nat n) p) p (pad4 (word_bytes 4 (of_nat n :: u32)))"
    using assms by (intro int_field.put_appends) (simp_all add: encode_sized_def)
qed (use assms in \<open>auto intro!: WriteBytesCommon_appends simp: encode_sized_def\<close>)

lemma get_sized:
  assumes "n < 2 ^ 31" and "consumes (f (int n)) (pad4 bs) x"
  shows "consumes (bind_reader ReadInt (\<lambda>len. f (sint len))) (encode_sized n bs) x"
  unfolding encode_sized_def using assms
  by (intro bind_reader_consumes) (auto intro: int_field.get_consumes simp: sint_of_nat)

interpretation string_field:
  pickle_field WriteString ReadString "\<lambda>s. encode_sized (length s) s" "\<lambda>s. length s < 2 ^ 31"
  by unfold_locales
    (auto simp: WriteString_def ReadString_def intro: put_sized get_sized [where f = ReadBytes] ReadBytes_consumes)

interpretation data_field:
  pickle_field WriteData ReadData "\<lambda>s. encode_sized (length s) s" "\<lambda>s. length s < 2 ^ 31"
  by unfold_locales
    (auto simp: WriteData_def ReadData_def intro: put_sized get_sized [where f = ReadBytes] ReadBytes_consumes)

text \<open>Strings of 16-bit units.\<close>

lemma units_of_bytes [simp]: "units_of (concat (map (word_bytes 2) s)) = s"
proof (induction s)
  case (Cons c s)
  have "word_bytes 2 c = [word_bytes 2 c ! 0, word_bytes 2 c ! 1]"
    by (rule nth_equalityI) (auto simp: less_2_cases_iff)
  then obtain a b where ab: "word_bytes 2 c = [a, b]" by metis
  have "le_word (word_bytes 2 c) = c" by (rule le_word_bytes) simp
  with ab Cons show ?case by simp
qed simp

lemma length_units [simp]: "length (concat (map (word_bytes 2) s)) = 2 * length s"
  by (induction s) simp_all

lemma read_elements_consumes:
  assumes "length bs = n * k" and "n * k < 2 ^ 31"
  shows "consumes (read_elements (int n) k) (pad4 bs) bs"
proof -
  have "sint (of_int (int n * int k) :: u32) = int n * int k"
    using sint_of_nat [OF assms(2)] by simp
  then have "read_elements (int n) k = ReadBytes (int (length bs))"
    by (auto simp: read_elements_def Let_def assms(1) fun_eq_iff)
  then show ?thesis using ReadBytes_consumes [of bs] by simp
qed

interpretation string16_field:
  pickle_field WriteString16 ReadString16
    "\<lambda>s. encode_sized (length s) (concat (map (word_bytes 2) s))" "\<lambda>s. length s < 2 ^ 30"
proof
  fix s :: "u16 list" and p
  assume "writable p"
    "length (pk_buffer p) + length (encode_sized (length s) (concat (map (word_bytes 2) s))) < 2 ^ 32"
  then show "appends (WriteString16 s p) p (encode_sized (length s) (concat (map (word_bytes 2) s)))"
    unfolding WriteString16_def by (rule put_sized)
next
  fix s :: "u16 list"
  assume s: "length s < 2 ^ 30"
  let ?bs = "concat (map (word_bytes 2) s)"
  have "consumes (read_elements (int (length s)) 2) (pad4 ?bs) ?bs"
    using s by (intro read_elements_consumes) simp_all
  from map_reader_consumes [OF this, of units_of]
  have "consumes (map_reader units_of (read_elements (int (length s)) 2)) (pad4 ?bs) s" by simp
  with s show "consumes ReadString16 (encode_sized (length s) ?bs) s"
    unfolding ReadString16_def
    by (intro get_sized [where f = "\<lambda>n. map_reader units_of (read_elements n 2)"]) simp_all
qed

end
