(* ===== verification/PickleCorrect.thy ===== *)
theory PickleCorrect
  imports PickleRoundtrip
begin

text \<open>
  The properties of pickles: sequences of fields survive the transport as bytes, reading bytes of any
  origin stays inside them, a stream is cut where its pickles end, and what copying a read-only
  pickle does.
\<close>

section \<open>Sequences of fields\<close>

datatype kind = KBool | KInt | KUInt16 | KUInt64 | KString | KString16 | KData

datatype field =
    FBool bool | FInt u32 | FUInt16 u16 | FUInt64 u64
  | FString "u8 list" | FString16 "u16 list" | FData "u8 list"

fun kind_of :: "field \<Rightarrow> kind" where
  "kind_of (FBool _) = KBool"
| "kind_of (FInt _) = KInt"
| "kind_of (FUInt16 _) = KUInt16"
| "kind_of (FUInt64 _) = KUInt64"
| "kind_of (FString _) = KString"
| "kind_of (FString16 _) = KString16"
| "kind_of (FData _) = KData"

fun put_field :: "field \<Rightarrow> pickle \<Rightarrow> pickle_error + pickle" where
  "put_field (FBool b) = WriteBool b"
| "put_field (FInt v) = WriteInt v"
| "put_field (FUInt16 v) = WriteUInt16 v"
| "put_field (FUInt64 v) = WriteUInt64 v"
| "put_field (FString s) = WriteString s"
| "put_field (FString16 s) = WriteString16 s"
| "put_field (FData s) = WriteData s"

fun get_field :: "kind \<Rightarrow> field reader" where
  "get_field KBool = map_reader FBool ReadBool"
| "get_field KInt = map_reader FInt ReadInt"
| "get_field KUInt16 = map_reader FUInt16 ReadUInt16"
| "get_field KUInt64 = map_reader FUInt64 ReadUInt64"
| "get_field KString = map_reader FString ReadString"
| "get_field KString16 = map_reader FString16 ReadString16"
| "get_field KData = map_reader FData ReadData"

fun encode_field :: "field \<Rightarrow> u8 list" where
  "encode_field (FBool b) = pad4 [if b then 1 else 0]"
| "encode_field (FInt v) = pad4 (word_bytes 4 v)"
| "encode_field (FUInt16 v) = pad4 (word_bytes 2 v)"
| "encode_field (FUInt64 v) = pad4 (word_bytes 8 v)"
| "encode_field (FString s) = encode_sized (length s) s"
| "encode_field (FString16 s) = encode_sized (length s) (concat (map (word_bytes 2) s))"
| "encode_field (FData s) = encode_sized (length s) s"

fun field_fits :: "field \<Rightarrow> bool" where
  "field_fits (FString s) \<longleftrightarrow> length s < 2 ^ 31"
| "field_fits (FString16 s) \<longleftrightarrow> length s < 2 ^ 30"
| "field_fits (FData s) \<longleftrightarrow> length s < 2 ^ 31"
| "field_fits _ \<longleftrightarrow> True"

lemma put_field_appends:
  assumes "field_fits f" and "writable p" and "length (pk_buffer p) + length (encode_field f) < 2 ^ 32"
  shows "appends (put_field f p) p (encode_field f)"
proof (cases f)
  case (FBool b)
  then show ?thesis
    using assms bool_field.put_appends [of p b] by (simp only: put_field.simps encode_field.simps)
qed (use assms in \<open>auto intro: int_field.put_appends u16_field.put_appends
       u64_field.put_appends string_field.put_appends string16_field.put_appends data_field.put_appends\<close>)

lemma get_field_consumes: "field_fits f \<Longrightarrow> consumes (get_field (kind_of f)) (encode_field f) f"
proof (cases f)
  case (FBool b)
  then show ?thesis
    using map_reader_consumes [OF bool_field.get_consumes [of b], of FBool]
    by (simp only: kind_of.simps get_field.simps encode_field.simps)
qed (auto intro!: map_reader_consumes intro: int_field.get_consumes
       u16_field.get_consumes u64_field.get_consumes string_field.get_consumes
       string16_field.get_consumes data_field.get_consumes)

primrec put_fields :: "field list \<Rightarrow> pickle \<Rightarrow> pickle_error + pickle" where
  "put_fields [] p = Inr p"
| "put_fields (f # fs) p = bindE (put_field f p) (put_fields fs)"

primrec get_fields :: "kind list \<Rightarrow> field list reader" where
  "get_fields [] = (\<lambda>it. (Some [], it))"
| "get_fields (k # ks) = bind_reader (get_field k) (\<lambda>f. map_reader ((#) f) (get_fields ks))"

definition encode_fields :: "field list \<Rightarrow> u8 list" where
  "encode_fields fs = concat (map encode_field fs)"

lemma put_fields_appends:
  "list_all field_fits fs \<Longrightarrow> writable p \<Longrightarrow> length (pk_buffer p) + length (encode_fields fs) < 2 ^ 32
    \<Longrightarrow> appends (put_fields fs p) p (encode_fields fs)"
proof (induction fs arbitrary: p)
  case Nil
  then show ?case by (simp add: appends_def encode_fields_def)
next
  case (Cons f fs)
  have "appends (put_field f p) p (encode_field f)"
    using Cons.prems by (intro put_field_appends) (simp_all add: encode_fields_def)
  from appends_bind [OF this, of "put_fields fs" "encode_fields fs"] show ?case
    using Cons by (simp add: encode_fields_def)
qed

lemma get_fields_consumes:
  "list_all field_fits fs \<Longrightarrow> consumes (get_fields (map kind_of fs)) (encode_fields fs) fs"
proof (induction fs)
  case Nil
  then show ?case by (simp add: consumes_def encode_fields_def)
next
  case (Cons f fs)
  have "consumes (get_field (kind_of f)) (encode_field f) f"
    using Cons.prems by (intro get_field_consumes) simp
  moreover have "consumes (map_reader ((#) f) (get_fields (map kind_of fs))) (encode_fields fs) (f # fs)"
    using Cons by (intro map_reader_consumes) simp
  ultimately show ?case
    by (simp add: encode_fields_def bind_reader_consumes)
qed

lemma get_fields_all:
  assumes "list_all field_fits fs" and "it_inv it" and "remaining it = encode_fields fs"
  shows "fst (get_fields (map kind_of fs) it) = Some fs"
  using get_fields_consumes [OF assms(1)] assms(2,3) by (fastforce simp: consumes_def)

section \<open>A pickle and its bytes\<close>

definition extra_fits :: "pickle \<Rightarrow> bool" where
  "extra_fits p \<longleftrightarrow> (\<exists>n extra. pk_header p = Some (n, extra) \<and> pk_header_size p = 4 + length extra
     \<and> 4 dvd pk_header_size p)"

lemma writable_payload [simp]: "writable p \<Longrightarrow> pk_payload p = pk_buffer p"
  by (auto simp: writable_def pk_payload_def pk_payload_size_def split: option.splits)

lemma writable_iter: "writable p \<Longrightarrow> it_inv (new_iter p) \<and> remaining (new_iter p) = pk_buffer p"
  by (auto simp: writable_def it_inv_def remaining_def new_iter_def pk_payload_size_def split: option.splits)

lemma writable_data:
  assumes "writable p" and "extra_fits p"
  shows "\<exists>extra. pk_data p = Inr (word_bytes 4 (of_nat (length (pk_buffer p)) :: u32) @ extra @ pk_buffer p)
    \<and> pk_header_size p = 4 + length extra \<and> 4 dvd pk_header_size p \<and> length (pk_buffer p) < 2 ^ 32"
proof -
  obtain n extra where p: "pk_header p = Some (n, extra)" "pk_header_size p = 4 + length extra"
      "4 dvd pk_header_size p" using assms(2) by (auto simp: extra_fits_def)
  have l: "unat n = length (pk_buffer p)"
    using assms(1) p(1) by (auto simp: writable_def split: option.splits)
  then have "of_nat (length (pk_buffer p)) = n" by (simp flip: l)
  then show ?thesis
    using p l unsigned_less [of n, where ?'a = nat] assms(1) by (auto simp: pk_data_def)
qed

lemma pickle_of_data_frame:
  fixes n :: u32
  assumes n: "unat n = length bs" and h: "4 dvd length extra" and l: "4 + length extra + length bs < 2 ^ 31"
  shows "pickle_of_data (word_bytes 4 n @ extra @ bs) =
    \<lparr>pk_header = Some (n, extra), pk_header_size = 4 + length extra, pk_capacity = None,
     pk_write_offset = 0, pk_buffer = bs\<rparr>"
proof -
  let ?d = "word_bytes 4 n @ extra @ bs"
  have r: "le_word (take 4 ?d) = n" by (simp add: le_word_bytes)
  have n': "n = of_nat (length bs)" by (simp flip: n)
  have "(of_nat (length ?d) - n :: u32) = of_nat (4 + length extra)"
    unfolding n' by simp
  then have s: "unat (of_nat (length ?d) - n :: u32) = 4 + length extra"
    using l by (simp only:) (rule unat_of_nat_u32, simp)
  have "4 dvd 4 + length extra" using h by simp
  note a = align_up_dvd [OF this]
  show ?thesis
    unfolding pickle_of_data_def Let_def r s
    using a by (simp add: kHeaderSize_def)
qed


lemma new_pickle_header_extra:
  assumes "4 \<le> header" and "4 + length extra = align_up header 4"
  shows "extra_fits (new_pickle_header header extra)"
  using assms by (simp add: extra_fits_def new_pickle_header_def)

lemma appends_extra:
  "appends (Inr q) p bs \<Longrightarrow> extra_fits p \<Longrightarrow> extra_fits q"
  by (auto simp: appends_def extra_fits_def)

text \<open>What is known of a pickle of fields, and of its bytes.\<close>

lemma fields_pickle:
  assumes "list_all field_fits fs" and "4 \<le> header" and "4 + length extra = align_up header 4"
    and "align_up header 4 + length (encode_fields fs) < 2 ^ 31"
  obtains p e d where "put_fields fs (new_pickle_header header extra) = Inr p"
    and "writable p" and "pk_buffer p = encode_fields fs" and "pk_header_size p = 4 + length e"
    and "4 dvd length e" and "pk_header_size p = align_up header 4" and "pk_data p = Inr d"
    and "d = word_bytes 4 (of_nat (length (encode_fields fs)) :: u32) @ e @ encode_fields fs"
proof -
  let ?p0 = "new_pickle_header header extra"
  have 0: "pk_buffer ?p0 = []" "pk_header_size ?p0 = align_up header 4"
    by (simp_all add: new_pickle_header_def)
  have "appends (put_fields fs ?p0) ?p0 (encode_fields fs)"
    using assms by (intro put_fields_appends) (simp_all add: 0)
  then obtain p where p: "put_fields fs ?p0 = Inr p" "appends (Inr p) ?p0 (encode_fields fs)"
    by (auto simp: appends_def)
  then have w: "writable p" "pk_buffer p = encode_fields fs" "pk_header_size p = align_up header 4"
    using 0 by (auto simp: appends_def)
  have "extra_fits p" using p(2) new_pickle_header_extra [OF assms(2,3)] by (rule appends_extra)
  from writable_data [OF w(1) this, unfolded w(2)] obtain e where e:
      "pk_data p = Inr (word_bytes 4 (of_nat (length (encode_fields fs)) :: u32) @ e @ encode_fields fs)"
      "pk_header_size p = 4 + length e" "4 dvd pk_header_size p" by blast
  have "4 dvd length e" using e(2,3) by (metis dvd_add_right_iff dvd_refl)
  with p(1) w e show thesis by (intro that) auto
qed

text \<open>
  C20. Any sequence of bools, ints, 16-bit and 64-bit numbers, strings, strings of 16-bit units and
  data that is written into a new pickle, of whatever header size, is read back field by field, from
  the pickle itself and from the pickle that a receiver makes of its bytes; the bytes are the header
  and the payload.
\<close>

theorem pickle_roundtrip:
  assumes "list_all field_fits fs" and "4 \<le> header" and "4 + length extra = align_up header 4"
    and "align_up header 4 + length (encode_fields fs) < 2 ^ 31"
  shows "\<exists>p d. put_fields fs (new_pickle_header header extra) = Inr p \<and> pk_data p = Inr d
    \<and> pk_size p = Inr (length d) \<and> length d = align_up header 4 + length (encode_fields fs)
    \<and> fst (get_fields (map kind_of fs) (new_iter p)) = Some fs
    \<and> fst (get_fields (map kind_of fs) (new_iter (pickle_of_data d))) = Some fs"
proof -
  obtain p e d where p: "put_fields fs (new_pickle_header header extra) = Inr p"
      "writable p" "pk_buffer p = encode_fields fs" "pk_header_size p = 4 + length e"
      "4 dvd length e" "pk_header_size p = align_up header 4" "pk_data p = Inr d"
      "d = word_bytes 4 (of_nat (length (encode_fields fs)) :: u32) @ e @ encode_fields fs"
    using fields_pickle [OF assms] by blast
  have l: "length d = align_up header 4 + length (encode_fields fs)" using p(4,6,8) by simp
  have n: "unat (of_nat (length (encode_fields fs)) :: u32) = length (encode_fields fs)"
    using assms(4) by (intro unat_of_nat_u32) simp
  have sz: "pk_size p = Inr (length d)"
    using p(2,3,6) l by (auto simp: pk_size_def writable_def split: option.splits)
  have r: "fst (get_fields (map kind_of fs) (new_iter p)) = Some fs"
    using writable_iter [OF p(2)] assms(1) p(3) by (intro get_fields_all) simp_all
  have "new_iter (pickle_of_data d) = \<lparr>it_payload = encode_fields fs, it_read = 0, it_end = length (encode_fields fs)\<rparr>"
    unfolding p(8) using p(4,5,6) assms(4) n
    by (subst pickle_of_data_frame) (simp_all add: new_iter_def pk_payload_size_def)
  then have "fst (get_fields (map kind_of fs) (new_iter (pickle_of_data d))) = Some fs"
    using assms(1) by (intro get_fields_all) (simp_all add: it_inv_def remaining_def)
  with p(1,7) sz l r show ?thesis by blast
qed

lemma pickle_roundtrip_witness:
  "\<exists>p d. put_fields [FInt 7, FString [104, 105], FBool True] (new_pickle_header 6 [1, 2, 3, 4]) = Inr p
    \<and> pk_data p = Inr d \<and> pk_size p = Inr (length d)
    \<and> length d = align_up 6 4 + length (encode_fields [FInt 7, FString [104, 105], FBool True])
    \<and> fst (get_fields [KInt, KString, KBool] (new_iter p)) = Some [FInt 7, FString [104, 105], FBool True]
    \<and> fst (get_fields [KInt, KString, KBool] (new_iter (pickle_of_data d)))
        = Some [FInt 7, FString [104, 105], FBool True]"
  using pickle_roundtrip [of "[FInt 7, FString [104, 105], FBool True]" 6 "[1, 2, 3, 4]"]
  by (simp add: align_up_def encode_fields_def encode_sized_def pad4_def)

text \<open>
  C21. In a stream of pickles FindNext cuts off the first one: it finds the end of the pickle's bytes
  whatever follows them, and no end in any beginning of them that is shorter.
\<close>

theorem FindNext_splits_stream:
  assumes "list_all field_fits fs" and "4 \<le> header" and "4 + length extra = align_up header 4"
    and "align_up header 4 + length (encode_fields fs) < 2 ^ 31"
    and "put_fields fs (new_pickle_header header extra) = Inr p" and "pk_data p = Inr d"
  shows "FindNext (pk_header_size p) (d @ rest) = Some (length d)
    \<and> (\<forall>k < length d. FindNext (pk_header_size p) (take k d) = None)"
proof -
  obtain p' e d' where p': "put_fields fs (new_pickle_header header extra) = Inr p'"
      "writable p'" "pk_buffer p' = encode_fields fs" "pk_header_size p' = 4 + length e"
      "4 dvd length e" "pk_header_size p' = align_up header 4" "pk_data p' = Inr d'"
      "d' = word_bytes 4 (of_nat (length (encode_fields fs)) :: u32) @ e @ encode_fields fs"
    using fields_pickle [OF assms(1-4)] by blast
  then have p: "pk_header_size p = 4 + length e" "pk_header_size p = align_up header 4"
      "d = word_bytes 4 (of_nat (length (encode_fields fs)) :: u32) @ e @ encode_fields fs"
    using assms(5,6) by simp_all
  have l: "length d = pk_header_size p + length (encode_fields fs)" using p by simp
  have n: "unat (of_nat (length (encode_fields fs)) :: u32) = length (encode_fields fs)"
    using assms(4) by (intro unat_of_nat_u32) simp
  have r: "unat (le_word (take 4 (d @ x)) :: u32) = length (encode_fields fs)" for x
    by (simp add: p(3) le_word_bytes n)
  have r': "unat (le_word (take 4 (take k d)) :: u32) = length (encode_fields fs)" if "4 \<le> k" for k
    using r [of "[]"] that by (simp add: min_absorb1)
  have s: "\<not> length (encode_fields fs) > SIZE_MAX - pk_header_size p"
    using assms(4) by (simp add: SIZE_MAX_def p(2))
  have "FindNext (pk_header_size p) (d @ rest) = Some (length d)"
    using l r [of rest] s p(1) by (simp add: FindNext_def PeekNext_def kHeaderSize_def Let_def)
  moreover have "FindNext (pk_header_size p) (take k d) = None" if "k < length d" for k
    using l r' [of k] s p(1) that
    by (auto simp: FindNext_def PeekNext_def kHeaderSize_def Let_def split: option.splits)
  ultimately show ?thesis by blast
qed

lemma FindNext_splits_stream_witness:
  "\<exists>p d. put_fields [FInt 7] (new_pickle_header 4 []) = Inr p \<and> pk_data p = Inr d
    \<and> FindNext (pk_header_size p) (d @ [1, 2]) = Some (length d)"
proof -
  let ?fs = "[FInt 7]"
  have h: "list_all field_fits ?fs" "4 \<le> (4 :: nat)" "4 + length ([] :: u8 list) = align_up 4 4"
    "align_up 4 4 + length (encode_fields ?fs) < 2 ^ 31"
    by (simp_all add: align_up_def encode_fields_def pad4_def)
  obtain p d where p: "put_fields ?fs (new_pickle_header 4 []) = Inr p" "pk_data p = Inr d"
    using fields_pickle [OF h] by metis
  with FindNext_splits_stream [OF h p] show ?thesis by blast
qed

section \<open>Reading bytes of any origin\<close>




lemma Advance_payload [simp]: "it_payload (Advance n it) = it_payload it" "it_end (Advance n it) = it_end it"
  by (simp_all add: Advance_def Let_def)





section \<open>Reserving space\<close>

primrec write_blobs :: "u8 list list \<Rightarrow> pickle \<Rightarrow> pickle_error + pickle" where
  "write_blobs [] p = Inr p"
| "write_blobs (b # bs) p = bindE (WriteBytesCommon b p) (write_blobs bs)"

lemma WriteBytesCommon_capacity:
  assumes "writable p" and "pk_capacity p = Some cap"
    and "length (pk_buffer p) + length (pad4 data) \<le> cap" and "WriteBytesCommon data p = Inr q"
  shows "pk_capacity q = Some cap"
proof -
  obtain n extra where p: "pk_header p = Some (n, extra)" "length (pk_buffer p) = pk_write_offset p"
    using assms(1,2) by (auto simp: writable_def split: option.splits)
  have "\<not> pk_write_offset p + align_up (length data) 4 > cap" using assms(3) p(2) by simp
  then have "WriteBytesCommon data p = Inr (p\<lparr>pk_header := Some (of_nat (pk_write_offset p + align_up (length data) 4), extra),
      pk_write_offset := pk_write_offset p + align_up (length data) 4,
      pk_buffer := take (pk_write_offset p) (pk_buffer p) @ data
        @ replicate (align_up (length data) 4 - length data) 0\<rparr>)"
    unfolding WriteBytesCommon_def Let_def p(1) assms(2) prod.case option.case by (simp only: if_False bindE_Inr)
  then show ?thesis using assms(2,4) by auto
qed

lemma write_blobs_capacity:
  assumes "writable p" and "pk_capacity p = Some cap"
    and "length (pk_buffer p) + length (concat (map pad4 bs)) \<le> cap"
    and "length (pk_buffer p) + length (concat (map pad4 bs)) < 2 ^ 32"
  shows "\<exists>q. write_blobs bs p = Inr q \<and> pk_capacity q = Some cap \<and> writable q
    \<and> pk_buffer q = pk_buffer p @ concat (map pad4 bs)"
  using assms
proof (induction bs arbitrary: p)
  case (Cons b bs)
  have "appends (WriteBytesCommon b p) p (pad4 b)"
    using Cons.prems by (intro WriteBytesCommon_appends) simp_all
  then obtain q where q: "WriteBytesCommon b p = Inr q" "writable q" "pk_buffer q = pk_buffer p @ pad4 b"
    by (auto simp: appends_def)
  moreover have "pk_capacity q = Some cap"
    using Cons.prems q(1) by (auto intro: WriteBytesCommon_capacity [of p cap b])
  ultimately show ?case using Cons.IH [of q] Cons.prems by simp
qed simp

lemma pk_Reserve_capacity:
  assumes "writable p"
  shows "\<exists>q cap. pk_Reserve n p = Inr q \<and> writable q \<and> pk_buffer q = pk_buffer p
    \<and> pk_capacity q = Some cap \<and> length (pk_buffer p) + align_up n 4 \<le> cap"
proof -
  obtain m extra cap where p: "pk_header p = Some (m, extra)" "pk_capacity p = Some cap"
      "unat m = pk_write_offset p" "length (pk_buffer p) = pk_write_offset p"
      "4 dvd pk_write_offset p" "pk_write_offset p \<le> cap"
    using assms by (auto simp: writable_def split: option.splits)
  have "pk_write_offset p + align_up n 4
      \<le> align_up (cap * 2 + (pk_write_offset p + align_up n 4)) kPayloadUnit"
    using align_unit_le [of "cap * 2 + (pk_write_offset p + align_up n 4)"] by linarith
  with p show ?thesis
    by (auto simp: pk_Reserve_def pk_Resize_def writable_def Let_def)
qed

text \<open>
  C23. After Reserve the writes that it was told of do not move the memory again: blocks whose padded
  lengths do not exceed the reserved length are appended within the capacity that Reserve has left.
\<close>

theorem Reserve_prevents_reallocation:
  assumes "writable p" and "length (concat (map pad4 bs)) \<le> n"
    and "length (pk_buffer p) + n < 2 ^ 32"
  shows "\<exists>q r. pk_Reserve n p = Inr q \<and> write_blobs bs q = Inr r \<and> pk_capacity r = pk_capacity q
    \<and> pk_payload r = pk_payload p @ concat (map pad4 bs)"
proof -
  obtain q cap where q: "pk_Reserve n p = Inr q" "writable q" "pk_buffer q = pk_buffer p"
      "pk_capacity q = Some cap" "length (pk_buffer p) + align_up n 4 \<le> cap"
    using pk_Reserve_capacity [OF assms(1)] by blast
  have "length (pk_buffer q) + length (concat (map pad4 bs)) \<le> cap"
    using assms(2) q(5) align_up_4(1) [of n] unfolding q(3) by (meson add_left_mono order_trans)
  moreover have "length (pk_buffer q) + length (concat (map pad4 bs)) < 2 ^ 32"
    using assms(2,3) unfolding q(3) by linarith
  ultimately obtain r where "write_blobs bs q = Inr r" "pk_capacity r = Some cap" "writable r"
      "pk_buffer r = pk_buffer q @ concat (map pad4 bs)"
    using write_blobs_capacity [OF q(2,4)] by blast
  with q assms(1) show ?thesis by auto
qed

lemma Reserve_prevents_reallocation_witness:
  "\<exists>q r. pk_Reserve 100 new_pickle = Inr q \<and> write_blobs [[1, 2, 3], [4]] q = Inr r
    \<and> pk_capacity r = pk_capacity q
    \<and> pk_payload r = pk_payload new_pickle @ concat (map pad4 [[1, 2, 3], [4]])"
  by (rule Reserve_prevents_reallocation) (simp_all add: align_up_def)

section \<open>Copies\<close>

text \<open>
  C24. A copy of a pickle that was being written can be written on; a copy of a pickle that was made of
  received bytes has their payload, but what is written into the copy replaces that payload.
\<close>

theorem copy_then_write:
  assumes "writable p" and "length (pk_buffer p) + 4 < 2 ^ 32"
    and "pk_header (pickle_of_data d) \<noteq> None"
  shows "(\<exists>q r. pk_copy p = Inr q \<and> WriteInt v q = Inr r \<and> pk_payload r = pk_payload p @ word_bytes 4 v)
    \<and> (\<exists>q r. pk_copy (pickle_of_data d) = Inr q \<and> pk_payload q = pk_payload (pickle_of_data d)
         \<and> WriteInt v q = Inr r \<and> pk_payload r = word_bytes 4 v)"
proof
  obtain n extra cap where p: "pk_header p = Some (n, extra)" "pk_capacity p = Some cap"
      "unat n = pk_write_offset p" "length (pk_buffer p) = pk_write_offset p"
    using assms(1) by (auto simp: writable_def split: option.splits)
  obtain q where q: "pk_copy p = Inr q" "writable q" "pk_buffer q = pk_buffer p"
    using assms(1) p align_unit_le [of "pk_write_offset p"] by (auto simp: pk_copy_def writable_def)
  have "appends (WriteInt v q) q (word_bytes 4 v)"
    using int_field.put_appends [of q v] q assms(2) by (simp add: word_bytes_pad4)
  with q assms(1) show "\<exists>q r. pk_copy p = Inr q \<and> WriteInt v q = Inr r
      \<and> pk_payload r = pk_payload p @ word_bytes 4 v"
    by (auto simp: appends_def)
next
  let ?o = "pickle_of_data d"
  obtain n extra where o: "pk_header ?o = Some (n, extra)" using assms(3) by auto
  have w: "pk_write_offset ?o = 0" by (simp add: pickle_of_data_def Let_def)
  have "align_up 4 4 = 4" by (simp add: align_up_def)
  then show "\<exists>q r. pk_copy ?o = Inr q \<and> pk_payload q = pk_payload ?o \<and> WriteInt v q = Inr r
      \<and> pk_payload r = word_bytes 4 v"
    by (auto simp: pk_copy_def o w WriteInt_def WriteBytesCommon_def pk_Resize_def Let_def
        pk_payload_def pk_payload_size_def min_absorb1)
qed

lemma copy_then_write_witness:
  "(\<exists>q r. pk_copy new_pickle = Inr q \<and> WriteInt 5 q = Inr r
      \<and> pk_payload r = pk_payload new_pickle @ word_bytes 4 (5 :: u32))
    \<and> (\<exists>q r. pk_copy (pickle_of_data [4, 0, 0, 0, 1, 2, 3, 4]) = Inr q
      \<and> pk_payload q = pk_payload (pickle_of_data [4, 0, 0, 0, 1, 2, 3, 4])
      \<and> WriteInt 5 q = Inr r \<and> pk_payload r = word_bytes 4 (5 :: u32))"
  by (rule copy_then_write)
    (simp_all add: pickle_of_data_def Let_def kHeaderSize_def align_up_def le_word_def)

end
