(* ===== verification/BrokerCorrect.thy ===== *)
theory BrokerCorrect
  imports BrokerPaths PickleCorrect
begin

text \<open>
  The properties of the broker: which requests are granted, that the host stays inside its policy and
  alive whatever it is sent, and that a client's call through the broker is the call the policy allows.
\<close>

section \<open>What a permission grants\<close>

definition grants :: "file_permission \<Rightarrow> u32 \<Rightarrow> bool" where
  "grants perm flags \<longleftrightarrow>
     flags AND open_ACCMODE \<in> {open_RDONLY, open_WRONLY, open_RDWR}
     \<and> (flags AND open_ACCMODE \<noteq> open_WRONLY \<longrightarrow> fp_allow_read perm)
     \<and> (flags AND open_ACCMODE \<noteq> open_RDONLY \<longrightarrow> fp_allow_write perm)
     \<and> (flags AND open_CREAT \<noteq> 0 \<longrightarrow> fp_allow_create perm \<and> flags AND open_EXCL \<noteq> 0)
     \<and> (fp_unlink perm \<longrightarrow> flags AND open_CREAT \<noteq> 0)
     \<and> flags AND open_CLOEXEC = 0 \<and> (flags AND NOT open_ACCMODE) AND NOT known_flags = 0"

definition grants_access :: "file_permission \<Rightarrow> u32 \<Rightarrow> bool" where
  "grants_access perm mode \<longleftrightarrow>
     mode \<in> {F_OK, R_OK, W_OK, R_OK OR W_OK}
     \<and> (mode = F_OK \<longrightarrow> fp_allow_read perm \<or> fp_allow_write perm)
     \<and> (mode AND R_OK \<noteq> 0 \<longrightarrow> fp_allow_read perm) \<and> (mode AND W_OK \<noteq> 0 \<longrightarrow> fp_allow_write perm)"

lemma access_modes_distinct [simp]:
  "open_RDONLY \<noteq> open_WRONLY" "open_RDONLY \<noteq> open_RDWR" "open_WRONLY \<noteq> open_RDWR"
  "open_WRONLY \<noteq> open_RDONLY" "open_RDWR \<noteq> open_RDONLY" "open_RDWR \<noteq> open_WRONLY"
  by (simp_all add: open_flags)

lemma CheckOpen_sound:
  assumes "wf_permission perm" and "CheckOpen perm (Some r) flags = Some (f, u)"
  shows "f = r \<and> covers perm f \<and> grants perm flags \<and> u = fp_unlink perm"
proof -
  have v: "ValidatePath (Some r)" "MatchPath perm r" "u = fp_unlink perm" "grants perm flags"
    and f: "f = (if \<not> fp_recursive perm then c_str (fp_path perm) else r)"
    using assms(2)
    by (auto simp: CheckOpen_def Let_def grants_def kCurrentProcessOpenFlagsMask_def split: if_splits)
  have "covers perm r" using MatchPath_covers assms(1) v(1,2) by blast
  moreover have "f = r"
    using f calculation assms(1) by (auto simp: covers_def wf_permission_def split: if_splits)
  ultimately show ?thesis using v by blast
qed

lemma access_modes_bits [simp]:
  "F_OK AND R_OK = 0" "F_OK AND W_OK = 0" "R_OK AND W_OK = 0" "W_OK AND R_OK = 0"
  "R_OK AND R_OK \<noteq> 0" "W_OK AND W_OK \<noteq> 0" "(R_OK OR W_OK) AND R_OK \<noteq> 0" "(R_OK OR W_OK) AND W_OK \<noteq> 0"
  "R_OK \<noteq> F_OK" "W_OK \<noteq> F_OK" "R_OK OR W_OK \<noteq> F_OK"
  by (simp_all add: open_flags)

lemma CheckAccess_sound:
  assumes "wf_permission perm" and "CheckAccess perm (Some r) mode = Some f"
  shows "f = r \<and> covers perm f \<and> grants_access perm mode"
proof -
  have v: "ValidatePath (Some r)" "MatchPath perm r" "grants_access perm mode"
    and f: "f = (if \<not> fp_recursive perm then c_str (fp_path perm) else r)"
    using assms(2)
    by (auto simp: CheckAccess_def Let_def grants_access_def split: if_splits)
  have "covers perm r" using MatchPath_covers assms(1) v(1,2) by blast
  moreover have "f = r"
    using f calculation assms(1) by (auto simp: covers_def wf_permission_def split: if_splits)
  ultimately show ?thesis using v by blast
qed

lemma first_some_Some: "first_some f xs = Some y \<Longrightarrow> \<exists>x \<in> set xs. f x = Some y"
  by (induction xs) (auto split: option.splits)

section \<open>Replies\<close>

definition int_message :: "u32 \<Rightarrow> u8 list" where
  "int_message v = word_bytes 4 (4 :: u32) @ word_bytes 4 v"

definition int_pickle :: "u32 \<Rightarrow> pickle" where
  "int_pickle v = \<lparr>pk_header = Some (4, []), pk_header_size = 4, pk_capacity = Some 64,
     pk_write_offset = 4, pk_buffer = word_bytes 4 v\<rparr>"

lemma WriteInt_new [simp]: "WriteInt v new_pickle = Inr (int_pickle v)"
  by (simp add: WriteInt_def WriteBytesCommon_def new_pickle_def int_pickle_def kHeaderSize_def
      kPayloadUnit_def align_up_def Let_def)

lemma int_pickle_data [simp]: "pk_size (int_pickle v) = Inr 8" "pk_data (int_pickle v) = Inr (int_message v)"
  by (simp_all add: pk_size_def pk_data_def int_pickle_def int_message_def pk_payload_def pk_payload_size_def)

lemma length_int_message [simp]: "length (int_message v) = 8"
  by (simp add: int_message_def)

lemma read_int_message [simp]: "fst (ReadInt (new_iter (pickle_of_data (int_message v)))) = Some v"
proof -
  have "pickle_of_data (word_bytes 4 (4 :: u32) @ [] @ word_bytes 4 v) =
    \<lparr>pk_header = Some (4, []), pk_header_size = 4 + length ([] :: u8 list), pk_capacity = None, pk_write_offset = 0,
     pk_buffer = word_bytes 4 v\<rparr>"
    by (rule pickle_of_data_frame) simp_all
  then have i: "new_iter (pickle_of_data (int_message v)) = \<lparr>it_payload = word_bytes 4 v, it_read = 0, it_end = 4\<rparr>"
    by (simp add: int_message_def new_iter_def pk_payload_size_def)
  have "consumes ReadInt (pad4 (word_bytes 4 v)) v" by (rule int_field.get_consumes) simp
  then show ?thesis
    unfolding i consumes_def word_bytes_pad4
    by (metis (no_types, lifting) append_Nil2 fst_conv it_inv_def remaining_def length_word_bytes order_refl
        pickle_iter.select_convs(1) pickle_iter.select_convs(2) pickle_iter.select_convs(3)
        le0 diff_zero drop0 take_all)
qed

lemma liftP_Inr [simp]: "liftP (Inr x) = Inr x"
  by (simp add: liftP_def)

section \<open>The host's commands\<close>

text \<open>What the two commands do, on a new reply.\<close>

lemma AccessFileForIPC_result:
  "AccessFileForIPC policy k name mode (new_pickle, [], []) =
     (case first_some (\<lambda>perm. CheckAccess perm (Some (c_str name)) mode) (bp_permissions policy) of
        None \<Rightarrow> Inr (int_pickle (- bp_denied_errno policy), [], [])
      | Some f \<Rightarrow> Inr (int_pickle (case k_access k f mode of None \<Rightarrow> 0 | Some e \<Rightarrow> - e), [], [AccessFile f mode]))"
  by (simp add: AccessFileForIPC_def GetFileNameIfAllowedToAccess_def split: option.split)

lemma OpenFileForIPC_result:
  "OpenFileForIPC policy k name flags (new_pickle, [], []) =
     (case first_some (\<lambda>perm. CheckOpen perm (Some (c_str name)) flags) (bp_permissions policy) of
        None \<Rightarrow> Inr (int_pickle (- bp_denied_errno policy), [], [])
      | Some (f, u) \<Rightarrow>
          (case k_open k f flags (open_mode flags) of
             Inl e \<Rightarrow> Inr (int_pickle (- e), [], [OpenFile f flags (open_mode flags)])
           | Inr fd \<Rightarrow> Inr (int_pickle 0, [fd],
               OpenFile f flags (open_mode flags) # (if u then [UnlinkFile f] else []))))"
  by (auto simp: OpenFileForIPC_def GetFileNameIfAllowedToOpen_def sys_open_def Let_def split: option.split sum.split)

definition command_result ::
    "broker_policy \<Rightarrow> kernel \<Rightarrow> IPCCommand \<Rightarrow> u8 list \<Rightarrow> u32 \<Rightarrow> u32 \<times> u32 list \<times> file_action list" where
  "command_result policy k cmd name flags =
     (case cmd of
        COMMAND_ACCESS \<Rightarrow>
          (case first_some (\<lambda>perm. CheckAccess perm (Some (c_str name)) flags) (bp_permissions policy) of
             None \<Rightarrow> (- bp_denied_errno policy, [], [])
           | Some f \<Rightarrow> (case k_access k f flags of None \<Rightarrow> 0 | Some e \<Rightarrow> - e, [], [AccessFile f flags]))
      | _ \<Rightarrow>
          (case first_some (\<lambda>perm. CheckOpen perm (Some (c_str name)) flags) (bp_permissions policy) of
             None \<Rightarrow> (- bp_denied_errno policy, [], [])
           | Some (f, u) \<Rightarrow>
               (case k_open k f flags (open_mode flags) of
                  Inl e \<Rightarrow> (- e, [], [OpenFile f flags (open_mode flags)])
                | Inr fd \<Rightarrow> (0, [fd], OpenFile f flags (open_mode flags) # (if u then [UnlinkFile f] else [])))))"

definition read_arguments :: "pickle_iter \<Rightarrow> (u8 list \<times> u32) option" where
  "read_arguments iter = fst (bind_reader ReadString (\<lambda>f. map_reader (\<lambda>v. (f, v)) ReadInt) iter)"

text \<open>A command that names a file and flags always yields a reply of eight bytes.\<close>

lemma HandleRemoteCommand_result:
  assumes "cmd \<noteq> COMMAND_INVALID"
  shows "HandleRemoteCommand policy k sendmsg cmd iter =
    (case read_arguments iter of
       None \<Rightarrow> Inr \<lparr>hr_handled = False, hr_reply = None, hr_closed = [], hr_actions = []\<rparr>
     | Some (name, flags) \<Rightarrow>
         (case command_result policy k cmd name flags of (v, fds, acts) \<Rightarrow>
            Inr \<lparr>hr_handled = SendMsg sendmsg (int_message v) fds, hr_reply = Some (int_message v, fds),
                 hr_closed = fds, hr_actions = acts\<rparr>))"
proof (cases "bind_reader ReadString (\<lambda>f. map_reader (\<lambda>v. (f, v)) ReadInt) iter")
  case (Pair a it)
  show ?thesis
  proof (cases a)
    case None
    then show ?thesis using Pair by (simp add: HandleRemoteCommand_def read_arguments_def)
  next
    case (Some nf)
    obtain name flags where nf: "nf = (name, flags)" by fastforce
    show ?thesis
    proof (cases cmd)
      case COMMAND_INVALID
      with assms show ?thesis by simp
    next
      case COMMAND_OPEN
      then show ?thesis
        unfolding HandleRemoteCommand_def read_arguments_def Pair Some nf prod.case option.case IPCCommand.case
          OpenFileForIPC_result command_result_def fst_conv
        by (auto simp: kMaxMessageLength_def split: option.split sum.split)
    next
      case COMMAND_ACCESS
      then show ?thesis
        unfolding HandleRemoteCommand_def read_arguments_def Pair Some nf prod.case option.case IPCCommand.case
          AccessFileForIPC_result command_result_def fst_conv
        by (auto simp: kMaxMessageLength_def split: option.split sum.split)
    qed
  qed
qed

definition no_result :: host_result where
  "no_result = \<lparr>hr_handled = False, hr_reply = None, hr_closed = [], hr_actions = []\<rparr>"

definition commanded :: "broker_policy \<Rightarrow> kernel \<Rightarrow> (u8 list \<times> cmsg list \<Rightarrow> int) \<Rightarrow> host_result \<Rightarrow> bool" where
  "commanded policy k sendmsg h \<longleftrightarrow>
     (\<exists>cmd name flags v fds acts. cmd \<noteq> COMMAND_INVALID \<and> command_result policy k cmd name flags = (v, fds, acts)
        \<and> h = \<lparr>hr_handled = SendMsg sendmsg (int_message v) fds, hr_reply = Some (int_message v, fds),
               hr_closed = fds, hr_actions = acts\<rparr>)"

lemma HandleRemoteCommand_cases:
  assumes "cmd \<noteq> COMMAND_INVALID"
  shows "\<exists>h. HandleRemoteCommand policy k sendmsg cmd iter = Inr h \<and> (h = no_result \<or> commanded policy k sendmsg h)"
proof (cases "read_arguments iter")
  case None
  then show ?thesis unfolding HandleRemoteCommand_result [OF assms] by (simp add: no_result_def)
next
  case (Some nf)
  obtain name flags where nf: "nf = (name, flags)" by fastforce
  obtain v fds acts where r: "command_result policy k cmd name flags = (v, fds, acts)"
    by (cases "command_result policy k cmd name flags") auto
  show ?thesis
    unfolding HandleRemoteCommand_result [OF assms] Some nf option.case prod.case r commanded_def
    using assms r by blast
qed

text \<open>A message that is well received, with one descriptor, whose command is neither open nor access.\<close>

definition unknown_command :: "received \<Rightarrow> bool" where
  "unknown_command r \<longleftrightarrow> rc_ret r > 0 \<and> (case rc_fds r of [fd] \<Rightarrow> sint fd \<ge> 0 | _ \<Rightarrow> False) \<and>
     (case fst (ReadInt (new_iter (pickle_of_data (rc_data r)))) of None \<Rightarrow> False | Some c \<Rightarrow> c \<notin> {1, 2})"

lemma HandleRequest_cases:
  "if dcheck \<and> unknown_command r then HandleRequest dcheck policy k sendmsg r econnreset = Inl NotReached
   else \<exists>st h. HandleRequest dcheck policy k sendmsg r econnreset = Inr (st, h) \<and> (h = no_result \<or> commanded policy k sendmsg h)"
proof -
  have c: "\<exists>h. HandleRemoteCommand policy k sendmsg cmd iter = Inr h \<and> (h = no_result \<or> commanded policy k sendmsg h)"
    if "cmd = COMMAND_OPEN \<or> cmd = COMMAND_ACCESS" for cmd iter
    using that by (intro HandleRemoteCommand_cases) auto
  obtain x iter where x: "ReadInt (new_iter (pickle_of_data (rc_data r))) = (x, iter)" by fastforce
  obtain ho ha where h: "HandleRemoteCommand policy k sendmsg COMMAND_OPEN iter = Inr ho"
      "ho = no_result \<or> commanded policy k sendmsg ho"
      "HandleRemoteCommand policy k sendmsg COMMAND_ACCESS iter = Inr ha"
      "ha = no_result \<or> commanded policy k sendmsg ha"
    using c by metis
  have u: "unknown_command r \<longleftrightarrow> rc_ret r > 0 \<and> \<not> (length (rc_fds r) \<noteq> 1 \<or> sint (rc_fds r ! 0) < 0)
      \<and> (\<exists>n. x = Some n \<and> n \<noteq> 1 \<and> n \<noteq> 2)"
    unfolding unknown_command_def x by (auto split: list.splits option.splits)
  show ?thesis
    unfolding HandleRequest_def Let_def x no_result_def [symmetric] u
    using h by (auto split: option.split)
qed

lemma HandleRequest_Inr:
  "HandleRequest dcheck policy k sendmsg r econnreset = Inr (st, h) \<Longrightarrow> h = no_result \<or> commanded policy k sendmsg h"
  using HandleRequest_cases [of dcheck r policy k sendmsg econnreset] by (auto split: if_splits)

section \<open>The policy's bounds\<close>

definition actions_ok :: "broker_policy \<Rightarrow> file_action list \<Rightarrow> bool" where
  "actions_ok policy acts \<longleftrightarrow>
     acts = []
     \<or> (\<exists>perm f flags. perm \<in> set (bp_permissions policy) \<and> covers perm f \<and> grants perm flags
          \<and> (acts = [OpenFile f flags (open_mode flags)]
             \<or> fp_unlink perm \<and> acts = [OpenFile f flags (open_mode flags), UnlinkFile f]))
     \<or> (\<exists>perm f mode. perm \<in> set (bp_permissions policy) \<and> covers perm f \<and> grants_access perm mode
          \<and> acts = [AccessFile f mode])"

lemma command_result_ok:
  assumes "list_all wf_permission (bp_permissions policy)" and "cmd \<noteq> COMMAND_INVALID"
    and "command_result policy k cmd name flags = (v, fds, acts)"
  shows "actions_ok policy acts"
proof (cases cmd)
  case COMMAND_INVALID
  with assms(2) show ?thesis by simp
next
  case COMMAND_ACCESS
  show ?thesis
  proof (cases "first_some (\<lambda>perm. CheckAccess perm (Some (c_str name)) flags) (bp_permissions policy)")
    case None
    then show ?thesis using assms(3) COMMAND_ACCESS by (simp add: command_result_def actions_ok_def)
  next
    case (Some f)
    then obtain perm where p: "perm \<in> set (bp_permissions policy)" "CheckAccess perm (Some (c_str name)) flags = Some f"
      by (auto dest: first_some_Some)
    moreover have "wf_permission perm" using assms(1) p(1) by (simp add: list_all_iff)
    moreover have "acts = [AccessFile f flags]" using assms(3) COMMAND_ACCESS Some by (simp add: command_result_def)
    ultimately show ?thesis using CheckAccess_sound unfolding actions_ok_def by blast
  qed
next
  case COMMAND_OPEN
  show ?thesis
  proof (cases "first_some (\<lambda>perm. CheckOpen perm (Some (c_str name)) flags) (bp_permissions policy)")
    case None
    then show ?thesis using assms(3) COMMAND_OPEN by (simp add: command_result_def actions_ok_def)
  next
    case (Some fu)
    obtain f u where fu: "fu = (f, u)" by fastforce
    with Some obtain perm where p: "perm \<in> set (bp_permissions policy)"
        "CheckOpen perm (Some (c_str name)) flags = Some (f, u)"
      by (auto dest: first_some_Some)
    moreover have "wf_permission perm" using assms(1) p(1) by (simp add: list_all_iff)
    ultimately have "covers perm f \<and> grants perm flags \<and> u = fp_unlink perm" using CheckOpen_sound by blast
    moreover have "acts = [OpenFile f flags (open_mode flags)] \<or>
        u \<and> acts = [OpenFile f flags (open_mode flags), UnlinkFile f]"
      using assms(3) COMMAND_OPEN Some fu by (auto simp: command_result_def split: sum.splits if_splits)
    ultimately show ?thesis using p(1) unfolding actions_ok_def by blast
  qed
qed

lemma broker_loop_cases:
  "h \<in> set (broker_loop dcheck policy as) \<Longrightarrow>
    \<exists>a \<in> set as. h = no_result \<or> commanded policy (ar_kernel a) (ar_sendmsg a) h"
proof (induction as)
  case (Cons a as)
  let ?r = "HandleRequest dcheck policy (ar_kernel a) (ar_sendmsg a) (ar_received a) (ar_econnreset a)"
  obtain st h' where r: "?r = Inr (st, h')" using Cons.prems by (cases ?r) auto
  then have "h = h' \<or> h \<in> set (broker_loop dcheck policy as)" using Cons.prems by (cases st) simp_all
  then show ?case using Cons.IH HandleRequest_Inr [OF r] by auto
qed simp

definition lost_client :: "arrival \<Rightarrow> bool" where
  "lost_client a \<longleftrightarrow> rc_ret (ar_received a) = 0 \<or> rc_ret (ar_received a) = - 1 \<and> ar_econnreset a"

lemma broker_loop_length:
  "list_all (\<lambda>a. \<not> lost_client a) arrivals \<Longrightarrow>
    length (broker_loop dcheck policy arrivals) =
    length (takeWhile (\<lambda>a. \<not> (dcheck \<and> unknown_command (ar_received a))) arrivals)"
proof (induction arrivals)
  case (Cons a as)
  let ?r = "HandleRequest dcheck policy (ar_kernel a) (ar_sendmsg a) (ar_received a) (ar_econnreset a)"
  note c = HandleRequest_cases [of dcheck "ar_received a" policy "ar_kernel a" "ar_sendmsg a" "ar_econnreset a"]
  show ?case
  proof (cases "dcheck \<and> unknown_command (ar_received a)")
    case True
    then show ?thesis using c by simp
  next
    case False
    then obtain st h where r: "?r = Inr (st, h)" using c by auto
    have "st \<noteq> LOST_CLIENT"
      using r Cons.prems
      by (auto simp: lost_client_def HandleRequest_def Let_def monad_simps split: if_splits option.splits prod.splits)
    then show ?thesis using False r Cons by (cases st) simp_all
  qed
qed simp

text \<open>An open of "/a" for reading as it arrives.\<close>

definition sample_arrival :: arrival where
  "sample_arrival = \<lparr>ar_received = \<lparr>rc_ret = 20,
       rc_data = [16, 0, 0, 0, 1, 0, 0, 0, 2, 0, 0, 0, 47, 97, 0, 0, 0, 0, 0, 0], rc_fds = [5], rc_pid = - 1,
       rc_closed = [], rc_emsgsize = False\<rparr>,
     ar_econnreset = False,
     ar_kernel = \<lparr>k_open = (\<lambda>_ _ _. Inr 6), k_access = (\<lambda>_ _. None)\<rparr>, ar_sendmsg = (\<lambda>_. 8)\<rparr>"

definition sample_broker_policy :: broker_policy where
  "sample_broker_policy = \<lparr>bp_denied_errno = 13, bp_permissions =
     [\<lparr>fp_path = [47, 97], fp_recursive = False, fp_unlink = False, fp_allow_read = True,
       fp_allow_write = False, fp_allow_create = False\<rparr>]\<rparr>"

lemma sample_broker_policy_wf: "list_all wf_permission (bp_permissions sample_broker_policy)"
  by (simp add: sample_broker_policy_def wf_permission_def slash_def)

lemma sample_loop: "length (broker_loop False sample_broker_policy [sample_arrival]) = 1"
  by (subst broker_loop_length) (simp_all add: sample_arrival_def lost_client_def)

definition opened_by :: "kernel \<Rightarrow> file_action list \<Rightarrow> u32 list" where
  "opened_by k acts = concat (map (\<lambda>a. case a of OpenFile f flags mode \<Rightarrow>
     (case k_open k f flags mode of Inl _ \<Rightarrow> [] | Inr fd \<Rightarrow> [fd]) | _ \<Rightarrow> []) acts)"

lemma command_result_fds:
  "command_result policy k cmd name flags = (v, fds, acts) \<Longrightarrow> fds = opened_by k acts"
  by (auto simp: command_result_def opened_by_def split: IPCCommand.splits option.splits sum.splits if_splits)

text \<open>
  C26. ValidatePath accepts exactly the absolute paths without a ".." component that do not end in a
  slash, but for the root.
\<close>

theorem ValidatePath_exact: "ValidatePath p \<longleftrightarrow> (\<exists>q. p = Some q \<and> plain_path q)"
proof (cases p)
  case None
  then show ?thesis by (simp add: ValidatePath_def)
next
  case (Some q)
  then show ?thesis by (simp add: ValidatePath_plain)
qed

text \<open>
  C27. Whatever messages arrive at the broker process, it opens, unlinks and accesses only files that a
  permission of its policy covers: the permission's path itself or, for a recursive one, a path that
  resolves to a place below it; with access modes the permission allows, creating only with O_EXCL, and
  unlinking only what the same request has just created.
\<close>

theorem broker_stays_inside_policy:
  assumes "list_all wf_permission (bp_permissions policy)" and "h \<in> set (broker_loop dcheck policy arrivals)"
  shows "actions_ok policy (hr_actions h)"
proof -
  obtain a :: arrival where "h = no_result \<or> commanded policy (ar_kernel a) (ar_sendmsg a) h"
    using broker_loop_cases [OF assms(2)] by auto
  then show ?thesis
  proof
    assume "h = no_result"
    then show ?thesis by (simp add: no_result_def actions_ok_def)
  next
    assume "commanded policy (ar_kernel a) (ar_sendmsg a) h"
    then show ?thesis using command_result_ok [OF assms(1)] by (auto simp: commanded_def)
  qed
qed

lemma broker_stays_inside_policy_witness:
  "actions_ok sample_broker_policy (hr_actions (hd (broker_loop False sample_broker_policy [sample_arrival])))"
proof (rule broker_stays_inside_policy [OF sample_broker_policy_wf])
  show "hd (broker_loop False sample_broker_policy [sample_arrival]) \<in> set (broker_loop False sample_broker_policy [sample_arrival])"
    using sample_loop by (intro hd_in_set) auto
qed

text \<open>
  C28. What can make the broker process abort: in a build with DCHECKs exactly a message whose command is
  neither open nor access, which runs into NOTREACHED(), and in other builds no message of whatever bytes
  and descriptors.  While the client is there the loop has a result for every arrival up to the first that
  aborts it.
\<close>

theorem broker_aborts_at_unknown_command:
  "(HandleRequest dcheck policy k sendmsg r econnreset = Inl e \<longleftrightarrow> dcheck \<and> unknown_command r \<and> e = NotReached)
   \<and> (list_all (\<lambda>a. \<not> lost_client a) arrivals \<longrightarrow>
        length (broker_loop dcheck policy arrivals) =
        length (takeWhile (\<lambda>a. \<not> (dcheck \<and> unknown_command (ar_received a))) arrivals))"
  using HandleRequest_cases [of dcheck r policy k sendmsg econnreset] broker_loop_length [of arrivals dcheck policy]
  by (auto split: if_splits)

text \<open>The same message with command 7.\<close>

definition unknown_arrival :: arrival where
  "unknown_arrival = sample_arrival\<lparr>ar_received := (ar_received sample_arrival)
     \<lparr>rc_data := [16, 0, 0, 0, 7, 0, 0, 0, 2, 0, 0, 0, 47, 97, 0, 0, 0, 0, 0, 0]\<rparr>\<rparr>"

lemma broker_aborts_at_unknown_command_witness:
  "length (broker_loop True sample_broker_policy [sample_arrival, unknown_arrival, sample_arrival]) = 1
   \<and> length (broker_loop False sample_broker_policy [sample_arrival, unknown_arrival, sample_arrival]) = 3
   \<and> HandleRequest True sample_broker_policy (ar_kernel sample_arrival) (ar_sendmsg sample_arrival) (ar_received unknown_arrival) False = Inl NotReached"
proof -
  have u: "unknown_command (ar_received unknown_arrival)" "\<not> unknown_command (ar_received sample_arrival)"
    by code_simp+
  have l: "list_all (\<lambda>a. \<not> lost_client a) [sample_arrival, unknown_arrival, sample_arrival]" by code_simp
  note b = broker_aborts_at_unknown_command [where policy = sample_broker_policy and
      k = "ar_kernel sample_arrival" and sendmsg = "ar_sendmsg sample_arrival" and arrivals = "[sample_arrival, unknown_arrival, sample_arrival]" and r = "ar_received unknown_arrival" and econnreset = False]
  show ?thesis using b [where dcheck = True] b [where dcheck = False] l u by simp
qed

text \<open>
  C29. The broker process keeps no descriptor: those that a request has opened are exactly the ones it
  sends with the reply and closes afterwards, and a request that is not granted or fails has none.
\<close>

theorem broker_closes_what_it_opens:
  assumes "HandleRequest dcheck policy k sendmsg r econnreset = Inr (st, h)"
  shows "hr_closed h = opened_by k (hr_actions h)
    \<and> hr_reply h \<in> insert None (range (\<lambda>v. Some (int_message v, hr_closed h)))"
proof -
  have "h = no_result \<or> commanded policy k sendmsg h" using HandleRequest_Inr [OF assms] .
  then show ?thesis
  proof
    assume "h = no_result"
    then show ?thesis by (simp add: no_result_def opened_by_def)
  next
    assume "commanded policy k sendmsg h"
    then show ?thesis using command_result_fds unfolding commanded_def by fastforce
  qed
qed

lemma broker_closes_what_it_opens_witness:
  "\<exists>st h. HandleRequest False sample_broker_policy (ar_kernel sample_arrival) (ar_sendmsg sample_arrival)
      (ar_received sample_arrival) False = Inr (st, h)
    \<and> hr_closed h = opened_by (ar_kernel sample_arrival) (hr_actions h)"
proof -
  obtain st h where "HandleRequest False sample_broker_policy (ar_kernel sample_arrival) (ar_sendmsg sample_arrival)
      (ar_received sample_arrival) False = Inr (st, h)"
    using HandleRequest_cases [of False "ar_received sample_arrival" sample_broker_policy "ar_kernel sample_arrival"
      "ar_sendmsg sample_arrival" False] by auto
  with broker_closes_what_it_opens [OF this] show ?thesis by blast
qed

section \<open>A client and its broker\<close>

text \<open>
  The kernel between them: a message arrives as it was sent, with its descriptors duplicated into the
  receiver; when the host does not answer, its end of the socket closes and the client reads nothing.
\<close>

definition deliver :: "(u32 \<Rightarrow> u32) \<Rightarrow> u8 list \<times> cmsg list \<Rightarrow> kernel_recv" where
  "deliver dup m = \<lparr>kr_ret = int (length (fst m)), kr_data = fst m,
     kr_control = map (\<lambda>c. case c of ScmRights fds \<Rightarrow> ScmRights (map dup fds) | _ \<Rightarrow> c) (snd m),
     kr_trunc = False, kr_ctrunc = False\<rparr>"

definition sent_whole :: "u8 list \<times> cmsg list \<Rightarrow> int" where
  "sent_whole m = int (length (fst m))"

definition broker_peer ::
    "bool \<Rightarrow> broker_policy \<Rightarrow> kernel \<Rightarrow> (u32 \<Rightarrow> u32) \<Rightarrow> u8 list \<times> cmsg list \<Rightarrow> kernel_recv" where
  "broker_peer dcheck policy k dup m =
     (case HandleRequest dcheck policy k sent_whole (RecvMsgWithFlags (deliver dup m)) False of
        Inr (_, h) \<Rightarrow>
          (case hr_reply h of
             Some (bytes, fds) \<Rightarrow> deliver dup (SendMsg_message bytes fds)
           | None \<Rightarrow> deliver dup ([], []))
      | Inl _ \<Rightarrow> deliver dup ([], []))"

definition broker_transport ::
    "bool \<Rightarrow> broker_policy \<Rightarrow> kernel \<Rightarrow> (u32 \<Rightarrow> u32) \<Rightarrow> u32 \<times> u32 \<Rightarrow> u8 list \<Rightarrow> bool \<Rightarrow> int \<times> u8 list \<times> u32" where
  "broker_transport dcheck policy k dup socks bytes cloexec =
     (case SendRecvMsgWithFlags True (Some socks) sent_whole (broker_peer dcheck policy k dup) bytes of
        (len, data, fd, _) \<Rightarrow> (len, data, fd))"

text \<open>The request on the wire.\<close>

definition request_fields :: "IPCCommand \<Rightarrow> path \<Rightarrow> u32 \<Rightarrow> field list" where
  "request_fields cmd name flags = [FInt (command_code cmd), FString name, FInt flags]"

lemma new_pickle_is: "new_pickle = new_pickle_header 4 []"
  by (simp add: new_pickle_def new_pickle_header_def kHeaderSize_def align_up_def)

lemma request_message:
  assumes "length name \<le> 4080"
  obtains p d where "put_fields (request_fields cmd name flags) new_pickle = Inr p" and "pk_data p = Inr d"
    and "pk_size p = Inr (length d)" and "length d \<le> kMaxMessageLength" and "0 < length d"
    and "it_inv (new_iter (pickle_of_data d))"
    and "remaining (new_iter (pickle_of_data d)) = encode_fields (request_fields cmd name flags)"
proof -
  let ?fs = "request_fields cmd name flags"
  have fits: "list_all field_fits ?fs" using assms by (simp add: request_fields_def)
  have a: "align_up (length name) 4 \<le> 4080"
  proof -
    have "(length name + 3) div 4 \<le> (4080 + 3) div 4" using assms by (intro div_le_mono) simp
    then show ?thesis by (simp add: align_up_def)
  qed
  have e: "length (encode_fields ?fs) = 12 + align_up (length name) 4"
    by (simp add: request_fields_def encode_fields_def encode_sized_def word_bytes_pad4)
  have h: "4 \<le> (4 :: nat)" "4 + length ([] :: u8 list) = align_up 4 4"
      "align_up 4 4 + length (encode_fields ?fs) < 2 ^ 31"
    using a by (simp_all add: e align_up_def)
  obtain p x d where p: "put_fields ?fs new_pickle = Inr p" "writable p" "pk_buffer p = encode_fields ?fs"
      "pk_header_size p = 4 + length x" "4 dvd length x" "pk_header_size p = align_up 4 4" "pk_data p = Inr d"
      "d = word_bytes 4 (of_nat (length (encode_fields ?fs)) :: u32) @ x @ encode_fields ?fs"
    using fields_pickle [OF fits h] unfolding new_pickle_is by blast
  have x: "x = []" using p(4,6) by (simp add: align_up_def)
  have l: "length d = 16 + align_up (length name) 4" using p(8) x e by simp
  have n: "unat (of_nat (length (encode_fields ?fs)) :: u32) = length (encode_fields ?fs)"
    using h(3) by (intro unat_of_nat_u32) simp
  have sz: "pk_size p = Inr (length d)"
    using p(2,3,4) l x e by (auto simp: pk_size_def writable_def split: option.splits)
  have it: "new_iter (pickle_of_data d) =
      \<lparr>it_payload = encode_fields ?fs, it_read = 0, it_end = length (encode_fields ?fs)\<rparr>"
    unfolding p(8) using p(5) h(3) n x
    by (subst pickle_of_data_frame) (simp_all add: new_iter_def pk_payload_size_def align_up_def)
  show thesis
    by (rule that [OF p(1,7) sz]) (use l a in \<open>simp_all add: kMaxMessageLength_def it it_inv_def remaining_def\<close>)
qed

lemma liftP_bind: "liftP (bindE m f) = bindE (liftP m) (\<lambda>x. liftP (f x))"
  by (cases m) (simp_all add: liftP_def)

text \<open>The host parses what the client has written.\<close>

lemma host_reads_request:
  assumes "length name \<le> 4080" and "it_inv iter"
    and "remaining iter = encode_fields (request_fields cmd name flags)"
  shows "\<exists>iter'. ReadInt iter = (Some (command_code cmd), iter') \<and> read_arguments iter' = Some (name, flags)"
proof -
  have "consumes ReadInt (pad4 (word_bytes 4 (command_code cmd))) (command_code cmd)"
    by (rule int_field.get_consumes) simp
  moreover have r: "remaining iter = pad4 (word_bytes 4 (command_code cmd)) @
      (encode_sized (length name) name @ pad4 (word_bytes 4 flags))"
    using assms(3) by (simp add: request_fields_def encode_fields_def)
  ultimately obtain iter' where i: "ReadInt iter = (Some (command_code cmd), iter')" "it_inv iter'"
      "remaining iter' = encode_sized (length name) name @ pad4 (word_bytes 4 flags)"
    using assms(2) unfolding consumes_def by blast
  have "consumes (bind_reader ReadString (\<lambda>f. map_reader (\<lambda>v. (f, v)) ReadInt))
      (encode_sized (length name) name @ pad4 (word_bytes 4 flags)) (name, flags)"
  proof (rule bind_reader_consumes)
    show "consumes ReadString (encode_sized (length name) name) name"
      using assms(1) by (intro string_field.get_consumes) simp
    show "consumes (map_reader (\<lambda>v. (name, v)) ReadInt) (pad4 (word_bytes 4 flags)) (name, flags)"
      by (intro map_reader_consumes int_field.get_consumes) simp
  qed
  then have "read_arguments iter' = Some (name, flags)"
    using i(2,3) unfolding consumes_def read_arguments_def by fastforce
  with i(1) show ?thesis by blast
qed

lemma SendMsg_whole [simp]: "SendMsg sent_whole bytes fds"
  by (simp add: SendMsg_def sent_whole_def SendMsg_message_def)

lemma deliver_received:
  "RecvMsgWithFlags (deliver dup (SendMsg_message bytes fds)) =
    \<lparr>rc_ret = int (length bytes), rc_data = bytes, rc_fds = map dup fds, rc_pid = - 1, rc_closed = [],
     rc_emsgsize = False\<rparr>"
  by (simp add: RecvMsgWithFlags_def deliver_def SendMsg_message_def)

text \<open>What the host does with a request of the client, and what comes back.\<close>

lemma host_answers:
  assumes "length name \<le> 4080" and "cmd \<noteq> COMMAND_INVALID" and "\<And>x. 0 \<le> sint (dup x)"
    and d: "0 < length d" "it_inv (new_iter (pickle_of_data d))"
      "remaining (new_iter (pickle_of_data d)) = encode_fields (request_fields cmd name flags)"
    and r: "command_result policy k cmd name flags = (v, fds, acts)"
  shows "broker_transport dcheck policy k dup socks d cloexec =
    (8, int_message v, case fds of [] \<Rightarrow> - 1 | fd # _ \<Rightarrow> dup fd)"
proof -
  obtain a b where socks: "socks = (a, b)" by fastforce
  obtain iter' where i: "ReadInt (new_iter (pickle_of_data d)) = (Some (command_code cmd), iter')"
      "read_arguments iter' = Some (name, flags)"
    using host_reads_request [OF assms(1) d(2,3)] by blast
  have h: "HandleRemoteCommand policy k sent_whole cmd iter' =
      Inr \<lparr>hr_handled = True, hr_reply = Some (int_message v, fds), hr_closed = fds, hr_actions = acts\<rparr>"
    unfolding HandleRemoteCommand_result [OF assms(2)] i(2) option.case prod.case r by simp
  have "HandleRequest dcheck policy k sent_whole (RecvMsgWithFlags (deliver dup (SendMsg_message d [b]))) False =
      Inr (SUCCESS, \<lparr>hr_handled = True, hr_reply = Some (int_message v, fds), hr_closed = fds, hr_actions = acts\<rparr>)"
    using assms(2,3) d(1) h i(1)
    by (cases cmd) (simp_all add: HandleRequest_def Let_def deliver_received not_less [symmetric])
  then have p: "broker_peer dcheck policy k dup (SendMsg_message d [b]) = deliver dup (SendMsg_message (int_message v) fds)"
    by (simp add: broker_peer_def)
  have "length fds \<le> 1"
    using r by (auto simp: command_result_def split: IPCCommand.splits option.splits sum.splits)
  then show ?thesis
    by (cases fds) (simp_all add: broker_transport_def SendRecvMsgWithFlags_def socks p deliver_received Let_def)
qed

text \<open>The client, with a transport that answers.\<close>

definition sent_flags :: "IPCCommand \<Rightarrow> u32 \<Rightarrow> u32" where
  "sent_flags cmd flags = (if cmd = COMMAND_OPEN then flags AND NOT open_CLOEXEC else flags)"

lemma no_cloexec: "flags AND open_CLOEXEC = 0 \<Longrightarrow> flags AND NOT open_CLOEXEC = flags"
proof -
  assume "flags AND open_CLOEXEC = 0"
  moreover have "flags = (flags AND open_CLOEXEC) OR (flags AND NOT open_CLOEXEC)"
    by (rule bit_word_eqI) (auto simp: bit_simps)
  ultimately show ?thesis by simp
qed

lemma sint_neg: "0 < sint e \<Longrightarrow> sint (- e) < 0" for e :: u32
proof -
  assume e: "0 < sint e"
  have "sint e < 2 ^ 31" using sint_lt [of e] by simp
  with e have "signed_take_bit 31 (- sint e) = - sint e" by (intro signed_take_bit_int_eq_self) simp_all
  moreover have "sint (- e) = signed_take_bit 31 (- sint e)"
    by (simp add: sint_word_ariths)
  ultimately show ?thesis using e by simp
qed

definition policy_denies :: "broker_policy \<Rightarrow> IPCCommand \<Rightarrow> path \<Rightarrow> u32 \<Rightarrow> bool" where
  "policy_denies policy cmd name flags \<longleftrightarrow>
     (case cmd of
        COMMAND_ACCESS \<Rightarrow> first_some (\<lambda>perm. CheckAccess perm (Some name) flags) (bp_permissions policy) = None
      | _ \<Rightarrow> first_some (\<lambda>perm. CheckOpen perm (Some name) flags) (bp_permissions policy) = None)"

lemma client_sends_request:
  assumes "length name \<le> 4080" and "cmd \<noteq> COMMAND_INVALID"
    and "put_fields (request_fields cmd name (sent_flags cmd flags)) new_pickle = Inr p"
    and "pk_size p = Inr (length d)" and "length d \<le> kMaxMessageLength" and "pk_data p = Inr d"
  shows "\<exists>cloexec. client_request c cmd (Some name) flags =
    (if bc_fast_check c \<and> policy_denies (bc_policy c) cmd name (sent_flags cmd flags)
     then Inr (Inl (- bp_denied_errno (bc_policy c))) else Inr (Inr (d, cloexec)))"
proof -
  let ?fl = "sent_flags cmd flags"
  let ?cl = "cmd = COMMAND_OPEN \<and> flags AND kCurrentProcessOpenFlagsMask \<noteq> 0"
  have fl: "(if ?cl then flags AND NOT open_CLOEXEC else flags) = ?fl"
    using no_cloexec by (auto simp: sent_flags_def kCurrentProcessOpenFlagsMask_def)
  obtain p1 p2 where w: "WriteInt (command_code cmd) new_pickle = Inr p1" "WriteString name p1 = Inr p2"
      "WriteInt ?fl p2 = Inr p"
    using assms(3) by (auto simp: request_fields_def monad_simps)
  have "client_request c cmd (Some name) flags =
    (if bc_fast_check c \<and> policy_denies (bc_policy c) cmd name ?fl
     then Inr (Inl (- bp_denied_errno (bc_policy c))) else Inr (Inr (d, ?cl)))"
    unfolding client_request_def Let_def fl option.case w liftP_Inr bindE_Inr assms(4,6)
    using assms(2,5)
    by (cases cmd) (simp_all add: policy_denies_def GetFileNameIfAllowedToOpen_def GetFileNameIfAllowedToAccess_def)
  then show ?thesis by blast
qed

lemma denied_command:
  "0 \<notin> set name \<Longrightarrow> policy_denies policy cmd name flags
    \<Longrightarrow> command_result policy k cmd name flags = (- bp_denied_errno policy, [], [])"
  by (auto simp: policy_denies_def command_result_def split: IPCCommand.splits)

text \<open>Through the broker a client gets what the command yields, whether it checks itself or not.\<close>

lemma remote_call:
  assumes "length name \<le> 4080" and "0 \<notin> set name" and "cmd \<noteq> COMMAND_INVALID" and "\<And>x. 0 \<le> sint (dup x)"
    and r: "command_result (bc_policy c) k cmd name (sent_flags cmd flags) = (v, fds, acts)"
    and v: "cmd = COMMAND_OPEN \<Longrightarrow> fds = [] \<Longrightarrow> sint v < 0" "cmd = COMMAND_OPEN \<Longrightarrow> fds \<noteq> [] \<Longrightarrow> v = 0"
      "cmd = COMMAND_ACCESS \<Longrightarrow> fds = []"
  shows "PathAndFlagsSyscall c (broker_transport dcheck (bc_policy c) k dup socks) cmd (Some name) flags
    = Inr (case fds of [] \<Rightarrow> v | fd # _ \<Rightarrow> dup fd)"
proof -
  obtain p d where d: "put_fields (request_fields cmd name (sent_flags cmd flags)) new_pickle = Inr p"
      "pk_data p = Inr d" "pk_size p = Inr (length d)" "length d \<le> kMaxMessageLength" "0 < length d"
      "it_inv (new_iter (pickle_of_data d))"
      "remaining (new_iter (pickle_of_data d)) = encode_fields (request_fields cmd name (sent_flags cmd flags))"
    using request_message [OF assms(1)] by blast
  obtain cloexec where q: "client_request c cmd (Some name) flags =
      (if bc_fast_check c \<and> policy_denies (bc_policy c) cmd name (sent_flags cmd flags)
       then Inr (Inl (- bp_denied_errno (bc_policy c))) else Inr (Inr (d, cloexec)))"
    using client_sends_request [OF assms(1,3) d(1,3,4,2)] by blast
  have t: "broker_transport dcheck (bc_policy c) k dup socks d cloexec = (8, int_message v, case fds of [] \<Rightarrow> - 1 | fd # _ \<Rightarrow> dup fd)"
    using host_answers [OF assms(1,3,4) d(5-7) r] .
  show ?thesis
  proof (cases "bc_fast_check c \<and> policy_denies (bc_policy c) cmd name (sent_flags cmd flags)")
    case True
    then have "command_result (bc_policy c) k cmd name (sent_flags cmd flags) = (- bp_denied_errno (bc_policy c), [], [])"
      using denied_command [OF assms(2)] by blast
    with r True q show ?thesis by (simp add: PathAndFlagsSyscall_def)
  next
    case False
    have "client_reply cmd 8 (int_message v) (case fds of [] \<Rightarrow> - 1 | fd # _ \<Rightarrow> dup fd)
        = Inr (case fds of [] \<Rightarrow> v | fd # _ \<Rightarrow> dup fd)"
      using assms(3,4) v by (cases cmd; cases fds) (simp_all add: client_reply_def)
    moreover have "client_request c cmd (Some name) flags = Inr (Inr (d, cloexec))"
      using q False by (simp only: if_False)
    ultimately show ?thesis using t by (simp add: PathAndFlagsSyscall_def)
  qed
qed

text \<open>
  C30. Open and access through the broker are what the policy makes of them: the first permission that
  grants the request decides, the kernel is called with the flags but O_CLOEXEC, and the client gets
  the duplicated descriptor, 0, the negated errno of the call or the negated errno for denied requests;
  checking in the client beforehand changes nothing.
\<close>

theorem broker_call_is_policy_call:
  assumes "length name \<le> 4080" and "0 \<notin> set name" and "0 < sint (bp_denied_errno (bc_policy c))"
    and "\<And>x. 0 \<le> sint (dup x)" and "\<And>f fl m e. k_open k f fl m = Inl e \<Longrightarrow> 0 < sint e"
  shows "client_Open c (broker_transport dcheck (bc_policy c) k dup socks) (Some name) flags =
      Inr (let fl = flags AND NOT open_CLOEXEC in
           case first_some (\<lambda>perm. CheckOpen perm (Some name) fl) (bp_permissions (bc_policy c)) of
             None \<Rightarrow> - bp_denied_errno (bc_policy c)
           | Some (f, _) \<Rightarrow> (case k_open k f fl (open_mode fl) of Inl e \<Rightarrow> - e | Inr fd \<Rightarrow> dup fd))
    \<and> client_Access c (broker_transport dcheck (bc_policy c) k dup socks) (Some name) flags =
      Inr (case first_some (\<lambda>perm. CheckAccess perm (Some name) flags) (bp_permissions (bc_policy c)) of
             None \<Rightarrow> - bp_denied_errno (bc_policy c)
           | Some f \<Rightarrow> (case k_access k f flags of None \<Rightarrow> 0 | Some e \<Rightarrow> - e))"
proof
  let ?fl = "flags AND NOT open_CLOEXEC"
  obtain v fds acts where r: "command_result (bc_policy c) k COMMAND_OPEN name (sent_flags COMMAND_OPEN flags) = (v, fds, acts)"
    by (cases "command_result (bc_policy c) k COMMAND_OPEN name (sent_flags COMMAND_OPEN flags)") auto
  have r': "(v, fds, acts) = command_result (bc_policy c) k COMMAND_OPEN name ?fl"
    using r by (simp add: sent_flags_def)
  have "fds = [] \<Longrightarrow> sint v < 0" "fds \<noteq> [] \<Longrightarrow> v = 0"
    using r' assms(2,3,5) sint_neg
    by (auto simp: command_result_def split: option.splits sum.splits)
  then have "client_Open c (broker_transport dcheck (bc_policy c) k dup socks) (Some name) flags
      = Inr (case fds of [] \<Rightarrow> v | fd # _ \<Rightarrow> dup fd)"
    unfolding client_Open_def using assms(1,2,4) r by (intro remote_call) simp_all
  then show "client_Open c (broker_transport dcheck (bc_policy c) k dup socks) (Some name) flags =
      Inr (let fl = ?fl in
           case first_some (\<lambda>perm. CheckOpen perm (Some name) fl) (bp_permissions (bc_policy c)) of
             None \<Rightarrow> - bp_denied_errno (bc_policy c)
           | Some (f, _) \<Rightarrow> (case k_open k f fl (open_mode fl) of Inl e \<Rightarrow> - e | Inr fd \<Rightarrow> dup fd))"
    using r' assms(2) by (auto simp: command_result_def split: option.splits sum.splits)
next
  obtain v fds acts where r: "command_result (bc_policy c) k COMMAND_ACCESS name (sent_flags COMMAND_ACCESS flags) = (v, fds, acts)"
    by (cases "command_result (bc_policy c) k COMMAND_ACCESS name (sent_flags COMMAND_ACCESS flags)") auto
  have r': "(v, fds, acts) = command_result (bc_policy c) k COMMAND_ACCESS name flags"
    using r by (simp add: sent_flags_def)
  then have f: "fds = []" by (auto simp: command_result_def split: option.splits)
  have "client_Access c (broker_transport dcheck (bc_policy c) k dup socks) (Some name) flags
      = Inr (case fds of [] \<Rightarrow> v | fd # _ \<Rightarrow> dup fd)"
    unfolding client_Access_def using assms(1,2,4) r f by (intro remote_call) simp_all
  then show "client_Access c (broker_transport dcheck (bc_policy c) k dup socks) (Some name) flags =
      Inr (case first_some (\<lambda>perm. CheckAccess perm (Some name) flags) (bp_permissions (bc_policy c)) of
             None \<Rightarrow> - bp_denied_errno (bc_policy c)
           | Some f \<Rightarrow> (case k_access k f flags of None \<Rightarrow> 0 | Some e \<Rightarrow> - e))"
    using r' assms(2) f by (auto simp: command_result_def split: option.splits)
qed

lemma broker_call_is_policy_call_witness:
  "client_Open \<lparr>bc_policy = sample_broker_policy, bc_fast_check = True\<rparr>
     (broker_transport True sample_broker_policy (ar_kernel sample_arrival) (\<lambda>_. 9) (4, 5)) (Some [47, 97]) open_CLOEXEC = Inr 9"
  using broker_call_is_policy_call [of "[47, 97]" "\<lparr>bc_policy = sample_broker_policy, bc_fast_check = True\<rparr>" "\<lambda>_. 9"
      "ar_kernel sample_arrival" True "(4, 5)" open_CLOEXEC]
  by (simp add: sample_broker_policy_def sample_arrival_def CheckOpen_def ValidatePath_def MatchPath_def Let_def
      slash_def dot_def c_str_def open_flags)

end
