(* ===== verification/StringNumbersCorrect.thy ===== *)
theory StringNumbersCorrect
  imports StringNumbers
begin

text \<open>
  Which texts are numbers, what happens to the others, and that writing and reading agree.
\<close>

section \<open>Digits\<close>

definition digits_value :: "nat \<Rightarrow> nat list \<Rightarrow> int" where
  "digits_value base ds = foldl (\<lambda>v d. v * int base + int d) 0 ds"

lemma digits_value_snoc [simp]: "digits_value base (ds @ [d]) = digits_value base ds * int base + int d"
  by (simp add: digits_value_def)

lemma digits_value_Nil [simp]: "digits_value base [] = 0"
  by (simp add: digits_value_def)

lemma CharToDigit_less: "CharToDigit base c = Some d \<Longrightarrow> d < base"
  by (auto simp: CharToDigit_def Let_def split: if_splits)

section \<open>The loop\<close>

text \<open>The number a sign and a magnitude denote, and the largest magnitude of the sign.\<close>

fun signed :: "number_sign \<Rightarrow> int \<Rightarrow> int" where
  "signed Positive m = m"
| "signed Negative m = - m"

fun limit :: "number_sign \<Rightarrow> int_type \<Rightarrow> int" where
  "limit Positive t = ty_max t"
| "limit Negative t = - ty_min t"

lemma bound_split:
  fixes m base d l :: int
  assumes "0 < base" and "0 \<le> d" and "d < base" and "0 \<le> l"
  shows "m * base + d \<le> l \<longleftrightarrow> m < l div base \<or> (m = l div base \<and> d \<le> l mod base)"
proof -
  have l: "l = l div base * base + l mod base" by simp
  have r: "0 \<le> l mod base" "l mod base < base" using assms by simp_all
  consider "m < l div base" | "m = l div base" | "m > l div base" by linarith
  then show ?thesis
  proof cases
    case 1
    then have "(m + 1) * base \<le> l div base * base" using assms(1) by (intro mult_right_mono) simp_all
    then have "m * base + base \<le> l div base * base" by (simp add: algebra_simps)
    with l r assms have "m * base + d \<le> l" by linarith
    with 1 show ?thesis by simp
  next
    case 2
    have "m * base + d \<le> m * base + l mod base \<longleftrightarrow> d \<le> l mod base" by simp
    then have "m * base + d \<le> l \<longleftrightarrow> d \<le> l mod base" using l unfolding 2 by simp
    with 2 show ?thesis by simp
  next
    case 3
    then have "(l div base + 1) * base \<le> m * base" using assms(1) by (intro mult_right_mono) simp_all
    then have "l div base * base + base \<le> m * base" by (simp add: algebra_simps)
    with l r assms have "\<not> m * base + d \<le> l" by linarith
    with 3 show ?thesis by simp
  qed
qed

lemma CheckBounds_exact:
  assumes "0 < base" and "d < base" and "0 \<le> limit sg t"
  shows "CheckBounds sg t base (signed sg m) d =
    (if m * int base + int d \<le> limit sg t then None else Some (signed sg (limit sg t)))"
  using bound_split [of "int base" "int d" "limit sg t" m] assms
  by (cases sg) (auto simp: Let_def)

lemma Increment_signed: "Increment sg d (signed sg m * int base) = signed sg (m * int base + int d)"
  "Increment sg d 0 = signed sg (int d)"
  by (cases sg; simp)+

text \<open>All digits: the value, or the limit of the sign.\<close>

lemma parse_digits_value:
  assumes "map (CharToDigit base) cs = map Some ds" and "0 < base" and "0 \<le> m" and "m \<le> limit sg t"
  shows "parse_digits sg t base False cs (signed sg m) =
    (let v = foldl (\<lambda>v d. v * int base + int d) m ds
     in if v \<le> limit sg t then (True, signed sg v) else (False, signed sg (limit sg t)))"
  using assms
proof (induction cs arbitrary: ds m)
  case (Cons c cs)
  then obtain d ds' where ds: "ds = d # ds'" "CharToDigit base c = Some d" "map (CharToDigit base) cs = map Some ds'"
    by (cases ds) auto
  have mono: "m' \<le> foldl (\<lambda>v d. v * int base + int d) m' ds''" if "0 \<le> m'" for m' ds''
    using that
  proof (induction ds'' arbitrary: m')
    case (Cons x xs)
    have "m' \<le> m' * int base + int x"
      using Cons.prems Cons(2) assms(2) mult_left_mono [of 1 "int base" m'] by simp
    also have "\<dots> \<le> foldl (\<lambda>v d. v * int base + int d) (m' * int base + int x) xs"
      using Cons.IH [of "m' * int base + int x"] Cons.prems by simp
    finally show ?case by simp
  qed simp
  have b: "CheckBounds sg t base (signed sg m) d =
      (if m * int base + int d \<le> limit sg t then None else Some (signed sg (limit sg t)))"
    using Cons.prems CharToDigit_less [OF ds(2)] by (intro CheckBounds_exact) simp_all
  show ?case
  proof (cases "m * int base + int d \<le> limit sg t")
    case True
    then show ?thesis
      using Cons.IH [OF ds(3), of "m * int base + int d"] Cons.prems b ds
      by (simp add: Increment_signed)
  next
    case False
    have "m * int base + int d \<le> foldl (\<lambda>v d. v * int base + int d) (m * int base + int d) ds'"
      using Cons.prems(3) by (intro mono) simp
    then have "\<not> foldl (\<lambda>v d. v * int base + int d) (m * int base + int d) ds' \<le> limit sg t"
      using False by linarith
    then show ?thesis using b ds False by (simp add: Let_def)
  qed
qed simp

text \<open>Success means digits only.\<close>

lemma parse_digits_True:
  "parse_digits sg t base b cs out = (True, v) \<Longrightarrow> \<exists>ds. map (CharToDigit base) cs = map Some ds"
proof (induction sg t base b cs out rule: parse_digits.induct)
  case (2 sg t base b c cs out)
  then obtain d where d: "CharToDigit base c = Some d" by (auto split: option.splits)
  then have "\<exists>ds. map (CharToDigit base) cs = map Some ds"
    using 2 by (auto split: if_splits option.splits)
  then obtain ds where "map (CharToDigit base) cs = map Some ds" ..
  with d have "map (CharToDigit base) (c # cs) = map Some (d # ds)" by simp
  then show ?case by blast
qed simp

text \<open>Whatever the text, the value stays within the limits.\<close>

lemma number_stays_in_range:
  assumes "0 < base" and "0 \<le> m" and "m \<le> limit sg t" and "0 \<le> limit sg t"
    and "b \<Longrightarrow> m = 0 \<and> int base - 1 \<le> limit sg t"
  shows "\<exists>m'. snd (parse_digits sg t base b cs (signed sg m)) = signed sg m' \<and> 0 \<le> m' \<and> m' \<le> limit sg t"
  using assms
proof (induction cs arbitrary: m b)
  case Nil
  then show ?case by auto
next
  case (Cons c cs)
  show ?case
  proof (cases "CharToDigit base c")
    case None
    then show ?thesis using Cons.prems by auto
  next
    case (Some d)
    then have d: "d < base" by (rule CharToDigit_less)
    show ?thesis
    proof (cases b)
      case True
      then have s: "Increment sg d (signed sg m) = signed sg (int d)" "int d \<le> limit sg t"
        using Cons.prems(5) d Increment_signed(2) [of sg d] by (cases sg; simp)+
      then show ?thesis using True Some Cons.IH [of "int d" False] Cons.prems by simp
    next
      case False
      have bd: "CheckBounds sg t base (signed sg m) d =
          (if m * int base + int d \<le> limit sg t then None else Some (signed sg (limit sg t)))"
        using Cons.prems d by (intro CheckBounds_exact) simp_all
      show ?thesis
      proof (cases "m * int base + int d \<le> limit sg t")
        case True
        then show ?thesis using bd Some False Cons.IH [of "m * int base + int d" False] Cons.prems
          by (simp add: Increment_signed)
      next
        case nofit: False
        then show ?thesis using bd Some False Cons.prems by (auto intro: exI [of _ "limit sg t"])
      qed
    qed
  qed
qed

lemma parse_unsigned_value:
  assumes "map (CharToDigit base) cs = map Some ds" and "ds \<noteq> []" and "0 < base"
    and "int base - 1 \<le> limit sg t"
    and "\<not> (base = 16 \<and> length cs > 2 \<and> cs ! 0 = 48 \<and> (cs ! 1 = 120 \<or> cs ! 1 = 88))"
  shows "parse_unsigned sg t base cs =
    (if digits_value base ds \<le> limit sg t then (True, signed sg (digits_value base ds))
     else (False, signed sg (limit sg t)))"
proof -
  obtain c cs' d ds' where cs: "cs = c # cs'" "ds = d # ds'" "CharToDigit base c = Some d"
      "map (CharToDigit base) cs' = map Some ds'"
    using assms(1,2) by (cases cs; cases ds) auto
  have "int d \<le> limit sg t" using CharToDigit_less [OF cs(3)] assms(4) by simp
  then have "parse_digits sg t base True cs 0 =
      (if digits_value base ds \<le> limit sg t then (True, signed sg (digits_value base ds))
       else (False, signed sg (limit sg t)))"
    using parse_digits_value [OF cs(4) assms(3), of "int d" sg t] cs
    by (simp add: Increment_signed digits_value_def Let_def)
  moreover have "parse_unsigned sg t base cs = parse_digits sg t base True cs 0"
    unfolding parse_unsigned_def if_not_P [OF assms(5)] using cs(1) by simp
  ultimately show ?thesis by simp
qed

section \<open>Decimal texts\<close>

definition digit_text :: "nat list \<Rightarrow> u8 list" where
  "digit_text ds = map (\<lambda>d. of_nat (d + 48)) ds"

fun decimal :: "number_sign \<Rightarrow> int_type \<Rightarrow> u8 list \<Rightarrow> nat list \<Rightarrow> bool" where
  "decimal Positive t s ds \<longleftrightarrow> ds \<noteq> [] \<and> list_all (\<lambda>d. d < 10) ds \<and> (s = digit_text ds \<or> s = 43 # digit_text ds)"
| "decimal Negative t s ds \<longleftrightarrow> ds \<noteq> [] \<and> list_all (\<lambda>d. d < 10) ds \<and> ty_signed t \<and> s = 45 # digit_text ds"

lemma unat_digit: "d < 10 \<Longrightarrow> unat (of_nat (d + 48) :: u8) = d + 48"
  by (rule unat_of_nat_u8) simp

lemma CharToDigit_10: "CharToDigit 10 (c :: u8) = Some d \<longleftrightarrow> d < 10 \<and> c = of_nat (d + 48)"
proof
  assume "CharToDigit 10 c = Some d"
  then have d: "48 \<le> unat c" "unat c < 58" "d = unat c - 48"
    by (auto simp: CharToDigit_def Let_def split: if_splits)
  then have "d + 48 = unat c" by simp
  then have "of_nat (d + 48) = c" by simp
  with d show "d < 10 \<and> c = of_nat (d + 48)" by auto
next
  assume "d < 10 \<and> c = of_nat (d + 48)"
  then show "CharToDigit 10 c = Some d" using unat_digit [of d] by (simp add: CharToDigit_def Let_def)
qed

lemma digits_10: "map (CharToDigit 10) (cs :: u8 list) = map Some ds \<longleftrightarrow> list_all (\<lambda>d. d < 10) ds \<and> cs = digit_text ds"
proof (induction cs arbitrary: ds)
  case Nil
  then show ?case by (cases ds) (auto simp: digit_text_def)
next
  case (Cons c cs)
  then show ?case by (cases ds) (auto simp: digit_text_def CharToDigit_10)
qed

lemma digit_text_char: "c \<in> set (digit_text ds) \<Longrightarrow> list_all (\<lambda>d. d < 10) ds \<Longrightarrow> 48 \<le> unat c \<and> unat c < 58"
  using unat_digit by (auto simp: digit_text_def list_all_iff)

lemma digit_text_hd:
  assumes "ds \<noteq> []" and "list_all (\<lambda>d. d < 10) ds"
  shows "digit_text ds \<noteq> []" "hd (digit_text ds) \<noteq> 45" "hd (digit_text ds) \<noteq> 43"
    "\<not> LocalIsWhitespace (hd (digit_text ds))"
proof -
  have "hd (digit_text ds) \<in> set (digit_text ds)" using assms(1) by (intro hd_in_set) (simp add: digit_text_def)
  then have "48 \<le> unat (hd (digit_text ds))" using digit_text_char assms(2) by blast
  then show "digit_text ds \<noteq> []" "hd (digit_text ds) \<noteq> 45" "hd (digit_text ds) \<noteq> 43"
    "\<not> LocalIsWhitespace (hd (digit_text ds))"
    using assms(1) by (auto simp: digit_text_def LocalIsWhitespace_def)
qed

definition is_int_type :: "int_type \<Rightarrow> bool" where
  "is_int_type t \<longleftrightarrow> t \<in> {type_int, type_uint, type_int64, type_uint64}"

lemma int_type_limits:
  "is_int_type t \<Longrightarrow> 15 \<le> limit Positive t"
  "is_int_type t \<Longrightarrow> ty_signed t \<Longrightarrow> 15 \<le> limit Negative t"
  "is_int_type t \<Longrightarrow> ty_min t \<le> 0"
  by (auto simp: is_int_type_def type_int_def type_uint_def type_int64_def type_uint64_def ty_signed_def)

text \<open>A decimal text is read as its value, or as the limit.\<close>

lemma decimal_read:
  assumes "is_int_type t" and "decimal sg t s ds"
  shows "range_to_number t 10 s out0 =
    (if digits_value 10 ds \<le> limit sg t then (True, signed sg (digits_value 10 ds))
     else (False, signed sg (limit sg t)))"
proof -
  have ds: "ds \<noteq> []" "list_all (\<lambda>d. d < 10) ds" using assms(2) by (cases sg; simp)+
  have l: "int 10 - 1 \<le> limit sg t"
    using int_type_limits [OF assms(1)] assms(2) by (cases sg) auto
  have p: "parse_unsigned sg t 10 (digit_text ds) =
      (if digits_value 10 ds \<le> limit sg t then (True, signed sg (digits_value 10 ds))
       else (False, signed sg (limit sg t)))"
    using ds l by (intro parse_unsigned_value) (simp_all add: digits_10)
  note h = digit_text_hd [OF ds]
  show ?thesis
  proof (cases sg)
    case Positive
    with assms(2) consider "s = digit_text ds" | "s = 43 # digit_text ds" by auto
    then show ?thesis
    proof cases
      case 1
      then have "dropWhile LocalIsWhitespace s = s" using h by (cases "digit_text ds") auto
      then show ?thesis using 1 p h Positive by (simp add: range_to_number_def Let_def)
    next
      case 2
      have "\<not> LocalIsWhitespace (43 :: u8)" by (simp add: LocalIsWhitespace_def)
      then show ?thesis using 2 p Positive by (simp add: range_to_number_def Let_def)
    qed
  next
    case Negative
    with assms(2) have s: "s = 45 # digit_text ds" "ty_signed t" by auto
    have "\<not> LocalIsWhitespace (45 :: u8)" by (simp add: LocalIsWhitespace_def)
    then show ?thesis using s p Negative by (simp add: range_to_number_def Let_def)
  qed
qed

text \<open>The outcome without the let.\<close>

lemma range_to_number_cases:
  "range_to_number t base s out0 =
    (if dropWhile LocalIsWhitespace s \<noteq> [] \<and> hd (dropWhile LocalIsWhitespace s) = 45 then
       (if \<not> ty_signed t then (False, out0)
        else apfst ((\<and>) (dropWhile LocalIsWhitespace s = s)) (parse_unsigned Negative t base (tl (dropWhile LocalIsWhitespace s))))
     else apfst ((\<and>) (dropWhile LocalIsWhitespace s = s)) (parse_unsigned Positive t base
       (if dropWhile LocalIsWhitespace s \<noteq> [] \<and> hd (dropWhile LocalIsWhitespace s) = 43
        then tl (dropWhile LocalIsWhitespace s) else dropWhile LocalIsWhitespace s)))"
  unfolding range_to_number_def Let_def by (simp only: case_prod_unfold apfst_def map_prod_def id_apply)

text \<open>And nothing else is read successfully.\<close>

lemma accepted_decimal:
  assumes "is_int_type t" and "range_to_number t 10 s out0 = (True, v)"
  shows "\<exists>sg ds. decimal sg t s ds"
proof -
  let ?rest = "dropWhile LocalIsWhitespace s"
  have u: "\<exists>ds. ds \<noteq> [] \<and> list_all (\<lambda>d. d < 10) ds \<and> cs = digit_text ds"
    if "parse_unsigned sg t 10 cs = (True, w)" for sg cs w
  proof -
    have "cs \<noteq> []" "parse_digits sg t 10 True cs 0 = (True, w)"
      using that by (auto simp: parse_unsigned_def split: if_splits)
    with parse_digits_True obtain ds where "map (CharToDigit 10) cs = map Some ds" by blast
    with \<open>cs \<noteq> []\<close> have "ds \<noteq> [] \<and> list_all (\<lambda>d. d < 10) ds \<and> cs = digit_text ds" using digits_10 [of cs ds] by auto
    then show ?thesis by blast
  qed
  have e: "apfst ((\<and>) b) r = (True, w) \<longleftrightarrow> b \<and> r = (True, w)" for b r and w :: int
    by (cases r) auto
  show ?thesis
  proof (cases "?rest \<noteq> [] \<and> hd ?rest = 45")
    case True
    have sg: "\<not> \<not> ty_signed t"
      using assms(2) unfolding range_to_number_cases if_P [OF True] by (cases "ty_signed t") simp_all
    have "?rest = s \<and> parse_unsigned Negative t 10 (tl ?rest) = (True, v)"
      using assms(2) unfolding range_to_number_cases if_P [OF True] if_not_P [OF sg] e .
    with sg have r: "ty_signed t \<and> ?rest = s \<and> parse_unsigned Negative t 10 (tl ?rest) = (True, v)" by blast
    then have "parse_unsigned Negative t 10 (tl s) = (True, v)" by metis
    from u [OF this] r obtain ds where "ds \<noteq> []" "list_all (\<lambda>d. d < 10) ds" "tl s = digit_text ds" "ty_signed t" "?rest = s"
      by blast
    with True have "decimal Negative t s ds" by (cases s) auto
    then show ?thesis by blast
  next
    case False
    let ?s' = "if ?rest \<noteq> [] \<and> hd ?rest = 43 then tl ?rest else ?rest"
    have r: "?rest = s \<and> parse_unsigned Positive t 10 ?s' = (True, v)"
      using assms(2) unfolding range_to_number_cases if_not_P [OF False] e .
    from u [OF conjunct2 [OF this]] r
    obtain ds where ds: "ds \<noteq> []" "list_all (\<lambda>d. d < 10) ds" "?s' = digit_text ds" "?rest = s"
      by blast
    then have "(if s \<noteq> [] \<and> hd s = 43 then tl s else s) = digit_text ds" by (simp only: ds(4))
    with ds(1,2) have "decimal Positive t s ds" by (cases s) (auto split: if_splits)
    then show ?thesis by blast
  qed
qed

lemma output_in_range:
  assumes "is_int_type t" and "base \<in> {10, 16}" and "ty_min t \<le> out0" and "out0 \<le> ty_max t"
  shows "ty_min t \<le> snd (range_to_number t base s out0) \<and> snd (range_to_number t base s out0) \<le> ty_max t"
proof -
  have p: "ty_min t \<le> snd (parse_unsigned sg t base cs) \<and> snd (parse_unsigned sg t base cs) \<le> ty_max t"
    if "sg = Negative \<Longrightarrow> ty_signed t" for sg and cs :: "'c :: len word list"
  proof (cases "cs = []")
    case True
    then show ?thesis using int_type_limits [OF assms(1)] by (simp add: parse_unsigned_def)
  next
    case False
    have l: "15 \<le> limit sg t" using that int_type_limits [OF assms(1)] by (cases sg) auto
    let ?cs = "if base = 16 \<and> length cs > 2 \<and> cs ! 0 = 48 \<and> (cs ! 1 = 120 \<or> cs ! 1 = 88) then drop 2 cs else cs"
    have z: "signed sg 0 = 0" by (cases sg) simp_all
    have "\<exists>m'. snd (parse_digits sg t base True ?cs (signed sg 0)) = signed sg m' \<and> 0 \<le> m' \<and> m' \<le> limit sg t"
      using l assms(2) by (intro number_stays_in_range) auto
    then obtain m' where "snd (parse_unsigned sg t base cs) = signed sg m'" "0 \<le> m'" "m' \<le> limit sg t"
      using False unfolding parse_unsigned_def z by auto
    then show ?thesis using int_type_limits [OF assms(1)] by (cases sg) auto
  qed
  have a: "snd (apfst f r) = snd r" for f :: "bool \<Rightarrow> bool" and r :: "bool \<times> int" by (cases r) simp
  show ?thesis
    unfolding range_to_number_cases using p [of Positive] p [of Negative] assms(3,4) by (auto simp: a)
qed

text \<open>
  C32. The decimal conversions accept exactly the non-empty sequences of digits with an optional sign
  (a minus for signed types only) whose value the type holds, and yield that value; a number that is too
  large or too small is refused and the output is the nearest limit; whatever the text, in decimal and
  in hexadecimal, the output stays within the type.
\<close>

theorem StringToInt_exact:
  assumes "is_int_type t" and "ty_min t \<le> out0" and "out0 \<le> ty_max t"
  shows "(range_to_number t 10 s out0 = (True, v) \<longleftrightarrow>
      (\<exists>sg ds. decimal sg t s ds \<and> v = signed sg (digits_value 10 ds) \<and> digits_value 10 ds \<le> limit sg t))
    \<and> (decimal sg t s ds \<longrightarrow> digits_value 10 ds > limit sg t
        \<longrightarrow> range_to_number t 10 s out0 = (False, signed sg (limit sg t)))
    \<and> (base \<in> {10, 16} \<longrightarrow> ty_min t \<le> snd (range_to_number t base s out0)
        \<and> snd (range_to_number t base s out0) \<le> ty_max t)"
proof (intro conjI impI)
  show "range_to_number t 10 s out0 = (True, v) \<longleftrightarrow>
      (\<exists>sg ds. decimal sg t s ds \<and> v = signed sg (digits_value 10 ds) \<and> digits_value 10 ds \<le> limit sg t)"
  proof
    assume r: "range_to_number t 10 s out0 = (True, v)"
    then obtain sg ds where "decimal sg t s ds" using accepted_decimal [OF assms(1)] by blast
    with decimal_read [OF assms(1) this, of out0] r show "\<exists>sg ds. decimal sg t s ds
        \<and> v = signed sg (digits_value 10 ds) \<and> digits_value 10 ds \<le> limit sg t"
      by (auto split: if_splits)
  qed (use decimal_read [OF assms(1)] in auto)
next
  assume "decimal sg t s ds" "digits_value 10 ds > limit sg t"
  then show "range_to_number t 10 s out0 = (False, signed sg (limit sg t))"
    using decimal_read [OF assms(1)] by auto
qed (use output_in_range [OF assms(1) _ assms(2,3)] in auto)

lemma StringToInt_exact_witness:
  "range_to_number type_int 10 [45, 50, 49, 52, 55, 52, 56, 51, 54, 52, 57 :: u8] 0 = (False, - (2 ^ 31))"
proof -
  have "decimal Negative type_int [45, 50, 49, 52, 55, 52, 56, 51, 54, 52, 57] [2, 1, 4, 7, 4, 8, 3, 6, 4, 9]"
    by (simp add: digit_text_def ty_signed_def type_int_def)
  with StringToInt_exact [of type_int 0 "[45, 50, 49, 52, 55, 52, 56, 51, 54, 52, 57]" 0 Negative
      "[2, 1, 4, 7, 4, 8, 3, 6, 4, 9]" 10]
  show ?thesis by (simp add: is_int_type_def type_int_def digits_value_def)
qed

section \<open>Written numbers\<close>

definition plain_digits :: "nat list \<Rightarrow> nat \<Rightarrow> bool" where
  "plain_digits ds n \<longleftrightarrow> ds \<noteq> [] \<and> list_all (\<lambda>d. d < 10) ds \<and> digits_value 10 ds = int n
     \<and> (hd ds = 0 \<longrightarrow> length ds = 1)"

lemma write_digits_step:
  "write_digits n out = (if n div 10 = 0 then digit_text [n] @ out
     else write_digits (n div 10) (digit_text [n mod 10] @ out))"
  by (subst write_digits.simps) (auto simp: Let_def digit_text_def)

lemma write_digits_text: "\<exists>ds. write_digits n out = digit_text ds @ out \<and> plain_digits ds n"
proof (induction n arbitrary: out rule: less_induct)
  case (less n)
  show ?case
  proof (cases "n div 10 = 0")
    case True
    then have "write_digits n out = digit_text [n] @ out" by (simp add: write_digits_step [of n])
    moreover have "plain_digits [n] n" using True by (auto simp: plain_digits_def digits_value_def)
    ultimately show ?thesis by blast
  next
    case False
    then have "n div 10 < n" by simp
    from less [OF this] obtain ds where ds: "plain_digits ds (n div 10)"
        "write_digits (n div 10) (digit_text [n mod 10] @ out) = digit_text ds @ digit_text [n mod 10] @ out"
      by blast
    then have "write_digits n out = digit_text (ds @ [n mod 10]) @ out"
      using False by (simp add: write_digits_step [of n]) (simp add: digit_text_def)
    moreover have "plain_digits (ds @ [n mod 10]) n"
    proof -
      have "hd ds \<noteq> 0"
      proof
        assume "hd ds = 0"
        then have "ds = [0]" using ds(1) by (cases ds) (auto simp: plain_digits_def)
        then show False using ds(1) False by (simp add: plain_digits_def digits_value_def)
      qed
      moreover have "int n = int (n div 10) * 10 + int (n mod 10)"
        by (metis div_mult_mod_eq of_nat_add of_nat_mult of_nat_numeral)
      ultimately show ?thesis using ds(1) by (simp add: plain_digits_def)
    qed
    ultimately show ?thesis by blast
  qed
qed

lemma length_write_digits: "n < 10 ^ Suc k \<Longrightarrow> length (write_digits n (out :: u8 list)) \<le> Suc k + length out"
proof (induction k arbitrary: n out)
  case 0
  then have "n div 10 = 0" by simp
  then show ?case by (subst write_digits_step) (simp add: digit_text_def)
next
  case (Suc k)
  show ?case
  proof (cases "n div 10 = 0")
    case True
    then show ?thesis by (subst write_digits_step) (simp add: digit_text_def)
  next
    case False
    have "n div 10 < 10 ^ Suc k" using Suc.prems by (simp add: less_mult_imp_div_less mult.commute)
    from Suc.IH [OF this, of "digit_text [n mod 10] @ out"] False show ?thesis
      by (subst write_digits_step) (simp add: digit_text_def)
  qed
qed

lemma IntToString_decimal:
  "\<exists>ds. IntToString v = (if v < 0 then 45 # digit_text ds else digit_text ds) \<and> plain_digits ds (nat \<bar>v\<bar>)"
  using write_digits_text [of "nat \<bar>v\<bar>" "[]"]
  by (auto simp: IntToString_def IntToStringT_def Let_def)

lemma hex_char_digit: "n < 16 \<Longrightarrow> CharToDigit 16 (hex_char n) = Some (unat n)"
proof -
  assume n: "n < 16"
  have "unat n < 16" using n by (simp add: word_less_nat_alt)
  moreover have "unat (48 + n) = 48 + unat n" "unat (55 + n) = 55 + unat n"
    using calculation by (simp_all add: unat_word_ariths)
  moreover have "n < 10 \<longleftrightarrow> unat n < 10" by (simp add: word_less_nat_alt)
  ultimately show ?thesis
    by (simp add: hex_char_def CharToDigit_def Let_def)
qed

lemma nibbles: "push_bit 4 (of_nat (unat (drop_bit 4 b AND 0xf))) OR of_nat (unat (b AND 0xf)) = b" for b :: u8
proof -
  have "push_bit 4 (drop_bit 4 b AND mask 4) OR (b AND mask 4) = b"
    by (rule bit_word_eqI) (auto simp: bit_simps)
  moreover have "mask 4 = (0xf :: u8)" by (simp add: mask_eq_exp_minus_1)
  ultimately show ?thesis by simp
qed

lemma hex_pairs_encode: "hex_pairs (HexEncode bs) out = (True, out @ bs)"
proof (induction bs arbitrary: out)
  case Nil
  then show ?case by (simp add: HexEncode_def)
next
  case (Cons b bs)
  have lt: "x AND 0xf < (16 :: u8)" for x
    by (rule le_less_trans [OF word_and_le1]) simp
  have "HexEncode (b # bs) = hex_char (drop_bit 4 b AND 0xf) # hex_char (b AND 0xf) # HexEncode bs"
    by (simp add: HexEncode_def)
  then show ?case using Cons hex_char_digit [OF lt] nibbles [of b] by simp
qed

lemma length_HexEncode: "length (HexEncode bs) = 2 * length bs"
  by (induction bs) (simp_all add: HexEncode_def)

lemma IntToString_read:
  assumes "is_int_type t" and "ty_min t \<le> v" and "v \<le> ty_max t"
  shows "range_to_number t 10 (IntToString v) out0 = (True, v)"
proof -
  obtain ds where d0: "IntToString v = (if v < 0 then 45 # digit_text ds else digit_text ds)"
      "plain_digits ds (nat \<bar>v\<bar>)" using IntToString_decimal by blast
  then have ds: "IntToString v = (if v < 0 then 45 # digit_text ds else digit_text ds)" "ds \<noteq> []"
      "list_all (\<lambda>d. d < 10) ds" "digits_value 10 ds = \<bar>v\<bar>"
    by (simp_all add: plain_digits_def)
  let ?sg = "if v < 0 then Negative else Positive"
  have sg: "v < 0 \<Longrightarrow> ty_signed t" using assms(2) by (simp add: ty_signed_def)
  then have d: "decimal ?sg t (IntToString v) ds" using ds by auto
  have "digits_value 10 ds \<le> limit ?sg t" "signed ?sg (digits_value 10 ds) = v"
    using ds(4) assms(2,3) by auto
  then show ?thesis using decimal_read [OF assms(1) d, of out0] by simp
qed

text \<open>
  C33. Every integer of a type is read back from the text that it is written as, which fits the buffer of
  the source; and every non-empty byte string is read back from its hexadecimal text.
\<close>

theorem number_text_roundtrip:
  assumes "is_int_type t" and "ty_min t \<le> v" and "v \<le> ty_max t"
  shows "range_to_number t 10 (IntToString v) out0 = (True, v)
    \<and> length (IntToString v) \<le> kOutputBufSize t
    \<and> (bytes \<noteq> [] \<longrightarrow> HexStringToBytes (HexEncode bytes) = (True, bytes))"
proof -
  have sg: "v < 0 \<Longrightarrow> ty_signed t" using assms(2) by (simp add: ty_signed_def)
  note IntToString_read [OF assms, of out0]
  moreover have "length (IntToString v) \<le> kOutputBufSize t"
  proof -
    define k where "k = 3 * ty_bytes t - 1"
    have "nat \<bar>v\<bar> < 10 ^ Suc k" "Suc k = 3 * ty_bytes t"
      using assms
      by (auto simp: k_def is_int_type_def type_int_def type_uint_def type_int64_def type_uint64_def)
    then have "length (write_digits (nat \<bar>v\<bar>) [] :: u8 list) \<le> 3 * ty_bytes t"
      using length_write_digits [of "nat \<bar>v\<bar>" k "[]"] by simp
    then show ?thesis using sg by (auto simp: IntToString_def IntToStringT_def Let_def kOutputBufSize_def)
  qed
  moreover have "HexStringToBytes (HexEncode bytes) = (True, bytes)" if "bytes \<noteq> []"
    using that hex_pairs_encode [of bytes "[]"] length_HexEncode [of bytes]
    by (simp add: HexStringToBytes_def)
  ultimately show ?thesis by blast
qed

lemma number_text_roundtrip_witness:
  "range_to_number type_int 10 (IntToString (- 7)) 0 = (True, - 7)
    \<and> length (IntToString (- 7)) \<le> kOutputBufSize type_int"
  using number_text_roundtrip [of type_int "- 7" 0 "[]"] by (simp add: is_int_type_def type_int_def)

end
