(* ===== verification/Utf.thy ===== *)
theory Utf
  imports Prelude
begin

text \<open>
  Unicode: the macros of base/third_party/icu/icu_utf.h, utf8_nextCharSafeBody of icu_utf.cc,
  base/strings/utf_string_conversion_utils.cc and the UTF-8 and UTF-16 conversions of
  base/strings/utf_string_conversions.cc.  A UChar32 is a 32-bit word, negative where its top bit is
  set; the text is a function from positions to units, so that a read beyond its end is a value too.
\<close>

section \<open>Code points\<close>

definition IsValidCodepoint :: "u32 \<Rightarrow> bool" where
  "IsValidCodepoint c \<longleftrightarrow> c < 0xD800 \<or> (c \<ge> 0xE000 \<and> c \<le> 0x10FFFF)"

definition IsValidCharacter :: "u32 \<Rightarrow> bool" where
  "IsValidCharacter c \<longleftrightarrow> c < 0xD800 \<or> (c \<ge> 0xE000 \<and> c < 0xFDD0)
     \<or> (c > 0xFDEF \<and> c \<le> 0x10FFFF \<and> c AND 0xFFFE \<noteq> 0xFFFE)"

definition CBU_SENTINEL :: u32 where "CBU_SENTINEL = - 1"

definition CBU_IS_SURROGATE :: "u32 \<Rightarrow> bool" where
  "CBU_IS_SURROGATE c \<longleftrightarrow> c AND 0xfffff800 = 0xd800"

definition CBU_IS_UNICODE_NONCHAR :: "u32 \<Rightarrow> bool" where
  "CBU_IS_UNICODE_NONCHAR c \<longleftrightarrow>
     0xfdd0 \<le> sint c \<and> (c \<le> 0xfdef \<or> c AND 0xfffe = 0xfffe) \<and> c \<le> 0x10ffff"

section \<open>UTF-8\<close>

definition utf8_countTrailBytes :: "nat list" where
  "utf8_countTrailBytes =
     replicate 192 0 @ replicate 32 1 @ replicate 16 2 @ replicate 8 3 @ replicate 4 4 @ replicate 2 5 @ replicate 2 0"

definition utf8_minLegal :: "int list" where
  "utf8_minLegal = [0, 0x80, 0x800, 0x10000]"

definition utf8_errorValue :: "u32 list" where
  "utf8_errorValue = [0x15, 0x9f, 0xffff, 0x10ffff, 0x3ffffff, 0x7fffffff]"

definition CBU8_IS_LEAD :: "u32 \<Rightarrow> bool" where
  "CBU8_IS_LEAD c \<longleftrightarrow> (ucast (c - 0xc0) :: u8) < 0x3e"

definition CBU8_IS_TRAIL :: "u8 \<Rightarrow> bool" where
  "CBU8_IS_TRAIL c \<longleftrightarrow> c AND 0xc0 = 0x80"

definition CBU8_MASK_LEAD_BYTE :: "u32 \<Rightarrow> nat \<Rightarrow> u32" where
  "CBU8_MASK_LEAD_BYTE c count = c AND (push_bit (6 - count) 1 - 1)"

text \<open>One trail byte: the position, the code point so far and the illegal flags.\<close>

definition append_trail :: "u32 \<Rightarrow> u8 \<Rightarrow> u32" where
  "append_trail c trail = push_bit 6 c OR ucast (trail AND 0x3f)"

definition trail_step :: "(nat \<Rightarrow> u8) \<Rightarrow> nat \<times> u32 \<times> u8 \<Rightarrow> nat \<times> u32 \<times> u8" where
  "trail_step s st =
     (let (i, c, illegal) = st; trail = s i
      in (i + 1, append_trail c trail, illegal OR ((trail AND 0xc0) XOR 0x80)))"

text \<open>The switch over count, but for the 0.\<close>

definition read_trails :: "(nat \<Rightarrow> u8) \<Rightarrow> nat \<Rightarrow> nat \<Rightarrow> u32 \<Rightarrow> nat \<times> u32 \<times> u8" where
  "read_trails s count i c =
     (if count \<ge> 4 then (i, c, 1)
      else if count = 3 then
        let trail = s i; c1 = append_trail c trail in
        if sint c1 < 0x110
        then trail_step s (trail_step s (i + 1, c1, (trail AND 0xc0) XOR 0x80))
        else (i + 1, c1, 1)
      else if count = 2 then trail_step s (trail_step s (i, c, 0))
      else trail_step s (i, c, 0))"

text \<open>The error loops, which skip trail bytes.\<close>

fun skip_trails :: "(nat \<Rightarrow> u8) \<Rightarrow> nat \<Rightarrow> nat \<Rightarrow> nat \<times> nat" where
  "skip_trails s i 0 = (i, 0)"
| "skip_trails s i (Suc count) = (if CBU8_IS_TRAIL (s i) then skip_trails s (i + 1) count else (i, Suc count))"

definition utf8_nextCharSafeBody ::
    "(nat \<Rightarrow> u8) \<Rightarrow> nat \<Rightarrow> nat \<Rightarrow> u32 \<Rightarrow> int \<Rightarrow> nat \<times> u32" where
  "utf8_nextCharSafeBody s pi len c strict =
     (let count = utf8_countTrailBytes ! unat (ucast c :: u8) in
      if pi + count \<le> len then
        if count = 0 then (pi, if strict \<ge> 0 then 0x15 else CBU_SENTINEL)
        else
          let (i, c, illegal) = read_trails s count pi (CBU8_MASK_LEAD_BYTE c count) in
          if illegal \<noteq> 0 \<or> sint c < utf8_minLegal ! count \<or> (CBU_IS_SURROGATE c \<and> strict \<noteq> - 2) then
            let (i, left) = skip_trails s pi count
            in (i, if strict \<ge> 0 then utf8_errorValue ! (count - left) else CBU_SENTINEL)
          else if strict > 0 \<and> CBU_IS_UNICODE_NONCHAR c then (i, utf8_errorValue ! count)
          else (i, c)
      else
        let (i, left) = skip_trails s pi (len - pi)
        in (i, if strict \<ge> 0 then utf8_errorValue ! (i - pi) else CBU_SENTINEL))"

text \<open>The macro; a char is signed.\<close>

definition CBU8_NEXT :: "(nat \<Rightarrow> u8) \<Rightarrow> nat \<Rightarrow> nat \<Rightarrow> nat \<times> u32" where
  "CBU8_NEXT s i len =
     (let c = scast (s i) :: u32; i = i + 1 in
      if (ucast c :: u8) \<ge> 0x80 then
        (if CBU8_IS_LEAD c then utf8_nextCharSafeBody s i len c (- 1) else (i, CBU_SENTINEL))
      else (i, c))"

definition CBU8_APPEND_UNSAFE :: "u32 \<Rightarrow> u8 list" where
  "CBU8_APPEND_UNSAFE c =
     (if c \<le> 0x7f then [ucast c]
      else (if c \<le> 0x7ff then [ucast (drop_bit 6 c OR 0xc0)]
            else (if c \<le> 0xffff then [ucast (drop_bit 12 c OR 0xe0)]
                  else [ucast (drop_bit 18 c OR 0xf0), ucast ((drop_bit 12 c AND 0x3f) OR 0x80)])
                 @ [ucast ((drop_bit 6 c AND 0x3f) OR 0x80)])
           @ [ucast ((c AND 0x3f) OR 0x80)])"

section \<open>UTF-16\<close>

definition CBU16_IS_TRAIL :: "u32 \<Rightarrow> bool" where
  "CBU16_IS_TRAIL c \<longleftrightarrow> c AND 0xfffffc00 = 0xdc00"

definition CBU16_IS_SURROGATE_LEAD :: "u32 \<Rightarrow> bool" where
  "CBU16_IS_SURROGATE_LEAD c \<longleftrightarrow> c AND 0x400 = 0"

definition CBU16_GET_SUPPLEMENTARY :: "u32 \<Rightarrow> u32 \<Rightarrow> u32" where
  "CBU16_GET_SUPPLEMENTARY lead trail = push_bit 10 lead + trail - (push_bit 10 0xd800 + 0xdc00 - 0x10000)"

definition CBU16_LENGTH :: "u32 \<Rightarrow> nat" where
  "CBU16_LENGTH c = (if c \<le> 0xffff then 1 else 2)"

definition CBU16_APPEND_UNSAFE :: "u32 \<Rightarrow> u16 list" where
  "CBU16_APPEND_UNSAFE c =
     (if c \<le> 0xffff then [ucast c] else [ucast (drop_bit 10 c + 0xd7c0), ucast ((c AND 0x3ff) OR 0xdc00)])"

section \<open>Characters\<close>

text \<open>
  ReadUnicodeCharacter: whether it succeeds, the code point and the index of the last unit.
\<close>

definition ReadUnicodeCharacter8 :: "u8 list \<Rightarrow> nat \<Rightarrow> nat \<Rightarrow> bool \<times> u32 \<times> nat" where
  "ReadUnicodeCharacter8 src src_len char_index =
     (let (i, code_point) = CBU8_NEXT (\<lambda>i. src ! i) char_index src_len
      in (IsValidCodepoint code_point, code_point, i - 1))"

definition ReadUnicodeCharacter16 :: "u16 list \<Rightarrow> nat \<Rightarrow> nat \<Rightarrow> bool \<times> u32 \<times> nat" where
  "ReadUnicodeCharacter16 src src_len char_index =
     (let u = ucast (src ! char_index) :: u32 in
      if CBU_IS_SURROGATE u then
        if \<not> CBU16_IS_SURROGATE_LEAD u \<or> char_index + 1 \<ge> src_len
           \<or> \<not> CBU16_IS_TRAIL (ucast (src ! (char_index + 1)))
        then (False, 0, char_index)
        else let code_point = CBU16_GET_SUPPLEMENTARY u (ucast (src ! (char_index + 1)))
             in (IsValidCodepoint code_point, code_point, char_index + 1)
      else (IsValidCodepoint u, u, char_index))"

definition WriteUnicodeCharacter8 :: "u32 \<Rightarrow> u8 list \<Rightarrow> u8 list" where
  "WriteUnicodeCharacter8 code_point output =
     output @ (if code_point \<le> 0x7f then [ucast code_point] else CBU8_APPEND_UNSAFE code_point)"

definition WriteUnicodeCharacter16 :: "u32 \<Rightarrow> u16 list \<Rightarrow> u16 list" where
  "WriteUnicodeCharacter16 code_point output =
     output @ (if CBU16_LENGTH code_point = 1 then [ucast code_point] else CBU16_APPEND_UNSAFE code_point)"

section \<open>Reading goes on\<close>

lemma skip_trails_bounds: "i \<le> fst (skip_trails s i n) \<and> fst (skip_trails s i n) \<le> i + n"
  by (induction s i n rule: skip_trails.induct) auto

lemma read_trails_bounds:
  "i \<le> fst (read_trails s count i c) \<and> fst (read_trails s count i c) \<le> i + max 1 count"
  by (auto simp: read_trails_def trail_step_def Let_def)

lemma nextCharSafeBody_bounds:
  "i \<le> len \<Longrightarrow> i \<le> fst (utf8_nextCharSafeBody s i len c strict) \<and> fst (utf8_nextCharSafeBody s i len c strict) \<le> len"
  using skip_trails_bounds [of i s "len - i"] skip_trails_bounds [of i s "utf8_countTrailBytes ! unat (ucast c :: u8)"]
    read_trails_bounds [of i s "utf8_countTrailBytes ! unat (ucast c :: u8)"
      "CBU8_MASK_LEAD_BYTE c (utf8_countTrailBytes ! unat (ucast c :: u8))"]
  by (auto simp: utf8_nextCharSafeBody_def Let_def split: prod.splits)

lemma CBU8_NEXT_bounds: "i < len \<Longrightarrow> i < fst (CBU8_NEXT s i len) \<and> fst (CBU8_NEXT s i len) \<le> len"
  using nextCharSafeBody_bounds [of "i + 1" len s "scast (s i)" "- 1"] by (auto simp: CBU8_NEXT_def Let_def)

lemma ReadUnicodeCharacter8_bounds:
  "i < len \<Longrightarrow> ReadUnicodeCharacter8 src len i = (ok, c, j) \<Longrightarrow> i \<le> j \<and> j < len"
  using CBU8_NEXT_bounds [of i len "\<lambda>i. src ! i"]
  by (auto simp: ReadUnicodeCharacter8_def Let_def split: prod.splits)

lemma ReadUnicodeCharacter16_bounds:
  "i < len \<Longrightarrow> ReadUnicodeCharacter16 src len i = (ok, c, j) \<Longrightarrow> i \<le> j \<and> j < len"
  by (auto simp: ReadUnicodeCharacter16_def Let_def split: if_splits)

lemma read8_decreases:
  "i < len \<Longrightarrow> (ok, c, j) = ReadUnicodeCharacter8 src len i \<Longrightarrow> len - Suc j < len - i"
  using ReadUnicodeCharacter8_bounds [of i len src ok c j] by fastforce

lemma read16_decreases:
  "i < len \<Longrightarrow> (ok, c, j) = ReadUnicodeCharacter16 src len i \<Longrightarrow> len - Suc j < len - i"
  using ReadUnicodeCharacter16_bounds [of i len src ok c j] by fastforce

lemma next8_decreases:
  "i < len \<Longrightarrow> (j, c) = CBU8_NEXT s i len \<Longrightarrow> len - j < len - i"
  using CBU8_NEXT_bounds [of i len s] by (metis diff_less_mono2 fst_conv less_trans)

section \<open>Conversion\<close>

text \<open>The length is cast to int32_t, and a negative length ends the loop at once.\<close>

definition src_len32 :: "nat \<Rightarrow> nat" where
  "src_len32 n = nat (sint (of_nat n :: u32))"

text \<open>ConvertUnicode for either direction: the result and the output.\<close>

function convert_8_to_16 :: "u8 list \<Rightarrow> nat \<Rightarrow> nat \<Rightarrow> bool \<Rightarrow> u16 list \<Rightarrow> bool \<times> u16 list" where
  "convert_8_to_16 src len i success output =
     (if i < len then
        let (ok, code_point, j) = ReadUnicodeCharacter8 src len i in
        if ok then convert_8_to_16 src len (j + 1) success (WriteUnicodeCharacter16 code_point output)
        else convert_8_to_16 src len (j + 1) False (WriteUnicodeCharacter16 0xFFFD output)
      else (success, output))"
  by pat_completeness auto
termination
  by (relation "measure (\<lambda>(src, len, i, _). len - i)")
    (simp, (clarsimp, erule read8_decreases, assumption)+)

function convert_16_to_8 :: "u16 list \<Rightarrow> nat \<Rightarrow> nat \<Rightarrow> bool \<Rightarrow> u8 list \<Rightarrow> bool \<times> u8 list" where
  "convert_16_to_8 src len i success output =
     (if i < len then
        let (ok, code_point, j) = ReadUnicodeCharacter16 src len i in
        if ok then convert_16_to_8 src len (j + 1) success (WriteUnicodeCharacter8 code_point output)
        else convert_16_to_8 src len (j + 1) False (WriteUnicodeCharacter8 0xFFFD output)
      else (success, output))"
  by pat_completeness auto
termination
  by (relation "measure (\<lambda>(src, len, i, _). len - i)")
    (simp, (clarsimp, erule read16_decreases, assumption)+)

declare convert_8_to_16.simps [simp del] convert_16_to_8.simps [simp del]

section \<open>ASCII\<close>

text \<open>
  DoIsStringASCII of base/strings/string_util.cc, which looks at a machine word at a time: addr is the
  address of the text.  The result is None where a word beyond the end of the text would be loaded.
\<close>

definition kMachineWordAlignmentMask :: nat where "kMachineWordAlignmentMask = 7"

definition IsAlignedToMachineWord :: "nat \<Rightarrow> bool" where
  "IsAlignedToMachineWord a \<longleftrightarrow> a AND kMachineWordAlignmentMask = 0"

definition AlignToMachineWord :: "nat \<Rightarrow> nat" where
  "AlignToMachineWord a = a - (a AND kMachineWordAlignmentMask)"

text \<open>A word of memory, the first character lowest.\<close>

fun load_chars :: "'c :: len word list \<Rightarrow> u64" where
  "load_chars [] = 0"
| "load_chars (c # cs) = ucast c OR push_bit LENGTH('c) (load_chars cs)"

fun ascii_prologue :: "('c :: len word \<Rightarrow> u64) \<Rightarrow> nat \<Rightarrow> 'c word list \<Rightarrow> u64 \<Rightarrow> nat \<times> 'c word list \<times> u64" where
  "ascii_prologue widen a [] bits = (a, [], bits)"
| "ascii_prologue widen a (c # cs) bits =
     (if \<not> IsAlignedToMachineWord a
      then ascii_prologue widen (a + LENGTH('c) div 8) cs (bits OR widen c)
      else (a, c # cs, bits))"

function ascii_words :: "nat \<Rightarrow> nat \<Rightarrow> 'c :: len word list \<Rightarrow> u64 \<Rightarrow> ('c word list \<times> u64) option" where
  "ascii_words a word_end cs bits =
     (if a < word_end then
        let loop_increment = 8 div (LENGTH('c) div 8) in
        if length cs < loop_increment then None
        else ascii_words (a + 8) word_end (drop loop_increment cs) (bits OR load_chars (take loop_increment cs))
      else Some (cs, bits))"
  by pat_completeness auto
termination by (relation "measure (\<lambda>(a, word_end, _). word_end - a)") auto

declare ascii_words.simps [simp del]

definition DoIsStringASCII :: "('c :: len word \<Rightarrow> u64) \<Rightarrow> u64 \<Rightarrow> nat \<Rightarrow> 'c word list \<Rightarrow> bool option" where
  "DoIsStringASCII widen mask_value addr characters =
     (let end_addr = addr + length characters * (LENGTH('c) div 8);
          (a, cs, bits) = ascii_prologue widen addr characters 0
      in case ascii_words a (AlignToMachineWord end_addr) cs bits of
           None \<Rightarrow> None
         | Some (cs, bits) \<Rightarrow> Some (fold (\<lambda>c bits. bits OR widen c) cs bits AND mask_value = 0))"

text \<open>A char is signed, a char16 is not.\<close>

definition IsStringASCII8 :: "nat \<Rightarrow> u8 list \<Rightarrow> bool option" where
  "IsStringASCII8 = DoIsStringASCII scast 0x8080808080808080"

definition IsStringASCII16 :: "nat \<Rightarrow> u16 list \<Rightarrow> bool option" where
  "IsStringASCII16 = DoIsStringASCII ucast 0xFF80FF80FF80FF80"

section \<open>The conversions\<close>

definition UTF8ToUTF16 :: "nat \<Rightarrow> u8 list \<Rightarrow> bool \<times> u16 list" where
  "UTF8ToUTF16 addr src =
     (if IsStringASCII8 addr src = Some True then (True, map scast src)
      else convert_8_to_16 src (src_len32 (length src)) 0 True [])"

definition UTF16ToUTF8 :: "nat \<Rightarrow> u16 list \<Rightarrow> bool \<times> u8 list" where
  "UTF16ToUTF8 addr src =
     (if IsStringASCII16 addr src = Some True then (True, map ucast src)
      else convert_16_to_8 src (src_len32 (length src)) 0 True [])"

function is_utf8_from :: "u8 list \<Rightarrow> nat \<Rightarrow> nat \<Rightarrow> bool" where
  "is_utf8_from src len i =
     (if i < len then
        let (j, code_point) = CBU8_NEXT (\<lambda>i. src ! i) i len
        in if IsValidCharacter code_point then is_utf8_from src len j else False
      else True)"
  by pat_completeness auto
termination
  by (relation "measure (\<lambda>(src, len, i). len - i)")
    (simp, clarsimp, erule next8_decreases, assumption)

declare is_utf8_from.simps [simp del]

definition IsStringUTF8 :: "u8 list \<Rightarrow> bool" where
  "IsStringUTF8 str = is_utf8_from str (src_len32 (length str)) 0"

end
