(* ===== verification/UtfCorrect.thy ===== *)
theory UtfCorrect
  imports Utf
begin

text \<open>
  The UTF-8 macros in arithmetic: what is written for a code point, what one step of reading returns.
  Reading succeeds exactly on what is written for the valid code points.
\<close>

section \<open>Bits as arithmetic\<close>

lemma and_high_zero: "unat x < 2 ^ k \<Longrightarrow> x AND push_bit k y = 0" for x y :: "'a :: len word"
proof (rule bit_word_eqI)
  fix n
  assume x: "unat x < 2 ^ k"
  have "\<not> bit x n" if "k \<le> n"
  proof
    assume "bit x n"
    then have "2 ^ n \<le> unat x" by (rule bit_le_unat)
    moreover have "(2 :: nat) ^ k \<le> 2 ^ n" using that by (intro power_increasing) simp_all
    ultimately show False using x by linarith
  qed
  then show "bit (x AND push_bit k y) n \<longleftrightarrow> bit 0 n" by (auto simp: bit_simps)
qed

lemma or_add: "unat x < 2 ^ k \<Longrightarrow> x OR push_bit k y = x + push_bit k y" for x y :: "'a :: len word"
  using word_plus_and_or [of x "push_bit k y"] and_high_zero [of x k y] by simp

lemma unat_and_mask: "unat (x AND mask k) = unat x mod 2 ^ k" for x :: "'a :: len word"
proof -
  have "unat (take_bit k x) = take_bit k (unat x)" by (simp only: unsigned_take_bit_eq)
  then show ?thesis by (simp only: take_bit_eq_mask [symmetric]) (simp add: take_bit_eq_mod)
qed

lemma masks: "(0x3f :: 'a :: len word) = mask 6" "(0x3ff :: 'a word) = mask 10"
  by (simp_all add: mask_eq_exp_minus_1)

lemma unat_3f: "unat (x AND 0x3f) = unat x mod 64" for x :: "'a :: len word"
  unfolding masks by (simp add: unat_and_mask)

lemma unat_3ff: "unat (x AND 0x3ff) = unat x mod 1024" for x :: "'a :: len word"
  unfolding masks by (simp add: unat_and_mask)

lemma unat_drop: "unat (drop_bit k x) = unat x div 2 ^ k" for x :: "'a :: len word"
  by (simp only: unat_drop_bit_eq) (simp add: drop_bit_eq_div)

lemma unat_ucast8: "unat x < 256 \<Longrightarrow> unat (ucast x :: u8) = unat x" for x :: "'a :: len word"
  by (simp add: unsigned_ucast_eq take_bit_nat_eq_self)

lemma u8_less: "unat x < 256" for x :: u8
  using unsigned_less [of x, where ?'a = nat] by simp

lemma unat_ucast_8_32: "unat (ucast x :: u32) = unat x" for x :: u8
proof -
  have "unat x < 2 ^ 32" using u8_less [of x] by simp
  then show ?thesis by (simp add: unsigned_ucast_eq take_bit_nat_eq_self)
qed

lemma u32_less: "unat x < 4294967296" for x :: u32
  using unsigned_less [of x, where ?'a = nat] by simp

lemma unat_append_trail: "unat c < 2 ^ 20 \<Longrightarrow> unat (append_trail c t) = unat c * 64 + unat t mod 64"
proof -
  assume c: "unat c < 2 ^ 20"
  have t: "unat (ucast (t AND 0x3f) :: u32) = unat t mod 64" by (simp only: unat_ucast_8_32 unat_3f)
  then have "append_trail c t = ucast (t AND 0x3f) + push_bit 6 c"
    unfolding append_trail_def by (subst or.commute) (rule or_add, simp)
  moreover have "unat (push_bit 6 c) = unat c * 64"
    using c by (simp only: unsigned_push_bit_eq) (simp add: push_bit_eq_mult take_bit_nat_eq_self)
  ultimately show ?thesis using t c by (simp add: unat_word_ariths)
qed

lemma trail_test: "(t AND 0xc0) XOR 0x80 = 0 \<longleftrightarrow> unat t div 64 = 2" "CBU8_IS_TRAIL t \<longleftrightarrow> unat t div 64 = 2"
proof -
  have "t AND 0xc0 = push_bit 6 (drop_bit 6 t)" for t :: u8
  proof -
    have c0: "(0xc0 :: u8) = NOT (mask 6)" by (simp add: mask_eq_exp_minus_1)
    show ?thesis unfolding c0 by (rule bit_word_eqI) (auto simp: bit_simps)
  qed
  moreover have "unat (push_bit 6 (drop_bit 6 t)) = unat t div 64 * 64"
  proof -
    have "unat t div 64 * 64 < 256" using u8_less [of t] div_times_less_eq_dividend [of "unat t" 64] by linarith
    then show ?thesis
      by (simp only: unsigned_push_bit_eq unat_drop) (simp add: push_bit_eq_mult take_bit_nat_eq_self)
  qed
  ultimately have "unat (t AND 0xc0) = unat t div 64 * 64" by simp
  then have e: "t AND 0xc0 = 0x80 \<longleftrightarrow> unat t div 64 = 2" by (simp add: word_unat_eq_iff)
  have "x XOR y = 0 \<longleftrightarrow> x = y" for x y :: u8
  proof
    assume "x XOR y = 0"
    then have "(x XOR y) XOR y = y" by simp
    then show "x = y" by (simp add: xor.assoc)
  qed simp
  with e show "(t AND 0xc0) XOR 0x80 = 0 \<longleftrightarrow> unat t div 64 = 2" by simp
  from e show "CBU8_IS_TRAIL t \<longleftrightarrow> unat t div 64 = 2" by (simp add: CBU8_IS_TRAIL_def)
qed

lemma or_eq_0: "x OR y = 0 \<longleftrightarrow> x = 0 \<and> y = 0" for x y :: "'a :: len word"
proof
  assume 0: "x OR y = 0"
  have "\<not> bit x n \<and> \<not> bit y n" for n using 0 bit_or_iff [of x y n] by simp
  then show "x = 0 \<and> y = 0" by (auto intro: bit_word_eqI)
qed simp

section \<open>What is written\<close>

definition utf8_nats :: "nat \<Rightarrow> nat list" where
  "utf8_nats n =
     (if n < 0x80 then [n]
      else if n < 0x800 then [192 + n div 64, 128 + n mod 64]
      else if n < 0x10000 then [224 + n div 4096, 128 + n div 64 mod 64, 128 + n mod 64]
      else [240 + n div 262144, 128 + n div 4096 mod 64, 128 + n div 64 mod 64, 128 + n mod 64])"

lemma unat_or_const:
  fixes x :: u32
  assumes "unat x < 2 ^ k" and "c = push_bit k y" and "unat x + unat c < 256"
  shows "unat (ucast (x OR c) :: u8) = unat x + unat c"
proof -
  have "x OR c = x + c" using or_add [OF assms(1)] assms(2) by simp
  moreover have "unat (x + c) = unat x + unat c" using assms(3) by (simp add: unat_word_ariths)
  ultimately show ?thesis using assms(3) unat_ucast8 [of "x OR c"] by simp
qed

lemma lead_consts: "(0xc0 :: u32) = push_bit 6 3" "(0xe0 :: u32) = push_bit 5 7" "(0xf0 :: u32) = push_bit 4 15"
  "(0x80 :: u32) = push_bit 6 2"
  by (simp_all add: push_bit_eq_mult)

lemma APPEND_nats:
  assumes "unat c < 0x110000"
  shows "map unat (CBU8_APPEND_UNSAFE c) = utf8_nats (unat c)"
proof -
  let ?n = "unat c"
  have cmp: "c \<le> 0x7f \<longleftrightarrow> ?n < 0x80" "c \<le> 0x7ff \<longleftrightarrow> ?n < 0x800" "c \<le> 0xffff \<longleftrightarrow> ?n < 0x10000"
    by (auto simp: word_le_nat_alt)
  have t0: "unat (ucast ((c AND 0x3f) OR 0x80) :: u8) = 128 + ?n mod 64"
    by (subst unat_or_const [OF _ lead_consts(4)]) (simp_all add: unat_3f)
  have t1: "unat (ucast ((drop_bit 6 c AND 0x3f) OR 0x80) :: u8) = 128 + ?n div 64 mod 64"
    by (subst unat_or_const [OF _ lead_consts(4)]) (simp_all add: unat_3f unat_drop)
  have t2: "unat (ucast ((drop_bit 12 c AND 0x3f) OR 0x80) :: u8) = 128 + ?n div 4096 mod 64"
    by (subst unat_or_const [OF _ lead_consts(4)]) (simp_all add: unat_3f unat_drop)
  have l0: "unat (ucast c :: u8) = ?n" if "?n < 0x80" using that by (intro unat_ucast8) simp
  have l1: "unat (ucast (drop_bit 6 c OR 0xc0) :: u8) = 192 + ?n div 64" if "?n < 0x800"
  proof -
    have "?n div 64 < 32" using that by (simp add: less_mult_imp_div_less)
    then show ?thesis by (subst unat_or_const [OF _ lead_consts(1)]) (simp_all add: unat_drop)
  qed
  have l2: "unat (ucast (drop_bit 12 c OR 0xe0) :: u8) = 224 + ?n div 4096" if "?n < 0x10000"
  proof -
    have "?n div 4096 < 16" using that by (simp add: less_mult_imp_div_less)
    then show ?thesis by (subst unat_or_const [OF _ lead_consts(2)]) (simp_all add: unat_drop)
  qed
  have l3: "unat (ucast (drop_bit 18 c OR 0xf0) :: u8) = 240 + ?n div 262144"
  proof -
    have "?n div 262144 < 5" using assms by (simp add: less_mult_imp_div_less)
    then show ?thesis by (subst unat_or_const [OF _ lead_consts(3)]) (simp_all add: unat_drop)
  qed
  show ?thesis
    unfolding CBU8_APPEND_UNSAFE_def cmp utf8_nats_def using t0 t1 t2 l0 l1 l2 l3 by simp
qed

section \<open>What is read\<close>

lemma scast_byte: "(ucast (scast b :: u32) :: u8) = b" for b :: u8
  by (rule bit_word_eqI) (auto simp: bit_simps)

lemma lead_test: "CBU8_IS_LEAD (scast b) \<longleftrightarrow> 192 \<le> unat b \<and> unat b < 254" for b :: u8
proof -
  have "(ucast (scast b - 0xc0 :: u32) :: u8) = b - 0xc0"
  proof -
    have "(ucast (x - y :: u32) :: u8) = ucast x - ucast y" for x y :: u32
    proof -
      have "(ucast (x - y) :: u8) = word_of_int (take_bit 32 (uint x - uint y))"
        by (simp add: ucast_eq uint_word_ariths(2) take_bit_eq_mod)
      also have "\<dots> = word_of_int (uint x - uint y)"
        by (simp only: word_of_int_eq_iff) (simp add: take_bit_take_bit)
      also have "\<dots> = word_of_int (uint x) - word_of_int (uint y)" by (simp only: of_int_diff)
      finally show ?thesis by (simp only: ucast_eq)
    qed
    then show ?thesis by (simp add: scast_byte)
  qed
  moreover have "b - 0xc0 < 0x3e \<longleftrightarrow> 192 \<le> unat b \<and> unat b < 254"
    using u8_less [of b] by (auto simp: word_less_nat_alt unat_sub_if_size size_word_def word_le_nat_alt)
  ultimately show ?thesis by (simp add: CBU8_IS_LEAD_def)
qed

lemma mask_lead: "0 < count \<Longrightarrow> count \<le> 5 \<Longrightarrow> unat (CBU8_MASK_LEAD_BYTE (scast b) count) = unat b mod 2 ^ (6 - count)"
  for b :: u8
proof -
  assume c: "0 < count" "count \<le> 5"
  have m: "push_bit (6 - count) 1 - 1 = (mask (6 - count) :: u32)"
    by (simp add: mask_eq_exp_minus_1 push_bit_eq_mult)
  have "scast b AND mask (6 - count) = (ucast (b AND mask (6 - count)) :: u32)"
    by (rule bit_word_eqI) (use c in \<open>auto simp: bit_simps\<close>)
  then have "unat (scast b AND mask (6 - count) :: u32) = unat (b AND mask (6 - count))"
    by (simp add: unat_ucast_8_32)
  then show ?thesis unfolding CBU8_MASK_LEAD_BYTE_def m by (simp add: unat_and_mask)
qed

lemma count_table: "n < 256 \<Longrightarrow> utf8_countTrailBytes ! n =
    (if n < 192 then 0 else if n < 224 then 1 else if n < 240 then 2 else if n < 248 then 3
     else if n < 252 then 4 else if n < 254 then 5 else 0)"
  by (auto simp: utf8_countTrailBytes_def nth_append)

section \<open>One step\<close>

definition encoded_at :: "(nat \<Rightarrow> u8) \<Rightarrow> nat \<Rightarrow> u32 \<Rightarrow> bool" where
  "encoded_at s i c \<longleftrightarrow>
     map s [i ..< i + length (CBU8_APPEND_UNSAFE c)] = CBU8_APPEND_UNSAFE c"

lemma length_APPEND: "length (CBU8_APPEND_UNSAFE c) = (if unat c < 0x80 then 1 else if unat c < 0x800 then 2
    else if unat c < 0x10000 then 3 else 4)"
  by (auto simp: CBU8_APPEND_UNSAFE_def word_le_nat_alt)

lemma map_unat_inject: "map unat xs = map unat ys \<longleftrightarrow> xs = ys" for xs ys :: "'a :: len word list"
  by (rule inj_map_eq_map) (simp add: inj_def word_unat_eq_iff)

lemma encoded_at_nats:
  assumes "unat c < 0x110000"
  shows "encoded_at s i c \<longleftrightarrow> map (\<lambda>j. unat (s j)) [i ..< i + length (utf8_nats (unat c))] = utf8_nats (unat c)"
proof -
  have l: "length (CBU8_APPEND_UNSAFE c) = length (utf8_nats (unat c))"
    using arg_cong [OF APPEND_nats [OF assms], of length] by simp
  have "encoded_at s i c \<longleftrightarrow> map unat (map s [i ..< i + length (CBU8_APPEND_UNSAFE c)]) = map unat (CBU8_APPEND_UNSAFE c)"
    unfolding encoded_at_def map_unat_inject ..
  then show ?thesis by (simp only: l APPEND_nats [OF assms] map_map comp_def)
qed

text \<open>The values that trail bytes and lead bytes determine.\<close>

lemma trail_steps:
  "trail_step s (i, c, il) = (i + 1, append_trail c (s i), il OR ((s i AND 0xc0) XOR 0x80))"
  by (simp add: trail_step_def Let_def)

lemma surrogate_test: "unat c < 0x110000 \<Longrightarrow> CBU_IS_SURROGATE c \<longleftrightarrow> 0xD800 \<le> unat c \<and> unat c < 0xE000"
proof -
  assume c: "unat c < 0x110000"
  have m: "(0xfffff800 :: u32) = NOT (mask 11)" by (simp add: mask_eq_exp_minus_1)
  have "c AND 0xfffff800 = push_bit 11 (drop_bit 11 c)"
    unfolding m by (rule bit_word_eqI) (auto simp: bit_simps)
  moreover have "unat (push_bit 11 (drop_bit 11 c)) = unat c div 2048 * 2048"
  proof -
    have "unat c div 2048 * 2048 < 2 ^ 32"
      using div_times_less_eq_dividend [of "unat c" 2048] u32_less [of c] by simp
    then show ?thesis
      by (simp only: unsigned_push_bit_eq unat_drop) (simp add: push_bit_eq_mult take_bit_nat_eq_self)
  qed
  ultimately have "CBU_IS_SURROGATE c \<longleftrightarrow> unat c div 2048 * 2048 = 0xD800"
    by (simp add: CBU_IS_SURROGATE_def word_unat_eq_iff)
  also have "\<dots> \<longleftrightarrow> unat c div 2048 = 27" by simp
  also have "\<dots> \<longleftrightarrow> 0xD800 \<le> unat c \<and> unat c < 0xE000" 
  proof
    assume "unat c div 2048 = 27"
    then have "unat c = 2048 * 27 + unat c mod 2048" using mult_div_mod_eq [of 2048 "unat c"] by simp
    then show "0xD800 \<le> unat c \<and> unat c < 0xE000" using mod_less_divisor [of 2048 "unat c"] by linarith
  qed (rule div_nat_eqI, simp_all)
  finally show ?thesis .
qed

lemma valid_nat: "IsValidCodepoint c \<longleftrightarrow> unat c < 0xD800 \<or> (0xE000 \<le> unat c \<and> unat c < 0x110000)"
  by (auto simp: IsValidCodepoint_def word_le_nat_alt word_less_nat_alt)

lemma sint_small: "unat c < 2 ^ 31 \<Longrightarrow> sint c = int (unat c)" for c :: u32
proof -
  assume "unat c < 2 ^ 31"
  then have "int (unat c) < int (2 ^ 31)" by (simp only: of_nat_less_iff)
  then have u: "int (unat c) < 2 ^ 31" by simp
  have l: "- (2 ^ 31) \<le> int (unat c)" by (rule order_trans [of _ 0]) simp_all
  have "signed_take_bit 31 (int (unat c)) = int (unat c)" by (rule signed_take_bit_int_eq_self [OF l u])
  moreover have "sint (of_nat (unat c) :: u32) = signed_take_bit 31 (int (unat c))"
    by (simp only: signed_of_nat) simp
  ultimately show ?thesis by simp
qed

text \<open>Two, three and four bytes: the code point, legal or not.\<close>

lemma body_legal:
  fixes b :: u8
  assumes "utf8_countTrailBytes ! unat b = count" and "0 < count" and "pi + count \<le> len"
    and "read_trails s count pi (CBU8_MASK_LEAD_BYTE (scast b) count) = (i, c, illegal)"
    and "illegal = 0" and "utf8_minLegal ! count \<le> sint c" and "\<not> CBU_IS_SURROGATE c"
  shows "utf8_nextCharSafeBody s pi len (scast b) (- 1) = (i, c)"
  using assms by (simp add: utf8_nextCharSafeBody_def scast_byte Let_def)

lemma body_illegal:
  fixes b :: u8
  assumes "utf8_countTrailBytes ! unat b = count" and "0 < count" and "pi + count \<le> len"
    and "read_trails s count pi (CBU8_MASK_LEAD_BYTE (scast b) count) = (i, c, illegal)"
    and "illegal \<noteq> 0 \<or> \<not> utf8_minLegal ! count \<le> sint c \<or> CBU_IS_SURROGATE c"
  shows "utf8_nextCharSafeBody s pi len (scast b) (- 1) = (fst (skip_trails s pi count), CBU_SENTINEL)"
  using assms by (auto simp: utf8_nextCharSafeBody_def scast_byte Let_def split: prod.splits)

lemma body_short:
  fixes b :: u8
  assumes "utf8_countTrailBytes ! unat b = count" and "\<not> pi + count \<le> len"
  shows "utf8_nextCharSafeBody s pi len (scast b) (- 1) = (fst (skip_trails s pi (len - pi)), CBU_SENTINEL)"
  using assms by (simp add: utf8_nextCharSafeBody_def scast_byte Let_def split: prod.splits)

text \<open>The outcomes of one step: a code point of n bytes, or a failure that stays within the text.\<close>

definition next_ok :: "(nat \<Rightarrow> u8) \<Rightarrow> nat \<Rightarrow> nat \<Rightarrow> nat \<times> u32 \<Rightarrow> bool" where
  "next_ok s i len r \<longleftrightarrow> (case r of (i', c) \<Rightarrow>
     i < i' \<and> i' \<le> len \<and>
     ((c = CBU_SENTINEL \<and> (\<forall>c'. IsValidCodepoint c' \<longrightarrow> i + length (CBU8_APPEND_UNSAFE c') \<le> len \<longrightarrow> \<not> encoded_at s i c'))
      \<or> (IsValidCodepoint c \<and> encoded_at s i c \<and> i' = i + length (CBU8_APPEND_UNSAFE c))))"

text \<open>An encoding is determined by its bytes.\<close>

lemma encoded_nats:
  assumes "IsValidCodepoint c" and "encoded_at s i c"
  shows "(unat c < 0x80 \<and> unat (s i) = unat c)
    \<or> (0x80 \<le> unat c \<and> unat c < 0x800 \<and> unat (s i) = 192 + unat c div 64 \<and> unat (s (i + 1)) = 128 + unat c mod 64)
    \<or> (0x800 \<le> unat c \<and> unat c < 0x10000 \<and> unat (s i) = 224 + unat c div 4096
        \<and> unat (s (i + 1)) = 128 + unat c div 64 mod 64 \<and> unat (s (i + 2)) = 128 + unat c mod 64)
    \<or> (0x10000 \<le> unat c \<and> unat (s i) = 240 + unat c div 262144 \<and> unat (s (i + 1)) = 128 + unat c div 4096 mod 64
        \<and> unat (s (i + 2)) = 128 + unat c div 64 mod 64 \<and> unat (s (i + 3)) = 128 + unat c mod 64)"
proof -
  have lt: "unat c < 0x110000" using assms(1) by (auto simp: valid_nat)
  have e: "map (\<lambda>j. unat (s j)) [i ..< i + length (utf8_nats (unat c))] = utf8_nats (unat c)"
    using assms(2) encoded_at_nats [OF lt] by simp
  consider "unat c < 0x80" | "0x80 \<le> unat c" "unat c < 0x800" | "0x800 \<le> unat c" "unat c < 0x10000"
    | "0x10000 \<le> unat c" by linarith
  then show ?thesis
  proof cases
    case 1
    with e show ?thesis by (simp add: utf8_nats_def)
  next
    case 2
    then have "utf8_nats (unat c) = [192 + unat c div 64, 128 + unat c mod 64]" by (simp add: utf8_nats_def)
    with e 2 show ?thesis by (simp add: upt_rec)
  next
    case 3
    then have "utf8_nats (unat c) = [224 + unat c div 4096, 128 + unat c div 64 mod 64, 128 + unat c mod 64]"
      by (simp add: utf8_nats_def)
    with e 3 show ?thesis by (simp add: upt_rec)
  next
    case 4
    then have "utf8_nats (unat c) = [240 + unat c div 262144, 128 + unat c div 4096 mod 64, 128 + unat c div 64 mod 64, 128 + unat c mod 64]"
      by (simp add: utf8_nats_def)
    with e 4 show ?thesis by (simp add: upt_rec numeral_3_eq_3)
  qed
qed

lemma nats_encoded:
  assumes "unat c < 0x110000" and "(unat c < 0x80 \<and> unat (s i) = unat c)
    \<or> (0x80 \<le> unat c \<and> unat c < 0x800 \<and> unat (s i) = 192 + unat c div 64 \<and> unat (s (i + 1)) = 128 + unat c mod 64)
    \<or> (0x800 \<le> unat c \<and> unat c < 0x10000 \<and> unat (s i) = 224 + unat c div 4096
        \<and> unat (s (i + 1)) = 128 + unat c div 64 mod 64 \<and> unat (s (i + 2)) = 128 + unat c mod 64)
    \<or> (0x10000 \<le> unat c \<and> unat (s i) = 240 + unat c div 262144 \<and> unat (s (i + 1)) = 128 + unat c div 4096 mod 64
        \<and> unat (s (i + 2)) = 128 + unat c div 64 mod 64 \<and> unat (s (i + 3)) = 128 + unat c mod 64)"
  shows "encoded_at s i c"
  unfolding encoded_at_nats [OF assms(1)] using assms(2)
  by (elim disjE conjE) (simp_all add: utf8_nats_def upt_rec numeral_3_eq_3)


lemma base64: "r < 64 \<Longrightarrow> (a * 64 + r) div 64 = a" "r < 64 \<Longrightarrow> (a * 64 + r) mod 64 = (r :: nat)"
  by simp_all

lemma trail_value: "t div 64 = 2 \<Longrightarrow> 128 + t mod 64 = (t :: nat)"
  using mult_div_mod_eq [of 64 t] by simp

lemma div_of_trail: "(128 + r mod 64) div 64 = 2" "(128 + r mod 64) mod 64 = (r mod 64 :: nat)"
proof -
  have "r mod 64 < 64" by simp
  then show "(128 + r mod 64) div 64 = 2" by (intro div_nat_eqI) simp_all
  show "(128 + r mod 64) mod 64 = r mod 64" by (simp add: mod_add_eq [of 128 64 "r mod 64", symmetric])
qed

lemma lead_mod: "md * q \<le> n \<Longrightarrow> n < md * q + md \<Longrightarrow> lo = md * q \<Longrightarrow> n mod md = n - (lo :: nat)"
proof -
  assume n: "md * q \<le> n" "n < md * q + md" and lo: "lo = md * q"
  then obtain d where "n = md * q + d" using le_Suc_ex by blast
  with n lo show ?thesis by simp
qed

text \<open>What the trail bytes make of the lead byte.\<close>

lemma read1:
  fixes b :: u8
  assumes "192 \<le> unat b" and "unat b < 224"
  shows "read_trails s 1 i (CBU8_MASK_LEAD_BYTE (scast b) 1) = (i + 1, c, il) \<Longrightarrow>
    unat c = (unat b - 192) * 64 + unat (s i) mod 64 \<and> (il = 0 \<longleftrightarrow> unat (s i) div 64 = 2)"
proof -
  have m: "unat (CBU8_MASK_LEAD_BYTE (scast b) 1) = unat b - 192"
  proof -
    have "unat b mod 32 = unat b - 192" by (rule lead_mod [of 32 6]) (use assms in simp_all)
    moreover have "unat (CBU8_MASK_LEAD_BYTE (scast b) 1) = unat b mod 2 ^ (6 - 1)" by (rule mask_lead) simp_all
    ultimately show ?thesis by simp
  qed
  assume "read_trails s 1 i (CBU8_MASK_LEAD_BYTE (scast b) 1) = (i + 1, c, il)"
  then have "c = append_trail (CBU8_MASK_LEAD_BYTE (scast b) 1) (s i)" "il = 0 OR ((s i AND 0xc0) XOR 0x80)"
    by (simp_all add: read_trails_def trail_steps)
  then show ?thesis using m assms by (simp add: unat_append_trail trail_test)
qed

lemma read2:
  fixes b :: u8
  assumes "224 \<le> unat b" and "unat b < 240"
  shows "read_trails s 2 i (CBU8_MASK_LEAD_BYTE (scast b) 2) = (i + 2, c, il) \<Longrightarrow>
    unat c = ((unat b - 224) * 64 + unat (s i) mod 64) * 64 + unat (s (i + 1)) mod 64
    \<and> (il = 0 \<longleftrightarrow> unat (s i) div 64 = 2 \<and> unat (s (i + 1)) div 64 = 2)"
proof -
  have m: "unat (CBU8_MASK_LEAD_BYTE (scast b) 2) = unat b - 224"
  proof -
    have "unat b mod 16 = unat b - 224" by (rule lead_mod [of 16 14]) (use assms in simp_all)
    moreover have "unat (CBU8_MASK_LEAD_BYTE (scast b) 2) = unat b mod 2 ^ (6 - 2)" by (rule mask_lead) simp_all
    ultimately show ?thesis by simp
  qed
  let ?c1 = "append_trail (CBU8_MASK_LEAD_BYTE (scast b) 2) (s i)"
  assume "read_trails s 2 i (CBU8_MASK_LEAD_BYTE (scast b) 2) = (i + 2, c, il)"
  then have "c = append_trail ?c1 (s (i + 1))"
      "il = (0 OR ((s i AND 0xc0) XOR 0x80)) OR ((s (i + 1) AND 0xc0) XOR 0x80)"
    by (simp_all add: read_trails_def trail_steps)
  moreover have "unat ?c1 = (unat b - 224) * 64 + unat (s i) mod 64" using m assms by (simp add: unat_append_trail)
  moreover have "(unat b - 224) * 64 + unat (s i) mod 64 < 2 ^ 20"
    using assms mod_less_divisor [of 64 "unat (s i)"] by simp
  ultimately show ?thesis by (simp add: unat_append_trail trail_test or_eq_0)
qed

lemma read3:
  fixes b :: u8
  assumes "240 \<le> unat b" and "unat b < 248"
  shows "read_trails s 3 i (CBU8_MASK_LEAD_BYTE (scast b) 3) = (j, c, il) \<Longrightarrow>
    (il = 0 \<longleftrightarrow> (unat b - 240) * 64 + unat (s i) mod 64 < 0x110 \<and> unat (s i) div 64 = 2
      \<and> unat (s (i + 1)) div 64 = 2 \<and> unat (s (i + 2)) div 64 = 2)
    \<and> (il = 0 \<longrightarrow> j = i + 3 \<and> unat c = (((unat b - 240) * 64 + unat (s i) mod 64) * 64 + unat (s (i + 1)) mod 64) * 64
         + unat (s (i + 2)) mod 64)"
proof -
  have m: "unat (CBU8_MASK_LEAD_BYTE (scast b) 3) = unat b - 240"
  proof -
    have "unat b mod 8 = unat b - 240" by (rule lead_mod [of 8 30]) (use assms in simp_all)
    moreover have "unat (CBU8_MASK_LEAD_BYTE (scast b) 3) = unat b mod 2 ^ (6 - 3)" by (rule mask_lead) simp_all
    ultimately show ?thesis by simp
  qed
  let ?c1 = "append_trail (CBU8_MASK_LEAD_BYTE (scast b) 3) (s i)"
  let ?v1 = "(unat b - 240) * 64 + unat (s i) mod 64"
  let ?c2 = "append_trail ?c1 (s (i + 1))"
  have c1: "unat ?c1 = ?v1" using m assms by (simp add: unat_append_trail)
  have v1: "?v1 < 512" using assms mod_less_divisor [of 64 "unat (s i)"] by simp
  then have t: "sint ?c1 < 0x110 \<longleftrightarrow> ?v1 < 0x110"
  proof -
    have "int v < 0x110 \<longleftrightarrow> v < 0x110" for v :: nat by simp
    moreover have "sint ?c1 = int ?v1" using sint_small [of ?c1] v1 by (simp only: c1) simp
    ultimately show ?thesis by (simp only:)
  qed
  assume r: "read_trails s 3 i (CBU8_MASK_LEAD_BYTE (scast b) 3) = (j, c, il)"
  show ?thesis
  proof (cases "?v1 < 0x110")
    case True
    have v2: "?v1 * 64 + unat (s (i + 1)) mod 64 < 2 ^ 20" using v1 mod_less_divisor [of 64 "unat (s (i + 1))"] by simp
    have c2: "unat ?c2 = ?v1 * 64 + unat (s (i + 1)) mod 64" using v1 by (simp add: unat_append_trail c1)
    have "c = append_trail ?c2 (s (i + 2))" "j = i + 3"
        "il = (((s i AND 0xc0) XOR 0x80) OR ((s (i + 1) AND 0xc0) XOR 0x80)) OR ((s (i + 2) AND 0xc0) XOR 0x80)"
      using r True t by (simp_all add: read_trails_def trail_steps Let_def)
    then show ?thesis using v2 c2 True by (simp add: unat_append_trail trail_test or_eq_0)
  next
    case False
    then have "il = 1" using r t by (simp add: read_trails_def Let_def)
    with False show ?thesis by simp
  qed
qed


text \<open>The outcomes of one step.\<close>

definition decodes :: "(nat \<Rightarrow> u8) \<Rightarrow> nat \<Rightarrow> nat \<Rightarrow> u32 \<Rightarrow> bool" where
  "decodes s i len c \<longleftrightarrow> IsValidCodepoint c \<and> encoded_at s i c \<and> i + length (CBU8_APPEND_UNSAFE c) \<le> len"

lemma next_lead:
  assumes "192 \<le> unat (s i)" and "unat (s i) < 254"
  shows "CBU8_NEXT s i len = utf8_nextCharSafeBody s (i + 1) len (scast (s i)) (- 1)"
  using assms lead_test [of "s i"] by (simp add: CBU8_NEXT_def scast_byte word_le_nat_alt)

lemma next_ascii: "unat (s i) < 128 \<Longrightarrow> CBU8_NEXT s i len = (i + 1, ucast (s i))"
proof -
  assume a: "unat (s i) < 128"
  have "(scast (s i) :: u32) = ucast (s i)"
  proof -
    have high: "\<not> bit (s i) n" if "7 \<le> n" for n
    proof
      assume "bit (s i) n"
      then have "2 ^ n \<le> unat (s i)" by (rule bit_le_unat)
      moreover have "(2 :: nat) ^ 7 \<le> 2 ^ n" using that by (intro power_increasing) simp_all
      ultimately show False using a by simp
    qed
    show ?thesis
    proof (rule bit_word_eqI)
      fix n
      show "bit (scast (s i) :: u32) n \<longleftrightarrow> bit (ucast (s i) :: u32) n" if "n < LENGTH(32)"
        using that high by (cases "n \<le> 7") (simp_all add: bit_simps min_def)
    qed
  qed
  with a show ?thesis by (simp add: CBU8_NEXT_def word_le_nat_alt unat_ucast8 unat_ucast_8_32)
qed

lemma next_stray: "128 \<le> unat (s i) \<Longrightarrow> unat (s i) < 192 \<or> 254 \<le> unat (s i) \<Longrightarrow>
    CBU8_NEXT s i len = (i + 1, CBU_SENTINEL)"
  using lead_test [of "s i"] by (auto simp: CBU8_NEXT_def scast_byte word_le_nat_alt)

lemma decodes_lead:
  assumes "decodes s i len c"
  shows "(unat (s i) < 128 \<and> unat c < 0x80) \<or> (192 \<le> unat (s i) \<and> unat (s i) < 224 \<and> 0x80 \<le> unat c \<and> unat c < 0x800)
    \<or> (224 \<le> unat (s i) \<and> unat (s i) < 240 \<and> 0x800 \<le> unat c \<and> unat c < 0x10000)
    \<or> (240 \<le> unat (s i) \<and> unat (s i) < 245 \<and> 0x10000 \<le> unat c \<and> unat c < 0x110000)"
proof -
  have lt: "unat c < 0x110000" using assms by (auto simp: decodes_def valid_nat)
  have d: "unat c < 0x800 \<Longrightarrow> unat c div 64 < 32" "unat c < 0x10000 \<Longrightarrow> unat c div 4096 < 16"
      "unat c div 262144 < 5" using lt by (simp_all add: less_mult_imp_div_less)
  from assms have "IsValidCodepoint c" "encoded_at s i c" by (simp_all add: decodes_def)
  from encoded_nats [OF this] lt d show ?thesis by auto
qed


text \<open>One step, from what its trail bytes make of the lead byte.\<close>

lemma sint_cmp: "unat c < 2 ^ 31 \<Longrightarrow> numeral n \<le> sint c \<longleftrightarrow> numeral n \<le> unat c" for c :: u32
proof -
  assume "unat c < 2 ^ 31"
  moreover have "(numeral n :: int) \<le> int v \<longleftrightarrow> numeral n \<le> v" for v by simp
  ultimately show ?thesis by (simp only: sint_small)
qed

definition next_spec :: "(nat \<Rightarrow> u8) \<Rightarrow> nat \<Rightarrow> nat \<Rightarrow> bool" where
  "next_spec s i len \<longleftrightarrow>
     (\<exists>c. decodes s i len c \<and> CBU8_NEXT s i len = (i + length (CBU8_APPEND_UNSAFE c), c))
     \<or> (snd (CBU8_NEXT s i len) = CBU_SENTINEL \<and> (\<forall>c. \<not> decodes s i len c))"

lemma next_spec_read:
  assumes lead: "192 \<le> unat (s i)" "unat (s i) < 254"
    and n: "utf8_countTrailBytes ! unat (s i) = count" "0 < count"
    and r: "read_trails s count (i + 1) (CBU8_MASK_LEAD_BYTE (scast (s i)) count) = (j, c, il)"
    and legal: "il = 0 \<Longrightarrow> utf8_minLegal ! count \<le> sint c \<Longrightarrow> \<not> CBU_IS_SURROGATE c \<Longrightarrow> i + 1 + count \<le> len
      \<Longrightarrow> decodes s i len c \<and> j = i + length (CBU8_APPEND_UNSAFE c)"
    and complete: "\<And>c'. decodes s i len c' \<Longrightarrow> i + 1 + count \<le> len \<and> il = 0 \<and> c = c' \<and> utf8_minLegal ! count \<le> sint c'"
  shows "next_spec s i len"
proof -
  note nl = next_lead [of s i len, OF lead]
  have surrogate: "\<not> CBU_IS_SURROGATE c'" if "decodes s i len c'" for c'
    using that by (auto simp: decodes_def valid_nat surrogate_test)
  show ?thesis
  proof (cases "i + 1 + count \<le> len \<and> il = 0 \<and> utf8_minLegal ! count \<le> sint c \<and> \<not> CBU_IS_SURROGATE c")
    case True
    then have "CBU8_NEXT s i len = (j, c)" unfolding nl using n r by (intro body_legal [OF n _ r]) simp_all
    with True legal show ?thesis by (auto simp: next_spec_def)
  next
    case False
    have "snd (CBU8_NEXT s i len) = CBU_SENTINEL"
    proof (cases "i + 1 + count \<le> len")
      case True
      then have "il \<noteq> 0 \<or> \<not> utf8_minLegal ! count \<le> sint c \<or> CBU_IS_SURROGATE c" using False by blast
      from body_illegal [OF n True r this] nl show ?thesis by simp
    qed (use nl body_short [OF n(1)] in simp)
    moreover have "\<not> decodes s i len c'" for c' using complete [of c'] surrogate [of c'] False by blast
    ultimately show ?thesis by (simp add: next_spec_def)
  qed
qed

lemma decodes_nats:
  assumes "decodes s i len c"
  shows "192 \<le> unat (s i) \<Longrightarrow> unat (s i) < 224 \<Longrightarrow> 0x80 \<le> unat c \<and> unat c < 0x800 \<and> i + 2 \<le> len
      \<and> unat (s i) = 192 + unat c div 64 \<and> unat (s (i + 1)) = 128 + unat c mod 64"
    and "224 \<le> unat (s i) \<Longrightarrow> unat (s i) < 240 \<Longrightarrow> 0x800 \<le> unat c \<and> unat c < 0x10000 \<and> i + 3 \<le> len
      \<and> unat (s i) = 224 + unat c div 4096 \<and> unat (s (i + 1)) = 128 + unat c div 64 mod 64
      \<and> unat (s (i + 2)) = 128 + unat c mod 64"
    and "240 \<le> unat (s i) \<Longrightarrow> 0x10000 \<le> unat c \<and> unat c < 0x110000 \<and> i + 4 \<le> len
      \<and> unat (s i) = 240 + unat c div 262144 \<and> unat (s (i + 1)) = 128 + unat c div 4096 mod 64
      \<and> unat (s (i + 2)) = 128 + unat c div 64 mod 64 \<and> unat (s (i + 3)) = 128 + unat c mod 64"
proof -
  from assms have e: "IsValidCodepoint c" "encoded_at s i c" "i + length (CBU8_APPEND_UNSAFE c) \<le> len"
    by (simp_all add: decodes_def)
  note facts = e(3) encoded_nats [OF e(1,2)] decodes_lead [OF assms]
  show "192 \<le> unat (s i) \<Longrightarrow> unat (s i) < 224 \<Longrightarrow> 0x80 \<le> unat c \<and> unat c < 0x800 \<and> i + 2 \<le> len
      \<and> unat (s i) = 192 + unat c div 64 \<and> unat (s (i + 1)) = 128 + unat c mod 64"
    using facts by (auto simp: length_APPEND)
  show "224 \<le> unat (s i) \<Longrightarrow> unat (s i) < 240 \<Longrightarrow> 0x800 \<le> unat c \<and> unat c < 0x10000 \<and> i + 3 \<le> len
      \<and> unat (s i) = 224 + unat c div 4096 \<and> unat (s (i + 1)) = 128 + unat c div 64 mod 64
      \<and> unat (s (i + 2)) = 128 + unat c mod 64"
    using facts by (auto simp: length_APPEND)
  show "240 \<le> unat (s i) \<Longrightarrow> 0x10000 \<le> unat c \<and> unat c < 0x110000 \<and> i + 4 \<le> len
      \<and> unat (s i) = 240 + unat c div 262144 \<and> unat (s (i + 1)) = 128 + unat c div 4096 mod 64
      \<and> unat (s (i + 2)) = 128 + unat c div 64 mod 64 \<and> unat (s (i + 3)) = 128 + unat c mod 64"
    using facts by (auto simp: length_APPEND)
qed

lemma next_spec1:
  assumes "192 \<le> unat (s i)" and "unat (s i) < 224"
  shows "next_spec s i len"
proof -
  have n: "utf8_countTrailBytes ! unat (s i) = 1" using assms count_table [of "unat (s i)"] by simp
  obtain c il where r: "read_trails s 1 (i + 1) (CBU8_MASK_LEAD_BYTE (scast (s i)) 1) = (i + 1 + 1, c, il)"
    by (simp add: read_trails_def trail_steps)
  have c: "unat c = (unat (s i) - 192) * 64 + unat (s (i + 1)) mod 64"
      and il: "il = 0 \<longleftrightarrow> unat (s (i + 1)) div 64 = 2" using read1 [OF assms r] by simp_all
  have c_lt: "unat c < 0x800" using c assms mod_less_divisor [of 64 "unat (s (i + 1))"] by simp
  show ?thesis
  proof (rule next_spec_read [OF _ _ n _ r])
    assume h: "il = 0" "utf8_minLegal ! 1 \<le> sint c" "i + 1 + 1 \<le> len"
    then have "0x80 \<le> unat c" using c_lt by (simp add: utf8_minLegal_def sint_cmp)
    moreover have "192 + unat c div 64 = unat (s i)" using c assms by (simp add: base64)
    moreover have "128 + unat c mod 64 = unat (s (i + 1))" using c il h(1) trail_value by (simp add: base64)
    ultimately have "encoded_at s i c" using c_lt by (intro nats_encoded) simp_all
    then show "decodes s i len c \<and> i + 1 + 1 = i + length (CBU8_APPEND_UNSAFE c)"
      using h c_lt \<open>0x80 \<le> unat c\<close> by (simp add: decodes_def valid_nat length_APPEND)
  next
    fix c'
    assume "decodes s i len c'"
    from decodes_nats(1) [OF this assms] have d: "0x80 \<le> unat c'" "unat c' < 0x800" "i + 2 \<le> len"
        "unat (s i) = 192 + unat c' div 64" "unat (s (i + 1)) = 128 + unat c' mod 64" by blast+
    then have "unat c = unat c'" using c div_of_trail(2) [of "unat c'"] mult_div_mod_eq [of 64 "unat c'"] by simp
    then show "i + 1 + 1 \<le> len \<and> il = 0 \<and> c = c' \<and> utf8_minLegal ! 1 \<le> sint c'"
      using d il div_of_trail(1) by (simp add: utf8_minLegal_def sint_cmp word_unat_eq_iff)
  qed (use assms in simp_all)
qed

lemma div_parts: "n div 4096 = n div 64 div 64" "n div 262144 = n div 64 div 64 div (64 :: nat)"
  by (simp_all add: div_mult2_eq [symmetric])

lemma parts2: "((n div 64 div 64) * 64 + n div 64 mod 64) * 64 + n mod 64 = (n :: nat)"
  by simp

lemma parts3: "(((n div 64 div 64 div 64) * 64 + n div 64 div 64 mod 64) * 64 + n div 64 mod 64) * 64 + n mod 64 = (n :: nat)"
  by simp

lemma from_parts2:
  assumes "n = (a * 64 + r) * 64 + t" and "r < 64" and "t < (64 :: nat)"
  shows "n div 64 div 64 = a \<and> n div 64 mod 64 = r \<and> n mod 64 = t"
proof -
  have "n div 64 = a * 64 + r" "n mod 64 = t" unfolding assms(1) by (rule base64 [OF assms(3)])+
  with assms(2) show ?thesis by simp
qed

lemma from_parts3:
  assumes "n = ((a * 64 + q) * 64 + r) * 64 + t" and "q < 64" and "r < 64" and "t < (64 :: nat)"
  shows "n div 64 div 64 div 64 = a \<and> n div 64 div 64 mod 64 = q \<and> n div 64 mod 64 = r \<and> n mod 64 = t"
proof -
  have n: "n div 64 = (a * 64 + q) * 64 + r" "n mod 64 = t" unfolding assms(1) by (rule base64 [OF assms(4)])+
  with from_parts2 [OF n(1) assms(2,3)] show ?thesis by simp
qed

lemma code_point_bound: "v < 0x110 \<Longrightarrow> r < 64 \<Longrightarrow> t < 64 \<Longrightarrow> (v * 64 + r) * 64 + t < (0x110000 :: nat)"
  by simp

lemma next_spec2:
  assumes "224 \<le> unat (s i)" and "unat (s i) < 240"
  shows "next_spec s i len"
proof -
  let ?b1 = "unat (s (i + 1))" and ?b2 = "unat (s (i + 2))"
  have n: "utf8_countTrailBytes ! unat (s i) = 2" using assms count_table [of "unat (s i)"] by simp
  obtain c il where r: "read_trails s 2 (i + 1) (CBU8_MASK_LEAD_BYTE (scast (s i)) 2) = (i + 1 + 2, c, il)"
    by (simp add: read_trails_def trail_steps)
  have c: "unat c = ((unat (s i) - 224) * 64 + ?b1 mod 64) * 64 + ?b2 mod 64"
      and il: "il = 0 \<longleftrightarrow> ?b1 div 64 = 2 \<and> ?b2 div 64 = 2" using read2 [OF assms r] by simp_all
  have c_lt: "unat c < 0x10000"
    using c assms mod_less_divisor [of 64 ?b1] mod_less_divisor [of 64 ?b2] by simp
  show ?thesis
  proof (rule next_spec_read [OF _ _ n _ r])
    assume h: "il = 0" "utf8_minLegal ! 2 \<le> sint c" "\<not> CBU_IS_SURROGATE c" "i + 1 + 2 \<le> len"
    have b: "0x800 \<le> unat c" using h(2) c_lt by (simp add: utf8_minLegal_def sint_cmp)
    have p: "unat c div 64 div 64 = unat (s i) - 224 \<and> unat c div 64 mod 64 = ?b1 mod 64 \<and> unat c mod 64 = ?b2 mod 64"
      by (rule from_parts2 [OF c]) simp_all
    moreover have "224 + unat c div 4096 = unat (s i)" using p assms by (simp add: div_parts)
    moreover have "128 + unat c div 64 mod 64 = ?b1" "128 + unat c mod 64 = ?b2"
      using p il h(1) trail_value by simp_all
    ultimately have "encoded_at s i c" using c_lt b by (intro nats_encoded) simp_all
    then show "decodes s i len c \<and> i + 1 + 2 = i + length (CBU8_APPEND_UNSAFE c)"
      using h c_lt b by (auto simp: decodes_def valid_nat length_APPEND surrogate_test)
  next
    fix c'
    assume "decodes s i len c'"
    from decodes_nats(2) [OF this assms] have d: "0x800 \<le> unat c'" "unat c' < 0x10000" "i + 3 \<le> len"
        "unat (s i) = 224 + unat c' div 4096" "?b1 = 128 + unat c' div 64 mod 64" "?b2 = 128 + unat c' mod 64" by blast+
    then have "unat c = ((unat c' div 64 div 64) * 64 + unat c' div 64 mod 64) * 64 + unat c' mod 64"
      unfolding c by (simp only: div_of_trail(2) div_parts) simp
    then have "unat c = unat c'" unfolding parts2 .
    then show "i + 1 + 2 \<le> len \<and> il = 0 \<and> c = c' \<and> utf8_minLegal ! 2 \<le> sint c'"
      using d il div_of_trail(1) by (simp add: utf8_minLegal_def sint_cmp word_unat_eq_iff)
  qed (use assms in simp_all)
qed

lemma next_spec3:
  assumes "240 \<le> unat (s i)" and "unat (s i) < 248"
  shows "next_spec s i len"
proof -
  let ?b1 = "unat (s (i + 1))" and ?b2 = "unat (s (i + 2))" and ?b3 = "unat (s (i + 3))"
  have n: "utf8_countTrailBytes ! unat (s i) = 3" using assms count_table [of "unat (s i)"] by simp
  obtain j c il where r: "read_trails s 3 (i + 1) (CBU8_MASK_LEAD_BYTE (scast (s i)) 3) = (j, c, il)"
    using prod_cases3 by blast
  have il: "il = 0 \<longleftrightarrow> (unat (s i) - 240) * 64 + ?b1 mod 64 < 0x110 \<and> ?b1 div 64 = 2 \<and> ?b2 div 64 = 2 \<and> ?b3 div 64 = 2"
      and c: "il = 0 \<Longrightarrow> j = i + 4 \<and> unat c = (((unat (s i) - 240) * 64 + ?b1 mod 64) * 64 + ?b2 mod 64) * 64 + ?b3 mod 64"
    using read3 [OF assms r] by (simp_all add: numeral_3_eq_3)
  have c_lt: "unat c < 0x110000" if "il = 0"
  proof -
    have "(unat (s i) - 240) * 64 + ?b1 mod 64 < 0x110" using il that by blast
    then show ?thesis unfolding conjunct2 [OF c [OF that]] by (rule code_point_bound) simp_all
  qed
  show ?thesis
  proof (rule next_spec_read [OF _ _ n _ r])
    assume h: "il = 0" "utf8_minLegal ! 3 \<le> sint c" "i + 1 + 3 \<le> len"
    note c' = conjunct2 [OF c [OF h(1)]] and j = conjunct1 [OF c [OF h(1)]] and lt = c_lt [OF h(1)]
    have b: "0x10000 \<le> unat c" using h(2) lt by (simp add: utf8_minLegal_def sint_cmp)
    have p: "unat c div 64 div 64 div 64 = unat (s i) - 240 \<and> unat c div 64 div 64 mod 64 = ?b1 mod 64
        \<and> unat c div 64 mod 64 = ?b2 mod 64 \<and> unat c mod 64 = ?b3 mod 64"
      by (rule from_parts3 [OF c']) simp_all
    moreover have "240 + unat c div 262144 = unat (s i)" using p assms by (simp add: div_parts)
    moreover have "128 + unat c div 4096 mod 64 = ?b1" "128 + unat c div 64 mod 64 = ?b2" "128 + unat c mod 64 = ?b3"
      using p il h(1) trail_value by (simp_all add: div_parts)
    ultimately have "encoded_at s i c" using lt b by (intro nats_encoded) simp_all
    then show "decodes s i len c \<and> j = i + length (CBU8_APPEND_UNSAFE c)"
      using h(3) j lt b by (simp add: decodes_def valid_nat length_APPEND)
  next
    fix c'
    assume "decodes s i len c'"
    from decodes_nats(3) [OF this assms(1)] have d: "0x10000 \<le> unat c'" "unat c' < 0x110000" "i + 4 \<le> len"
        "unat (s i) = 240 + unat c' div 262144" "?b1 = 128 + unat c' div 4096 mod 64"
        "?b2 = 128 + unat c' div 64 mod 64" "?b3 = 128 + unat c' mod 64" by blast+
    have "unat c' div 64 div 64 < 0x110" using d(2) by (simp add: less_mult_imp_div_less div_mult2_eq [symmetric])
    moreover have "(unat (s i) - 240) * 64 + ?b1 mod 64 = unat c' div 64 div 64"
      unfolding d(4,5) div_of_trail(2) div_parts by simp
    ultimately have il0: "il = 0" using il d(5-7) div_of_trail(1) by simp
    then have "unat c = (((unat c' div 64 div 64 div 64) * 64 + unat c' div 64 div 64 mod 64) * 64 + unat c' div 64 mod 64) * 64 + unat c' mod 64"
      using c d by (simp only: div_of_trail(2) div_parts) simp
    then have "unat c = unat c'" unfolding parts3 .
    then show "i + 1 + 3 \<le> len \<and> il = 0 \<and> c = c' \<and> utf8_minLegal ! 3 \<le> sint c'"
      using d il0 by (simp add: utf8_minLegal_def sint_cmp word_unat_eq_iff)
  qed (use assms in simp_all)
qed

lemma next_spec_long:
  assumes "248 \<le> unat (s i)" and "unat (s i) < 254"
  shows "next_spec s i len"
proof -
  obtain count where n: "utf8_countTrailBytes ! unat (s i) = count" "4 \<le> count"
    using assms count_table [of "unat (s i)"] by (simp split: if_splits)
  have r: "read_trails s count (i + 1) (CBU8_MASK_LEAD_BYTE (scast (s i)) count)
      = (i + 1, CBU8_MASK_LEAD_BYTE (scast (s i)) count, 1)" using n(2) by (simp add: read_trails_def)
  show ?thesis
    by (rule next_spec_read [OF _ _ n(1) _ r]) (use assms n(2) decodes_lead in \<open>fastforce+\<close>)
qed

lemma next_exact: "i < len \<Longrightarrow> next_spec s i len"
proof -
  assume i: "i < len"
  consider "unat (s i) < 128" | "128 \<le> unat (s i)" "unat (s i) < 192 \<or> 254 \<le> unat (s i)"
    | "192 \<le> unat (s i)" "unat (s i) < 224" | "224 \<le> unat (s i)" "unat (s i) < 240"
    | "240 \<le> unat (s i)" "unat (s i) < 248" | "248 \<le> unat (s i)" "unat (s i) < 254" by linarith
  then show ?thesis
  proof cases
    case 1
    then have c: "unat (ucast (s i) :: u32) = unat (s i)" by (simp add: unat_ucast_8_32)
    then have "encoded_at s i (ucast (s i))" using 1 by (intro nats_encoded) simp_all
    then have "decodes s i len (ucast (s i))" using 1 c i by (simp add: decodes_def valid_nat length_APPEND)
    moreover have "CBU8_NEXT s i len = (i + length (CBU8_APPEND_UNSAFE (ucast (s i))), ucast (s i))"
      using next_ascii [of s i len] 1 c by (simp add: length_APPEND)
    ultimately show ?thesis unfolding next_spec_def by blast
  next
    case 2
    then show ?thesis using next_stray [of s i len, OF 2] decodes_lead by (fastforce simp: next_spec_def)
  qed (rule next_spec1 next_spec2 next_spec3 next_spec_long, assumption+)+
qed

end
