(* ===== verification/UtfConvert.thy ===== *)
theory UtfConvert
  imports UtfCorrect
begin

text \<open>
  The converters between UTF-8 and UTF-16 and the ASCII test.  What the two converters share, a reader
  that accepts exactly the encodings of the valid code points and a loop over it, is the locale
  \<open>unicode_converter\<close>.
\<close>

section \<open>A converter\<close>

locale unicode_converter =
  fixes read_char :: "'a list \<Rightarrow> nat \<Rightarrow> nat \<Rightarrow> bool \<times> u32 \<times> nat"
    and enc_in :: "u32 \<Rightarrow> 'a list"
    and enc_out :: "u32 \<Rightarrow> 'b list"
    and convert :: "'a list \<Rightarrow> nat \<Rightarrow> nat \<Rightarrow> bool \<Rightarrow> 'b list \<Rightarrow> bool \<times> 'b list"
  assumes read_encoded: "IsValidCodepoint c \<Longrightarrow> drop i src = enc_in c @ rest \<Longrightarrow>
      read_char src (length src) i = (True, c, i + length (enc_in c) - 1)"
    and read_accepts: "i < length src \<Longrightarrow> read_char src (length src) i = (True, c, j) \<Longrightarrow>
      IsValidCodepoint c \<and> (\<exists>rest. drop i src = enc_in c @ rest)"
    and read_progress: "i < length src \<Longrightarrow> read_char src (length src) i = (ok, c, j) \<Longrightarrow> i \<le> j"
    and enc_nonempty: "enc_in c \<noteq> []"
    and convert_loop: "convert src len i success out =
      (if i < len then
         let (ok, c, j) = read_char src len i in
         if ok then convert src len (j + 1) success (out @ enc_out c)
         else convert src len (j + 1) False (out @ enc_out 0xFFFD)
       else (success, out))"
begin

definition text_in :: "u32 list \<Rightarrow> 'a list" where "text_in cs = concat (map enc_in cs)"
definition text_out :: "u32 list \<Rightarrow> 'b list" where "text_out cs = concat (map enc_out cs)"

lemma text_simps [simp]:
  "text_in [] = []" "text_in (c # cs) = enc_in c @ text_in cs"
  "text_out [] = []" "text_out (c # cs) = enc_out c @ text_out cs"
  by (simp_all add: text_in_def text_out_def)

lemma converts_text:
  "list_all IsValidCodepoint cs \<Longrightarrow> drop i src = text_in cs \<Longrightarrow>
    convert src (length src) i success out = (success, out @ text_out cs)"
proof (induction cs arbitrary: i out)
  case Nil
  then show ?case by (subst convert_loop) simp
next
  case (Cons c cs)
  let ?n = "length (enc_in c)"
  have n: "0 < ?n" using enc_nonempty by simp
  have d: "drop i src = enc_in c @ text_in cs" using Cons.prems by simp
  then have i: "i < length src" using n by (metis append_is_Nil_conv drop_all enc_nonempty not_le)
  have "drop (i + ?n) src = text_in cs"
    using arg_cong [OF d, of "drop ?n"] by (simp add: add.commute)
  then have "convert src (length src) (i + ?n) success (out @ enc_out c)
      = (success, (out @ enc_out c) @ text_out cs)" using Cons by simp
  moreover have "read_char src (length src) i = (True, c, i + ?n - 1)"
    using read_encoded [OF _ d] Cons.prems by simp
  moreover have "Suc (i + ?n - 1) = i + ?n" using n by simp
  ultimately show ?case using i by (subst convert_loop) simp
qed

lemma convert_output:
  "\<exists>cs. list_all IsValidCodepoint cs \<and> snd (convert src (length src) i success out) = out @ text_out cs"
proof (induction "length src - i" arbitrary: i success out rule: less_induct)
  case less
  show ?case
  proof (cases "i < length src")
    case False
    then have "convert src (length src) i success out = (success, out)" by (subst convert_loop) simp
    then show ?thesis by (intro exI [of _ "[]"]) simp
  next
    case True
    obtain ok c j where r: "read_char src (length src) i = (ok, c, j)" using prod_cases3 by blast
    let ?c = "if ok then c else 0xFFFD"
    have v: "IsValidCodepoint ?c" using read_accepts [OF True] r by (auto simp: IsValidCodepoint_def)
    have "length src - Suc j < length src - i" using read_progress [OF True r] True by simp
    from less(1) [OF this, of "ok \<and> success" "out @ enc_out ?c"] obtain cs
      where cs: "list_all IsValidCodepoint cs"
        "snd (convert src (length src) (Suc j) (ok \<and> success) (out @ enc_out ?c)) = (out @ enc_out ?c) @ text_out cs"
      by blast
    have "convert src (length src) i success out
        = convert src (length src) (Suc j) (ok \<and> success) (out @ enc_out ?c)"
      using True r by (subst convert_loop) simp
    with cs v show ?thesis by (intro exI [of _ "?c # cs"]) simp
  qed
qed

lemma convert_success:
  "fst (convert src (length src) i success out) \<Longrightarrow>
    success \<and> (\<exists>cs. list_all IsValidCodepoint cs \<and> drop i src = text_in cs)"
proof (induction "length src - i" arbitrary: i success out rule: less_induct)
  case less
  show ?case
  proof (cases "i < length src")
    case False
    then have "success" using less.prems by (subst (asm) convert_loop) simp
    with False show ?thesis by (intro conjI exI [of _ "[]"]) simp_all
  next
    case True
    obtain ok c j where r: "read_char src (length src) i = (ok, c, j)" using prod_cases3 by blast
    have c: "fst (convert src (length src) (Suc j) (ok \<and> success) (out @ enc_out (if ok then c else 0xFFFD)))"
      using less.prems True r by (subst (asm) convert_loop) (simp split: if_splits)
    have "length src - Suc j < length src - i" using read_progress [OF True r] True by simp
    from less(1) [OF this c] obtain cs where ok: ok success
      and cs: "list_all IsValidCodepoint cs" "drop (Suc j) src = text_in cs" by blast
    from read_accepts [OF True] r ok obtain rest where v: "IsValidCodepoint c" and d: "drop i src = enc_in c @ rest" by auto
    have "Suc j = i + length (enc_in c)" using read_encoded [OF v d] r enc_nonempty [of c] by simp
    then have "rest = text_in cs" using cs(2) arg_cong [OF d, of "drop (length (enc_in c))"] by (simp add: add.commute)
    with ok cs v d show ?thesis by (intro conjI exI [of _ "c # cs"]) simp_all
  qed
qed

lemma convert_exact:
  "convert src (length src) 0 True [] = (True, dst) \<longleftrightarrow>
    (\<exists>cs. list_all IsValidCodepoint cs \<and> src = text_in cs \<and> dst = text_out cs)"
  using converts_text [of _ 0 src True "[]"] convert_success [of src 0 True "[]"]
  by (metis append_Nil drop0 fst_conv prod.inject)

end


section \<open>The two converters\<close>

lemma encoded_at_list:
  "i + length (CBU8_APPEND_UNSAFE c) \<le> length src \<Longrightarrow>
    encoded_at ((!) src) i c \<longleftrightarrow> (\<exists>rest. drop i src = CBU8_APPEND_UNSAFE c @ rest)"
proof -
  let ?e = "CBU8_APPEND_UNSAFE c"
  assume l: "i + length ?e \<le> length src"
  then have "map ((!) src) [i ..< i + length ?e] = take (length ?e) (drop i src)"
    by (intro nth_equalityI) simp_all
  moreover have "take (length ?e) (drop i src) = ?e \<longleftrightarrow> (\<exists>rest. drop i src = ?e @ rest)"
    by (metis append_eq_conv_conj append_take_drop_id)
  ultimately show ?thesis by (simp add: encoded_at_def)
qed

lemma decodes_list:
  "decodes ((!) src) i (length src) c \<longleftrightarrow> IsValidCodepoint c \<and> (\<exists>rest. drop i src = CBU8_APPEND_UNSAFE c @ rest)"
proof -
  have "i + length (CBU8_APPEND_UNSAFE c) \<le> length src" if "drop i src = CBU8_APPEND_UNSAFE c @ rest" for rest
    using arg_cong [OF that, of length] length_APPEND [of c] by (simp split: if_splits)
  then show ?thesis unfolding decodes_def using encoded_at_list [of i c src] by blast
qed

lemma APPEND_nonempty: "CBU8_APPEND_UNSAFE c \<noteq> []"
  using length_APPEND [of c] by (auto split: if_splits)

lemma sentinel_invalid: "\<not> IsValidCodepoint CBU_SENTINEL"
  by (simp add: valid_nat CBU_SENTINEL_def unsigned_minus_1_eq_mask mask_eq_exp_minus_1)

lemma decodes_unique: "decodes s i len c \<Longrightarrow> CBU8_NEXT s i len = (i + length (CBU8_APPEND_UNSAFE c), c)"
proof -
  assume d: "decodes s i len c"
  then have i: "i < len" using APPEND_nonempty [of c] by (cases "CBU8_APPEND_UNSAFE c") (auto simp: decodes_def)
  from next_exact [OF i] d obtain c' where c': "decodes s i len c'"
    "CBU8_NEXT s i len = (i + length (CBU8_APPEND_UNSAFE c'), c')" unfolding next_spec_def by blast
  have "c' = c"
  proof -
    consider "unat (s i) < 128" | "192 \<le> unat (s i)" "unat (s i) < 224"
      | "224 \<le> unat (s i)" "unat (s i) < 240" | "240 \<le> unat (s i)" using decodes_lead [OF d] by linarith
    then have "unat c' = unat c"
    proof cases
      case 1
      then have "unat c < 0x80" "unat c' < 0x80" using decodes_lead [OF d] decodes_lead [OF c'(1)] by auto
      then show ?thesis using encoded_nats [of c s i] encoded_nats [of c' s i] d c'(1) by (simp add: decodes_def)
    next
      case 2
      have "192 + unat c div 64 = 192 + unat c' div 64 \<and> 128 + unat c mod 64 = 128 + unat c' mod 64"
        using decodes_nats(1) [OF d 2] decodes_nats(1) [OF c'(1) 2] by metis
      then have "unat c div 64 = unat c' div 64" "unat c mod 64 = unat c' mod 64" by simp_all
      then show ?thesis by (metis mult_div_mod_eq)
    next
      case 3
      have "224 + unat c div 4096 = 224 + unat c' div 4096 \<and> 128 + unat c div 64 mod 64 = 128 + unat c' div 64 mod 64
          \<and> 128 + unat c mod 64 = 128 + unat c' mod 64"
        using decodes_nats(2) [OF d 3] decodes_nats(2) [OF c'(1) 3] by metis
      then show ?thesis unfolding div_parts add_left_cancel by (metis parts2)
    next
      case 4
      have "240 + unat c div 262144 = 240 + unat c' div 262144 \<and> 128 + unat c div 4096 mod 64 = 128 + unat c' div 4096 mod 64
          \<and> 128 + unat c div 64 mod 64 = 128 + unat c' div 64 mod 64 \<and> 128 + unat c mod 64 = 128 + unat c' mod 64"
        using decodes_nats(3) [OF d 4] decodes_nats(3) [OF c'(1) 4] by metis
      then show ?thesis unfolding div_parts add_left_cancel by (metis parts3)
    qed
    then show ?thesis by (simp add: word_unat_eq_iff)
  qed
  with c' show ?thesis by simp
qed

lemma write8: "WriteUnicodeCharacter8 c out = out @ CBU8_APPEND_UNSAFE c"
  by (simp add: WriteUnicodeCharacter8_def CBU8_APPEND_UNSAFE_def)

lemma write16: "WriteUnicodeCharacter16 c out = out @ CBU16_APPEND_UNSAFE c"
  by (simp add: WriteUnicodeCharacter16_def CBU16_APPEND_UNSAFE_def CBU16_LENGTH_def)

interpretation conv8: unicode_converter ReadUnicodeCharacter8 CBU8_APPEND_UNSAFE CBU16_APPEND_UNSAFE convert_8_to_16
proof unfold_locales
  fix c src i rest
  assume "IsValidCodepoint c" "drop i src = CBU8_APPEND_UNSAFE c @ rest"
  then show "ReadUnicodeCharacter8 src (length src) i = (True, c, i + length (CBU8_APPEND_UNSAFE c) - 1)"
    using decodes_unique [of "(!) src" i "length src" c] by (auto simp: ReadUnicodeCharacter8_def decodes_list)
next
  fix src i c j
  assume i: "i < length src" and r: "ReadUnicodeCharacter8 src (length src) i = (True, c, j)"
  obtain k c0 where n: "CBU8_NEXT ((!) src) i (length src) = (k, c0)" by fastforce
  with r have "IsValidCodepoint c" "c0 = c" by (auto simp: ReadUnicodeCharacter8_def)
  with next_exact [OF i, of "(!) src"] n have "decodes ((!) src) i (length src) c"
    using sentinel_invalid by (auto simp: next_spec_def)
  then show "IsValidCodepoint c \<and> (\<exists>rest. drop i src = CBU8_APPEND_UNSAFE c @ rest)" by (simp add: decodes_list)
next
  show "i < length src \<Longrightarrow> ReadUnicodeCharacter8 src (length src) i = (ok, c, j) \<Longrightarrow> i \<le> j" for src i ok c j
    using ReadUnicodeCharacter8_bounds by blast
  show "CBU8_APPEND_UNSAFE c \<noteq> []" for c by (rule APPEND_nonempty)
  show "convert_8_to_16 src len i success out =
      (if i < len then
         let (ok, c, j) = ReadUnicodeCharacter8 src len i in
         if ok then convert_8_to_16 src len (j + 1) success (out @ CBU16_APPEND_UNSAFE c)
         else convert_8_to_16 src len (j + 1) False (out @ CBU16_APPEND_UNSAFE 0xFFFD)
       else (success, out))" for src len i success out
    by (subst convert_8_to_16.simps) (simp only: write16)
qed


section \<open>UTF-16\<close>

definition utf16_nats :: "nat \<Rightarrow> nat list" where
  "utf16_nats n = (if n < 0x10000 then [n] else [0xD800 + (n - 0x10000) div 1024, 0xDC00 + (n - 0x10000) mod 1024])"

lemma unat_ucast16: "unat x < 65536 \<Longrightarrow> unat (ucast x :: u16) = unat x" for x :: "'a :: len word"
  by (simp add: unsigned_ucast_eq take_bit_nat_eq_self)

lemma u16_less: "unat x < 65536" for x :: u16
  using unsigned_less [of x, where ?'a = nat] by simp

lemma unat_ucast_16_32: "unat (ucast x :: u32) = unat x" for x :: u16
proof -
  have "unat x < 2 ^ 32" using u16_less [of x] by simp
  then show ?thesis by (simp add: unsigned_ucast_eq take_bit_nat_eq_self)
qed

lemma supplementary_parts:
  assumes "0x10000 \<le> n"
  shows "n div 1024 = 64 + (n - 0x10000) div 1024" and "n mod 1024 = (n - 0x10000) mod (1024 :: nat)"
proof -
  obtain m where n: "n = m + 64 * 1024" using assms le_Suc_ex [of "64 * 1024" n] by auto
  have "n - 0x10000 = m" using n by simp
  moreover have "n div 1024 = 64 + m div 1024" "n mod 1024 = m mod 1024" unfolding n by (simp_all only: div_mult_self1 mod_mult_self1)
  ultimately show "n div 1024 = 64 + (n - 0x10000) div 1024" "n mod 1024 = (n - 0x10000) mod 1024" by simp_all
qed

lemma APPEND16_nats:
  assumes "unat c < 0x110000"
  shows "map unat (CBU16_APPEND_UNSAFE c) = utf16_nats (unat c)"
proof (cases "unat c < 0x10000")
  case True
  then show ?thesis by (simp add: CBU16_APPEND_UNSAFE_def utf16_nats_def word_le_nat_alt unat_ucast16)
next
  case False
  let ?n = "unat c"
  have d: "?n div 1024 < 0x440" using assms by (simp add: less_mult_imp_div_less)
  have "unat (drop_bit 10 c + 0xd7c0) = ?n div 1024 + 0xd7c0" using d by (simp add: unat_word_ariths unat_drop)
  then have hi: "unat (ucast (drop_bit 10 c + 0xd7c0) :: u16) = ?n div 1024 + 0xd7c0" using d by (simp add: unat_ucast16)
  have t: "unat (c AND 0x3ff) = ?n mod 1024" by (rule unat_3ff)
  have "(c AND 0x3ff) OR 0xdc00 = (c AND 0x3ff) + 0xdc00"
    using or_add [of "c AND 0x3ff" 10 "0x37"] t by (simp add: push_bit_eq_mult)
  moreover have "?n mod 1024 < 1024" by simp
  ultimately have lo: "unat (ucast ((c AND 0x3ff) OR 0xdc00) :: u16) = 0xdc00 + ?n mod 1024"
    using t by (simp add: unat_ucast16 unat_word_ariths)
  show ?thesis
    using False hi lo supplementary_parts [of ?n]
    by (simp add: CBU16_APPEND_UNSAFE_def utf16_nats_def word_le_nat_alt)
qed

lemma and_high_mask: "(x AND NOT (mask k)) = c \<longleftrightarrow> unat x div 2 ^ k * 2 ^ k = unat c" for x c :: u32
proof -
  have "x AND NOT (mask k) = push_bit k (drop_bit k x)" by (rule bit_word_eqI) (auto simp: bit_simps)
  moreover have "unat (push_bit k (drop_bit k x)) = unat x div 2 ^ k * 2 ^ k"
  proof -
    have "unat x div 2 ^ k * 2 ^ k < 2 ^ 32"
      using le_less_trans [OF div_times_less_eq_dividend [of "unat x" "2 ^ k"] u32_less [of x]] by simp
    then show ?thesis by (simp only: unsigned_push_bit_eq unat_drop) (simp add: push_bit_eq_mult take_bit_nat_eq_self)
  qed
  ultimately show ?thesis by (simp add: word_unat_eq_iff)
qed

lemma div_interval: "0 < k \<Longrightarrow> n div k = q \<longleftrightarrow> k * q \<le> n \<and> n < k * Suc q" for n :: nat
  by (metis Suc_eq_plus1 div_less_iff_less_mult div_nat_eqI less_eq_div_iff_mult_less_eq less_Suc_eq_le mult.commute order_refl)

lemma trail16: "CBU16_IS_TRAIL c \<longleftrightarrow> 0xDC00 \<le> unat c \<and> unat c < 0xE000"
proof -
  have m: "(0xfffffc00 :: u32) = NOT (mask 10)" by (simp add: mask_eq_exp_minus_1)
  have "CBU16_IS_TRAIL c \<longleftrightarrow> unat c div 1024 = 55" unfolding CBU16_IS_TRAIL_def m and_high_mask by simp
  then show ?thesis by (simp add: div_interval)
qed

lemma lead16:
  assumes "0xD800 \<le> unat c" and "unat c < 0xE000"
  shows "CBU16_IS_SURROGATE_LEAD c \<longleftrightarrow> unat c < 0xDC00"
proof -
  have "c AND 0x400 = 0 \<longleftrightarrow> \<not> bit c 10"
    using and_exp_eq_0_iff_not_bit [of c 10] by simp
  moreover have "bit c 10 \<longleftrightarrow> bit (drop_bit 10 c) 0" by (simp only: bit_drop_bit_eq comp_def add_0_right)
  moreover have "drop_bit 10 c = (if unat c < 0xDC00 then 54 else 55)"
    using assms by (simp add: word_unat_eq_iff unat_drop div_interval)
  ultimately show ?thesis by (simp add: CBU16_IS_SURROGATE_LEAD_def)
qed

lemma surrogate16: "CBU_IS_SURROGATE (ucast u) \<longleftrightarrow> 0xD800 \<le> unat u \<and> unat u < 0xE000" for u :: u16
  using surrogate_test [of "ucast u"] u16_less [of u] by (simp add: unat_ucast_16_32)

lemma supplementary_value:
  assumes "0xD800 \<le> unat h" "unat h < 0xDC00" "0xDC00 \<le> unat l" "unat l < 0xE000"
  shows "unat (CBU16_GET_SUPPLEMENTARY h l) = 0x10000 + (unat h - 0xD800) * 1024 + (unat l - 0xDC00)"
proof -
  have "unat (push_bit 10 h) = unat h * 1024"
    using assms by (simp only: unsigned_push_bit_eq) (simp add: push_bit_eq_mult take_bit_nat_eq_self)
  moreover have "push_bit 10 0xd800 + 0xdc00 - 0x10000 = (0x35FDC00 :: u32)" by (simp add: push_bit_eq_mult)
  moreover have "unat (push_bit 10 h + l) = unat (push_bit 10 h) + unat l"
    using assms calculation(1) by (simp add: unat_word_ariths)
  ultimately show ?thesis using assms
    by (simp add: CBU16_GET_SUPPLEMENTARY_def unat_sub_if_size word_le_nat_alt)
qed


lemma drop_Cons_nth: "drop i xs = a # ys \<longleftrightarrow> i < length xs \<and> xs ! i = a \<and> drop (Suc i) xs = ys"
  by (metis Cons_nth_drop_Suc drop_all list.distinct(1) list.inject not_le)

lemma read16_pair:
  assumes "i < length src" and "IsValidCodepoint c" and "\<not> unat c < 0x10000"
    and "map unat (CBU16_APPEND_UNSAFE c) = map unat [src ! i, src ! Suc i]" and "Suc i < length src"
  shows "ReadUnicodeCharacter16 src (length src) i = (True, c, Suc i)"
proof -
  let ?u = "ucast (src ! i) :: u32" and ?v = "ucast (src ! Suc i) :: u32"
  have lt: "unat c < 0x110000" using assms(2) by (auto simp: valid_nat)
  have e: "unat (src ! i) = 0xD800 + (unat c - 0x10000) div 1024" "unat (src ! Suc i) = 0xDC00 + (unat c - 0x10000) mod 1024"
    using assms(3,4) APPEND16_nats [OF lt] by (simp_all add: utf16_nats_def)
  have d: "(unat c - 0x10000) div 1024 < 1024" "(unat c - 0x10000) mod 1024 < 1024"
    using lt by (simp_all add: less_mult_imp_div_less)
  have r: "0xD800 \<le> unat ?u" "unat ?u < 0xDC00" "0xDC00 \<le> unat ?v" "unat ?v < 0xE000"
    using e d by (simp_all add: unat_ucast_16_32)
  have "unat (CBU16_GET_SUPPLEMENTARY ?u ?v) = unat c"
    unfolding supplementary_value [OF r] unat_ucast_16_32 e
    using assms(3) mult_div_mod_eq [of 1024 "unat c - 0x10000"] by simp
  then have "CBU16_GET_SUPPLEMENTARY ?u ?v = c" by (simp add: word_unat_eq_iff)
  then show ?thesis
    using assms(2,5) r by (simp add: ReadUnicodeCharacter16_def surrogate16 lead16 trail16 unat_ucast_16_32)
qed

lemma read16_encoded:
  assumes "IsValidCodepoint c" and "drop i src = CBU16_APPEND_UNSAFE c @ rest"
  shows "ReadUnicodeCharacter16 src (length src) i = (True, c, i + length (CBU16_APPEND_UNSAFE c) - 1)"
proof (cases "unat c < 0x10000")
  case True
  then have i: "i < length src" "src ! i = ucast c" "length (CBU16_APPEND_UNSAFE c) = 1"
    using assms(2) by (auto simp: CBU16_APPEND_UNSAFE_def word_le_nat_alt drop_Cons_nth)
  have "unat (ucast (src ! i) :: u32) = unat c" using True i by (simp only: unat_ucast_16_32 i(2)) (simp add: unat_ucast16)
  then have e: "(ucast (src ! i) :: u32) = c" by (simp add: word_unat_eq_iff)
  then have "\<not> CBU_IS_SURROGATE (ucast (src ! i))" using assms(1) True by (auto simp: surrogate_test valid_nat)
  then show ?thesis using i(3) assms(1) by (simp add: ReadUnicodeCharacter16_def e)
next
  case False
  then obtain a b where ab: "CBU16_APPEND_UNSAFE c = [a, b]" by (auto simp: CBU16_APPEND_UNSAFE_def word_le_nat_alt)
  then have i: "i < length src" "Suc i < length src" "src ! i = a" "src ! Suc i = b"
    using assms(2) by (auto simp: drop_Cons_nth)
  then have "map unat (CBU16_APPEND_UNSAFE c) = map unat [src ! i, src ! Suc i]" using ab by simp
  from read16_pair [OF i(1) assms(1) False this i(2)] ab show ?thesis by simp
qed

lemma read16_accepts:
  assumes "i < length src" and "ReadUnicodeCharacter16 src (length src) i = (True, c, j)"
  shows "IsValidCodepoint c \<and> (\<exists>rest. drop i src = CBU16_APPEND_UNSAFE c @ rest)"
proof (cases "CBU_IS_SURROGATE (ucast (src ! i))")
  case False
  then have c: "IsValidCodepoint c" "c = ucast (src ! i)" using assms(2) by (auto simp: ReadUnicodeCharacter16_def Let_def)
  have lt: "unat c < 0x10000" unfolding c(2) unat_ucast_16_32 by (rule u16_less)
  moreover have "unat c = unat (src ! i)" unfolding c(2) by (rule unat_ucast_16_32)
  ultimately have "unat (ucast c :: u16) = unat (src ! i)" by (simp add: unat_ucast16)
  then have "(ucast c :: u16) = src ! i" by (simp add: word_unat_eq_iff)
  then have "CBU16_APPEND_UNSAFE c = [src ! i]" using lt by (simp add: CBU16_APPEND_UNSAFE_def word_le_nat_alt)
  then show ?thesis using c(1) assms(1) by (auto simp: drop_Cons_nth)
next
  case True
  let ?u = "ucast (src ! i) :: u32" and ?v = "ucast (src ! Suc i) :: u32"
  have u: "0xD800 \<le> unat ?u" "unat ?u < 0xE000" using True by (simp_all add: surrogate16 unat_ucast_16_32)
  have s: "CBU16_IS_SURROGATE_LEAD ?u" "Suc i < length src" "CBU16_IS_TRAIL ?v" "IsValidCodepoint c"
      and c: "c = CBU16_GET_SUPPLEMENTARY ?u ?v"
    using assms(2) True by (auto simp: ReadUnicodeCharacter16_def Let_def split: if_splits)
  have r: "unat ?u < 0xDC00" "0xDC00 \<le> unat ?v" "unat ?v < 0xE000" using s(1,3) u by (simp_all add: lead16 trail16)
  have v: "unat c = 0x10000 + (unat ?u - 0xD800) * 1024 + (unat ?v - 0xDC00)"
    unfolding c by (rule supplementary_value [OF u(1) r])
  have lt: "unat c < 0x110000" using s(4) by (auto simp: valid_nat)
  have "unat c - 0x10000 = (unat ?u - 0xD800) * 1024 + (unat ?v - 0xDC00)" using v by simp
  moreover have "unat ?v - 0xDC00 < 1024" using r by simp
  ultimately have "(unat c - 0x10000) div 1024 = unat ?u - 0xD800" "(unat c - 0x10000) mod 1024 = unat ?v - 0xDC00"
    by simp_all
  moreover have "\<not> unat c < 0x10000" using v by simp
  ultimately have "utf16_nats (unat c) = [0xD800 + (unat ?u - 0xD800), 0xDC00 + (unat ?v - 0xDC00)]"
    by (simp only: utf16_nats_def if_False)
  then have "map unat (CBU16_APPEND_UNSAFE c) = map unat [src ! i, src ! Suc i]"
    unfolding APPEND16_nats [OF lt] using r u by (simp add: unat_ucast_16_32)
  then have "CBU16_APPEND_UNSAFE c = [src ! i, src ! Suc i]" by (simp only: map_unat_inject)
  then show ?thesis using s(2,4) by (auto simp: drop_Cons_nth)
qed

interpretation conv16: unicode_converter ReadUnicodeCharacter16 CBU16_APPEND_UNSAFE CBU8_APPEND_UNSAFE convert_16_to_8
proof (unfold_locales, goal_cases)
  case (3 i src ok c j)
  then show ?case using ReadUnicodeCharacter16_bounds by blast
next
  case (4 c)
  show ?case by (simp add: CBU16_APPEND_UNSAFE_def)
next
  case (5 src len i success out)
  show ?case by (subst convert_16_to_8.simps) (simp only: write8)
qed (rule read16_encoded read16_accepts, assumption+)+

section \<open>The ASCII test\<close>

lemma bit_load_chars:
  "n < 64 \<Longrightarrow> bit (load_chars cs) n \<longleftrightarrow> n div LENGTH('c) < length cs \<and> bit (cs ! (n div LENGTH('c))) (n mod LENGTH('c))"
  for cs :: "'c :: len word list"
proof (induction cs arbitrary: n)
  case (Cons c cs)
  show ?case
  proof (cases "n < LENGTH('c)")
    case True
    with Cons.prems show ?thesis by (simp add: bit_simps)
  next
    case False
    then have "n div LENGTH('c) = Suc ((n - LENGTH('c)) div LENGTH('c))" "n mod LENGTH('c) = (n - LENGTH('c)) mod LENGTH('c)"
      by (simp_all add: le_div_geq le_mod_geq)
    moreover have "\<not> bit (ucast c :: u64) n" using False bit_imp_le_length [of c n] by (auto simp: bit_simps)
    moreover have "bit (push_bit LENGTH('c) (load_chars cs)) n \<longleftrightarrow> bit (load_chars cs) (n - LENGTH('c))"
      using False Cons.prems by (simp add: bit_simps)
    ultimately show ?thesis using Cons.IH [of "n - LENGTH('c)"] Cons.prems by (simp add: bit_or_iff)
  qed
qed simp


lemma mask8_bits: "n < 64 \<Longrightarrow> bit (0x8080808080808080 :: u64) n \<longleftrightarrow> n mod 8 = 7"
proof -
  assume "n < 64"
  moreover have "list_all (\<lambda>n. bit (0x8080808080808080 :: u64) n \<longleftrightarrow> n mod 8 = 7) [0 ..< 64]"
    by (simp add: upt_rec)
  ultimately show ?thesis by (simp add: list_all_iff)
qed

lemma mask16_bits: "n < 64 \<Longrightarrow> bit (0xFF80FF80FF80FF80 :: u64) n \<longleftrightarrow> 7 \<le> n mod 16"
proof -
  assume "n < 64"
  moreover have "list_all (\<lambda>n. bit (0xFF80FF80FF80FF80 :: u64) n \<longleftrightarrow> 7 \<le> n mod 16) [0 ..< 64]"
    by (simp add: upt_rec)
  ultimately show ?thesis by (simp add: list_all_iff)
qed


definition ascii :: "'c :: len word list \<Rightarrow> bool" where "ascii = list_all (\<lambda>c. unat c < 128)"

lemma ascii_simps [simp]: "ascii []" "ascii (c # cs) \<longleftrightarrow> unat c < 128 \<and> ascii cs" "ascii (as @ bs) \<longleftrightarrow> ascii as \<and> ascii bs"
  by (simp_all add: ascii_def)

lemma small_bits: "unat c < 128 \<longleftrightarrow> (\<forall>n \<ge> 7. \<not> bit c n)" for c :: "'c :: len word"
proof
  assume c: "unat c < 128"
  show "\<forall>n \<ge> 7. \<not> bit c n"
  proof (intro allI impI notI)
    fix n :: nat
    assume n: "7 \<le> n" and "bit c n"
    then have "2 ^ n \<le> unat c" by (intro bit_le_unat)
    moreover have "(2 :: nat) ^ 7 \<le> 2 ^ n" using n by (intro power_increasing) simp_all
    ultimately show False using c by simp
  qed
next
  assume "\<forall>n \<ge> 7. \<not> bit c n"
  then have "take_bit 7 c = c" by (intro bit_word_eqI) (auto simp: bit_take_bit_iff not_le)
  moreover have e: "unat (take_bit 7 c) = take_bit 7 (unat c)" by (rule unsigned_take_bit_eq)
  have "unat (take_bit 7 c) < 2 ^ 7" unfolding e by (simp add: take_bit_eq_mod)
  ultimately show "unat c < 128" by simp
qed

lemma and_zero_bits: "x AND y = 0 \<longleftrightarrow> (\<forall>n < 64. bit x n \<longrightarrow> \<not> bit y n)" for x y :: u64
proof
  assume "x AND y = 0"
  then have "\<not> bit (x AND y) n" for n by simp
  then show "\<forall>n < 64. bit x n \<longrightarrow> \<not> bit y n" by (simp add: bit_and_iff)
qed (auto intro!: bit_word_eqI simp: bit_and_iff)

lemma word_ascii:
  fixes cs :: "'c :: len word list"
  assumes m: "\<And>n. n < 64 \<Longrightarrow> bit m n \<longleftrightarrow> 7 \<le> n mod LENGTH('c)" and l: "length cs \<le> 64 div LENGTH('c)"
  shows "load_chars cs AND m = 0 \<longleftrightarrow> ascii cs"
proof
  assume "ascii cs"
  then have "\<not> bit (cs ! i) n" if "i < length cs" "7 \<le> n" for i n using that by (simp add: ascii_def list_all_length small_bits)
  then show "load_chars cs AND m = 0" unfolding and_zero_bits using m bit_load_chars [of _ cs] by blast
next
  assume z: "load_chars cs AND m = 0"
  have "\<not> bit (cs ! i) n" if i: "i < length cs" and n: "7 \<le> n" for i n
  proof
    assume b: "bit (cs ! i) n"
    then have nk: "n < LENGTH('c)" by (rule bit_imp_le_length)
    let ?p = "i * LENGTH('c) + n"
    have d: "?p div LENGTH('c) = i" "?p mod LENGTH('c) = n" using nk by simp_all
    have "Suc i * LENGTH('c) \<le> 64 div LENGTH('c) * LENGTH('c)" using i l by (intro mult_le_mono1) simp
    also have "\<dots> \<le> 64" by simp
    finally have "?p < 64" using nk by simp
    then show False using z m [of ?p] bit_load_chars [of ?p cs] i n b unfolding and_zero_bits d by blast
  qed
  then show "ascii cs" by (simp add: ascii_def list_all_length small_bits)
qed

lemma or_and_zero: "(x OR y) AND m = 0 \<longleftrightarrow> x AND m = 0 \<and> y AND m = 0" for x y m :: u64
  by (auto simp: and_zero_bits bit_or_iff)


text \<open>The loops: what is accumulated, and no load beyond the end.\<close>

lemma prologue:
  fixes cs :: "'c :: len word list"
  assumes w: "\<And>c. widen c AND m = 0 \<longleftrightarrow> unat (c :: 'c word) < 128"
  shows "ascii_prologue widen a cs bits = (a', cs', bits') \<Longrightarrow>
    (bits' AND m = 0 \<and> ascii cs' \<longleftrightarrow> bits AND m = 0 \<and> ascii cs)
    \<and> a' + length cs' * (LENGTH('c) div 8) = a + length cs * (LENGTH('c) div 8)
    \<and> (cs' = [] \<or> IsAlignedToMachineWord a')"
proof (induction cs arbitrary: a bits)
  case (Cons c cs)
  show ?case
  proof (cases "IsAlignedToMachineWord a")
    case False
    then have "ascii_prologue widen (a + LENGTH('c) div 8) cs (bits OR widen c) = (a', cs', bits')" using Cons.prems by simp
    from Cons.IH [OF this] show ?thesis by (auto simp: or_and_zero w algebra_simps)
  qed (use Cons.prems in auto)
qed auto

lemma and_7: "a AND 7 = a mod (8 :: nat)"
proof -
  have "a AND mask 3 = take_bit 3 a" by (rule take_bit_eq_mask [symmetric])
  then show ?thesis by (simp add: take_bit_eq_mod mask_eq_exp_minus_1)
qed

lemma words:
  fixes cs :: "'c :: len word list"
  assumes m: "\<And>n. n < 64 \<Longrightarrow> bit m n \<longleftrightarrow> 7 \<le> n mod LENGTH('c)" and k: "LENGTH('c) = 8 * sz" "sz dvd 8" "0 < sz"
  shows "cs = [] \<or> 8 dvd a \<Longrightarrow> a + length cs * sz = end_addr \<Longrightarrow>
    \<exists>cs' bits'. ascii_words a (end_addr - end_addr mod 8) cs bits = Some (cs', bits')
      \<and> (bits' AND m = 0 \<and> ascii cs' \<longleftrightarrow> bits AND m = 0 \<and> ascii cs)"
proof (induction "end_addr - a" arbitrary: a cs bits rule: less_induct)
  case less
  let ?n = "8 div sz"
  have n: "8 div (LENGTH('c) div 8) = ?n" using k by simp
  show ?case
  proof (cases "a < end_addr - end_addr mod 8")
    case False
    then show ?thesis by (subst ascii_words.simps) simp
  next
    case True
    then have a: "8 dvd a" using less.prems by auto
    then obtain x where x: "a = 8 * x" by blast
    have e: "end_addr = 8 * (end_addr div 8) + end_addr mod 8" by simp
    then have "x < end_addr div 8" using True x by linarith
    then have "a + 8 \<le> end_addr" using x e by linarith
    then have "8 \<le> length cs * sz" using less.prems(2) by simp
    moreover have n8: "?n * sz = 8" using k(2) by simp
    ultimately have l: "?n \<le> length cs" using k(3) by (metis mult_le_cancel2)
    have d: "a + 8 + length (drop ?n cs) * sz = end_addr"
      using less.prems(2) l n8 by (simp add: diff_mult_distrib \<open>8 \<le> length cs * sz\<close>)
    have "end_addr - (a + 8) < end_addr - a" using \<open>a + 8 \<le> end_addr\<close> by simp
    from less.hyps [OF this _ d, of "bits OR load_chars (take ?n cs)"] a
    obtain cs' bits' where r: "ascii_words (a + 8) (end_addr - end_addr mod 8) (drop ?n cs) (bits OR load_chars (take ?n cs)) = Some (cs', bits')"
      "bits' AND m = 0 \<and> ascii cs' \<longleftrightarrow> (bits OR load_chars (take ?n cs)) AND m = 0 \<and> ascii (drop ?n cs)" by fastforce
    have "64 div LENGTH('c) = ?n" using k div_mult_mult1 [of 8 8 sz] by simp
    then have "load_chars (take ?n cs) AND m = 0 \<longleftrightarrow> ascii (take ?n cs)" by (intro word_ascii [OF m]) simp_all
    moreover have "ascii (take ?n cs) \<and> ascii (drop ?n cs) \<longleftrightarrow> ascii cs" by (metis append_take_drop_id ascii_simps(3))
    moreover have "ascii_words a (end_addr - end_addr mod 8) cs bits
        = ascii_words (a + 8) (end_addr - end_addr mod 8) (drop ?n cs) (bits OR load_chars (take ?n cs))"
      using True l n by (subst ascii_words.simps) (simp add: Let_def)
    ultimately show ?thesis using r or_and_zero by auto
  qed
qed

lemma fold_ascii:
  fixes widen :: "'c :: len word \<Rightarrow> u64"
  assumes w: "\<And>c. widen c AND m = 0 \<longleftrightarrow> unat c < 128"
  shows "fold (\<lambda>c bits. bits OR widen c) cs bits AND m = 0 \<longleftrightarrow> bits AND m = 0 \<and> ascii cs"
proof (induction cs arbitrary: bits)
  case (Cons c cs)
  have "(bits OR widen c) AND m = 0 \<longleftrightarrow> bits AND m = 0 \<and> unat c < 128" by (simp only: or_and_zero w)
  then show ?case using Cons [of "bits OR widen c"] by (simp only: fold_simps ascii_simps) blast
qed simp

lemma DoIsStringASCII_exact:
  fixes cs :: "'c :: len word list"
  assumes m: "\<And>n. n < 64 \<Longrightarrow> bit m n \<longleftrightarrow> 7 \<le> n mod LENGTH('c)" and k: "LENGTH('c) = 8 * sz" "sz dvd 8" "0 < sz"
    and w: "\<And>c. widen c AND m = 0 \<longleftrightarrow> unat (c :: 'c word) < 128"
  shows "DoIsStringASCII widen m addr cs = Some (ascii cs)"
proof -
  obtain a' cs' bits' where p: "ascii_prologue widen addr cs 0 = (a', cs', bits')" using prod_cases3 by blast
  from prologue [of widen m, OF w p] have q: "bits' AND m = 0 \<and> ascii cs' \<longleftrightarrow> ascii cs"
    "a' + length cs' * sz = addr + length cs * sz" "cs' = [] \<or> 8 dvd a'"
    using k by (auto simp: IsAlignedToMachineWord_def kMachineWordAlignmentMask_def and_7 mod_eq_0_iff_dvd)
  have sz: "LENGTH('c) div 8 = sz" using k by simp
  obtain cs'' bits'' where r: "ascii_words a' (AlignToMachineWord (addr + length cs * (LENGTH('c) div 8))) cs' bits' = Some (cs'', bits'')"
    "bits'' AND m = 0 \<and> ascii cs'' \<longleftrightarrow> bits' AND m = 0 \<and> ascii cs'"
    using words [OF m k q(3,2), of bits'] unfolding sz AlignToMachineWord_def kMachineWordAlignmentMask_def and_7 by blast
  have "fold (\<lambda>c bits. bits OR widen c) cs'' bits'' AND m = 0 \<longleftrightarrow> ascii cs"
    using fold_ascii [of widen m cs'' bits'', OF w] r(2) q(1) by blast
  then show ?thesis unfolding DoIsStringASCII_def Let_def p prod.case r(1) option.case by blast
qed

lemma bit_scast_low: "\<not> bit c 7 \<Longrightarrow> (scast c :: 'b :: len word) = ucast c" for c :: u8
proof -
  assume b: "\<not> bit c 7"
  have "\<not> bit c n" if "7 \<le> n" for n
    using b that bit_imp_le_length [of c n] by (cases "n = 7") auto
  then show ?thesis by (intro bit_word_eqI) (simp add: bit_simps min_def)
qed

lemma IsStringASCII8_exact: "IsStringASCII8 addr cs = Some (ascii cs)"
  unfolding IsStringASCII8_def
proof (rule DoIsStringASCII_exact [where sz = 1])
  have m: "bit (0x8080808080808080 :: u64) n \<longleftrightarrow> 7 \<le> n mod LENGTH(8)" if "n < 64" for n
    using mask8_bits [OF that] by (simp, arith)
  then show "n < 64 \<Longrightarrow> bit (0x8080808080808080 :: u64) n \<longleftrightarrow> 7 \<le> n mod LENGTH(8)" for n .
  fix c :: u8
  show "scast c AND 0x8080808080808080 = (0 :: u64) \<longleftrightarrow> unat c < 128"
  proof (cases "bit c 7")
    case True
    then have "bit (scast c AND 0x8080808080808080 :: u64) 7" using m [of 7] by (simp add: bit_simps)
    then show ?thesis using True by (auto simp: small_bits)
  next
    case False
    then show ?thesis using word_ascii [of "0x8080808080808080" "[c]", OF m] by (simp add: bit_scast_low)
  qed
qed simp_all

lemma IsStringASCII16_exact: "IsStringASCII16 addr cs = Some (ascii cs)"
  unfolding IsStringASCII16_def
proof (rule DoIsStringASCII_exact [where sz = 2])
  have m: "bit (0xFF80FF80FF80FF80 :: u64) n \<longleftrightarrow> 7 \<le> n mod LENGTH(16)" if "n < 64" for n
    using mask16_bits [OF that] by simp
  then show "n < 64 \<Longrightarrow> bit (0xFF80FF80FF80FF80 :: u64) n \<longleftrightarrow> 7 \<le> n mod LENGTH(16)" for n .
  show "ucast c AND 0xFF80FF80FF80FF80 = (0 :: u64) \<longleftrightarrow> unat c < 128" for c :: u16
    using word_ascii [of "0xFF80FF80FF80FF80" "[c]", OF m] by simp
qed simp_all


section \<open>The conversions\<close>

text \<open>Unicode text by RFC 3629 and RFC 2781: scalar values, and their units as numbers.\<close>

definition scalar_value :: "nat \<Rightarrow> bool" where
  "scalar_value n \<longleftrightarrow> n < 0xD800 \<or> (0xE000 \<le> n \<and> n < 0x110000)"

definition utf8_text :: "nat list \<Rightarrow> nat list" where "utf8_text cs = concat (map utf8_nats cs)"
definition utf16_text :: "nat list \<Rightarrow> nat list" where "utf16_text cs = concat (map utf16_nats cs)"

lemma valid_scalar: "IsValidCodepoint c \<longleftrightarrow> scalar_value (unat c)"
  by (simp add: valid_nat scalar_value_def)

lemma text8: "list_all IsValidCodepoint cs \<Longrightarrow> map unat (concat (map CBU8_APPEND_UNSAFE cs)) = utf8_text (map unat cs)"
  by (induction cs) (auto simp: utf8_text_def APPEND_nats valid_nat)

lemma text16: "list_all IsValidCodepoint cs \<Longrightarrow> map unat (concat (map CBU16_APPEND_UNSAFE cs)) = utf16_text (map unat cs)"
  by (induction cs) (auto simp: utf16_text_def APPEND16_nats valid_nat)

lemma scalars_as_words:
  "list_all scalar_value ns \<Longrightarrow> \<exists>cs :: u32 list. list_all IsValidCodepoint cs \<and> ns = map unat cs"
proof (induction ns)
  case (Cons n ns)
  then obtain cs :: "u32 list" where "list_all IsValidCodepoint cs" "ns = map unat cs" by auto
  moreover have "unat (of_nat n :: u32) = n" using Cons.prems by (intro unat_of_nat_u32) (auto simp: scalar_value_def)
  ultimately show ?case using Cons.prems by (intro exI [of _ "of_nat n # cs"]) (simp add: valid_scalar list_all_iff)
qed simp

lemma words_as_scalars:
  "(\<exists>cs. list_all IsValidCodepoint cs \<and> P (map unat cs)) \<longleftrightarrow> (\<exists>ns. list_all scalar_value ns \<and> P ns)"
proof
  assume "\<exists>cs. list_all IsValidCodepoint cs \<and> P (map unat cs)"
  then obtain cs where "list_all IsValidCodepoint cs" "P (map unat cs)" by blast
  then show "\<exists>ns. list_all scalar_value ns \<and> P ns"
    by (intro exI [of _ "map unat cs"]) (simp add: list_all_iff valid_scalar)
next
  assume "\<exists>ns. list_all scalar_value ns \<and> P ns"
  then show "\<exists>cs. list_all IsValidCodepoint cs \<and> P (map unat cs)" using scalars_as_words by blast
qed

lemma src_len32_small: "n < 2 ^ 31 \<Longrightarrow> src_len32 n = n"
proof -
  assume n: "n < 2 ^ 31"
  then have "unat (of_nat n :: u32) = n" by (intro unat_of_nat_u32) simp
  with n sint_small [of "of_nat n"] show ?thesis by (simp add: src_len32_def)
qed

text \<open>The ASCII shortcut gives what the loop gives.\<close>

lemma ascii_units:
  "ascii src \<Longrightarrow> \<exists>cs. list_all IsValidCodepoint cs \<and> src = concat (map CBU8_APPEND_UNSAFE cs)
    \<and> map scast src = concat (map CBU16_APPEND_UNSAFE cs)"
proof (induction src)
  case Nil
  show ?case by (intro exI [of _ "[]"]) simp
next
  case (Cons b src)
  then obtain cs where cs: "list_all IsValidCodepoint cs" "src = concat (map CBU8_APPEND_UNSAFE cs)"
    "map scast src = concat (map CBU16_APPEND_UNSAFE cs)" by auto
  let ?c = "ucast b :: u32"
  have b: "unat b < 128" using Cons.prems by simp
  then have c: "unat ?c = unat b" by (simp add: unat_ucast_8_32)
  have "CBU8_APPEND_UNSAFE ?c = [b]"
    using b c by (simp add: CBU8_APPEND_UNSAFE_def word_le_nat_alt word_unat_eq_iff unat_ucast8)
  moreover have "CBU16_APPEND_UNSAFE ?c = [ucast b]"
    using b c by (simp add: CBU16_APPEND_UNSAFE_def word_le_nat_alt word_unat_eq_iff unat_ucast16)
  moreover have "(scast b :: u16) = ucast b" using b by (intro bit_scast_low) (simp add: small_bits)
  moreover have "IsValidCodepoint ?c" using b c by (simp add: valid_nat)
  ultimately show ?case using cs by (intro exI [of _ "?c # cs"]) simp
qed


lemma ascii_units16:
  "ascii src \<Longrightarrow> \<exists>cs. list_all IsValidCodepoint cs \<and> src = concat (map CBU16_APPEND_UNSAFE cs)
    \<and> map ucast src = concat (map CBU8_APPEND_UNSAFE cs)"
proof (induction src)
  case Nil
  show ?case by (intro exI [of _ "[]"]) simp
next
  case (Cons b src)
  then obtain cs where cs: "list_all IsValidCodepoint cs" "src = concat (map CBU16_APPEND_UNSAFE cs)"
    "map ucast src = concat (map CBU8_APPEND_UNSAFE cs)" by auto
  let ?c = "ucast b :: u32"
  have b: "unat b < 128" using Cons.prems by simp
  then have c: "unat ?c = unat b" by (simp add: unat_ucast_16_32)
  have "CBU16_APPEND_UNSAFE ?c = [b]" "CBU8_APPEND_UNSAFE ?c = [ucast b]"
    using b c
    by (simp_all add: CBU16_APPEND_UNSAFE_def CBU8_APPEND_UNSAFE_def word_le_nat_alt word_unat_eq_iff unat_ucast16 unat_ucast8)
  moreover have "IsValidCodepoint ?c" using b c by (simp add: valid_nat)
  ultimately show ?case using cs by (intro exI [of _ "?c # cs"]) simp
qed

text \<open>With or without the shortcut.\<close>

lemma UTF8ToUTF16_converts:
  assumes "length src < 2 ^ 31"
  shows "UTF8ToUTF16 addr src = convert_8_to_16 src (length src) 0 True []"
proof (cases "ascii src")
  case True
  from ascii_units [OF this] obtain cs where cs: "list_all IsValidCodepoint cs" "src = conv8.text_in cs"
    "map scast src = conv8.text_out cs" unfolding conv8.text_in_def conv8.text_out_def by blast
  show ?thesis
    using True conv8.converts_text [OF cs(1), of 0 src True "[]"] cs(2,3) by (simp add: UTF8ToUTF16_def IsStringASCII8_exact)
qed (use assms in \<open>simp add: UTF8ToUTF16_def IsStringASCII8_exact src_len32_small\<close>)

lemma UTF16ToUTF8_converts:
  assumes "length src < 2 ^ 31"
  shows "UTF16ToUTF8 addr src = convert_16_to_8 src (length src) 0 True []"
proof (cases "ascii src")
  case True
  from ascii_units16 [OF this] obtain cs where cs: "list_all IsValidCodepoint cs" "src = conv16.text_in cs"
    "map ucast src = conv16.text_out cs" unfolding conv16.text_in_def conv16.text_out_def by blast
  show ?thesis
    using True conv16.converts_text [OF cs(1), of 0 src True "[]"] cs(2,3) by (simp add: UTF16ToUTF8_def IsStringASCII16_exact)
qed (use assms in \<open>simp add: UTF16ToUTF8_def IsStringASCII16_exact src_len32_small\<close>)

lemma nats_eq8: "list_all IsValidCodepoint cs \<Longrightarrow> src = concat (map CBU8_APPEND_UNSAFE cs) \<longleftrightarrow> map unat src = utf8_text (map unat cs)"
  by (simp flip: text8 add: map_unat_inject)

lemma nats_eq16: "list_all IsValidCodepoint cs \<Longrightarrow> src = concat (map CBU16_APPEND_UNSAFE cs) \<longleftrightarrow> map unat src = utf16_text (map unat cs)"
  by (simp flip: text16 add: map_unat_inject)

lemma UTF8ToUTF16_success:
  assumes "length src < 2 ^ 31"
  shows "UTF8ToUTF16 addr src = (True, dst) \<longleftrightarrow>
    (\<exists>ns. list_all scalar_value ns \<and> map unat src = utf8_text ns \<and> map unat dst = utf16_text ns)"
proof -
  have "UTF8ToUTF16 addr src = (True, dst) \<longleftrightarrow> (\<exists>cs. list_all IsValidCodepoint cs
      \<and> (map unat src = utf8_text (map unat cs) \<and> map unat dst = utf16_text (map unat cs)))"
    unfolding UTF8ToUTF16_converts [OF assms] conv8.convert_exact conv8.text_in_def conv8.text_out_def
    using nats_eq8 nats_eq16 by metis
  then show ?thesis unfolding words_as_scalars [where P = "\<lambda>ns. map unat src = utf8_text ns \<and> map unat dst = utf16_text ns"] .
qed

lemma UTF16ToUTF8_success:
  assumes "length src < 2 ^ 31"
  shows "UTF16ToUTF8 addr src = (True, dst) \<longleftrightarrow>
    (\<exists>ns. list_all scalar_value ns \<and> map unat src = utf16_text ns \<and> map unat dst = utf8_text ns)"
proof -
  have "UTF16ToUTF8 addr src = (True, dst) \<longleftrightarrow> (\<exists>cs. list_all IsValidCodepoint cs
      \<and> (map unat src = utf16_text (map unat cs) \<and> map unat dst = utf8_text (map unat cs)))"
    unfolding UTF16ToUTF8_converts [OF assms] conv16.convert_exact conv16.text_in_def conv16.text_out_def
    using nats_eq8 nats_eq16 by metis
  then show ?thesis unfolding words_as_scalars [where P = "\<lambda>ns. map unat src = utf16_text ns \<and> map unat dst = utf8_text ns"] .
qed

lemma UTF8ToUTF16_output:
  assumes "length src < 2 ^ 31"
  shows "\<exists>ns. list_all scalar_value ns \<and> map unat (snd (UTF8ToUTF16 addr src)) = utf16_text ns"
proof -
  from conv8.convert_output [of src 0 True "[]"] obtain cs where "list_all IsValidCodepoint cs"
    "snd (UTF8ToUTF16 addr src) = concat (map CBU16_APPEND_UNSAFE cs)"
    unfolding UTF8ToUTF16_converts [OF assms] conv8.text_out_def by auto
  then have "\<exists>cs. list_all IsValidCodepoint cs \<and> map unat (snd (UTF8ToUTF16 addr src)) = utf16_text (map unat cs)"
    using text16 by metis
  then show ?thesis unfolding words_as_scalars [where P = "\<lambda>ns. map unat (snd (UTF8ToUTF16 addr src)) = utf16_text ns"] .
qed

lemma UTF16ToUTF8_output:
  assumes "length src < 2 ^ 31"
  shows "\<exists>ns. list_all scalar_value ns \<and> map unat (snd (UTF16ToUTF8 addr src)) = utf8_text ns"
proof -
  from conv16.convert_output [of src 0 True "[]"] obtain cs where "list_all IsValidCodepoint cs"
    "snd (UTF16ToUTF8 addr src) = concat (map CBU8_APPEND_UNSAFE cs)"
    unfolding UTF16ToUTF8_converts [OF assms] conv16.text_out_def by auto
  then have "\<exists>cs. list_all IsValidCodepoint cs \<and> map unat (snd (UTF16ToUTF8 addr src)) = utf8_text (map unat cs)"
    using text8 by metis
  then show ?thesis unfolding words_as_scalars [where P = "\<lambda>ns. map unat (snd (UTF16ToUTF8 addr src)) = utf8_text ns"] .
qed


section \<open>IsStringUTF8\<close>

definition character_value :: "nat \<Rightarrow> bool" where
  "character_value n \<longleftrightarrow> scalar_value n \<and> \<not> (0xFDD0 \<le> n \<and> n \<le> 0xFDEF) \<and> n mod 0x10000 < 0xFFFE"

lemma and_push_mask: "c AND push_bit k (mask m) = push_bit k (take_bit m (drop_bit k c))" for c :: u32
  by (rule bit_word_eqI) (auto simp: bit_simps)

lemma and_fffe: "c AND 0xFFFE = 0xFFFE \<longleftrightarrow> 0xFFFE \<le> unat c mod 0x10000" for c :: u32
proof -
  have "(0xFFFE :: u32) = push_bit 1 (mask 15)" by (simp add: mask_eq_exp_minus_1 push_bit_eq_mult)
  then have e: "c AND 0xFFFE = push_bit 1 (take_bit 15 (drop_bit 1 c))"
    using and_push_mask [of c 1 15] by (simp only:)
  have t: "unat (take_bit 15 (drop_bit 1 c)) = unat c div 2 mod 32768"
    by (simp only: unsigned_take_bit_eq unat_drop) (simp add: take_bit_eq_mod)
  have "unat (push_bit 1 (take_bit 15 (drop_bit 1 c))) = unat c div 2 mod 32768 * 2"
    by (simp only: unsigned_push_bit_eq t) (simp add: push_bit_eq_mult take_bit_nat_eq_self)
  then have "c AND 0xFFFE = 0xFFFE \<longleftrightarrow> unat c div 2 mod 32768 = 32767" by (simp add: e word_unat_eq_iff)
  moreover have "unat c div 2 mod 32768 = unat c mod 65536 div 2"
    using mod_mult2_eq [of "unat c" 2 32768] mod_less_divisor [of 2 "unat c"] by (simp add: div_nat_eqI)
  moreover have "unat c mod 65536 div 2 = 32767 \<longleftrightarrow> 65534 \<le> unat c mod 65536" by (simp add: div_interval)
  ultimately show ?thesis by simp
qed

lemma valid_character: "IsValidCharacter c \<longleftrightarrow> character_value (unat c)"
  unfolding IsValidCharacter_def and_fffe character_value_def scalar_value_def
  by (auto simp: word_le_nat_alt word_less_nat_alt not_le)

lemma valid_character_codepoint: "IsValidCharacter c \<Longrightarrow> IsValidCodepoint c"
  by (simp add: valid_character valid_scalar character_value_def)

lemma is_utf8_encoded:
  "list_all IsValidCharacter cs \<Longrightarrow> drop i src = concat (map CBU8_APPEND_UNSAFE cs) \<Longrightarrow> is_utf8_from src (length src) i"
proof (induction cs arbitrary: i)
  case Nil
  then show ?case by (subst is_utf8_from.simps) simp
next
  case (Cons c cs)
  then have d: "decodes ((!) src) i (length src) c" by (simp add: decodes_list valid_character_codepoint)
  have "drop (i + length (CBU8_APPEND_UNSAFE c)) src = concat (map CBU8_APPEND_UNSAFE cs)"
    using arg_cong [OF Cons.prems(2), of "drop (length (CBU8_APPEND_UNSAFE c))"] by (simp add: add.commute)
  with Cons have "is_utf8_from src (length src) (i + length (CBU8_APPEND_UNSAFE c))" by simp
  then show ?case using decodes_unique [OF d] Cons.prems by (subst is_utf8_from.simps) simp
qed

lemma is_utf8_accepts:
  "is_utf8_from src (length src) i \<Longrightarrow> \<exists>cs. list_all IsValidCharacter cs \<and> drop i src = concat (map CBU8_APPEND_UNSAFE cs)"
proof (induction "length src - i" arbitrary: i rule: less_induct)
  case less
  show ?case
  proof (cases "i < length src")
    case False
    then show ?thesis by (intro exI [of _ "[]"]) simp
  next
    case True
    obtain j c where n: "CBU8_NEXT ((!) src) i (length src) = (j, c)" by fastforce
    have v: "IsValidCharacter c" and r: "is_utf8_from src (length src) j"
      using less.prems True n by (subst (asm) is_utf8_from.simps, simp split: if_splits)+
    have d: "decodes ((!) src) i (length src) c" "j = i + length (CBU8_APPEND_UNSAFE c)"
      using next_exact [OF True, of "(!) src"] n valid_character_codepoint [OF v] sentinel_invalid by (auto simp: next_spec_def)
    obtain rest where "drop i src = CBU8_APPEND_UNSAFE c @ rest" using d(1) by (auto simp: decodes_list)
    moreover have "length src - j < length src - i"
      using d(2) True APPEND_nonempty [of c, folded length_greater_0_conv] by linarith
    then obtain cs where "list_all IsValidCharacter cs" "drop j src = concat (map CBU8_APPEND_UNSAFE cs)"
      using less.hyps r by blast
    moreover have "rest = drop j src"
      using arg_cong [OF calculation(1), of "drop (length (CBU8_APPEND_UNSAFE c))"] d(2) by (simp add: add.commute)
    ultimately show ?thesis using v by (intro exI [of _ "c # cs"]) simp
  qed
qed

lemma IsStringUTF8_text:
  assumes "length src < 2 ^ 31"
  shows "IsStringUTF8 src \<longleftrightarrow> (\<exists>ns. list_all character_value ns \<and> map unat src = utf8_text ns)"
proof
  assume "IsStringUTF8 src"
  then obtain cs where cs: "list_all IsValidCharacter cs" "src = concat (map CBU8_APPEND_UNSAFE cs)"
    using is_utf8_accepts [of src 0] assms by (auto simp: IsStringUTF8_def src_len32_small)
  then have "list_all IsValidCodepoint cs" by (auto simp: list_all_iff valid_character_codepoint)
  with cs show "\<exists>ns. list_all character_value ns \<and> map unat src = utf8_text ns"
    by (intro exI [of _ "map unat cs"]) (simp add: text8 list_all_iff valid_character)
next
  assume "\<exists>ns. list_all character_value ns \<and> map unat src = utf8_text ns"
  then obtain ns where ns: "list_all character_value ns" "map unat src = utf8_text ns" by blast
  then have "list_all scalar_value ns" by (auto simp: list_all_iff character_value_def)
  from scalars_as_words [OF this] obtain cs :: "u32 list" where cs: "list_all IsValidCodepoint cs" "ns = map unat cs" by blast
  have "src = concat (map CBU8_APPEND_UNSAFE cs)" using nats_eq8 [OF cs(1), of src] ns(2) cs(2) by simp
  moreover have "list_all IsValidCharacter cs" using ns(1) cs(2) by (simp add: list_all_iff valid_character)
  ultimately show "IsStringUTF8 src"
    using is_utf8_encoded [of cs 0 src] assms by (simp add: IsStringUTF8_def src_len32_small)
qed

text \<open>
  C34. The conversion of UTF-8 to UTF-16 succeeds exactly on well-formed UTF-8, where it yields the
  UTF-16 form of the same code points, and the conversion back is its inverse; whatever the input, what
  is written is well-formed; IsStringUTF8 accepts exactly well-formed text without noncharacters.
\<close>

theorem utf_conversions_exact:
  assumes "length s8 < 2 ^ 31" and "length s16 < 2 ^ 31"
  shows "(UTF8ToUTF16 addr s8 = (True, s16) \<longleftrightarrow>
      (\<exists>ns. list_all scalar_value ns \<and> map unat s8 = utf8_text ns \<and> map unat s16 = utf16_text ns))
    \<and> (UTF16ToUTF8 addr' s16 = (True, s8) \<longleftrightarrow> UTF8ToUTF16 addr s8 = (True, s16))
    \<and> (\<exists>ns. list_all scalar_value ns \<and> map unat (snd (UTF8ToUTF16 addr s8)) = utf16_text ns)
    \<and> (\<exists>ns. list_all scalar_value ns \<and> map unat (snd (UTF16ToUTF8 addr' s16)) = utf8_text ns)
    \<and> (IsStringUTF8 s8 \<longleftrightarrow> (\<exists>ns. list_all character_value ns \<and> map unat s8 = utf8_text ns))"
  using UTF8ToUTF16_success [OF assms(1)] UTF16ToUTF8_success [OF assms(2)]
    UTF8ToUTF16_output [OF assms(1)] UTF16ToUTF8_output [OF assms(2)] IsStringUTF8_text [OF assms(1)]
  by (intro conjI) (assumption | blast)+

lemma utf_conversions_exact_witness:
  "UTF8ToUTF16 3 [0xF0, 0x9F, 0x98, 0x80] = (True, [0xD83D, 0xDE00])
    \<and> UTF16ToUTF8 2 [0xD83D, 0xDE00] = (True, [0xF0, 0x9F, 0x98, 0x80])"
proof -
  have n: "list_all scalar_value [0x1F600] \<and> map unat [0xF0, 0x9F, 0x98, 0x80 :: u8] = utf8_text [0x1F600]
    \<and> map unat [0xD83D, 0xDE00 :: u16] = utf16_text [0x1F600]"
    by (simp add: scalar_value_def utf8_text_def utf8_nats_def utf16_text_def utf16_nats_def)
  have l: "length [0xF0, 0x9F, 0x98, 0x80 :: u8] < 2 ^ 31" "length [0xD83D, 0xDE00 :: u16] < 2 ^ 31" by simp_all
  note t = utf_conversions_exact [OF l, of 3 2]
  have "UTF8ToUTF16 3 [0xF0, 0x9F, 0x98, 0x80] = (True, [0xD83D, 0xDE00])"
    using n by (intro iffD2 [OF conjunct1 [OF t]] exI)
  with t show ?thesis by blast
qed

end
