(* ===== verification/Values.thy ===== *)
theory Values
  imports StringNumbersCorrect "HOL-Library.List_Lexorder"
begin

text \<open>
  base/values.cc: the tree of values that settings and JSON are kept in.  A value owns its children, so
  that a tree is a term and an update in place is the updated tree.  A dictionary is the std::map of the
  source, an association list that ascends by the bytes of its keys; a double is its bit pattern.
\<close>

section \<open>Values\<close>

datatype base_value =
    NullValue
  | BooleanValue bool
  | IntegerValue u32
  | DoubleValue u64
  | StringValue "u8 list"
  | BinaryValue "u8 list"
  | DictionaryValue "(u8 list \<times> base_value) list"
  | ListValue "base_value list"

type_synonym dict = "(u8 list \<times> base_value) list"

datatype value_type =
  TYPE_NULL | TYPE_BOOLEAN | TYPE_INTEGER | TYPE_DOUBLE | TYPE_STRING | TYPE_BINARY | TYPE_DICTIONARY | TYPE_LIST

fun GetType :: "base_value \<Rightarrow> value_type" where
  "GetType NullValue = TYPE_NULL"
| "GetType (BooleanValue b) = TYPE_BOOLEAN"
| "GetType (IntegerValue i) = TYPE_INTEGER"
| "GetType (DoubleValue d) = TYPE_DOUBLE"
| "GetType (StringValue s) = TYPE_STRING"
| "GetType (BinaryValue b) = TYPE_BINARY"
| "GetType (DictionaryValue d) = TYPE_DICTIONARY"
| "GetType (ListValue l) = TYPE_LIST"

text \<open>FundamentalValue(double): what is not finite becomes 0.\<close>

definition new_double :: "u64 \<Rightarrow> base_value" where
  "new_double d = DoubleValue (if double_is_finite d then d else 0)"

text \<open>The accessors; an int converts to a double by an argument.\<close>

definition GetAsBoolean :: "base_value \<Rightarrow> bool option" where
  "GetAsBoolean v = (case v of BooleanValue b \<Rightarrow> Some b | _ \<Rightarrow> None)"
definition GetAsInteger :: "base_value \<Rightarrow> u32 option" where
  "GetAsInteger v = (case v of IntegerValue i \<Rightarrow> Some i | _ \<Rightarrow> None)"
definition GetAsDouble :: "(u32 \<Rightarrow> u64) \<Rightarrow> base_value \<Rightarrow> u64 option" where
  "GetAsDouble int_to_double v =
     (case v of DoubleValue d \<Rightarrow> Some d | IntegerValue i \<Rightarrow> Some (int_to_double i) | _ \<Rightarrow> None)"
definition GetAsString :: "base_value \<Rightarrow> u8 list option" where
  "GetAsString v = (case v of StringValue s \<Rightarrow> Some s | _ \<Rightarrow> None)"
definition GetAsBinary :: "base_value \<Rightarrow> u8 list option" where
  "GetAsBinary v = (case v of BinaryValue b \<Rightarrow> Some b | _ \<Rightarrow> None)"
definition GetAsDictionary :: "base_value \<Rightarrow> dict option" where
  "GetAsDictionary v = (case v of DictionaryValue d \<Rightarrow> Some d | _ \<Rightarrow> None)"
definition GetAsList :: "base_value \<Rightarrow> base_value list option" where
  "GetAsList v = (case v of ListValue l \<Rightarrow> Some l | _ \<Rightarrow> None)"

section \<open>The map\<close>

fun map_insert :: "u8 list \<Rightarrow> 'v \<Rightarrow> (u8 list \<times> 'v) list \<Rightarrow> (u8 list \<times> 'v) list" where
  "map_insert k v [] = [(k, v)]"
| "map_insert k v ((k', v') # d) =
     (if k < k' then (k, v) # (k', v') # d
      else if k = k' then (k, v) # d
      else (k', v') # map_insert k v d)"

definition map_erase :: "u8 list \<Rightarrow> (u8 list \<times> 'v) list \<Rightarrow> (u8 list \<times> 'v) list" where
  "map_erase k d = filter (\<lambda>e. fst e \<noteq> k) d"

section \<open>Dictionaries without path expansion\<close>

definition HasKey :: "dict \<Rightarrow> u8 list \<Rightarrow> bool" where
  "HasKey d key \<longleftrightarrow> map_of d key \<noteq> None"

definition SetWithoutPathExpansion :: "u8 list \<Rightarrow> base_value \<Rightarrow> dict \<Rightarrow> dict" where
  "SetWithoutPathExpansion key in_value d = map_insert key in_value d"

definition GetWithoutPathExpansion :: "dict \<Rightarrow> u8 list \<Rightarrow> base_value option" where
  "GetWithoutPathExpansion d key = map_of d key"

definition GetDictionaryWithoutPathExpansion :: "dict \<Rightarrow> u8 list \<Rightarrow> dict option" where
  "GetDictionaryWithoutPathExpansion d key =
     (case GetWithoutPathExpansion d key of Some v \<Rightarrow> GetAsDictionary v | None \<Rightarrow> None)"

definition GetListWithoutPathExpansion :: "dict \<Rightarrow> u8 list \<Rightarrow> base_value list option" where
  "GetListWithoutPathExpansion d key =
     (case GetWithoutPathExpansion d key of Some v \<Rightarrow> GetAsList v | None \<Rightarrow> None)"

text \<open>The entry removed, where there is one, and the dictionary afterwards.\<close>

definition RemoveWithoutPathExpansion :: "u8 list \<Rightarrow> dict \<Rightarrow> base_value option \<times> dict" where
  "RemoveWithoutPathExpansion key d =
     (case map_of d key of None \<Rightarrow> (None, d) | Some entry \<Rightarrow> (Some entry, map_erase key d))"

section \<open>Paths\<close>

text \<open>find('.') and what lies before and after it; the same for rfind.\<close>

definition path_dot :: u8 where "path_dot = 46"

fun find_dot :: "u8 list \<Rightarrow> (u8 list \<times> u8 list) option" where
  "find_dot [] = None"
| "find_dot (c # cs) =
     (if c = path_dot then Some ([], cs)
      else case find_dot cs of None \<Rightarrow> None | Some (key, rest) \<Rightarrow> Some (c # key, rest))"

definition rfind_dot :: "u8 list \<Rightarrow> (u8 list \<times> u8 list) option" where
  "rfind_dot path =
     (case find_dot (rev path) of None \<Rightarrow> None | Some (a, b) \<Rightarrow> Some (rev b, rev a))"

lemma find_dot_length: "find_dot path = Some (key, rest) \<Longrightarrow> length rest < length path"
  by (induction path arbitrary: key rest) (auto split: if_splits option.splits prod.splits)

function dict_Set :: "u8 list \<Rightarrow> base_value \<Rightarrow> dict \<Rightarrow> dict" where
  "dict_Set path in_value d =
     (case find_dot path of
        None \<Rightarrow> SetWithoutPathExpansion path in_value d
      | Some (key, rest) \<Rightarrow>
          let child = (case GetDictionaryWithoutPathExpansion d key of Some c \<Rightarrow> c | None \<Rightarrow> [])
          in SetWithoutPathExpansion key (DictionaryValue (dict_Set rest in_value child)) d)"
  by pat_completeness auto
termination by (relation "measure (\<lambda>(path, _). length path)") (auto dest: find_dot_length)

function dict_Get :: "dict \<Rightarrow> u8 list \<Rightarrow> base_value option" where
  "dict_Get d path =
     (case find_dot path of
        None \<Rightarrow> GetWithoutPathExpansion d path
      | Some (key, rest) \<Rightarrow>
          (case GetDictionaryWithoutPathExpansion d key of
             None \<Rightarrow> None
           | Some child \<Rightarrow> dict_Get child rest))"
  by pat_completeness auto
termination by (relation "measure (\<lambda>(_, path). length path)") (auto dest: find_dot_length)

declare dict_Set.simps [simp del] dict_Get.simps [simp del]

definition dict_GetDictionary :: "dict \<Rightarrow> u8 list \<Rightarrow> dict option" where
  "dict_GetDictionary d path = (case dict_Get d path of Some v \<Rightarrow> GetAsDictionary v | None \<Rightarrow> None)"
definition dict_GetList :: "dict \<Rightarrow> u8 list \<Rightarrow> base_value list option" where
  "dict_GetList d path = (case dict_Get d path of Some v \<Rightarrow> GetAsList v | None \<Rightarrow> None)"
definition dict_GetBoolean :: "dict \<Rightarrow> u8 list \<Rightarrow> bool option" where
  "dict_GetBoolean d path = (case dict_Get d path of Some v \<Rightarrow> GetAsBoolean v | None \<Rightarrow> None)"
definition dict_GetInteger :: "dict \<Rightarrow> u8 list \<Rightarrow> u32 option" where
  "dict_GetInteger d path = (case dict_Get d path of Some v \<Rightarrow> GetAsInteger v | None \<Rightarrow> None)"
definition dict_GetDouble :: "(u32 \<Rightarrow> u64) \<Rightarrow> dict \<Rightarrow> u8 list \<Rightarrow> u64 option" where
  "dict_GetDouble conv d path = (case dict_Get d path of Some v \<Rightarrow> GetAsDouble conv v | None \<Rightarrow> None)"
definition dict_GetString :: "dict \<Rightarrow> u8 list \<Rightarrow> u8 list option" where
  "dict_GetString d path = (case dict_Get d path of Some v \<Rightarrow> GetAsString v | None \<Rightarrow> None)"
definition dict_GetBinary :: "dict \<Rightarrow> u8 list \<Rightarrow> u8 list option" where
  "dict_GetBinary d path = (case dict_Get d path of Some v \<Rightarrow> GetAsBinary v | None \<Rightarrow> None)"

text \<open>The dictionary that a pointer from GetDictionary refers to is changed in place.\<close>

function change_at :: "u8 list \<Rightarrow> (dict \<Rightarrow> dict) \<Rightarrow> dict \<Rightarrow> dict" where
  "change_at path f d =
     (case find_dot path of
        None \<Rightarrow>
          (case GetDictionaryWithoutPathExpansion d path of
             None \<Rightarrow> d
           | Some child \<Rightarrow> SetWithoutPathExpansion path (DictionaryValue (f child)) d)
      | Some (key, rest) \<Rightarrow>
          (case GetDictionaryWithoutPathExpansion d key of
             None \<Rightarrow> d
           | Some child \<Rightarrow> SetWithoutPathExpansion key (DictionaryValue (change_at rest f child)) d))"
  by pat_completeness auto
termination by (relation "measure (\<lambda>(path, _). length path)") (auto dest: find_dot_length)

declare change_at.simps [simp del]

definition dict_Remove :: "u8 list \<Rightarrow> dict \<Rightarrow> base_value option \<times> dict" where
  "dict_Remove path d =
     (case rfind_dot path of
        None \<Rightarrow> RemoveWithoutPathExpansion path d
      | Some (prefix, key) \<Rightarrow>
          (case dict_GetDictionary d prefix of
             None \<Rightarrow> (None, d)
           | Some current \<Rightarrow>
               (fst (RemoveWithoutPathExpansion key current),
                change_at prefix (\<lambda>c. snd (RemoveWithoutPathExpansion key c)) d)))"

function dict_RemovePath :: "u8 list \<Rightarrow> dict \<Rightarrow> base_value option \<times> dict" where
  "dict_RemovePath path d =
     (case find_dot path of
        None \<Rightarrow> RemoveWithoutPathExpansion path d
      | Some (subdict_path, rest) \<Rightarrow>
          (case GetDictionaryWithoutPathExpansion d subdict_path of
             None \<Rightarrow> (None, d)
           | Some subdict \<Rightarrow>
               let (result, subdict) = dict_RemovePath rest subdict;
                   d = SetWithoutPathExpansion subdict_path (DictionaryValue subdict) d
               in if result \<noteq> None \<and> subdict = []
                  then (result, snd (RemoveWithoutPathExpansion subdict_path d))
                  else (result, d)))"
  by pat_completeness auto
termination by (relation "measure (\<lambda>(path, _). length path)") (auto dest: find_dot_length)

declare dict_RemovePath.simps [simp del]

section \<open>Whole trees\<close>

fun DeepCopy :: "base_value \<Rightarrow> base_value" where
  "DeepCopy (DictionaryValue d) =
     DictionaryValue (foldl (\<lambda>result e. SetWithoutPathExpansion (fst e) (snd e) result) []
       (map (\<lambda>(k, v). (k, DeepCopy v)) d))"
| "DeepCopy (ListValue l) = ListValue (map DeepCopy l)"
| "DeepCopy (DoubleValue d) = new_double d"
| "DeepCopy v = v"

text \<open>Equality of doubles: no NaN equals anything, and the two zeros are equal.\<close>

definition double_is_nan :: "u64 \<Rightarrow> bool" where
  "double_is_nan d \<longleftrightarrow> \<not> double_is_finite d \<and> \<not> double_is_infinite d"

definition double_equal :: "u64 \<Rightarrow> u64 \<Rightarrow> bool" where
  "double_equal a b \<longleftrightarrow> \<not> double_is_nan a \<and> \<not> double_is_nan b \<and> (a = b \<or> (take_bit 63 a = 0 \<and> take_bit 63 b = 0))"

fun Equals :: "base_value \<Rightarrow> base_value \<Rightarrow> bool"
and Equals_lists :: "base_value list \<Rightarrow> base_value list \<Rightarrow> bool"
and Equals_dicts :: "dict \<Rightarrow> dict \<Rightarrow> bool" where
  "Equals NullValue other = (other = NullValue)"
| "Equals (BooleanValue a) other = (case other of BooleanValue b \<Rightarrow> a = b | _ \<Rightarrow> False)"
| "Equals (IntegerValue a) other = (case other of IntegerValue b \<Rightarrow> a = b | _ \<Rightarrow> False)"
| "Equals (DoubleValue a) other = (case other of DoubleValue b \<Rightarrow> double_equal a b | _ \<Rightarrow> False)"
| "Equals (StringValue a) other = (case other of StringValue b \<Rightarrow> a = b | _ \<Rightarrow> False)"
| "Equals (BinaryValue a) other = (case other of BinaryValue b \<Rightarrow> a = b | _ \<Rightarrow> False)"
| "Equals (DictionaryValue a) other = (case other of DictionaryValue b \<Rightarrow> Equals_dicts a b | _ \<Rightarrow> False)"
| "Equals (ListValue a) other = (case other of ListValue b \<Rightarrow> Equals_lists a b | _ \<Rightarrow> False)"
| "Equals_lists [] bs = (bs = [])"
| "Equals_lists (a # as) bs = (case bs of [] \<Rightarrow> False | b # bs \<Rightarrow> if \<not> Equals a b then False else Equals_lists as bs)"
| "Equals_dicts [] bs = (bs = [])"
| "Equals_dicts (e # as) bs =
     (case bs of [] \<Rightarrow> False
      | (k, b) # bs \<Rightarrow> if fst e \<noteq> k \<or> \<not> Equals (snd e) b then False else Equals_dicts as bs)"

fun MergeDictionary :: "dict \<Rightarrow> dict \<Rightarrow> dict" where
  "MergeDictionary [] d = d"
| "MergeDictionary ((key, merge_value) # entries) d =
     MergeDictionary entries
       (case merge_value of
          DictionaryValue m \<Rightarrow>
            (case GetDictionaryWithoutPathExpansion d key of
               Some sub_dict \<Rightarrow> SetWithoutPathExpansion key (DictionaryValue (MergeDictionary m sub_dict)) d
             | None \<Rightarrow> SetWithoutPathExpansion key (DeepCopy merge_value) d)
        | _ \<Rightarrow> SetWithoutPathExpansion key (DeepCopy merge_value) d)"

fun CopyWithoutEmptyChildren :: "base_value \<Rightarrow> base_value option"
and CopyListWithoutEmptyChildren :: "base_value list \<Rightarrow> base_value list option \<Rightarrow> base_value list option"
and CopyDictionaryWithoutEmptyChildren :: "dict \<Rightarrow> dict option \<Rightarrow> dict option" where
  "CopyWithoutEmptyChildren (ListValue l) = map_option ListValue (CopyListWithoutEmptyChildren l None)"
| "CopyWithoutEmptyChildren (DictionaryValue d) = map_option DictionaryValue (CopyDictionaryWithoutEmptyChildren d None)"
| "CopyWithoutEmptyChildren v = Some (DeepCopy v)"
| "CopyListWithoutEmptyChildren [] copy = copy"
| "CopyListWithoutEmptyChildren (v # l) copy =
     CopyListWithoutEmptyChildren l
       (case CopyWithoutEmptyChildren v of
          None \<Rightarrow> copy
        | Some child_copy \<Rightarrow> Some ((case copy of None \<Rightarrow> [] | Some c \<Rightarrow> c) @ [child_copy]))"
| "CopyDictionaryWithoutEmptyChildren [] copy = copy"
| "CopyDictionaryWithoutEmptyChildren ((key, v) # d) copy =
     CopyDictionaryWithoutEmptyChildren d
       (case CopyWithoutEmptyChildren v of
          None \<Rightarrow> copy
        | Some child_copy \<Rightarrow> Some (SetWithoutPathExpansion key child_copy (case copy of None \<Rightarrow> [] | Some c \<Rightarrow> c)))"

definition DeepCopyWithoutEmptyChildren :: "dict \<Rightarrow> dict" where
  "DeepCopyWithoutEmptyChildren d = (case CopyDictionaryWithoutEmptyChildren d None of None \<Rightarrow> [] | Some copy \<Rightarrow> copy)"

section \<open>Lists\<close>

definition list_Set :: "nat \<Rightarrow> base_value \<Rightarrow> base_value list \<Rightarrow> base_value list" where
  "list_Set index in_value l =
     (if index \<ge> length l then l @ replicate (index - length l) NullValue @ [in_value] else l[index := in_value])"

definition list_Get :: "base_value list \<Rightarrow> nat \<Rightarrow> base_value option" where
  "list_Get l index = (if index \<ge> length l then None else Some (l ! index))"

definition list_Remove :: "nat \<Rightarrow> base_value list \<Rightarrow> base_value option \<times> base_value list" where
  "list_Remove index l =
     (if index \<ge> length l then (None, l) else (Some (l ! index), take index l @ drop (index + 1) l))"

text \<open>The index of the first equal element.\<close>

fun list_Find :: "base_value list \<Rightarrow> base_value \<Rightarrow> nat \<Rightarrow> nat option" where
  "list_Find [] v i = None"
| "list_Find (x # l) v i = (if Equals x v then Some i else list_Find l v (i + 1))"

definition list_RemoveValue :: "base_value \<Rightarrow> base_value list \<Rightarrow> nat option \<times> base_value list" where
  "list_RemoveValue v l =
     (case list_Find l v 0 of None \<Rightarrow> (None, l) | Some i \<Rightarrow> (Some i, take i l @ drop (i + 1) l))"

definition list_Append :: "base_value \<Rightarrow> base_value list \<Rightarrow> base_value list" where
  "list_Append in_value l = l @ [in_value]"

definition list_AppendIfNotPresent :: "base_value \<Rightarrow> base_value list \<Rightarrow> bool \<times> base_value list" where
  "list_AppendIfNotPresent in_value l =
     (if list_Find l in_value 0 \<noteq> None then (False, l) else (True, l @ [in_value]))"

definition list_Insert :: "nat \<Rightarrow> base_value \<Rightarrow> base_value list \<Rightarrow> bool \<times> base_value list" where
  "list_Insert index in_value l =
     (if index > length l then (False, l) else (True, take index l @ [in_value] @ drop index l))"

end
