(* ===== verification/ValuesCorrect.thy ===== *)
theory ValuesCorrect
  imports Values "HOL-Library.Sublist"
begin

text \<open>
  What the operations on value trees do.  The map of a dictionary has the laws of \<open>ordered_map\<close>; a path
  is the sequence of its components, and the operations on paths are those on sequences of keys.
\<close>

section \<open>The map\<close>

abbreviation ascending :: "('k :: linorder \<times> 'v) list \<Rightarrow> bool" where
  "ascending d \<equiv> sorted_wrt (<) (map fst d)"

locale ordered_map =
  fixes ins :: "'k :: linorder \<Rightarrow> 'v \<Rightarrow> ('k \<times> 'v) list \<Rightarrow> ('k \<times> 'v) list"
    and del :: "'k \<Rightarrow> ('k \<times> 'v) list \<Rightarrow> ('k \<times> 'v) list"
  assumes find_ins: "map_of (ins k v d) = (map_of d)(k \<mapsto> v)"
    and find_del: "map_of (del k d) = (map_of d)(k := None)"
    and keys_ins: "ascending d \<Longrightarrow> ascending (ins k v d)"
    and keys_del: "ascending d \<Longrightarrow> ascending (del k d)"
begin

lemma same_map:
  assumes d: "ascending d" and e: "ascending e" and m: "map_of d = map_of e"
  shows "d = (e :: ('k \<times> 'v) list)"
proof -
  have "distinct (map fst d)" "distinct (map fst e)" using d e by (simp_all add: strict_sorted_iff)
  moreover from this have s: "set d = set e" using m by (simp add: map_of_inject_set)
  moreover have "inj_on fst (set d \<union> set e)" using calculation by (simp add: distinct_map)
  ultimately show ?thesis using d e by (intro map_sorted_distinct_set_unique) (simp_all add: strict_sorted_iff)
qed

lemma ins_present: "ascending d \<Longrightarrow> map_of d k = Some v \<Longrightarrow> ins k v d = d"
  by (rule same_map) (auto simp: keys_ins find_ins fun_upd_idem)

lemma del_absent: "ascending d \<Longrightarrow> map_of d k = None \<Longrightarrow> del k d = d"
  by (rule same_map) (auto simp: keys_del find_del fun_upd_idem)

lemma del_ins: "ascending d \<Longrightarrow> map_of d k = None \<Longrightarrow> del k (ins k v d) = d"
  by (rule same_map) (auto simp: keys_ins keys_del find_ins find_del fun_upd_idem)

lemma find_all:
  "ascending d \<Longrightarrow> map_of (foldl (\<lambda>r e. ins (fst e) (snd e) r) r0 d) = map_of r0 ++ map_of d"
proof (induction d arbitrary: r0)
  case (Cons e d)
  have "map_of d (fst e) = None" using Cons.prems by (auto simp: map_of_eq_None_iff)
  then have "(map_of r0)(fst e \<mapsto> snd e) ++ map_of d = map_of r0 ++ map_of (e # d)"
    by (cases e) (auto simp: map_add_def fun_eq_iff split: option.splits)
  moreover have "ascending d" using Cons.prems by simp
  ultimately show ?case by (simp only: foldl_Cons find_ins Cons.IH)
qed simp

lemma keys_all: "ascending r0 \<Longrightarrow> ascending (foldl (\<lambda>r e. ins (fst e) (snd e) r) r0 d)"
  by (induction d arbitrary: r0) (simp_all add: keys_ins)

lemma rebuilt: "ascending d \<Longrightarrow> foldl (\<lambda>r e. ins (fst e) (snd e) r) [] d = d"
  by (rule same_map) (simp_all add: keys_all find_all)

end

lemma set_map_insert: "set (map fst (map_insert k v d)) = insert k (set (map fst d))"
  by (induction k v d rule: map_insert.induct) auto

interpretation dm: ordered_map "map_insert :: u8 list \<Rightarrow> 'v \<Rightarrow> _" map_erase
proof unfold_locales
  fix k :: "u8 list" and v :: 'v and d :: "(u8 list \<times> 'v) list"
  show "map_of (map_insert k v d) = (map_of d)(k \<mapsto> v)"
    by (induction k v d rule: map_insert.induct) (auto simp: fun_eq_iff)
  show "map_of (map_erase k d) = (map_of d)(k := None)"
    unfolding map_erase_def by (induction d) (auto simp: fun_eq_iff)
  show "ascending d \<Longrightarrow> ascending (map_insert k v d)"
  proof (induction k v d rule: map_insert.induct)
    case (2 k v k' v' d)
    then show ?case using set_map_insert [of k v d] by (auto simp del: set_map)
  qed simp
  show "ascending d \<Longrightarrow> ascending (map_erase k d)"
    unfolding map_erase_def by (induction d) auto
qed

lemmas map_facts = SetWithoutPathExpansion_def GetWithoutPathExpansion_def GetDictionaryWithoutPathExpansion_def
  RemoveWithoutPathExpansion_def dm.find_ins dm.find_del

section \<open>Well-formed trees\<close>

fun wf_value :: "base_value \<Rightarrow> bool" where
  "wf_value (DictionaryValue d) \<longleftrightarrow> ascending d \<and> list_all (\<lambda>e. wf_value (snd e)) d"
| "wf_value (ListValue l) \<longleftrightarrow> list_all wf_value l"
| "wf_value (DoubleValue d) \<longleftrightarrow> double_is_finite d"
| "wf_value _ \<longleftrightarrow> True"

definition wf_dict :: "dict \<Rightarrow> bool" where
  "wf_dict d \<longleftrightarrow> ascending d \<and> (\<forall>k v. map_of d k = Some v \<longrightarrow> wf_value v)"

lemma wf_value_dict: "wf_value (DictionaryValue d) \<longleftrightarrow> wf_dict d"
proof -
  have "ascending d \<Longrightarrow> list_all (\<lambda>e. wf_value (snd e)) d \<longleftrightarrow> (\<forall>k v. map_of d k = Some v \<longrightarrow> wf_value v)"
    by (auto simp: list_all_iff strict_sorted_iff dest: map_of_SomeD)
  then show ?thesis by (auto simp: wf_dict_def)
qed

lemma wf_empty [simp]: "wf_dict []"
  by (simp add: wf_dict_def)

lemma wf_set: "wf_dict d \<Longrightarrow> wf_value v \<Longrightarrow> wf_dict (SetWithoutPathExpansion k v d)"
  by (auto simp: wf_dict_def map_facts dm.keys_ins)

lemma wf_ins: "wf_dict d \<Longrightarrow> wf_value v \<Longrightarrow> wf_dict (map_insert k v d)"
  by (auto simp: wf_dict_def dm.find_ins dm.keys_ins)

lemma wf_ins_dict: "wf_dict d \<Longrightarrow> wf_dict c \<Longrightarrow> wf_dict (map_insert k (DictionaryValue c) d)"
  by (simp only: wf_ins wf_value_dict)

lemma wf_remove: "wf_dict d \<Longrightarrow> wf_dict (snd (RemoveWithoutPathExpansion k d))"
  by (auto simp: wf_dict_def map_facts dm.keys_del split: option.splits if_splits)

lemma child_Some: "GetDictionaryWithoutPathExpansion d k = Some c \<longleftrightarrow> map_of d k = Some (DictionaryValue c)"
  by (auto simp: map_facts GetAsDictionary_def split: option.splits base_value.splits)

lemma wf_child: "wf_dict d \<Longrightarrow> GetDictionaryWithoutPathExpansion d k = Some c \<Longrightarrow> wf_dict c"
  unfolding child_Some by (metis wf_dict_def wf_value_dict)

section \<open>Paths\<close>

function path_keys :: "u8 list \<Rightarrow> u8 list list" where
  "path_keys path = (case find_dot path of None \<Rightarrow> [path] | Some (key, rest) \<Rightarrow> key # path_keys rest)"
  by pat_completeness auto
termination by (relation "measure length") (auto dest: find_dot_length)

declare path_keys.simps [simp del]

text \<open>The same operations on sequences of keys.\<close>

abbreviation child :: "dict \<Rightarrow> u8 list \<Rightarrow> dict option" where
  "child \<equiv> GetDictionaryWithoutPathExpansion"

fun look :: "dict \<Rightarrow> u8 list list \<Rightarrow> base_value option" where
  "look d [] = None"
| "look d [k] = map_of d k"
| "look d (k # ks) = (case child d k of None \<Rightarrow> None | Some c \<Rightarrow> look c ks)"

fun put :: "u8 list list \<Rightarrow> base_value \<Rightarrow> dict \<Rightarrow> dict" where
  "put [] v d = d"
| "put [k] v d = map_insert k v d"
| "put (k # ks) v d = map_insert k (DictionaryValue (put ks v (case child d k of Some c \<Rightarrow> c | None \<Rightarrow> []))) d"

fun cut :: "u8 list list \<Rightarrow> dict \<Rightarrow> dict" where
  "cut [] d = d"
| "cut [k] d = map_erase k d"
| "cut (k # ks) d = (case child d k of None \<Rightarrow> d | Some c \<Rightarrow> map_insert k (DictionaryValue (cut ks c)) d)"

lemma path_keys_nonempty: "path_keys p \<noteq> []"
  by (subst path_keys.simps) (auto split: option.splits)

lemma look_Cons: "ks \<noteq> [] \<Longrightarrow> look d (k # ks) = (case child d k of None \<Rightarrow> None | Some c \<Rightarrow> look c ks)"
  by (cases ks) (auto split: option.splits)
lemma put_Cons: "ks \<noteq> [] \<Longrightarrow> put (k # ks) v d
    = map_insert k (DictionaryValue (put ks v (case child d k of Some c \<Rightarrow> c | None \<Rightarrow> []))) d"
  by (cases ks) simp_all
lemma cut_Cons: "ks \<noteq> [] \<Longrightarrow> cut (k # ks) d
    = (case child d k of None \<Rightarrow> d | Some c \<Rightarrow> map_insert k (DictionaryValue (cut ks c)) d)"
  by (cases ks) (auto split: option.splits)

lemma path_keys_Cons: "find_dot p = Some (k, r) \<Longrightarrow> path_keys p = k # path_keys r"
  by (subst path_keys.simps) simp
lemma path_keys_single: "find_dot p = None \<Longrightarrow> path_keys p = [p]"
  by (subst path_keys.simps) simp

lemma Get_look: "dict_Get d p = look d (path_keys p)"
proof (induction d p rule: dict_Get.induct)
  case (1 d path)
  show ?case
  proof (cases "find_dot path")
    case None
    then show ?thesis by (subst dict_Get.simps) (simp add: path_keys_single map_facts)
  next
    case (Some kr)
    then show ?thesis using 1 path_keys_nonempty
      by (subst dict_Get.simps) (auto simp: path_keys_Cons look_Cons split: option.splits prod.splits)
  qed
qed

lemma Set_put: "dict_Set p v d = put (path_keys p) v d"
proof (induction p v d rule: dict_Set.induct)
  case (1 path v d)
  show ?case
  proof (cases "find_dot path")
    case None
    then show ?thesis by (subst dict_Set.simps) (simp add: path_keys_single map_facts)
  next
    case (Some kr)
    then show ?thesis using 1 path_keys_nonempty
      by (subst dict_Set.simps) (auto simp: path_keys_Cons put_Cons map_facts Let_def split: prod.splits)
  qed
qed


text \<open>Looking up what was put and what was cut.\<close>

lemma look_empty [simp]: "look [] ks = None"
  by (cases "([] :: dict, ks)" rule: look.cases) (simp_all add: map_facts)

lemma child_ins: "child (map_insert k (DictionaryValue c) d) k' = (if k' = k then Some c else child d k')"
  by (simp add: map_facts GetAsDictionary_def)

lemma child_ins_other: "k' \<noteq> k \<Longrightarrow> child (map_insert k v d) k' = child d k'"
  by (simp add: map_facts)

lemma child_erase: "child (map_erase k d) k' = (if k' = k then None else child d k')"
  by (simp add: map_facts)

lemma look_put_same: "ks \<noteq> [] \<Longrightarrow> look (put ks v d) ks = Some v"
proof (induction ks v d rule: put.induct)
  case (3 k k2 ks v d)
  then show ?case by (simp add: child_ins)
qed (simp_all add: dm.find_ins)

lemma parallel_Cons: "(k # ks) \<parallel> (l # ls) \<longleftrightarrow> k \<noteq> l \<or> ks \<parallel> ls"
  by (auto simp: parallel_def)

lemma parallel_Cons_cases:
  assumes "ks \<parallel> ls"
  obtains k ks' l ls' where "ks = k # ks'" "ls = l # ls'" "k \<noteq> l \<or> (k = l \<and> ks' \<parallel> ls')"
  using assms by (cases ks; cases ls) (auto simp: parallel_def)

lemma look_other_key: "k \<noteq> l \<Longrightarrow> map_of e l = map_of d l \<Longrightarrow> look e (l # ls) = look d (l # ls)"
  by (cases ls) (simp_all add: map_facts)

lemma look_put_other: "ks \<parallel> ls \<Longrightarrow> look (put ks v d) ls = look d ls"
proof (induction ks arbitrary: ls d)
  case (Cons k ks)
  from Cons.prems obtain l ls' where ls: "ls = l # ls'" "k \<noteq> l \<or> (k = l \<and> ks \<parallel> ls')"
    by (rule parallel_Cons_cases) auto
  show ?case
  proof (cases "k = l")
    case False
    have "map_of (put (k # ks) v d) l = map_of d l" using False by (cases ks) (simp_all add: dm.find_ins)
    then show ?thesis unfolding ls(1) by (rule look_other_key [OF False])
  next
    case True
    with ls have p: "ks \<parallel> ls'" by simp
    then have ne: "ks \<noteq> []" "ls' \<noteq> []" by (auto simp: parallel_def)
    show ?thesis
      unfolding ls(1) True [symmetric] look_Cons [OF ne(2)] put_Cons [OF ne(1)] child_ins
      by (simp add: Cons.IH [OF p] split: option.splits)
  qed
qed (simp add: parallel_def)

lemma look_cut_same: "look (cut ks d) ks = None"
proof (induction ks d rule: cut.induct)
  case (3 k k2 ks d)
  then show ?case by (simp add: child_ins split: option.splits)
qed (simp_all add: dm.find_del)

lemma look_cut_other: "ks \<parallel> ls \<Longrightarrow> look (cut ks d) ls = look d ls"
proof (induction ks arbitrary: ls d)
  case (Cons k ks)
  from Cons.prems obtain l ls' where ls: "ls = l # ls'" "k \<noteq> l \<or> (k = l \<and> ks \<parallel> ls')"
    by (rule parallel_Cons_cases) auto
  show ?case
  proof (cases "k = l")
    case False
    have "map_of (cut (k # ks) d) l = map_of d l"
      using False by (cases ks) (simp_all add: dm.find_ins dm.find_del split: option.splits)
    then show ?thesis unfolding ls(1) by (rule look_other_key [OF False])
  next
    case True
    with ls have p: "ks \<parallel> ls'" by simp
    then have ne: "ks \<noteq> []" "ls' \<noteq> []" by (auto simp: parallel_def)
    show ?thesis
      unfolding ls(1) True [symmetric] look_Cons [OF ne(2)] cut_Cons [OF ne(1)]
      by (simp add: child_ins Cons.IH [OF p] split: option.splits)
  qed
qed (simp add: parallel_def)

lemma cut_absent: "wf_dict d \<Longrightarrow> look d ks = None \<Longrightarrow> cut ks d = d"
proof (induction ks d rule: cut.induct)
  case (2 k d)
  then show ?case by (simp add: dm.del_absent wf_dict_def)
next
  case (3 k k2 ks d)
  show ?case
  proof (cases "child d k")
    case (Some c)
    then have "cut (k2 # ks) c = c" using 3 wf_child by auto
    moreover have "map_insert k (DictionaryValue c) d = d"
      using Some 3(2) by (intro dm.ins_present) (simp_all add: child_Some wf_dict_def)
    ultimately show ?thesis using Some by simp
  qed simp
qed simp

section \<open>Removal\<close>

lemma Remove_key: "fst (RemoveWithoutPathExpansion k d) = map_of d k"
    "wf_dict d \<Longrightarrow> snd (RemoveWithoutPathExpansion k d) = map_erase k d"
  by (auto simp: map_facts wf_dict_def dm.del_absent split: option.splits)

text \<open>rfind splits off the last component.\<close>

lemma find_dot_Some: "find_dot p = Some (a, b) \<longleftrightarrow> p = a @ path_dot # b \<and> path_dot \<notin> set a"
proof (induction p arbitrary: a)
  case (Cons c p)
  show ?case
  proof (cases a)
    case Nil
    then show ?thesis by (auto split: option.splits)
  next
    case (Cons a1 a2)
    then show ?thesis using Cons.IH [of a2] by (auto split: option.splits)
  qed
qed simp

lemma find_dot_None: "find_dot p = None \<longleftrightarrow> path_dot \<notin> set p"
  by (induction p) (auto split: option.splits)

lemma rfind_dot_Some: "rfind_dot p = Some (a, b) \<longleftrightarrow> p = a @ path_dot # b \<and> path_dot \<notin> set b"
proof -
  have "rfind_dot p = Some (a, b) \<longleftrightarrow> find_dot (rev p) = Some (rev b, rev a)"
    by (auto simp: rfind_dot_def split: option.splits)
  also have "\<dots> \<longleftrightarrow> rev p = rev (a @ path_dot # b) \<and> path_dot \<notin> set b" by (simp add: find_dot_Some)
  finally show ?thesis by (simp only: rev_is_rev_conv)
qed

lemma rfind_dot_None: "rfind_dot p = None \<longleftrightarrow> path_dot \<notin> set p"
proof -
  have "rfind_dot p = None \<longleftrightarrow> find_dot (rev p) = None" by (auto simp: rfind_dot_def split: option.splits)
  then show ?thesis by (simp add: find_dot_None)
qed

lemma path_keys_append: "path_dot \<notin> set b \<Longrightarrow> path_keys (a @ path_dot # b) = path_keys a @ [b]"
proof (induction a rule: path_keys.induct)
  case (1 a)
  show ?case
  proof (cases "find_dot a")
    case None
    then have "find_dot (a @ path_dot # b) = Some (a, b)" by (simp add: find_dot_None find_dot_Some)
    then show ?thesis using None 1(2) by (simp add: path_keys_Cons path_keys_single find_dot_None)
  next
    case (Some kr)
    obtain k r where kr: "kr = (k, r)" by force
    then have "find_dot (a @ path_dot # b) = Some (k, r @ path_dot # b)"
      using Some find_dot_Some [of a k r] find_dot_Some [of "a @ path_dot # b" k "r @ path_dot # b"] by simp
    moreover have "path_keys (r @ path_dot # b) = path_keys r @ [b]" using 1 Some kr by blast
    ultimately show ?thesis using Some kr by (simp add: path_keys_Cons)
  qed
qed


lemma change_cut:
  "path_keys p @ [k] = ks \<Longrightarrow> wf_dict d \<Longrightarrow> change_at p (\<lambda>c. snd (RemoveWithoutPathExpansion k c)) d = cut ks d"
proof (induction p "\<lambda>c. snd (RemoveWithoutPathExpansion k c)" d arbitrary: ks rule: change_at.induct)
  case (1 p d)
  show ?case
  proof (cases "find_dot p")
    case None
    then have ks: "ks = [p, k]" using 1(2) by (simp add: path_keys_single)
    show ?thesis using None 1(3) wf_child [of d p]
      by (subst change_at.simps) (auto simp: ks SetWithoutPathExpansion_def Remove_key split: option.splits)
  next
    case (Some lr)
    obtain l r where lr: "lr = (l, r)" by force
    then have ks: "ks = l # path_keys r @ [k]" using 1(2) Some by (simp add: path_keys_Cons)
    have "cut ks d = (case child d l of None \<Rightarrow> d | Some c \<Rightarrow> map_insert l (DictionaryValue (cut (path_keys r @ [k]) c)) d)"
      unfolding ks by (rule cut_Cons) simp
    then show ?thesis using Some lr 1(1) [OF Some] 1(3) wf_child [of d l]
      by (subst change_at.simps) (auto simp: SetWithoutPathExpansion_def split: option.splits)
  qed
qed

lemma look_snoc: "ks \<noteq> [] \<Longrightarrow> look d (ks @ [k]) = (case look d ks of Some (DictionaryValue c) \<Rightarrow> map_of c k | _ \<Rightarrow> None)"
proof (induction d ks rule: look.induct)
  case (2 d j)
  then show ?case by (auto simp: map_facts GetAsDictionary_def split: option.splits base_value.splits)
qed (auto split: option.splits)

lemma Remove_cut:
  assumes "wf_dict d"
  shows "dict_Remove p d = (look d (path_keys p), cut (path_keys p) d)"
proof (cases "rfind_dot p")
  case None
  then have "path_keys p = [p]" by (simp add: rfind_dot_None path_keys_single find_dot_None)
  then show ?thesis using None Remove_key(1) [of p d] Remove_key(2) [OF assms, of p] by (simp add: dict_Remove_def prod_eq_iff)
next
  case (Some ab)
  obtain a b where ab: "ab = (a, b)" by force
  then have c: "path_keys p = path_keys a @ [b]" using Some by (simp add: rfind_dot_Some path_keys_append)
  have g: "dict_GetDictionary d a = (case look d (path_keys a) of Some v \<Rightarrow> GetAsDictionary v | None \<Rightarrow> None)"
    by (simp add: dict_GetDictionary_def Get_look)
  show ?thesis
  proof (cases "dict_GetDictionary d a")
    case None
    then have "look d (path_keys p) = None"
      unfolding c look_snoc [OF path_keys_nonempty] using g
      by (auto simp: GetAsDictionary_def split: option.splits base_value.splits)
    then show ?thesis using Some ab None cut_absent [OF assms] by (simp add: dict_Remove_def)
  next
    case (Some e)
    then have "look d (path_keys p) = map_of e b"
      unfolding c look_snoc [OF path_keys_nonempty] using g
      by (auto simp: GetAsDictionary_def split: option.splits base_value.splits)
    then show ?thesis using \<open>rfind_dot p = Some ab\<close> ab Some change_cut [OF c [symmetric] assms]
      by (simp add: dict_Remove_def Remove_key)
  qed
qed


text \<open>Removal that takes emptied dictionaries along.\<close>

fun prune :: "u8 list list \<Rightarrow> dict \<Rightarrow> dict" where
  "prune [] d = d"
| "prune [k] d = map_erase k d"
| "prune (k # ks) d =
     (case child d k of
        None \<Rightarrow> d
      | Some c \<Rightarrow>
          let d' = map_insert k (DictionaryValue (prune ks c)) d
          in if look c ks \<noteq> None \<and> prune ks c = [] then map_erase k d' else d')"

lemma prune_Cons: "ks \<noteq> [] \<Longrightarrow> prune (k # ks) d =
    (case child d k of
        None \<Rightarrow> d
      | Some c \<Rightarrow>
          let d' = map_insert k (DictionaryValue (prune ks c)) d
          in if look c ks \<noteq> None \<and> prune ks c = [] then map_erase k d' else d')"
  by (cases ks) (auto split: option.splits)

lemma RemovePath_prune:
  "wf_dict d \<Longrightarrow> dict_RemovePath p d = (look d (path_keys p), prune (path_keys p) d)"
proof (induction p d rule: dict_RemovePath.induct)
  case (1 p d)
  show ?case
  proof (cases "find_dot p")
    case None
    then show ?thesis using Remove_key(1) [of p d] Remove_key(2) [OF 1(2), of p]
      by (subst dict_RemovePath.simps) (simp add: path_keys_single prod_eq_iff)
  next
    case (Some kr)
    obtain k r where kr: "kr = (k, r)" by force
    have c: "path_keys p = k # path_keys r" using Some kr by (simp add: path_keys_Cons)
    show ?thesis
    proof (cases "child d k")
      case None
      then show ?thesis unfolding c look_Cons [OF path_keys_nonempty] prune_Cons [OF path_keys_nonempty]
        using Some kr by (subst dict_RemovePath.simps) simp
    next
      case (Some e)
      have w: "wf_dict e" using wf_child [OF 1(2) Some] .
      have IH: "dict_RemovePath r e = (look e (path_keys r), prune (path_keys r) e)"
        using 1(1) [OF \<open>find_dot p = Some kr\<close> kr [symmetric] Some w] .
      let ?d' = "map_insert k (DictionaryValue (prune (path_keys r) e)) d"
      have er: "snd (RemoveWithoutPathExpansion k (map_insert k x d)) = map_erase k (map_insert k x d)" for x
        by (simp add: map_facts)
      show ?thesis unfolding c look_Cons [OF path_keys_nonempty] prune_Cons [OF path_keys_nonempty]
        using Some kr \<open>find_dot p = Some kr\<close> IH er
        by (subst dict_RemovePath.simps) (simp add: SetWithoutPathExpansion_def Let_def)
    qed
  qed
qed

lemma look_prune_same: "look (prune ks d) ks = None"
proof (induction ks d rule: prune.induct)
  case (3 k k2 ks d)
  then show ?case by (auto simp: child_ins child_erase Let_def split: option.splits)
qed (simp_all add: dm.find_del)

lemma look_prune_other: "ks \<parallel> ls \<Longrightarrow> look (prune ks d) ls = look d ls"
proof (induction ks arbitrary: ls d)
  case (Cons k ks)
  from Cons.prems obtain l ls' where ls: "ls = l # ls'" "k \<noteq> l \<or> (k = l \<and> ks \<parallel> ls')"
    by (rule parallel_Cons_cases) auto
  show ?case
  proof (cases "k = l")
    case False
    have "map_of (prune (k # ks) d) l = map_of d l"
      using False by (cases ks) (simp_all add: dm.find_ins dm.find_del Let_def split: option.splits)
    then show ?thesis unfolding ls(1) by (rule look_other_key [OF False])
  next
    case True
    with ls have p: "ks \<parallel> ls'" by simp
    then have ne: "ks \<noteq> []" "ls' \<noteq> []" by (auto simp: parallel_def)
    show ?thesis
    proof (cases "child d k")
      case None
      then show ?thesis unfolding ls(1) True [symmetric] by (simp add: prune_Cons ne look_Cons)
    next
      case (Some c)
      have IH: "look (prune ks c) ls' = look c ls'" by (rule Cons.IH [OF p])
      show ?thesis
      proof (cases "look c ks \<noteq> None \<and> prune ks c = []")
        case True
        then have "look c ls' = None" using IH by simp
        moreover have "child (map_erase k (map_insert k (DictionaryValue (prune ks c)) d)) k = None" by (simp add: map_facts)
        ultimately show ?thesis unfolding ls(1) \<open>k = l\<close> [symmetric] prune_Cons [OF ne(1)] look_Cons [OF ne(2)]
          using Some True by (simp add: Let_def)
      next
        case False
        then show ?thesis unfolding ls(1) \<open>k = l\<close> [symmetric] prune_Cons [OF ne(1)] look_Cons [OF ne(2)]
          using Some IH by (auto simp add: Let_def child_ins)
      qed
    qed
  qed
qed (simp add: parallel_def)

lemma prune_no_empty:
  "look d ks \<noteq> None \<Longrightarrow> strict_prefix js ks \<Longrightarrow> look (prune ks d) js \<noteq> Some (DictionaryValue [])"
proof (induction ks arbitrary: js d)
  case (Cons k ks)
  show ?case
  proof (cases js)
    case (Cons j js')
    then have j: "j = k" "strict_prefix js' ks" using Cons.prems by auto
    then have ne: "ks \<noteq> []" by auto
    then obtain c where c: "child d k = Some c" "look c ks \<noteq> None"
      using Cons.prems(1) by (auto simp: look_Cons split: option.splits)
    let ?d' = "map_insert k (DictionaryValue (prune ks c)) d"
    have e: "prune (k # ks) d = (if prune ks c = [] then map_erase k ?d' else ?d')"
      unfolding prune_Cons [OF ne] using c by (simp add: Let_def)
    show ?thesis
    proof (cases "js' = []")
      case True
      then show ?thesis unfolding e Cons j(1) by (simp add: dm.find_ins dm.find_del)
    next
      case False
      then show ?thesis unfolding e Cons j(1) look_Cons [OF False] using Cons.IH [OF c(2) j(2)]
        by (simp add: child_ins child_erase)
    qed
  qed simp
qed simp

text \<open>
  C35. In a dictionary of well-formed values, Set makes Get find the value at its path, Remove and
  RemovePath return what Get finds and leave nothing at the path, RemovePath leaves no empty dictionary
  on the way to it, none of them changes what Get finds at a path that is neither above nor below, and a
  Remove that finds nothing leaves the dictionary as it was.
\<close>

theorem dictionary_paths:
  assumes "wf_dict d" and "path_keys p \<parallel> path_keys q"
  shows "dict_Get (dict_Set p v d) p = Some v \<and> dict_Get (dict_Set p v d) q = dict_Get d q
    \<and> fst (dict_Remove p d) = dict_Get d p \<and> dict_Get (snd (dict_Remove p d)) p = None
    \<and> dict_Get (snd (dict_Remove p d)) q = dict_Get d q
    \<and> fst (dict_RemovePath p d) = dict_Get d p \<and> dict_Get (snd (dict_RemovePath p d)) p = None
    \<and> dict_Get (snd (dict_RemovePath p d)) q = dict_Get d q
    \<and> (dict_Get d p = None \<longrightarrow> snd (dict_Remove p d) = d)
    \<and> (dict_Get d p \<noteq> None \<longrightarrow> strict_prefix (path_keys r) (path_keys p) \<longrightarrow>
        dict_Get (snd (dict_RemovePath p d)) r \<noteq> Some (DictionaryValue []))"
  using look_put_same [OF path_keys_nonempty, of p v d] look_put_other [OF assms(2)] look_cut_same [of "path_keys p" d]
    look_cut_other [OF assms(2)] look_prune_same [of "path_keys p" d] look_prune_other [OF assms(2)]
    cut_absent [OF assms(1)] prune_no_empty [of d "path_keys p" "path_keys r"]
  by (simp add: Get_look Set_put Remove_cut [OF assms(1)] RemovePath_prune [OF assms(1)])

lemma dictionary_paths_witness:
  "dict_Get (dict_Set [97, 46, 98] NullValue [([97], BooleanValue True)]) [97, 46, 98] = Some NullValue
    \<and> dict_Get (dict_Set [97, 46, 98] NullValue [([97], BooleanValue True)]) [99] = None"
proof -
  have w: "wf_dict [([97], BooleanValue True)]" by (simp add: wf_dict_def)
  have p: "path_keys [97, 46, 98] \<parallel> path_keys [99]"
    by (simp add: path_keys_single path_keys_Cons path_dot_def parallel_Cons)
  have "dict_Get [([97], BooleanValue True)] [99] = None" by (simp add: dict_Get.simps path_dot_def map_facts)
  with dictionary_paths [OF w p, of NullValue] show ?thesis by simp
qed


section \<open>Copies and equality\<close>

lemma finite_new_double: "double_is_finite d \<Longrightarrow> new_double d = DoubleValue d"
  by (simp add: new_double_def)

lemma wf_new_double: "wf_value (new_double d)"
  by (simp add: new_double_def double_is_finite_def)

lemma wf_all: "(\<And>e. e \<in> set d \<Longrightarrow> wf_value (snd e)) \<Longrightarrow> wf_dict r \<Longrightarrow>
    wf_dict (foldl (\<lambda>r e. SetWithoutPathExpansion (fst e) (snd e) r) r d)"
  by (induction d arbitrary: r) (simp_all add: wf_set)

lemma wf_DeepCopy: "wf_value (DeepCopy v)"
proof (induction v rule: DeepCopy.induct)
  case (1 d)
  have "wf_dict (foldl (\<lambda>r e. SetWithoutPathExpansion (fst e) (snd e) r) [] (map (\<lambda>(k, v). (k, DeepCopy v)) d))"
    using 1 by (intro wf_all) auto
  then show ?case by (simp only: DeepCopy.simps wf_value_dict)
qed (auto simp: list_all_iff wf_new_double)

lemma DeepCopy_same: "wf_value v \<Longrightarrow> DeepCopy v = v"
proof (induction v rule: DeepCopy.induct)
  case (1 d)
  then have "map (\<lambda>(k, v). (k, DeepCopy v)) d = d" by (intro map_idI) (auto simp: list_all_iff)
  moreover have "foldl (\<lambda>r e. map_insert (fst e) (snd e) r) [] d = d" using 1 by (intro dm.rebuilt) simp
  ultimately show ?case by (simp add: SetWithoutPathExpansion_def)
next
  case (2 l)
  then show ?case by (auto simp: list_all_iff intro: map_idI)
qed (simp_all add: finite_new_double)

text \<open>Equal values differ at most in the sign of a zero.\<close>

fun same_zeros :: "base_value \<Rightarrow> base_value" where
  "same_zeros (DictionaryValue d) = DictionaryValue (map (\<lambda>(k, v). (k, same_zeros v)) d)"
| "same_zeros (ListValue l) = ListValue (map same_zeros l)"
| "same_zeros (DoubleValue d) = DoubleValue (if take_bit 63 d = 0 then 0 else d)"
| "same_zeros v = v"

lemma finite_not_nan: "double_is_finite d \<Longrightarrow> \<not> double_is_nan d"
  by (simp add: double_is_nan_def)

lemma double_equal_zeros: "double_is_finite a \<Longrightarrow> double_is_finite b \<Longrightarrow>
    double_equal a b \<longleftrightarrow> (if take_bit 63 a = 0 then 0 else a) = (if take_bit 63 b = 0 then 0 else b)"
  by (auto simp: double_equal_def finite_not_nan)

lemma Equals_zeros:
  "wf_value v \<Longrightarrow> wf_value w \<Longrightarrow> Equals v w \<longleftrightarrow> same_zeros v = same_zeros w"
  "list_all wf_value l \<Longrightarrow> list_all wf_value m \<Longrightarrow> Equals_lists l m \<longleftrightarrow> map same_zeros l = map same_zeros m"
  "list_all (wf_value \<circ> snd) d \<Longrightarrow> list_all (wf_value \<circ> snd) e \<Longrightarrow>
    Equals_dicts d e \<longleftrightarrow> map (\<lambda>(k, v). (k, same_zeros v)) d = map (\<lambda>(k, v). (k, same_zeros v)) e"
proof (induction v w and l m and d e rule: Equals_Equals_lists_Equals_dicts.induct)
  case (1 other)
  then show ?case by (cases other) auto
next
  case (7 a other)
  then show ?case by (cases other) (auto simp: comp_def)
next
  case (10 a as bs)
  then show ?case by (cases bs) auto
next
  case (12 e as bs)
  then show ?case by (cases bs) (auto split: prod.splits)
qed (auto simp: double_equal_zeros split: base_value.splits)

text \<open>
  C36. Equals tells well-formed values apart exactly where they differ in more than the sign of a zero,
  so that it is an equivalence on them; a deep copy is well-formed, and is the value itself where that is
  well-formed.
\<close>

theorem Equals_exact:
  assumes "wf_value v" and "wf_value w"
  shows "(Equals v w \<longleftrightarrow> same_zeros v = same_zeros w) \<and> DeepCopy v = v \<and> wf_value (DeepCopy u)"
  using Equals_zeros(1) [OF assms] DeepCopy_same [OF assms(1)] wf_DeepCopy by blast

lemma Equals_exact_witness:
  "Equals (DictionaryValue [([97], DoubleValue 0)]) (DictionaryValue [([97], DoubleValue 0x8000000000000000)])
    \<and> \<not> Equals (ListValue [NullValue]) (ListValue [])"
proof
  have w: "wf_value (DictionaryValue [([97], DoubleValue 0)])"
      "wf_value (DictionaryValue [([97], DoubleValue 0x8000000000000000)])"
    by (simp_all add: double_is_finite_def drop_bit_eq_div)
  show "Equals (DictionaryValue [([97], DoubleValue 0)]) (DictionaryValue [([97], DoubleValue 0x8000000000000000)])"
    by (rule iffD2 [OF conjunct1 [OF Equals_exact [OF w]]]) (simp add: take_bit_eq_mod)
qed simp

section \<open>Merging and dropping\<close>

lemma wf_child_or_new: "wf_dict d \<Longrightarrow> wf_dict (case child d k of Some c \<Rightarrow> c | None \<Rightarrow> [])"
  using wf_child by (auto split: option.splits)

lemma wf_put: "wf_dict d \<Longrightarrow> wf_value v \<Longrightarrow> wf_dict (put ks v d)"
proof (induction ks v d rule: put.induct)
  case (2 k v d)
  then show ?case by (simp add: wf_ins)
next
  case (3 k k2 ks v d)
  then have "wf_dict (put (k2 # ks) v (case child d k of Some c \<Rightarrow> c | None \<Rightarrow> []))" by (simp add: wf_child_or_new)
  then show ?case using 3(2) by (simp add: wf_ins_dict)
qed simp

lemma wf_erase: "wf_dict d \<Longrightarrow> wf_dict (map_erase k d)"
  using wf_remove [of d k] Remove_key(2) [of d k] by simp

lemma wf_cut: "wf_dict d \<Longrightarrow> wf_dict (cut ks d)"
proof (induction ks d rule: cut.induct)
  case (3 k k2 ks d)
  show ?case
  proof (cases "child d k")
    case (Some c)
    then have "wf_dict (cut (k2 # ks) c)" using 3 wf_child by blast
    then show ?thesis using Some 3(2) by (simp add: wf_ins_dict)
  qed (use 3 in simp)
qed (simp_all add: wf_erase)

lemma wf_prune: "wf_dict d \<Longrightarrow> wf_dict (prune ks d)"
proof (induction ks arbitrary: d)
  case (Cons k ks)
  show ?case
  proof (cases "ks = [] \<or> child d k = None")
    case True
    then show ?thesis using Cons.prems by (cases ks) (auto simp: wf_erase)
  next
    case False
    then obtain c where ne: "ks \<noteq> []" and c: "child d k = Some c" by blast
    have "wf_dict (prune ks c)" using Cons.IH wf_child [OF Cons.prems c] by blast
    then have "wf_dict (map_insert k (DictionaryValue (prune ks c)) d)" by (rule wf_ins_dict [OF Cons.prems])
    then show ?thesis using wf_erase by (auto simp: prune_Cons [OF ne] c Let_def)
  qed
qed simp

text \<open>What a merge makes of one entry.\<close>

definition merged :: "base_value \<Rightarrow> base_value option \<Rightarrow> base_value" where
  "merged v old =
     (case (v, old) of
        (DictionaryValue m, Some (DictionaryValue c)) \<Rightarrow> DictionaryValue (MergeDictionary m c)
      | _ \<Rightarrow> DeepCopy v)"

lemma Merge_Cons: "MergeDictionary ((k, v) # m) d = MergeDictionary m (SetWithoutPathExpansion k (merged v (map_of d k)) d)"
  by (auto simp: merged_def child_Some GetDictionaryWithoutPathExpansion_def GetWithoutPathExpansion_def GetAsDictionary_def
      split: base_value.splits option.splits)

lemma wf_Merge: "wf_dict d \<Longrightarrow> wf_dict (MergeDictionary m d)"
proof (induction "size_list (size_prod (\<lambda>_. 0) size) m" arbitrary: m d rule: less_induct)
  case less
  show ?case
  proof (cases m)
    case (Cons e m')
    obtain k v where e: "e = (k, v)" by force
    have "wf_value (merged v (map_of d k))"
    proof (cases "\<exists>ms c. v = DictionaryValue ms \<and> map_of d k = Some (DictionaryValue c)")
      case True
      then obtain ms c where v: "v = DictionaryValue ms" and c: "map_of d k = Some (DictionaryValue c)" by blast
      have "wf_dict c" using c less.prems by (metis wf_dict_def wf_value_dict)
      then have "wf_dict (MergeDictionary ms c)" by (intro less.hyps) (simp_all add: Cons e v)
      then show ?thesis by (simp add: merged_def v c wf_value_dict del: wf_value.simps)
    next
      case False
      then have "merged v (map_of d k) = DeepCopy v"
        by (auto simp only: merged_def prod.case split: base_value.splits option.splits)
      then show ?thesis by (simp only: wf_DeepCopy)
    qed
    then have "wf_dict (SetWithoutPathExpansion k (merged v (map_of d k)) d)" by (rule wf_set [OF less.prems])
    then show ?thesis unfolding Cons e Merge_Cons by (intro less.hyps) (simp_all add: Cons e)
  qed (use less.prems in simp)
qed

lemma Merge_find:
  "ascending m \<Longrightarrow> map_of (MergeDictionary m d) k =
    (case map_of m k of None \<Rightarrow> map_of d k | Some v \<Rightarrow> Some (merged v (map_of d k)))"
proof (induction m arbitrary: d)
  case (Cons e m)
  obtain j v where e: "e = (j, v)" by force
  have "map_of m j = None" using Cons.prems by (auto simp: e map_of_eq_None_iff)
  then show ?case using Cons.IH [of "SetWithoutPathExpansion j (merged v (map_of d j)) d"] Cons.prems
    unfolding e Merge_Cons by (auto simp: map_facts split: option.splits)
qed simp


text \<open>No list and no dictionary without children.\<close>

fun no_empty :: "base_value \<Rightarrow> bool" where
  "no_empty (DictionaryValue d) \<longleftrightarrow> d \<noteq> [] \<and> list_all (\<lambda>e. no_empty (snd e)) d"
| "no_empty (ListValue l) \<longleftrightarrow> l \<noteq> [] \<and> list_all no_empty l"
| "no_empty _ \<longleftrightarrow> True"

lemma no_empty_new_double: "no_empty (new_double d)"
  by (simp add: new_double_def)

lemma set_map_insert_values: "e \<in> set (map_insert k v d) \<Longrightarrow> e = (k, v) \<or> e \<in> set d"
  by (induction k v d rule: map_insert.induct) (auto split: if_splits)

lemma map_insert_nonempty: "map_insert k v d \<noteq> []"
  by (cases d) (auto split: if_splits)

lemma copies_without_empty:
  "CopyWithoutEmptyChildren v = Some w \<Longrightarrow> wf_value w \<and> no_empty w"
  "(\<And>c. lcopy = Some c \<Longrightarrow> c \<noteq> [] \<and> list_all wf_value c \<and> list_all no_empty c) \<Longrightarrow>
    CopyListWithoutEmptyChildren l lcopy = Some c' \<Longrightarrow> c' \<noteq> [] \<and> list_all wf_value c' \<and> list_all no_empty c'"
  "(\<And>c. dcopy = Some c \<Longrightarrow> c \<noteq> [] \<and> wf_dict c \<and> list_all (no_empty \<circ> snd) c) \<Longrightarrow>
    CopyDictionaryWithoutEmptyChildren d dcopy = Some d' \<Longrightarrow> d' \<noteq> [] \<and> wf_dict d' \<and> list_all (no_empty \<circ> snd) d'"
proof (induction v and l lcopy and d dcopy arbitrary: w and c' and d'
    rule: CopyWithoutEmptyChildren_CopyListWithoutEmptyChildren_CopyDictionaryWithoutEmptyChildren.induct, goal_cases)
  case (1 l w)
  then show ?case by auto
next
  case (2 d w)
  then obtain e where "CopyDictionaryWithoutEmptyChildren d None = Some e" "w = DictionaryValue e" by auto
  with 2(1) [of e] show ?case by (simp add: comp_def wf_value_dict del: wf_value.simps)
next
  case (10 v l lcopy c')
  show ?case
  proof (rule 10(2))
    show "CopyListWithoutEmptyChildren l (case CopyWithoutEmptyChildren v of None \<Rightarrow> lcopy
        | Some child_copy \<Rightarrow> Some ((case lcopy of None \<Rightarrow> [] | Some c \<Rightarrow> c) @ [child_copy])) = Some c'"
      using 10(4) by simp
  next
    fix c
    assume "(case CopyWithoutEmptyChildren v of None \<Rightarrow> lcopy
        | Some child_copy \<Rightarrow> Some ((case lcopy of None \<Rightarrow> [] | Some c \<Rightarrow> c) @ [child_copy])) = Some c"
    then show "c \<noteq> [] \<and> list_all wf_value c \<and> list_all no_empty c" using 10(1,3) by (auto split: option.splits)
  qed
next
  case (12 key v d dcopy d')
  show ?case
  proof (rule 12(2))
    show "CopyDictionaryWithoutEmptyChildren d (case CopyWithoutEmptyChildren v of None \<Rightarrow> dcopy
        | Some child_copy \<Rightarrow> Some (SetWithoutPathExpansion key child_copy (case dcopy of None \<Rightarrow> [] | Some c \<Rightarrow> c))) = Some d'"
      using 12(4) by simp
  next
    fix c
    assume c: "(case CopyWithoutEmptyChildren v of None \<Rightarrow> dcopy
        | Some child_copy \<Rightarrow> Some (SetWithoutPathExpansion key child_copy (case dcopy of None \<Rightarrow> [] | Some c \<Rightarrow> c))) = Some c"
    show "c \<noteq> [] \<and> wf_dict c \<and> list_all (no_empty \<circ> snd) c"
    proof (cases "CopyWithoutEmptyChildren v")
      case None
      then show ?thesis using c 12(3) by simp
    next
      case (Some w)
      define r where "r = (case dcopy of None \<Rightarrow> [] | Some c \<Rightarrow> c)"
      have r: "wf_dict r" "\<forall>e \<in> set r. no_empty (snd e)"
        using 12(3) by (cases dcopy; fastforce simp: r_def list_all_iff)+
      have w: "wf_value w" "no_empty w" using 12(1) [OF Some] by simp_all
      have "c = map_insert key w r" using c Some by (simp add: SetWithoutPathExpansion_def r_def)
      moreover have "\<forall>e \<in> set (map_insert key w r). no_empty (snd e)"
        using set_map_insert_values [of _ key w r] r(2) w(2) by (metis snd_conv)
      ultimately show ?thesis using r(1) w(1) by (simp add: map_insert_nonempty list_all_iff wf_ins)
    qed
  qed
qed (auto simp: wf_new_double no_empty_new_double)

lemma DeepCopyWithoutEmptyChildren_result:
  "wf_dict (DeepCopyWithoutEmptyChildren d) \<and> list_all (no_empty \<circ> snd) (DeepCopyWithoutEmptyChildren d)"
  using copies_without_empty(3) [of None d]
  by (auto simp: DeepCopyWithoutEmptyChildren_def split: option.splits)

section \<open>Lists\<close>

lemma list_Find_bound: "list_Find l v i = Some j \<Longrightarrow> i \<le> j \<and> j < i + length l"
  by (induction l arbitrary: i) (fastforce split: if_splits)+

lemma wf_list_ops:
  assumes "list_all wf_value l" and "wf_value v"
  shows "list_all wf_value (list_Set i v l)" "list_all wf_value (snd (list_Remove i l))"
    "list_all wf_value (snd (list_RemoveValue v l))" "list_all wf_value (list_Append v l)"
    "list_all wf_value (snd (list_AppendIfNotPresent v l))" "list_all wf_value (snd (list_Insert i v l))"
  using assms set_update_subset_insert [of l i v]
  by (auto simp: list_Set_def list_Remove_def list_RemoveValue_def list_Append_def list_AppendIfNotPresent_def
      list_Insert_def list_all_iff split: option.splits dest: in_set_takeD in_set_dropD)

text \<open>
  C37. Every operation on a dictionary or a list leaves the keys of all dictionaries ascending and all
  doubles finite; a merge combines dictionaries that both sides have and lets the other entries of the
  merged one win; the copy without empty children has none.
\<close>

theorem value_operations_typed:
  assumes "wf_dict d" and "wf_value v" and "list_all wf_value l" and "wf_dict m"
  shows "wf_dict (dict_Set p v d) \<and> wf_dict (snd (dict_Remove p d)) \<and> wf_dict (snd (dict_RemovePath p d))
    \<and> wf_dict (MergeDictionary m d)
    \<and> map_of (MergeDictionary m d) k =
        (case map_of m k of None \<Rightarrow> map_of d k | Some v \<Rightarrow> Some (merged v (map_of d k)))
    \<and> wf_dict (DeepCopyWithoutEmptyChildren d) \<and> list_all (no_empty \<circ> snd) (DeepCopyWithoutEmptyChildren d)
    \<and> list_all wf_value (list_Set i v l) \<and> list_all wf_value (snd (list_Remove i l))
    \<and> list_all wf_value (snd (list_RemoveValue v l)) \<and> list_all wf_value (snd (list_AppendIfNotPresent v l))
    \<and> list_all wf_value (snd (list_Insert i v l))"
  using wf_put [OF assms(1,2)] wf_cut [OF assms(1)] wf_prune [OF assms(1)] wf_Merge [OF assms(1), of m]
    Merge_find [of m d k] assms(4) DeepCopyWithoutEmptyChildren_result [of d] wf_list_ops [OF assms(3,2)]
  by (simp add: Set_put Remove_cut [OF assms(1)] RemovePath_prune [OF assms(1)] wf_dict_def)

lemma value_operations_typed_witness:
  "wf_dict (MergeDictionary [([97], DoubleValue 0)] [([98], NullValue)])
    \<and> map_of (MergeDictionary [([97], DoubleValue 0)] [([98], NullValue)]) [98] = Some NullValue"
proof -
  have "wf_dict [([98], NullValue)]" "wf_dict [([97], DoubleValue 0)]" "wf_value NullValue" "list_all wf_value []"
    by (simp_all add: wf_dict_def double_is_finite_def)
  from value_operations_typed [OF this(1) this(3) this(4) this(2), where k = "[98]"] show ?thesis by simp
qed

end
