(* ===== verification/JsonParser.thy ===== *)
theory JsonParser
  imports ValuesCorrect UtfConvert
begin

text \<open>
  base/json/json_parser.cc and the entry points of json_reader.cc.  The input is a byte string and what
  memory holds behind it, since the parser reads there at times; positions and indices are kept apart
  as the source keeps pos_ and index_, and are those of an input shorter than an int32_t.  The
  recursion on nested values takes fuel, and \<open>JsonParserTotal\<close> shows that it does not run out.
\<close>

section \<open>The state\<close>

datatype JsonParseError =
    JSON_NO_ERROR
  | JSON_INVALID_ESCAPE
  | JSON_SYNTAX_ERROR
  | JSON_UNEXPECTED_TOKEN
  | JSON_TRAILING_COMMA
  | JSON_TOO_MUCH_NESTING
  | JSON_UNEXPECTED_DATA_AFTER_ROOT
  | JSON_UNSUPPORTED_ENCODING
  | JSON_UNQUOTED_DICTIONARY_KEY

datatype json_token =
    T_OBJECT_BEGIN | T_OBJECT_END | T_ARRAY_BEGIN | T_ARRAY_END | T_STRING | T_NUMBER | T_BOOL_TRUE
  | T_BOOL_FALSE | T_NULL | T_LIST_SEPARATOR | T_OBJECT_PAIR_SEPARATOR | T_END_OF_INPUT | T_INVALID_TOKEN

definition kStackMaxDepth :: nat where "kStackMaxDepth = 100"
definition kExtendedASCIIStart :: int where "kExtendedASCIIStart = 0x80"

text \<open>What a parse does not change: the input, the memory behind it, the options and strtod.\<close>

record json_input =
  ji_text :: "u8 list"
  ji_behind :: "nat \<Rightarrow> u8"
  ji_trailing_commas :: bool
  ji_strtod :: "u8 list \<Rightarrow> u64 \<times> nat"

record json_parser =
  jp_pos :: nat
  jp_index :: nat
  jp_depth :: nat
  jp_line_number :: nat
  jp_index_last_line :: nat
  jp_error_code :: JsonParseError
  jp_error_line :: nat
  jp_error_column :: int

definition end_pos :: "json_input \<Rightarrow> nat" where "end_pos inp = length (ji_text inp)"

definition byte_at :: "json_input \<Rightarrow> nat \<Rightarrow> u8" where
  "byte_at inp i = (if i < end_pos inp then ji_text inp ! i else ji_behind inp (i - end_pos inp))"

definition bytes_at :: "json_input \<Rightarrow> nat \<Rightarrow> nat \<Rightarrow> u8 list" where
  "bytes_at inp i n = map (byte_at inp) [i ..< i + n]"

definition CanConsume :: "json_input \<Rightarrow> json_parser \<Rightarrow> nat \<Rightarrow> bool" where
  "CanConsume inp p n \<longleftrightarrow> jp_pos p + n \<le> end_pos inp"

definition NextNChars :: "nat \<Rightarrow> json_parser \<Rightarrow> json_parser" where
  "NextNChars n p = p\<lparr>jp_pos := jp_pos p + n, jp_index := jp_index p + n\<rparr>"

definition NextChar :: "json_parser \<Rightarrow> json_parser" where
  "NextChar = NextNChars 1"

definition ReportError :: "JsonParseError \<Rightarrow> int \<Rightarrow> json_parser \<Rightarrow> json_parser" where
  "ReportError code column_adjust p =
     p\<lparr>jp_error_code := code, jp_error_line := jp_line_number p,
       jp_error_column := int (jp_index p) - int (jp_index_last_line p) + column_adjust\<rparr>"

lemma NextNChars_simps [simp]:
  "jp_pos (NextNChars n p) = jp_pos p + n" "jp_index (NextNChars n p) = jp_index p + n"
  "jp_depth (NextNChars n p) = jp_depth p"
  by (simp_all add: NextNChars_def)

lemma NextChar_simps [simp]:
  "jp_pos (NextChar p) = Suc (jp_pos p)" "jp_index (NextChar p) = Suc (jp_index p)"
  "jp_depth (NextChar p) = jp_depth p"
  by (simp_all add: NextChar_def)

lemma ReportError_simps [simp]:
  "jp_pos (ReportError e a p) = jp_pos p" "jp_index (ReportError e a p) = jp_index p"
  "jp_depth (ReportError e a p) = jp_depth p"
  by (simp_all add: ReportError_def)

section \<open>Whitespace and comments\<close>

text \<open>The two loops of EatComment.\<close>

function line_comment :: "json_input \<Rightarrow> json_parser \<Rightarrow> bool \<times> json_parser" where
  "line_comment inp p =
     (if CanConsume inp p 1 then
        let p = NextChar p; next_char = byte_at inp (jp_pos p)
        in if next_char = 10 \<or> next_char = 13 then (True, p) else line_comment inp p
      else (False, p))"
  by pat_completeness auto
termination by (relation "measure (\<lambda>(inp, p). end_pos inp - jp_pos p)") (auto simp: CanConsume_def)

function block_comment :: "json_input \<Rightarrow> u8 \<Rightarrow> json_parser \<Rightarrow> bool \<times> json_parser" where
  "block_comment inp previous_char p =
     (if CanConsume inp p 1 then
        let p = NextChar p; next_char = byte_at inp (jp_pos p)
        in if previous_char = 42 \<and> next_char = 47 then (True, NextChar p) else block_comment inp next_char p
      else (False, p))"
  by pat_completeness auto
termination by (relation "measure (\<lambda>(inp, _, p). end_pos inp - jp_pos p)") (auto simp: CanConsume_def)

declare line_comment.simps [simp del] block_comment.simps [simp del]

definition EatComment :: "json_input \<Rightarrow> json_parser \<Rightarrow> bool \<times> json_parser" where
  "EatComment inp p =
     (if byte_at inp (jp_pos p) \<noteq> 47 \<or> \<not> CanConsume inp p 1 then (False, p)
      else
        let p = NextChar p; next_char = byte_at inp (jp_pos p)
        in if next_char = 47 then line_comment inp p
           else if next_char = 42 then block_comment inp 0 p
           else (False, p))"

lemma line_comment_pos: "line_comment inp p = (b, p') \<Longrightarrow> jp_pos p \<le> jp_pos p'"
proof (induction inp p rule: line_comment.induct)
  case (1 inp p)
  from 1(2) [unfolded line_comment.simps [of inp p]] 1(1) show ?case by (fastforce simp: Let_def split: if_splits)
qed

lemma block_comment_pos: "block_comment inp c p = (b, p') \<Longrightarrow> jp_pos p \<le> jp_pos p'"
proof (induction inp c p rule: block_comment.induct)
  case (1 inp c p)
  from 1(2) [unfolded block_comment.simps [of inp c p]] 1(1) show ?case by (fastforce simp: Let_def split: if_splits)
qed

lemma EatComment_pos: "EatComment inp p = (True, p') \<Longrightarrow> jp_pos p < jp_pos p'"
  by (auto simp: EatComment_def Let_def dest!: line_comment_pos block_comment_pos split: if_splits)

function EatWhitespaceAndComments :: "json_input \<Rightarrow> json_parser \<Rightarrow> json_parser" where
  "EatWhitespaceAndComments inp p =
     (if jp_pos p < end_pos inp then
        let c = byte_at inp (jp_pos p) in
        if c = 13 \<or> c = 10 then
          let p = p\<lparr>jp_index_last_line := jp_index p\<rparr>;
              p = (if \<not> (c = 10 \<and> jp_pos p > 0 \<and> byte_at inp (jp_pos p - 1) = 13)
                   then p\<lparr>jp_line_number := jp_line_number p + 1\<rparr> else p)
          in EatWhitespaceAndComments inp (NextChar p)
        else if c = 32 \<or> c = 9 then EatWhitespaceAndComments inp (NextChar p)
        else if c = 47 then
          (case EatComment inp p of
             (True, p) \<Rightarrow> EatWhitespaceAndComments inp p
           | (False, p) \<Rightarrow> p)
        else p
      else p)"
  by pat_completeness auto
termination
  by (relation "measure (\<lambda>(inp, p). end_pos inp - jp_pos p)") (auto dest!: EatComment_pos [OF sym])

declare EatWhitespaceAndComments.simps [simp del]

definition token_of :: "u8 \<Rightarrow> json_token" where
  "token_of c =
     (if c = 123 then T_OBJECT_BEGIN
      else if c = 125 then T_OBJECT_END
      else if c = 91 then T_ARRAY_BEGIN
      else if c = 93 then T_ARRAY_END
      else if c = 34 then T_STRING
      else if (48 \<le> c \<and> c \<le> 57) \<or> c = 45 then T_NUMBER
      else if c = 116 then T_BOOL_TRUE
      else if c = 102 then T_BOOL_FALSE
      else if c = 110 then T_NULL
      else if c = 44 then T_LIST_SEPARATOR
      else if c = 58 then T_OBJECT_PAIR_SEPARATOR
      else T_INVALID_TOKEN)"

definition GetNextToken :: "json_input \<Rightarrow> json_parser \<Rightarrow> json_token \<times> json_parser" where
  "GetNextToken inp p =
     (let p = EatWhitespaceAndComments inp p
      in if \<not> CanConsume inp p 1 then (T_END_OF_INPUT, p) else (token_of (byte_at inp (jp_pos p)), p))"


section \<open>Strings\<close>

text \<open>StringBuilder: a piece of the input until it is converted to a string of its own.\<close>

record string_builder =
  sb_pos :: nat
  sb_length :: nat
  sb_string :: "u8 list option"

definition StringBuilder :: "nat \<Rightarrow> string_builder" where
  "StringBuilder pos = \<lparr>sb_pos = pos, sb_length = 0, sb_string = None\<rparr>"

definition sb_Append :: "u8 \<Rightarrow> string_builder \<Rightarrow> string_builder" where
  "sb_Append c sb =
     (case sb_string sb of
        Some s \<Rightarrow> sb\<lparr>sb_string := Some (s @ [c])\<rparr>
      | None \<Rightarrow> sb\<lparr>sb_length := sb_length sb + 1\<rparr>)"

definition sb_AppendString :: "u8 list \<Rightarrow> string_builder \<Rightarrow> string_builder" where
  "sb_AppendString str sb = sb\<lparr>sb_string := map_option (\<lambda>s. s @ str) (sb_string sb)\<rparr>"

definition sb_Convert :: "json_input \<Rightarrow> string_builder \<Rightarrow> string_builder" where
  "sb_Convert inp sb =
     (if sb_string sb \<noteq> None then sb
      else sb\<lparr>sb_string := Some (bytes_at inp (sb_pos sb) (sb_length sb))\<rparr>)"

definition sb_AsString :: "json_input \<Rightarrow> string_builder \<Rightarrow> u8 list" where
  "sb_AsString inp sb =
     (case sb_string sb of Some s \<Rightarrow> s | None \<Rightarrow> bytes_at inp (sb_pos sb) (sb_length sb))"

definition DecodeUTF8 :: "json_input \<Rightarrow> u32 \<Rightarrow> string_builder \<Rightarrow> string_builder" where
  "DecodeUTF8 inp point dest =
     (if sint point < kExtendedASCIIStart then sb_Append (ucast point) dest
      else sb_AppendString (CBU8_APPEND_UNSAFE point) (sb_Convert inp dest))"

text \<open>The C string that code_unit8 holds ends at its first zero.\<close>

definition code_unit8 :: "u32 \<Rightarrow> u8 list" where
  "code_unit8 code_point = takeWhile (\<lambda>b. b \<noteq> 0) (CBU8_APPEND_UNSAFE code_point)"

text \<open>HexStringToInt of a piece of the input, as int32_t.\<close>

definition hex_at :: "json_input \<Rightarrow> nat \<Rightarrow> nat \<Rightarrow> u32 option" where
  "hex_at inp pos n =
     (case HexStringToInt (bytes_at inp pos n) 0 of (ok, v) \<Rightarrow> if ok then Some (of_int v) else None)"

text \<open>DecodeUTF16: the units appended to dest_string, or None, and the state.\<close>

definition decode_low_surrogate :: "json_input \<Rightarrow> u32 \<Rightarrow> json_parser \<Rightarrow> u8 list option \<times> json_parser" where
  "decode_low_surrogate inp high p =
     (if \<not> CanConsume inp p 6 then (None, p)
      else
        let p = NextChar p in
        if byte_at inp (jp_pos p) \<noteq> 92 then (None, p)
        else
          let p = NextChar p in
          if byte_at inp (jp_pos p) \<noteq> 117 then (None, p)
          else
            let p = NextChar p in
            case hex_at inp (jp_pos p) 4 of
              None \<Rightarrow> (None, p)
            | Some low \<Rightarrow>
                let p = NextNChars 3 p in
                if \<not> CBU16_IS_TRAIL low then (None, p)
                else
                  let code_point = CBU16_GET_SUPPLEMENTARY high low in
                  if \<not> IsValidCharacter code_point then (None, p) else (Some (code_unit8 code_point), p))"

definition DecodeUTF16 :: "json_input \<Rightarrow> json_parser \<Rightarrow> u8 list option \<times> json_parser" where
  "DecodeUTF16 inp p =
     (if \<not> CanConsume inp p 4 then (None, p)
      else
        case hex_at inp (jp_pos p) 4 of
          None \<Rightarrow> (None, p)
        | Some high \<Rightarrow>
            let p = NextNChars 3 p in
            if CBU_IS_SURROGATE high then
              (if \<not> CBU16_IS_SURROGATE_LEAD high then (None, p) else decode_low_surrogate inp high p)
            else if \<not> IsValidCharacter high then (None, p)
            else (Some (code_unit8 high), p))"

text \<open>The characters that an escape stands for by itself.\<close>

definition simple_escape :: "u8 \<Rightarrow> u8 option" where
  "simple_escape c =
     (if c = 34 then Some 34
      else if c = 92 then Some 92
      else if c = 47 then Some 47
      else if c = 98 then Some 8
      else if c = 102 then Some 12
      else if c = 110 then Some 10
      else if c = 114 then Some 13
      else if c = 116 then Some 9
      else if c = 118 then Some 11
      else None)"

text \<open>What follows a backslash; None is the return false.\<close>

definition ConsumeEscape :: "json_input \<Rightarrow> json_parser \<Rightarrow> string_builder \<Rightarrow> string_builder option \<times> json_parser" where
  "ConsumeEscape inp p string =
     (let string = sb_Convert inp string in
      if \<not> CanConsume inp p 1 then (None, ReportError JSON_INVALID_ESCAPE 0 p)
      else
        let p = NextChar p; c = byte_at inp (jp_pos p) in
        if c = 120 then
          (if \<not> CanConsume inp p 2 then (None, ReportError JSON_INVALID_ESCAPE 1 p)
           else
             let p = NextChar p in
             case hex_at inp (jp_pos p) 2 of
               None \<Rightarrow> (None, ReportError JSON_INVALID_ESCAPE (- 1) p)
             | Some hex_digit \<Rightarrow>
                 let p = NextChar p in
                 (Some (if sint hex_digit < kExtendedASCIIStart then sb_Append (ucast hex_digit) string
                        else DecodeUTF8 inp hex_digit string), p))
        else if c = 117 then
          (if \<not> CanConsume inp p 5 then (None, ReportError JSON_INVALID_ESCAPE 0 p)
           else
             let p = NextChar p in
             case DecodeUTF16 inp p of
               (None, p) \<Rightarrow> (None, ReportError JSON_INVALID_ESCAPE (- 1) p)
             | (Some utf8_units, p) \<Rightarrow> (Some (sb_AppendString utf8_units string), p))
        else
          case simple_escape c of
            Some e \<Rightarrow> (Some (sb_Append e string), p)
          | None \<Rightarrow> (None, ReportError JSON_INVALID_ESCAPE 0 p))"

text \<open>One turn of the loop of ConsumeStringRaw.\<close>

datatype string_turn =
    StringGoesOn json_parser string_builder
  | StringEnds json_parser string_builder
  | StringFails json_parser

definition string_turn :: "json_input \<Rightarrow> json_parser \<Rightarrow> string_builder \<Rightarrow> string_turn" where
  "string_turn inp p string =
     (let p = p\<lparr>jp_pos := jp_index p\<rparr>;
          (index, next_char) = CBU8_NEXT (byte_at inp) (jp_index p) (end_pos inp);
          p = p\<lparr>jp_index := index\<rparr>
      in if sint next_char < 0 \<or> \<not> IsValidCharacter next_char
         then StringFails (ReportError JSON_UNSUPPORTED_ENCODING 1 p)
         else if next_char = 92 then
           (case ConsumeEscape inp p string of
              (None, p) \<Rightarrow> StringFails p
            | (Some string, p) \<Rightarrow> StringGoesOn p string)
         else if next_char = 34 then StringEnds (p\<lparr>jp_index := jp_index p - 1\<rparr>) string
         else StringGoesOn p
           (if sint next_char < kExtendedASCIIStart then sb_Append (ucast next_char) string
            else DecodeUTF8 inp next_char string))"

lemma CBU8_NEXT_advances: "i < fst (CBU8_NEXT s i len)"
proof (cases "i < len")
  case True
  then show ?thesis using CBU8_NEXT_bounds [of i len s] by simp
next
  case False
  then have "fst (utf8_nextCharSafeBody s (Suc i) len c st) = Suc i" for c st
    using skip_trails_bounds [of "Suc i" s "len - Suc i"]
    by (auto simp: utf8_nextCharSafeBody_def Let_def split: prod.splits)
  then show ?thesis by (simp add: CBU8_NEXT_def Let_def)
qed

lemma DecodeUTF16_moves: "DecodeUTF16 inp p = (r, p') \<Longrightarrow> \<exists>n. jp_pos p' = jp_pos p + n \<and> jp_index p' = jp_index p + n"
  by (auto simp: DecodeUTF16_def decode_low_surrogate_def Let_def split: if_splits option.splits)

lemma ConsumeEscape_moves:
  "ConsumeEscape inp p sb = (r, p') \<Longrightarrow> \<exists>n. jp_pos p' = jp_pos p + n \<and> jp_index p' = jp_index p + n"
  by (auto simp: ConsumeEscape_def Let_def dest!: DecodeUTF16_moves split: if_splits option.splits prod.splits)

lemma string_turn_moves:
  "string_turn inp p sb = StringGoesOn p' sb' \<Longrightarrow> jp_index p \<le> jp_pos p' \<and> jp_index p < jp_index p'"
  using CBU8_NEXT_advances [of "jp_index p" "byte_at inp" "end_pos inp"]
  by (auto simp: string_turn_def Let_def dest!: ConsumeEscape_moves split: if_splits option.splits prod.splits)

text \<open>The loop; the result is the builder, or None for the return false.\<close>

function string_loop :: "json_input \<Rightarrow> json_parser \<Rightarrow> string_builder \<Rightarrow> string_builder option \<times> json_parser" where
  "string_loop inp p string =
     (if CanConsume inp p 1 then
        (case string_turn inp p string of
           StringGoesOn p string \<Rightarrow> string_loop inp p string
         | StringEnds p string \<Rightarrow> (Some string, p)
         | StringFails p \<Rightarrow> (None, p))
      else (None, ReportError JSON_SYNTAX_ERROR 0 p))"
  by pat_completeness auto
termination
proof (relation "measure (\<lambda>(inp, p, _). (if jp_pos p < end_pos inp then 1 else 0) + (end_pos inp - jp_index p))")
  fix inp p string p' string'
  assume c: "CanConsume inp p 1" and t: "string_turn inp p string = StringGoesOn p' string'"
  show "((inp, p', string'), inp, p, string)
    \<in> measure (\<lambda>(inp, p, _). (if jp_pos p < end_pos inp then 1 else 0) + (end_pos inp - jp_index p))"
    using string_turn_moves [OF t] c by (auto simp: CanConsume_def)
qed simp

declare string_loop.simps [simp del]

definition ConsumeStringRaw :: "json_input \<Rightarrow> json_parser \<Rightarrow> string_builder option \<times> json_parser" where
  "ConsumeStringRaw inp p =
     (if byte_at inp (jp_pos p) \<noteq> 34 then (None, ReportError JSON_UNEXPECTED_TOKEN 1 p)
      else let p = NextChar p in string_loop inp p (StringBuilder (jp_pos p)))"

text \<open>A JSONStringValue and a StringValue of the same bytes are the same value.\<close>

definition ConsumeString :: "json_input \<Rightarrow> json_parser \<Rightarrow> base_value option \<times> json_parser" where
  "ConsumeString inp p =
     (case ConsumeStringRaw inp p of
        (None, p) \<Rightarrow> (None, p)
      | (Some string, p) \<Rightarrow> (Some (StringValue (sb_AsString inp string)), p))"


section \<open>Numbers and literals\<close>

text \<open>ReadInt: the loop moves on while the character read last is a digit.\<close>

definition IsAsciiDigit :: "u8 \<Rightarrow> bool" where
  "IsAsciiDigit c \<longleftrightarrow> 48 \<le> c \<and> c \<le> 57"

function read_int_loop :: "json_input \<Rightarrow> json_parser \<Rightarrow> u8 \<Rightarrow> nat \<Rightarrow> nat \<times> json_parser" where
  "read_int_loop inp p c len =
     (if CanConsume inp p 1 \<and> IsAsciiDigit c then
        let p = NextChar p in read_int_loop inp p (byte_at inp (jp_pos p)) (len + 1)
      else (len, p))"
  by pat_completeness auto
termination by (relation "measure (\<lambda>(inp, p, _). end_pos inp - jp_pos p)") (auto simp: CanConsume_def)

declare read_int_loop.simps [simp del]

definition ReadDigits :: "json_input \<Rightarrow> bool \<Rightarrow> json_parser \<Rightarrow> bool \<times> json_parser" where
  "ReadDigits inp allow_leading_zeros p =
     (let first = byte_at inp (jp_pos p); (len, p) = read_int_loop inp p first 0
      in if len = 0 then (False, p)
         else if \<not> allow_leading_zeros \<and> len > 1 \<and> first = 48 then (False, p)
         else (True, p))"

text \<open>The optional parts: whether to go on, and end_index.\<close>

definition read_fraction :: "json_input \<Rightarrow> json_parser \<Rightarrow> nat \<Rightarrow> bool \<times> json_parser \<times> nat" where
  "read_fraction inp p end_index =
     (if byte_at inp (jp_pos p) = 46 then
        if \<not> CanConsume inp p 1 then (False, ReportError JSON_SYNTAX_ERROR 1 p, end_index)
        else
          case ReadDigits inp True (NextChar p) of
            (False, p) \<Rightarrow> (False, ReportError JSON_SYNTAX_ERROR 1 p, end_index)
          | (True, p) \<Rightarrow> (True, p, jp_index p)
      else (True, p, end_index))"

definition read_exponent :: "json_input \<Rightarrow> json_parser \<Rightarrow> nat \<Rightarrow> bool \<times> json_parser \<times> nat" where
  "read_exponent inp p end_index =
     (if byte_at inp (jp_pos p) = 101 \<or> byte_at inp (jp_pos p) = 69 then
        let p = NextChar p;
            p = (if byte_at inp (jp_pos p) = 45 \<or> byte_at inp (jp_pos p) = 43 then NextChar p else p)
        in case ReadDigits inp True p of
             (False, p) \<Rightarrow> (False, ReportError JSON_SYNTAX_ERROR 1 p, end_index)
           | (True, p) \<Rightarrow> (True, p, jp_index p)
      else (True, p, end_index))"

definition number_value :: "json_input \<Rightarrow> u8 list \<Rightarrow> base_value option" where
  "number_value inp num_string =
     (case StringToInt num_string 0 of
        (True, num_int) \<Rightarrow> Some (IntegerValue (of_int num_int))
      | (False, _) \<Rightarrow>
          (case StringToDouble (ji_strtod inp) num_string of
             (ok, num_double) \<Rightarrow> if ok \<and> double_is_finite num_double then Some (new_double num_double) else None))"

definition ConsumeNumber :: "json_input \<Rightarrow> json_parser \<Rightarrow> base_value option \<times> json_parser" where
  "ConsumeNumber inp p =
     (let num_start = jp_pos p; start_index = jp_index p;
          p = (if byte_at inp (jp_pos p) = 45 then NextChar p else p)
      in case ReadDigits inp False p of
           (False, p) \<Rightarrow> (None, ReportError JSON_SYNTAX_ERROR 1 p)
         | (True, p) \<Rightarrow>
             (case read_fraction inp p (jp_index p) of
                (False, p, _) \<Rightarrow> (None, p)
              | (True, p, end_index) \<Rightarrow>
                  (case read_exponent inp p end_index of
                     (False, p, _) \<Rightarrow> (None, p)
                   | (True, p, end_index) \<Rightarrow>
                       let exit_pos = jp_pos p - 1; exit_index = jp_index p - 1;
                           (token, p) = GetNextToken inp p
                       in if token \<notin> {T_OBJECT_END, T_ARRAY_END, T_LIST_SEPARATOR, T_END_OF_INPUT}
                          then (None, ReportError JSON_SYNTAX_ERROR 1 p)
                          else (number_value inp (bytes_at inp num_start (end_index - start_index)),
                                p\<lparr>jp_pos := exit_pos, jp_index := exit_index\<rparr>))))"

definition StringsAreEqual :: "u8 list \<Rightarrow> u8 list \<Rightarrow> bool" where
  "StringsAreEqual one two \<longleftrightarrow> one = two"

definition consume_word :: "json_input \<Rightarrow> u8 list \<Rightarrow> base_value \<Rightarrow> json_parser \<Rightarrow> base_value option \<times> json_parser" where
  "consume_word inp word v p =
     (if \<not> CanConsume inp p (length word - 1) \<or> \<not> StringsAreEqual (bytes_at inp (jp_pos p) (length word)) word
      then (None, ReportError JSON_SYNTAX_ERROR 1 p)
      else (Some v, NextNChars (length word - 1) p))"

definition ConsumeLiteral :: "json_input \<Rightarrow> json_parser \<Rightarrow> base_value option \<times> json_parser" where
  "ConsumeLiteral inp p =
     (let c = byte_at inp (jp_pos p) in
      if c = 116 then consume_word inp [116, 114, 117, 101] (BooleanValue True) p
      else if c = 102 then consume_word inp [102, 97, 108, 115, 101] (BooleanValue False) p
      else if c = 110 then consume_word inp [110, 117, 108, 108] NullValue p
      else (None, ReportError JSON_UNEXPECTED_TOKEN 1 p))"

section \<open>Values\<close>

text \<open>StackMarker.\<close>

definition stack_enter :: "json_parser \<Rightarrow> json_parser" where
  "stack_enter p = p\<lparr>jp_depth := jp_depth p + 1\<rparr>"
definition stack_leave :: "json_parser \<Rightarrow> json_parser" where
  "stack_leave p = p\<lparr>jp_depth := jp_depth p - 1\<rparr>"
definition IsTooDeep :: "json_parser \<Rightarrow> bool" where
  "IsTooDeep p \<longleftrightarrow> jp_depth p \<ge> kStackMaxDepth"

text \<open>After an element: a separator and the token behind it, or the closing token.\<close>

definition next_element :: "json_input \<Rightarrow> json_token \<Rightarrow> int \<Rightarrow> json_parser \<Rightarrow> json_token option \<times> json_parser" where
  "next_element inp closing column_adjust p =
     (let (token, p) = GetNextToken inp (NextChar p) in
      if token = T_LIST_SEPARATOR then
        let (token, p) = GetNextToken inp (NextChar p) in
        if token = closing \<and> \<not> ji_trailing_commas inp
        then (None, ReportError JSON_TRAILING_COMMA 1 p)
        else (Some token, p)
      else if token \<noteq> closing then (None, ReportError JSON_SYNTAX_ERROR column_adjust p)
      else (Some token, p))"

text \<open>
  ParseToken and the loops of ConsumeList and ConsumeDictionary.  The outermost option is None where the
  fuel has run out.
\<close>

fun ParseToken :: "json_input \<Rightarrow> nat \<Rightarrow> json_token \<Rightarrow> json_parser \<Rightarrow> (base_value option \<times> json_parser) option"
and list_loop :: "json_input \<Rightarrow> nat \<Rightarrow> json_token \<Rightarrow> base_value list \<Rightarrow> json_parser
      \<Rightarrow> (base_value option \<times> json_parser) option"
and dictionary_loop :: "json_input \<Rightarrow> nat \<Rightarrow> json_token \<Rightarrow> dict \<Rightarrow> json_parser
      \<Rightarrow> (base_value option \<times> json_parser) option" where
  "ParseToken inp 0 token p = None"
| "ParseToken inp (Suc fuel) token p =
     (case token of
        T_OBJECT_BEGIN \<Rightarrow>
          if byte_at inp (jp_pos p) \<noteq> 123 then Some (None, ReportError JSON_UNEXPECTED_TOKEN 1 p)
          else
            let p = stack_enter p in
            if IsTooDeep p then Some (None, stack_leave (ReportError JSON_TOO_MUCH_NESTING 1 p))
            else
              let (token, p) = GetNextToken inp (NextChar p)
              in map_option (\<lambda>(v, p). (v, stack_leave p)) (dictionary_loop inp fuel token [] p)
      | T_ARRAY_BEGIN \<Rightarrow>
          if byte_at inp (jp_pos p) \<noteq> 91 then Some (None, ReportError JSON_UNEXPECTED_TOKEN 1 p)
          else
            let p = stack_enter p in
            if IsTooDeep p then Some (None, stack_leave (ReportError JSON_TOO_MUCH_NESTING 1 p))
            else
              let (token, p) = GetNextToken inp (NextChar p)
              in map_option (\<lambda>(v, p). (v, stack_leave p)) (list_loop inp fuel token [] p)
      | T_STRING \<Rightarrow> Some (ConsumeString inp p)
      | T_NUMBER \<Rightarrow> Some (ConsumeNumber inp p)
      | T_BOOL_TRUE \<Rightarrow> Some (ConsumeLiteral inp p)
      | T_BOOL_FALSE \<Rightarrow> Some (ConsumeLiteral inp p)
      | T_NULL \<Rightarrow> Some (ConsumeLiteral inp p)
      | _ \<Rightarrow> Some (None, ReportError JSON_UNEXPECTED_TOKEN 1 p))"
| "list_loop inp 0 token l p = None"
| "list_loop inp (Suc fuel) token l p =
     (if token = T_ARRAY_END then Some (Some (ListValue l), p)
      else
        case ParseToken inp fuel token p of
          None \<Rightarrow> None
        | Some (None, p) \<Rightarrow> Some (None, p)
        | Some (Some item, p) \<Rightarrow>
            (case next_element inp T_ARRAY_END 1 p of
               (None, p) \<Rightarrow> Some (None, p)
             | (Some token, p) \<Rightarrow> list_loop inp fuel token (list_Append item l) p))"
| "dictionary_loop inp 0 token d p = None"
| "dictionary_loop inp (Suc fuel) token d p =
     (if token = T_OBJECT_END then Some (Some (DictionaryValue d), p)
      else if token \<noteq> T_STRING then Some (None, ReportError JSON_UNQUOTED_DICTIONARY_KEY 1 p)
      else
        case ConsumeStringRaw inp p of
          (None, p) \<Rightarrow> Some (None, p)
        | (Some key, p) \<Rightarrow>
            let (token, p) = GetNextToken inp (NextChar p) in
            if token \<noteq> T_OBJECT_PAIR_SEPARATOR then Some (None, ReportError JSON_SYNTAX_ERROR 1 p)
            else
              let (token, p) = GetNextToken inp (NextChar p) in
              case ParseToken inp fuel token p of
                None \<Rightarrow> None
              | Some (None, p) \<Rightarrow> Some (None, p)
              | Some (Some v, p) \<Rightarrow>
                  (case next_element inp T_OBJECT_END 0 p of
                     (None, p) \<Rightarrow> Some (None, p)
                   | (Some token, p) \<Rightarrow>
                       dictionary_loop inp fuel token (SetWithoutPathExpansion (sb_AsString inp key) v d) p))"

section \<open>Parse\<close>

definition new_parser :: json_parser where
  "new_parser = \<lparr>jp_pos = 0, jp_index = 0, jp_depth = 0, jp_line_number = 1, jp_index_last_line = 0,
     jp_error_code = JSON_NO_ERROR, jp_error_line = 0, jp_error_column = 0\<rparr>"

definition skip_byte_order_mark :: "json_input \<Rightarrow> json_parser \<Rightarrow> json_parser" where
  "skip_byte_order_mark inp p =
     (if CanConsume inp p 3 \<and> bytes_at inp (jp_pos p) 3 = [0xEF, 0xBB, 0xBF] then NextNChars 3 p else p)"

text \<open>The input must be at an end; the last byte of the root may still be in front.\<close>

definition at_end :: "json_input \<Rightarrow> json_parser \<Rightarrow> bool \<times> json_parser" where
  "at_end inp p =
     (let (token, p) = GetNextToken inp p in
      if token = T_END_OF_INPUT then (True, p)
      else if \<not> CanConsume inp p 1 then (False, p)
      else let (token, p) = GetNextToken inp (NextChar p) in (token = T_END_OF_INPUT, p))"

definition json_fuel :: "json_input \<Rightarrow> nat" where
  "json_fuel inp = 2 * end_pos inp + 2"

definition Parse_with :: "nat \<Rightarrow> json_input \<Rightarrow> (base_value option \<times> json_parser) option" where
  "Parse_with fuel inp =
     (let (token, p) = GetNextToken inp (skip_byte_order_mark inp new_parser) in
      case ParseToken inp fuel token p of
        None \<Rightarrow> None
      | Some (None, p) \<Rightarrow> Some (None, p)
      | Some (Some root, p) \<Rightarrow>
          (case at_end inp p of
             (False, p) \<Rightarrow> Some (None, ReportError JSON_UNEXPECTED_DATA_AFTER_ROOT 1 p)
           | (True, p) \<Rightarrow> Some (Some root, p)))"

definition JSON_ALLOW_TRAILING_COMMAS :: nat where "JSON_ALLOW_TRAILING_COMMAS = 1"
definition JSON_DETACHABLE_CHILDREN :: nat where "JSON_DETACHABLE_CHILDREN = 2"

text \<open>Without JSON_DETACHABLE_CHILDREN the parser reads a copy, behind which there is a zero.\<close>

definition parser_input :: "nat \<Rightarrow> (u8 list \<Rightarrow> u64 \<times> nat) \<Rightarrow> (nat \<Rightarrow> u8) \<Rightarrow> u8 list \<Rightarrow> json_input" where
  "parser_input options strtod behind json =
     \<lparr>ji_text = json,
      ji_behind = (if options AND JSON_DETACHABLE_CHILDREN \<noteq> 0 then behind else behind(0 := 0)),
      ji_trailing_commas = (options AND JSON_ALLOW_TRAILING_COMMAS \<noteq> 0),
      ji_strtod = strtod\<rparr>"

definition JSONParser_Parse ::
    "nat \<Rightarrow> (u8 list \<Rightarrow> u64 \<times> nat) \<Rightarrow> (nat \<Rightarrow> u8) \<Rightarrow> u8 list \<Rightarrow> (base_value option \<times> json_parser) option" where
  "JSONParser_Parse options strtod behind json =
     (let inp = parser_input options strtod behind json in Parse_with (json_fuel inp) inp)"

section \<open>JSONReader\<close>

definition JSONReader_Read ::
    "nat \<Rightarrow> (u8 list \<Rightarrow> u64 \<times> nat) \<Rightarrow> (nat \<Rightarrow> u8) \<Rightarrow> u8 list \<Rightarrow> base_value option option" where
  "JSONReader_Read options strtod behind json = map_option fst (JSONParser_Parse options strtod behind json)"

definition ascii_bytes :: "string \<Rightarrow> u8 list" where
  "ascii_bytes s = map of_char s"

fun ErrorCodeToString :: "JsonParseError \<Rightarrow> u8 list" where
  "ErrorCodeToString JSON_NO_ERROR = []"
| "ErrorCodeToString JSON_INVALID_ESCAPE = ascii_bytes ''Invalid escape sequence.''"
| "ErrorCodeToString JSON_SYNTAX_ERROR = ascii_bytes ''Syntax error.''"
| "ErrorCodeToString JSON_UNEXPECTED_TOKEN = ascii_bytes ''Unexpected token.''"
| "ErrorCodeToString JSON_TRAILING_COMMA = ascii_bytes ''Trailing comma not allowed.''"
| "ErrorCodeToString JSON_TOO_MUCH_NESTING = ascii_bytes ''Too much nesting.''"
| "ErrorCodeToString JSON_UNEXPECTED_DATA_AFTER_ROOT = ascii_bytes ''Unexpected data after root element.''"
| "ErrorCodeToString JSON_UNSUPPORTED_ENCODING = ascii_bytes ''Unsupported encoding. JSON must be UTF-8.''"
| "ErrorCodeToString JSON_UNQUOTED_DICTIONARY_KEY = ascii_bytes ''Dictionary keys must be quoted.''"

definition FormatErrorMessage :: "int \<Rightarrow> int \<Rightarrow> u8 list \<Rightarrow> u8 list" where
  "FormatErrorMessage line column description =
     (if line \<noteq> 0 \<or> column \<noteq> 0 then
        ascii_bytes ''Line: '' @ IntToString line @ ascii_bytes '', column: '' @ IntToString column
          @ ascii_bytes '', '' @ description
      else description)"

definition GetErrorMessage :: "json_parser \<Rightarrow> u8 list" where
  "GetErrorMessage p =
     FormatErrorMessage (int (jp_error_line p)) (jp_error_column p) (ErrorCodeToString (jp_error_code p))"

text \<open>ReadAndReturnError: the value, or the error's code, message, line and column.\<close>

definition ReadAndReturnError ::
    "nat \<Rightarrow> (u8 list \<Rightarrow> u64 \<times> nat) \<Rightarrow> (nat \<Rightarrow> u8) \<Rightarrow> u8 list
      \<Rightarrow> ((JsonParseError \<times> u8 list \<times> nat \<times> int) + base_value) option" where
  "ReadAndReturnError options strtod behind json =
     (case JSONParser_Parse options strtod behind json of
        None \<Rightarrow> None
      | Some (Some root, _) \<Rightarrow> Some (Inr root)
      | Some (None, p) \<Rightarrow> Some (Inl (jp_error_code p, GetErrorMessage p, jp_error_line p, jp_error_column p)))"

end
