(* ===== verification/JsonParserTotal.thy ===== *)
theory JsonParserTotal
  imports JsonParser
begin

text \<open>
  The JSON parser always returns: its fuel, twice the length of the input, suffices, because a value or
  an element that is parsed takes at least one byte.
\<close>

section \<open>Moving on\<close>

text \<open>pos_ and index_ agree outside of strings.\<close>

definition in_step :: "json_parser \<Rightarrow> bool" where
  "in_step p \<longleftrightarrow> jp_index p = jp_pos p"

text \<open>p' lies n or more bytes behind p, at the same depth.\<close>

definition moved :: "nat \<Rightarrow> json_parser \<Rightarrow> json_parser \<Rightarrow> bool" where
  "moved n p p' \<longleftrightarrow> jp_pos p + n \<le> jp_pos p' \<and> (in_step p \<longrightarrow> in_step p') \<and> jp_depth p' = jp_depth p"

lemma moved_refl [simp]: "moved 0 p p"
  by (simp add: moved_def)

lemma moved_trans: "moved m p q \<Longrightarrow> moved n q r \<Longrightarrow> moved (m + n) p r"
  by (auto simp: moved_def)

lemma moved_weaken: "moved m p q \<Longrightarrow> n \<le> m \<Longrightarrow> moved n p q"
  by (auto simp: moved_def)

lemma moved_NextN [simp]: "moved n p (NextNChars n p)"
  by (simp add: moved_def in_step_def)

lemma moved_Next [simp]: "moved 1 p (NextChar p)"
  by (simp add: NextChar_def)

lemma moved_Next_trans: "moved n (NextChar p) q \<Longrightarrow> moved (Suc n) p q"
  using moved_trans [OF moved_Next] by fastforce

lemma moved_Next_0: "moved 0 (NextChar p) q \<Longrightarrow> moved 0 p q"
  using moved_weaken [OF moved_Next_trans] by blast

lemma line_comment_moved: "line_comment inp p = (b, p') \<Longrightarrow> moved 0 p p'"
proof (induction inp p rule: line_comment.induct)
  case (1 inp p)
  show ?case
  proof (cases "CanConsume inp p 1 \<and> byte_at inp (jp_pos (NextChar p)) \<noteq> 10 \<and> byte_at inp (jp_pos (NextChar p)) \<noteq> 13")
    case True
    with 1(2) have "line_comment inp (NextChar p) = (b, p')" by (subst (asm) line_comment.simps) (simp add: Let_def)
    then have "moved 0 (NextChar p) p'" using 1(1) True by blast
    then show ?thesis by (rule moved_Next_0)
  next
    case False
    with 1(2) have "p' = p \<or> p' = NextChar p" by (subst (asm) line_comment.simps) (auto simp: Let_def split: if_splits)
    then show ?thesis using moved_weaken [OF moved_Next] by auto
  qed
qed

lemma block_comment_moved: "block_comment inp c p = (b, p') \<Longrightarrow> moved 0 p p'"
proof (induction inp c p rule: block_comment.induct)
  case (1 inp c p)
  let ?n = "byte_at inp (jp_pos (NextChar p))"
  show ?case
  proof (cases "CanConsume inp p 1 \<and> \<not> (c = 42 \<and> ?n = 47)")
    case True
    with 1(2) have "block_comment inp ?n (NextChar p) = (b, p')" by (subst (asm) block_comment.simps) (auto simp: Let_def)
    then have "moved 0 (NextChar p) p'" using 1(1) True by blast
    then show ?thesis by (rule moved_Next_0)
  next
    case False
    with 1(2) have "p' = p \<or> p' = NextChar (NextChar p)"
      by (subst (asm) block_comment.simps) (auto simp: Let_def split: if_splits)
    then show ?thesis using moved_weaken [OF moved_trans [OF moved_Next moved_Next]] by auto
  qed
qed

lemma EatComment_moved: "EatComment inp p = (b, p') \<Longrightarrow> moved 0 p p'"
  using moved_weaken [OF moved_trans [OF moved_Next [of p]], of 0]
  by (auto simp: EatComment_def Let_def dest!: line_comment_moved block_comment_moved split: if_splits intro: moved_weaken [OF moved_Next])

lemma EatWhitespace_moved: "moved 0 p (EatWhitespaceAndComments inp p)"
proof (induction inp p rule: EatWhitespaceAndComments.induct)
  case (1 inp p)
  let ?c = "byte_at inp (jp_pos p)"
  show ?case
  proof (cases "jp_pos p < end_pos inp")
    case False
    then show ?thesis by (subst EatWhitespaceAndComments.simps) simp
  next
    case True
    consider "?c = 13 \<or> ?c = 10" | "?c = 32 \<or> ?c = 9" | "?c = 47" | "?c \<notin> {13, 10, 32, 9, 47}" by auto
    then show ?thesis
    proof cases
      case 1
      let ?p1 = "p\<lparr>jp_index_last_line := jp_index p\<rparr>"
      let ?p2 = "if \<not> (?c = 10 \<and> jp_pos ?p1 > 0 \<and> byte_at inp (jp_pos ?p1 - 1) = 13)
        then ?p1\<lparr>jp_line_number := jp_line_number ?p1 + 1\<rparr> else ?p1"
      have e: "EatWhitespaceAndComments inp p = EatWhitespaceAndComments inp (NextChar ?p2)"
        using True 1 by (subst EatWhitespaceAndComments.simps) (simp add: Let_def)
      have "moved 0 (NextChar ?p2) (EatWhitespaceAndComments inp (NextChar ?p2))"
        using "1.IH"(1) [OF True refl 1 refl refl] .
      then have "moved 0 ?p2 (EatWhitespaceAndComments inp p)"
        unfolding e by (rule moved_Next_0)
      then show ?thesis by (simp add: moved_def in_step_def split: if_splits)
    next
      case 2
      then have "EatWhitespaceAndComments inp p = EatWhitespaceAndComments inp (NextChar p)"
        using True by (subst EatWhitespaceAndComments.simps) (auto simp: Let_def)
      moreover have "moved 0 (NextChar p) (EatWhitespaceAndComments inp (NextChar p))"
        using "1.IH"(2) [OF True refl _ 2] 2 by auto
      ultimately show ?thesis using moved_Next_0 by simp
    next
      case 3
      obtain b p' where c: "EatComment inp p = (b, p')" by force
      have e: "EatWhitespaceAndComments inp p = (if b then EatWhitespaceAndComments inp p' else p')"
        using True 3 c by (subst EatWhitespaceAndComments.simps) (simp add: Let_def split: bool.splits)
      show ?thesis
      proof (cases b)
        case True
        then have "moved 0 p' (EatWhitespaceAndComments inp p')"
          using "1.IH"(3) [OF \<open>jp_pos p < end_pos inp\<close> refl _ _ 3] 3 c by auto
        then show ?thesis using e True moved_trans [OF EatComment_moved [OF c], of 0] by simp
      qed (use e EatComment_moved [OF c] in simp)
    next
      case 4
      then show ?thesis using True by (subst EatWhitespaceAndComments.simps) (simp add: Let_def)
    qed
  qed
qed

lemma GetNextToken_moved: "GetNextToken inp p = (t, p') \<Longrightarrow> moved 0 p p'"
  using EatWhitespace_moved [of p inp] by (auto simp: GetNextToken_def Let_def split: if_splits)

text \<open>A token other than the end of the input is there.\<close>

definition token_there :: "json_input \<Rightarrow> json_token \<Rightarrow> json_parser \<Rightarrow> bool" where
  "token_there inp t p \<longleftrightarrow> t \<noteq> T_END_OF_INPUT \<longrightarrow> jp_pos p < end_pos inp"

lemma GetNextToken_there: "GetNextToken inp p = (t, p') \<Longrightarrow> token_there inp t p'"
  by (auto simp: GetNextToken_def token_there_def CanConsume_def Let_def split: if_splits)


section \<open>What each Consume function does to the position\<close>

lemma next_ascii_width:
  "unat (snd (CBU8_NEXT s i len)) < 128 \<Longrightarrow> fst (CBU8_NEXT s i len) = Suc i \<and> snd (CBU8_NEXT s i len) = ucast (s i)"
proof -
  assume v: "unat (snd (CBU8_NEXT s i len)) < 128"
  have sentinel: "snd (CBU8_NEXT s i len) \<noteq> CBU_SENTINEL"
    using v by (auto simp: CBU_SENTINEL_def unsigned_minus_1_eq_mask mask_eq_exp_minus_1)
  show ?thesis
  proof (cases "unat (s i) < 128")
    case True
    then show ?thesis using next_ascii [of s i len] by simp
  next
    case False
    have "i < len"
    proof (rule ccontr)
      assume "\<not> i < len"
      then have "snd (utf8_nextCharSafeBody s (Suc i) len c (- 1)) = CBU_SENTINEL" for c
        by (auto simp: utf8_nextCharSafeBody_def Let_def split: prod.splits)
      then have "snd (CBU8_NEXT s i len) = CBU_SENTINEL"
        using False by (simp add: CBU8_NEXT_def Let_def scast_byte word_le_nat_alt)
      with sentinel show False by simp
    qed
    then obtain c where "decodes s i len c" "CBU8_NEXT s i len = (i + length (CBU8_APPEND_UNSAFE c), c)"
      using next_exact sentinel unfolding next_spec_def by blast
    then show ?thesis using decodes_lead [of s i len c] False v by auto
  qed
qed

lemma string_turn_ends:
  "string_turn inp p sb = StringEnds p' sb' \<Longrightarrow>
    sb' = sb \<and> jp_pos p' = jp_index p \<and> in_step p' \<and> jp_depth p' = jp_depth p"
  using next_ascii_width [of "byte_at inp" "jp_index p" "end_pos inp"]
  by (auto simp: string_turn_def Let_def in_step_def split: if_splits option.splits prod.splits)

lemma DecodeUTF16_depth: "DecodeUTF16 inp p = (r, p') \<Longrightarrow> jp_depth p' = jp_depth p"
  by (auto simp: DecodeUTF16_def decode_low_surrogate_def Let_def split: if_splits option.splits)

lemma ConsumeEscape_depth: "ConsumeEscape inp p sb = (r, p') \<Longrightarrow> jp_depth p' = jp_depth p"
  by (auto simp: ConsumeEscape_def Let_def dest!: DecodeUTF16_depth split: if_splits option.splits prod.splits)

lemma string_turn_depth: "string_turn inp p sb = StringGoesOn p' sb' \<Longrightarrow> jp_depth p' = jp_depth p"
  by (auto simp: string_turn_def Let_def dest!: ConsumeEscape_depth split: if_splits option.splits prod.splits)

lemma string_loop_moves:
  "string_loop inp p sb = (Some sb', p') \<Longrightarrow> jp_index p \<le> jp_pos p' \<and> in_step p' \<and> jp_depth p' = jp_depth p"
proof (induction inp p sb rule: string_loop.induct)
  case (1 inp p sb)
  then have c: "CanConsume inp p 1" by (subst (asm) (2) string_loop.simps) (auto split: if_splits)
  show ?case
  proof (cases "string_turn inp p sb")
    case (StringGoesOn p1 sb1)
    with 1(2) c have "string_loop inp p1 sb1 = (Some sb', p')" by (subst (asm) string_loop.simps) simp
    from 1(1) [OF c StringGoesOn this] show ?thesis
      using string_turn_moves [OF StringGoesOn] string_turn_depth [OF StringGoesOn] by simp
  next
    case (StringEnds p1 sb1)
    with 1(2) c have "p' = p1" by (subst (asm) string_loop.simps) simp
    then show ?thesis using string_turn_ends [OF StringEnds] by simp
  next
    case (StringFails p1)
    with 1(2) c show ?thesis by (subst (asm) string_loop.simps) simp
  qed
qed

lemma ConsumeStringRaw_moved: "ConsumeStringRaw inp p = (Some sb, p') \<Longrightarrow> in_step p \<Longrightarrow> moved 1 p p'"
  by (auto simp: ConsumeStringRaw_def moved_def in_step_def Let_def dest!: string_loop_moves split: if_splits)

lemma ConsumeString_moved: "ConsumeString inp p = (Some v, p') \<Longrightarrow> in_step p \<Longrightarrow> moved 0 p p'"
  using moved_weaken [of 1 p p' 0]
  by (auto simp: ConsumeString_def split: prod.splits option.splits dest!: ConsumeStringRaw_moved)

lemma read_int_loop_moved: "read_int_loop inp p c n = (m, p') \<Longrightarrow> n \<le> m \<and> moved (m - n) p p'"
proof (induction inp p c n rule: read_int_loop.induct)
  case (1 inp p c n)
  show ?case
  proof (cases "CanConsume inp p 1 \<and> IsAsciiDigit c")
    case True
    with 1(2) have "read_int_loop inp (NextChar p) (byte_at inp (jp_pos (NextChar p))) (n + 1) = (m, p')"
      by (subst (asm) read_int_loop.simps) (simp add: Let_def)
    from 1(1) [OF True refl this] show ?thesis
      using moved_Next_trans [of "m - Suc n" p p'] by (simp add: Suc_diff_Suc)
  next
    case False
    with 1(2) show ?thesis by (subst (asm) read_int_loop.simps) auto
  qed
qed

lemma ReadDigits_moved: "ReadDigits inp a p = (True, p') \<Longrightarrow> moved 1 p p'"
  by (auto simp: ReadDigits_def Let_def dest!: read_int_loop_moved split: prod.splits if_splits elim: moved_weaken)

lemma read_fraction_moved: "read_fraction inp p e = (True, p', e') \<Longrightarrow> moved 0 p p'"
  by (auto simp: read_fraction_def split: if_splits prod.splits bool.splits
      dest!: ReadDigits_moved intro: moved_Next_0 [OF moved_weaken])

lemma read_exponent_moved: "read_exponent inp p e = (True, p', e') \<Longrightarrow> moved 0 p p'"
  by (auto simp: read_exponent_def Let_def split: if_splits prod.splits bool.splits
      dest!: ReadDigits_moved intro: moved_Next_0 [OF moved_weaken] moved_Next_0 [OF moved_Next_0 [OF moved_weaken]])


lemma ConsumeNumber_moved:
  assumes "ConsumeNumber inp p = (Some v, p')"
  shows "moved 0 p p'"
proof -
  let ?p0 = "if byte_at inp (jp_pos p) = 45 then NextChar p else p"
  obtain p1 where 1: "ReadDigits inp False ?p0 = (True, p1)"
    using assms by (auto simp: ConsumeNumber_def Let_def split: prod.splits bool.splits)
  obtain p2 e2 where 2: "read_fraction inp p1 (jp_index p1) = (True, p2, e2)"
    using assms 1 by (auto simp: ConsumeNumber_def Let_def split: prod.splits bool.splits)
  obtain p3 e3 where 3: "read_exponent inp p2 e2 = (True, p3, e3)"
    using assms 1 2 by (auto simp: ConsumeNumber_def Let_def split: prod.splits bool.splits)
  obtain t p4 where 4: "GetNextToken inp p3 = (t, p4)" by force
  have p': "p' = p4\<lparr>jp_pos := jp_pos p3 - 1, jp_index := jp_index p3 - 1\<rparr>"
    using assms 1 2 3 4 by (auto simp: ConsumeNumber_def Let_def split: if_splits)
  have "moved 0 p ?p0" using moved_weaken [OF moved_Next] by simp
  from moved_trans [OF moved_trans [OF moved_trans [OF this ReadDigits_moved [OF 1]] read_fraction_moved [OF 2]] read_exponent_moved [OF 3]]
  have "moved 1 p p3" by simp
  moreover have "jp_depth p4 = jp_depth p3" using GetNextToken_moved [OF 4] by (simp add: moved_def)
  ultimately show ?thesis by (auto simp: p' moved_def in_step_def)
qed

lemma ConsumeLiteral_moved: "ConsumeLiteral inp p = (Some v, p') \<Longrightarrow> moved 0 p p'"
  by (auto simp: ConsumeLiteral_def consume_word_def Let_def split: if_splits intro: moved_weaken [OF moved_NextN])

lemma next_element_moved:
  assumes "next_element inp closing adj p = (Some t, p')"
  shows "moved 1 p p' \<and> token_there inp t p'"
proof -
  obtain t1 p1 where 1: "GetNextToken inp (NextChar p) = (t1, p1)" by force
  obtain t2 p2 where 2: "GetNextToken inp (NextChar p1) = (t2, p2)" by force
  have m: "moved 1 p p1" using moved_trans [OF moved_Next GetNextToken_moved [OF 1]] by simp
  have "moved 1 p p2"
    using moved_weaken [OF moved_trans [OF m moved_trans [OF moved_Next GetNextToken_moved [OF 2]]], of 1] by simp
  then show ?thesis
    using assms 1 2 m GetNextToken_there [OF 1] GetNextToken_there [OF 2]
    by (auto simp: next_element_def Let_def split: if_splits)
qed

lemma stack_moves:
  "moved n (stack_enter p) q \<Longrightarrow> moved n p (stack_leave q)"
  by (auto simp: moved_def stack_enter_def stack_leave_def in_step_def)

section \<open>Values\<close>

text \<open>The cases of the three functions, with the fuel split off.\<close>

lemma ParseToken_cases:
  assumes "ParseToken inp (Suc fuel) t p = Some (Some v, p')"
  obtains (dictionary) t1 p1 p2 where "t = T_OBJECT_BEGIN" "\<not> IsTooDeep (stack_enter p)"
      "GetNextToken inp (NextChar (stack_enter p)) = (t1, p1)"
      "dictionary_loop inp fuel t1 [] p1 = Some (Some v, p2)" "p' = stack_leave p2"
  | (list) t1 p1 p2 where "t = T_ARRAY_BEGIN" "\<not> IsTooDeep (stack_enter p)"
      "GetNextToken inp (NextChar (stack_enter p)) = (t1, p1)"
      "list_loop inp fuel t1 [] p1 = Some (Some v, p2)" "p' = stack_leave p2"
  | (string) "t = T_STRING" "ConsumeString inp p = (Some v, p')"
  | (number) "t = T_NUMBER" "ConsumeNumber inp p = (Some v, p')"
  | (literal) "t \<in> {T_BOOL_TRUE, T_BOOL_FALSE, T_NULL}" "ConsumeLiteral inp p = (Some v, p')"
  using assms by (cases t) (auto simp: Let_def split: if_splits prod.splits)

lemma list_loop_cases:
  assumes "list_loop inp (Suc fuel) t l p = Some (Some v, p')"
  obtains (finished) "t = T_ARRAY_END" "v = ListValue l" "p' = p"
  | (item) item p1 t2 p2 where "t \<noteq> T_ARRAY_END" "ParseToken inp fuel t p = Some (Some item, p1)"
      "next_element inp T_ARRAY_END 1 p1 = (Some t2, p2)"
      "list_loop inp fuel t2 (list_Append item l) p2 = Some (Some v, p')"
  using assms by (auto split: if_splits option.splits prod.splits)

lemma dictionary_loop_cases:
  assumes "dictionary_loop inp (Suc fuel) t d p = Some (Some v, p')"
  obtains (finished) "t = T_OBJECT_END" "v = DictionaryValue d" "p' = p"
  | (entry) key p1 p2 t3 p3 w p4 t5 p5 where "t = T_STRING" "ConsumeStringRaw inp p = (Some key, p1)"
      "GetNextToken inp (NextChar p1) = (T_OBJECT_PAIR_SEPARATOR, p2)"
      "GetNextToken inp (NextChar p2) = (t3, p3)" "ParseToken inp fuel t3 p3 = Some (Some w, p4)"
      "next_element inp T_OBJECT_END 0 p4 = (Some t5, p5)"
      "dictionary_loop inp fuel t5 (SetWithoutPathExpansion (sb_AsString inp key) w d) p5 = Some (Some v, p')"
  using assms by (auto simp: Let_def split: if_splits option.splits prod.splits)

lemma values_move:
  "(\<forall>t p v p'. ParseToken inp fuel t p = Some (Some v, p') \<longrightarrow> in_step p \<longrightarrow> moved 0 p p')
    \<and> (\<forall>t l p v p'. list_loop inp fuel t l p = Some (Some v, p') \<longrightarrow> in_step p \<longrightarrow> moved 0 p p')
    \<and> (\<forall>t d p v p'. dictionary_loop inp fuel t d p = Some (Some v, p') \<longrightarrow> in_step p \<longrightarrow> moved 0 p p')"
proof (induction fuel)
  case (Suc fuel)
  have step: "in_step p \<Longrightarrow> moved n p q \<Longrightarrow> in_step q" for n p q by (simp add: moved_def)
  have enter: "in_step p \<Longrightarrow> GetNextToken inp (NextChar (stack_enter p)) = (t, p1) \<Longrightarrow>
      moved 1 (stack_enter p) p1 \<and> in_step p1" for p t p1
    using moved_trans [OF moved_Next GetNextToken_moved, of inp "stack_enter p" t p1]
    by (simp add: moved_def in_step_def stack_enter_def)
  have "moved 0 p p'" if "ParseToken inp (Suc fuel) t p = Some (Some v, p')" "in_step p" for t p v p'
    using that(1)
  proof (cases rule: ParseToken_cases)
    case (dictionary t1 p1 p2)
    note e = enter [OF that(2) dictionary(3)]
    have "moved 0 p1 p2" using Suc dictionary(4) e by blast
    from moved_trans [OF conjunct1 [OF e] this] have "moved 1 p p'" unfolding dictionary(5) by (intro stack_moves) simp
    then show ?thesis by (rule moved_weaken) simp
  next
    case (list t1 p1 p2)
    note e = enter [OF that(2) list(3)]
    have "moved 0 p1 p2" using Suc list(4) e by blast
    from moved_trans [OF conjunct1 [OF e] this] have "moved 1 p p'" unfolding list(5) by (intro stack_moves) simp
    then show ?thesis by (rule moved_weaken) simp
  qed (use that(2) ConsumeString_moved ConsumeNumber_moved ConsumeLiteral_moved in blast)+
  moreover have "moved 0 p p'" if "list_loop inp (Suc fuel) t l p = Some (Some v, p')" "in_step p" for t l p v p'
    using that(1)
  proof (cases rule: list_loop_cases)
    case (item i p1 t2 p2)
    have 1: "moved 0 p p1" using Suc item(2) that(2) by blast
    have 2: "moved 1 p1 p2" using next_element_moved [OF item(3)] by blast
    have "moved 0 p2 p'" using Suc item(4) step [OF step [OF that(2) 1] 2] by blast
    from moved_trans [OF moved_trans [OF 1 2] this] show ?thesis by (rule moved_weaken) simp
  qed simp
  moreover have "moved 0 p p'" if "dictionary_loop inp (Suc fuel) t d p = Some (Some v, p')" "in_step p" for t d p v p'
    using that(1)
  proof (cases rule: dictionary_loop_cases)
    case (entry key p1 p2 t3 p3 w p4 t5 p5)
    have 1: "moved 1 p p1" using ConsumeStringRaw_moved [OF entry(2) that(2)] .
    have 2: "moved 1 p1 p2" using moved_trans [OF moved_Next GetNextToken_moved [OF entry(3)]] by simp
    have 3: "moved 1 p2 p3" using moved_trans [OF moved_Next GetNextToken_moved [OF entry(4)]] by simp
    have i: "in_step p3" using step [OF step [OF step [OF that(2) 1] 2] 3] .
    have 4: "moved 0 p3 p4" using Suc entry(5) i by blast
    have 5: "moved 1 p4 p5" using next_element_moved [OF entry(6)] by blast
    have "moved 0 p5 p'" using Suc entry(7) step [OF step [OF i 4] 5] by blast
    from moved_trans [OF moved_trans [OF moved_trans [OF moved_trans [OF moved_trans [OF 1 2] 3] 4] 5] this]
    show ?thesis by (rule moved_weaken) simp
  qed simp
  ultimately show ?case by blast
qed simp


section \<open>Enough fuel\<close>

definition left_over :: "json_input \<Rightarrow> json_parser \<Rightarrow> nat" where
  "left_over inp p = end_pos inp - jp_pos p"

lemma left_over_moved: "moved n p q \<Longrightarrow> left_over inp q \<le> left_over inp p - n"
  by (auto simp: left_over_def moved_def)

lemma left_over_positive: "token_there inp t p \<Longrightarrow> t \<noteq> T_END_OF_INPUT \<Longrightarrow> 0 < left_over inp p"
  by (simp add: token_there_def left_over_def)

lemma left_over_enter [simp]: "left_over inp (stack_enter p) = left_over inp p"
  by (simp add: left_over_def stack_enter_def)

lemma ParseToken_at_end: "ParseToken inp (Suc fuel) T_END_OF_INPUT p = Some (None, ReportError JSON_UNEXPECTED_TOKEN 1 p)"
  by simp

lemma fuel_suffices:
  "(\<forall>t p. token_there inp t p \<longrightarrow> in_step p \<longrightarrow> 2 * left_over inp p + 1 \<le> fuel \<longrightarrow> ParseToken inp fuel t p \<noteq> None)
    \<and> (\<forall>t l p. token_there inp t p \<longrightarrow> in_step p \<longrightarrow> 2 * left_over inp p + 2 \<le> fuel \<longrightarrow> list_loop inp fuel t l p \<noteq> None)
    \<and> (\<forall>t d p. token_there inp t p \<longrightarrow> in_step p \<longrightarrow> 2 * left_over inp p + 2 \<le> fuel \<longrightarrow> dictionary_loop inp fuel t d p \<noteq> None)"
proof (induction fuel)
  case (Suc fuel)
  have step: "in_step p \<Longrightarrow> moved n p q \<Longrightarrow> in_step q" for n p q by (simp add: moved_def)
  have "ParseToken inp (Suc fuel) t p \<noteq> None"
    if t: "token_there inp t p" and i: "in_step p" and f: "2 * left_over inp p + 1 \<le> Suc fuel" for t p
  proof -
    obtain t1 p1 where 1: "GetNextToken inp (NextChar (stack_enter p)) = (t1, p1)" by force
    have m: "moved 1 (stack_enter p) p1" using moved_trans [OF moved_Next GetNextToken_moved [OF 1]] by simp
    have i1: "in_step p1" using m i by (simp add: moved_def in_step_def stack_enter_def)
    have l: "left_over inp p1 \<le> left_over inp p - 1" using left_over_moved [OF m, of inp] by simp
    have "dictionary_loop inp fuel t1 [] p1 \<noteq> None \<and> list_loop inp fuel t1 [] p1 \<noteq> None" if "t \<noteq> T_END_OF_INPUT"
    proof -
      have "2 * left_over inp p1 + 2 \<le> fuel" using l f left_over_positive [OF t that] by simp
      then show ?thesis using Suc GetNextToken_there [OF 1] i1 by blast
    qed
    then show ?thesis by (cases t) (simp_all add: 1 Let_def)
  qed
  moreover have "list_loop inp (Suc fuel) t l p \<noteq> None"
    if t: "token_there inp t p" and i: "in_step p" and f: "2 * left_over inp p + 2 \<le> Suc fuel" for t l p
  proof -
    have "ParseToken inp fuel t p \<noteq> None" using Suc t i f by simp
    then obtain r p1 where 1: "ParseToken inp fuel t p = Some (r, p1)" by fastforce
    show ?thesis
    proof (cases r)
      case (Some v)
      have "t \<noteq> T_END_OF_INPUT" using 1 Some by (cases fuel) auto
      then have pos: "0 < left_over inp p" using left_over_positive [OF t] by blast
      have m: "moved 0 p p1" using values_move 1 Some i by blast
      show ?thesis
      proof (cases "next_element inp T_ARRAY_END 1 p1")
        case (Pair r2 p2)
        show ?thesis
        proof (cases r2)
          case None
          then show ?thesis using 1 Some Pair by simp
        next
          case (Some t2)
          note n = next_element_moved [OF Pair [unfolded Some]]
          have m2: "moved 1 p p2" using moved_trans [OF m conjunct1 [OF n]] by simp
          have "2 * left_over inp p2 + 2 \<le> fuel" using left_over_moved [OF m2, of inp] pos f by simp
          then have "list_loop inp fuel t2 (list_Append v l) p2 \<noteq> None" using Suc n step [OF i m2] by blast
          then show ?thesis using 1 \<open>r = Some v\<close> Pair Some by simp
        qed
      qed
    qed (use 1 in simp)
  qed
  moreover have "dictionary_loop inp (Suc fuel) t d p \<noteq> None"
    if t: "token_there inp t p" and i: "in_step p" and f: "2 * left_over inp p + 2 \<le> Suc fuel" for t d p
  proof (cases "t = T_STRING \<and> (\<exists>key p1. ConsumeStringRaw inp p = (Some key, p1))")
    case True
    then obtain key p1 where t1: "t = T_STRING" and 1: "ConsumeStringRaw inp p = (Some key, p1)" by blast
    obtain t2 p2 where 2: "GetNextToken inp (NextChar p1) = (t2, p2)" by force
    obtain t3 p3 where 3: "GetNextToken inp (NextChar p2) = (t3, p3)" by force
    have pos: "0 < left_over inp p" using left_over_positive [OF t] t1 by blast
    have m2: "moved 2 p p2"
      using moved_trans [OF ConsumeStringRaw_moved [OF 1 i] moved_trans [OF moved_Next GetNextToken_moved [OF 2]]]
      by (simp add: numeral_2_eq_2)
    have m3: "moved 3 p p3"
      using moved_trans [OF m2 moved_trans [OF moved_Next GetNextToken_moved [OF 3]]] by (simp add: numeral_3_eq_3)
    have "2 * left_over inp p3 + 1 \<le> fuel" using left_over_moved [OF m3, of inp] pos f by simp
    then have "ParseToken inp fuel t3 p3 \<noteq> None" using Suc GetNextToken_there [OF 3] step [OF i m3] by blast
    then obtain r p4 where 4: "ParseToken inp fuel t3 p3 = Some (r, p4)" by fastforce
    have *: ?thesis if "r = Some w" "next_element inp T_OBJECT_END 0 p4 = (Some t5, p5)" for w t5 p5
    proof -
      note n = next_element_moved [OF that(2)]
      have m4: "moved 0 p3 p4" using values_move 4 that(1) step [OF i m3] by blast
      have m5: "moved 1 p p5"
        using moved_weaken [OF moved_trans [OF moved_trans [OF m3 m4] conjunct1 [OF n]], of 1] by simp
      have "2 * left_over inp p5 + 2 \<le> fuel" using left_over_moved [OF m5, of inp] pos f by simp
      then have "dictionary_loop inp fuel t5 (SetWithoutPathExpansion (sb_AsString inp key) w d) p5 \<noteq> None"
        using Suc n step [OF i m5] by blast
      then show ?thesis using t1 1 2 3 4 that by (simp add: Let_def)
    qed
    obtain r5 p5 where 5: "next_element inp T_OBJECT_END 0 p4 = (r5, p5)" by force
    show ?thesis
    proof (cases "\<exists>w t5. r = Some w \<and> r5 = Some t5")
      case True
      then show ?thesis using * 5 by blast
    next
      case False
      then show ?thesis using t1 1 2 3 4 5 by (auto simp: Let_def split: option.splits)
    qed
  next
    case False
    then show ?thesis by (cases "ConsumeStringRaw inp p"; cases "fst (ConsumeStringRaw inp p)") auto
  qed
  ultimately show ?case by blast
qed simp

lemma fuel_mono:
  "(\<forall>t p r. ParseToken inp fuel t p = Some r \<longrightarrow> ParseToken inp (fuel + k) t p = Some r)
    \<and> (\<forall>t l p r. list_loop inp fuel t l p = Some r \<longrightarrow> list_loop inp (fuel + k) t l p = Some r)
    \<and> (\<forall>t d p r. dictionary_loop inp fuel t d p = Some r \<longrightarrow> dictionary_loop inp (fuel + k) t d p = Some r)"
proof (induction fuel)
  case (Suc fuel)
  note P = Suc [THEN conjunct1, rule_format] and L = Suc [THEN conjunct2, THEN conjunct1, rule_format]
    and D = Suc [THEN conjunct2, THEN conjunct2, rule_format]
  have "ParseToken inp (Suc fuel + k) t p = Some r" if "ParseToken inp (Suc fuel) t p = Some r" for t p r
    using that by (cases t) (auto simp: Let_def L D split: if_splits prod.splits)
  moreover have "list_loop inp (Suc fuel + k) t l p = Some r" if "list_loop inp (Suc fuel) t l p = Some r" for t l p r
    using that by (cases r) (auto simp: P L split: if_splits option.splits prod.splits)
  moreover have "dictionary_loop inp (Suc fuel + k) t d p = Some r" if "dictionary_loop inp (Suc fuel) t d p = Some r" for t d p r
    using that by (cases r) (auto simp: Let_def P D split: if_splits option.splits prod.splits)
  ultimately show ?case by blast
qed simp

lemma skip_byte_order_mark_in_step: "in_step p \<Longrightarrow> in_step (skip_byte_order_mark inp p)"
  by (simp add: skip_byte_order_mark_def in_step_def)

lemma Parse_with_fuel: "\<exists>r. Parse_with (json_fuel inp + k) inp = Some r \<and> Parse_with (json_fuel inp) inp = Some r"
proof -
  obtain t p where 1: "GetNextToken inp (skip_byte_order_mark inp new_parser) = (t, p)" by force
  have "in_step p"
    using GetNextToken_moved [OF 1] skip_byte_order_mark_in_step [of new_parser inp]
    by (simp add: moved_def in_step_def new_parser_def)
  moreover have "2 * left_over inp p + 1 \<le> json_fuel inp" by (simp add: left_over_def json_fuel_def)
  ultimately obtain r where 2: "ParseToken inp (json_fuel inp) t p = Some r"
    using fuel_suffices GetNextToken_there [OF 1] by blast
  note 3 = fuel_mono [THEN conjunct1, rule_format, OF 2, of k]
  show ?thesis using 1 2 3 by (auto simp: Parse_with_def split: option.splits prod.splits bool.splits)
qed

text \<open>C38. Parsing always ends: on every input, whatever lies behind it in memory and however strtod behaves,
  the parser returns a result with the fuel that is given for it, and more fuel does not change that result.\<close>

theorem json_parser_terminates:
  "\<exists>r. JSONParser_Parse options strtod behind json = Some r
     \<and> (\<forall>k. Parse_with (json_fuel (parser_input options strtod behind json) + k)
            (parser_input options strtod behind json) = Some r)"
  using Parse_with_fuel by (metis JSONParser_Parse_def option.inject)

end
