(* ===== verification/JsonTyped.thy ===== *)
theory JsonTyped
  imports JsonParserTotal
begin

text \<open>
  What the JSON parser returns: values without binary data, nested less than kStackMaxDepth deep, with
  ascending keys and finite doubles, and strings that are UTF-8 unless the text holds a \<open>\x-\<close> escape.
\<close>

section \<open>Text\<close>

definition character_text :: "u8 list \<Rightarrow> bool" where
  "character_text s \<longleftrightarrow> (\<exists>ns. list_all character_value ns \<and> map unat s = utf8_text ns)"

lemma character_text_words:
  "character_text s \<longleftrightarrow> (\<exists>cs. list_all IsValidCharacter cs \<and> s = concat (map CBU8_APPEND_UNSAFE cs))"
proof
  assume "character_text s"
  then obtain ns where ns: "list_all character_value ns" "map unat s = utf8_text ns" by (auto simp: character_text_def)
  then have "list_all scalar_value ns" by (auto simp: list_all_iff character_value_def)
  from scalars_as_words [OF this] obtain cs :: "u32 list" where cs: "list_all IsValidCodepoint cs" "ns = map unat cs" by blast
  then have "list_all IsValidCharacter cs" using ns(1) by (simp add: list_all_iff valid_character)
  then show "\<exists>cs. list_all IsValidCharacter cs \<and> s = concat (map CBU8_APPEND_UNSAFE cs)"
    using nats_eq8 [OF cs(1), of s] ns(2) cs(2) by auto
next
  assume "\<exists>cs. list_all IsValidCharacter cs \<and> s = concat (map CBU8_APPEND_UNSAFE cs)"
  then obtain cs where cs: "list_all IsValidCharacter cs" "s = concat (map CBU8_APPEND_UNSAFE cs)" by blast
  then have "list_all IsValidCodepoint cs" by (auto simp: list_all_iff valid_character_codepoint)
  with cs show "character_text s" unfolding character_text_def
    by (intro exI [of _ "map unat cs"]) (simp add: text8 list_all_iff valid_character)
qed

lemma character_text_Nil [simp]: "character_text []"
  by (auto simp: character_text_words intro: exI [of _ "[]"])

lemma character_text_append: "character_text s \<Longrightarrow> character_text t \<Longrightarrow> character_text (s @ t)"
  unfolding character_text_words by (metis concat_append list_all_append map_append)

lemma character_text_char: "IsValidCharacter c \<Longrightarrow> character_text (CBU8_APPEND_UNSAFE c)"
  unfolding character_text_words by (intro exI [of _ "[c]"]) simp

lemma APPEND_ascii: "unat c < 128 \<Longrightarrow> CBU8_APPEND_UNSAFE c = [ucast c]"
  by (simp add: CBU8_APPEND_UNSAFE_def word_le_nat_alt)

lemma valid_ascii: "unat c < 128 \<Longrightarrow> IsValidCharacter c"
  by (simp add: valid_character character_value_def scalar_value_def)

lemma ucast_back [simp]: "ucast (ucast b :: u32) = b" for b :: u8
  by (simp add: word_unat_eq_iff unat_ucast8 unat_ucast_8_32 u8_less)

lemma character_text_ascii: "unat b < 128 \<Longrightarrow> character_text [b]" for b :: u8
  using character_text_char [OF valid_ascii, of "ucast b"] APPEND_ascii [of "ucast b"]
  by (simp add: unat_ucast_8_32)

lemma valid_sint: "IsValidCharacter c \<Longrightarrow> 0 \<le> sint c \<and> (sint c < 128 \<longleftrightarrow> unat c < 128)"
proof -
  assume "IsValidCharacter c"
  then have "unat c < 0x110000" by (auto simp: valid_character character_value_def scalar_value_def)
  then show ?thesis using sint_small [of c] sint_cmp [of c "num.Bit0 (num.Bit0 (num.Bit0 (num.Bit0 (num.Bit0 (num.Bit0 (num.Bit0 num.One))))))"]
    by (simp flip: not_le)
qed

text \<open>CBU8_NEXT yields a character only where its encoding is, even past the end.\<close>

lemma next_valid:
  assumes "CBU8_NEXT s i len = (j, c)" and "IsValidCharacter c"
  shows "j = i + length (CBU8_APPEND_UNSAFE c) \<and> map s [i ..< j] = CBU8_APPEND_UNSAFE c"
proof (cases "unat c < 128")
  case True
  then show ?thesis using next_ascii_width [of s i len] assms APPEND_ascii [OF True] by simp
next
  case False
  have i: "i < len"
  proof (rule ccontr)
    assume n: "\<not> i < len"
    then have "snd (utf8_nextCharSafeBody s (Suc i) len d (- 1)) = CBU_SENTINEL" for d
      by (auto simp: utf8_nextCharSafeBody_def Let_def split: prod.splits)
    then have "128 \<le> unat (s i) \<Longrightarrow> c = CBU_SENTINEL"
      using assms(1) by (auto simp: CBU8_NEXT_def Let_def scast_byte word_le_nat_alt split: if_splits) (metis snd_conv)
    moreover have "unat (s i) < 128 \<Longrightarrow> unat c < 128"
      using next_ascii [of s i len] assms(1) by (auto simp: unat_ucast_8_32)
    ultimately show False using False assms(2) valid_character_codepoint sentinel_invalid by fastforce
  qed
  have "c \<noteq> CBU_SENTINEL" using assms(2) valid_character_codepoint sentinel_invalid by blast
  then have "decodes s i len c \<and> j = i + length (CBU8_APPEND_UNSAFE c)"
    using next_exact [OF i, of s] assms(1) by (auto simp: next_spec_def)
  then show ?thesis by (simp add: decodes_def encoded_at_def)
qed

section \<open>Strings\<close>

text \<open>What a builder holds, and where the piece of the input that it stands for ends.\<close>

definition piece_ends_at :: "nat \<Rightarrow> string_builder \<Rightarrow> bool" where
  "piece_ends_at i sb \<longleftrightarrow> (sb_string sb = None \<longrightarrow> sb_pos sb + sb_length sb = i)"

lemma sb_AsString_Convert [simp]: "sb_AsString inp (sb_Convert inp sb) = sb_AsString inp sb"
  by (simp add: sb_AsString_def sb_Convert_def split: option.splits)

lemma sb_converted [simp]: "sb_string (sb_Convert inp sb) = Some (sb_AsString inp sb)"
  by (auto simp: sb_AsString_def sb_Convert_def split: option.splits)

lemma bytes_at_append: "bytes_at inp i (m + n) = bytes_at inp i m @ bytes_at inp (i + m) n"
  using upt_add_eq_append [of i "i + m" n] by (simp add: bytes_at_def add.assoc)

definition append_point :: "json_input \<Rightarrow> u32 \<Rightarrow> string_builder \<Rightarrow> string_builder" where
  "append_point inp c sb = (if sint c < kExtendedASCIIStart then sb_Append (ucast c) sb else DecodeUTF8 inp c sb)"

lemma append_point_converted:
  assumes "sb_string sb = Some s" and "IsValidCharacter c"
  shows "sb_string (append_point inp c sb) = Some (s @ CBU8_APPEND_UNSAFE c)"
  using valid_sint [OF assms(2)] assms(1) APPEND_ascii [of c]
  by (auto simp: append_point_def DecodeUTF8_def kExtendedASCIIStart_def sb_Append_def sb_AppendString_def sb_Convert_def)

lemma append_point_content:
  assumes "piece_ends_at i sb" and "IsValidCharacter c" and "map (byte_at inp) [i ..< j] = CBU8_APPEND_UNSAFE c"
    and "j = i + length (CBU8_APPEND_UNSAFE c)"
  shows "piece_ends_at j (append_point inp c sb)"
    and "sb_AsString inp (append_point inp c sb) = sb_AsString inp sb @ CBU8_APPEND_UNSAFE c"
proof -
  have "piece_ends_at j (append_point inp c sb)
      \<and> sb_AsString inp (append_point inp c sb) = sb_AsString inp sb @ CBU8_APPEND_UNSAFE c"
  proof (cases "sb_string sb = None \<and> unat c < 128")
    case True
    then have "bytes_at inp (sb_pos sb) (sb_length sb + 1) = bytes_at inp (sb_pos sb) (sb_length sb) @ CBU8_APPEND_UNSAFE c"
      using assms(1,3,4) APPEND_ascii [of c] unfolding bytes_at_append by (simp add: piece_ends_at_def bytes_at_def)
    then show ?thesis
      using True assms(1,4) valid_sint [OF assms(2)] APPEND_ascii [of c]
      by (simp add: append_point_def kExtendedASCIIStart_def sb_Append_def piece_ends_at_def sb_AsString_def)
  next
    case False
    then have "append_point inp c sb = append_point inp c (sb_Convert inp sb)"
      using valid_sint [OF assms(2)]
      by (auto simp: append_point_def DecodeUTF8_def kExtendedASCIIStart_def sb_Convert_def)
    then have "sb_string (append_point inp c sb) = Some (sb_AsString inp sb @ CBU8_APPEND_UNSAFE c)"
      using append_point_converted [OF sb_converted assms(2), of inp inp sb] by simp
    then show ?thesis by (simp add: piece_ends_at_def sb_AsString_def)
  qed
  then show "piece_ends_at j (append_point inp c sb)"
    and "sb_AsString inp (append_point inp c sb) = sb_AsString inp sb @ CBU8_APPEND_UNSAFE c" by blast+
qed

text \<open>Two hexadecimal digits without a sign are a byte.\<close>

lemma hex_byte: "HexStringToInt [a, b] 0 = (True, v) \<Longrightarrow> a \<noteq> 45 \<Longrightarrow> 0 \<le> v \<and> v < 256"
  by (auto simp: HexStringToInt_def range_to_number_def parse_unsigned_def Let_def
      dest!: CharToDigit_less split: if_splits option.splits)

lemma hex_at_byte:
  assumes "hex_at inp i 2 = Some c" and "byte_at inp i \<noteq> 45"
  shows "IsValidCharacter c"
proof -
  have "bytes_at inp i 2 = [byte_at inp i, byte_at inp (Suc i)]" by (simp add: bytes_at_def numeral_2_eq_2)
  then obtain v where v: "HexStringToInt [byte_at inp i, byte_at inp (Suc i)] 0 = (True, v)" "c = of_int v"
    using assms(1) by (auto simp: hex_at_def split: prod.splits if_splits)
  obtain n where "v = int n" "n < 256" using hex_byte [OF v(1) assms(2)] nonneg_int_cases [of v] by auto
  with v(2) have "unat c < 256" by (simp add: unat_of_nat_u32)
  then show ?thesis by (simp add: valid_character character_value_def scalar_value_def)
qed

lemma APPEND_nonzero: "IsValidCharacter c \<Longrightarrow> c \<noteq> 0 \<Longrightarrow> 0 \<notin> set (CBU8_APPEND_UNSAFE c)"
proof
  assume v: "IsValidCharacter c" "c \<noteq> 0" and "0 \<in> set (CBU8_APPEND_UNSAFE c)"
  then have "0 \<in> set (map unat (CBU8_APPEND_UNSAFE c))" by force
  moreover have "unat c < 0x110000" "unat c \<noteq> 0"
    using v by (auto simp: valid_character character_value_def scalar_value_def unat_eq_0)
  ultimately show False by (auto simp: APPEND_nats utf8_nats_def split: if_splits)
qed

lemma code_unit8_char: "IsValidCharacter c \<Longrightarrow> c \<noteq> 0 \<Longrightarrow> code_unit8 c = CBU8_APPEND_UNSAFE c"
  using APPEND_nonzero [of c] by (auto simp: code_unit8_def takeWhile_eq_all_conv)

lemma code_unit8_text: "IsValidCharacter c \<Longrightarrow> character_text (code_unit8 c)"
  using character_text_char [of c] code_unit8_char [of c] APPEND_ascii [of 0]
  by (cases "c = 0") (simp add: code_unit8_def, simp)

text \<open>What an escape appends.\<close>

lemma sb_append_converted [simp]:
  "sb_string (sb_Append c (sb_Convert inp sb)) = Some (sb_AsString inp sb @ [c])"
  "sb_string (sb_AppendString t (sb_Convert inp sb)) = Some (sb_AsString inp sb @ t)"
  by (simp_all add: sb_Append_def sb_AppendString_def)

lemma DecodeUTF16_text: "DecodeUTF16 inp p = (Some t, p') \<Longrightarrow> character_text t"
  by (auto simp: DecodeUTF16_def decode_low_surrogate_def Let_def intro: code_unit8_text
      split: if_splits option.splits)

lemma simple_escape_ascii: "simple_escape c = Some e \<Longrightarrow> unat e < 128"
  by (auto simp: simple_escape_def split: if_splits)

lemma ConsumeEscape_content:
  assumes "ConsumeEscape inp p sb = (Some sb', p')"
  shows "\<exists>t. sb_string sb' = Some (sb_AsString inp sb @ t)
    \<and> (byte_at inp (jp_pos p + 1) = 120 \<and> byte_at inp (jp_pos p + 2) = 45 \<and> jp_pos p + 3 \<le> end_pos inp \<or> character_text t)"
proof -
  let ?c = "byte_at inp (jp_pos p + 1)"
  consider "?c = 120" | "?c = 117" | "?c \<noteq> 120" "?c \<noteq> 117" by blast
  then show ?thesis
  proof cases
    case 1
    then obtain h where h: "hex_at inp (jp_pos p + 2) 2 = Some h" and n: "jp_pos p + 3 \<le> end_pos inp"
      and sb': "sb' = append_point inp h (sb_Convert inp sb)"
      using assms by (auto simp: ConsumeEscape_def Let_def append_point_def CanConsume_def split: if_splits option.splits)
    show ?thesis
    proof (cases "byte_at inp (jp_pos p + 2) = 45")
      case True
      then show ?thesis using 1 n sb'
        by (auto simp: append_point_def DecodeUTF8_def sb_Convert_def [of inp "sb_Convert inp sb"])
    next
      case False
      from hex_at_byte [OF h False] have v: "IsValidCharacter h" .
      show ?thesis using append_point_converted [OF sb_converted v, of inp inp sb] character_text_char [OF v] sb' by blast
    qed
  next
    case 2
    then obtain t p1 where "DecodeUTF16 inp (NextChar (NextChar p)) = (Some t, p1)"
      and "sb' = sb_AppendString t (sb_Convert inp sb)"
      using assms by (auto simp: ConsumeEscape_def Let_def split: if_splits option.splits prod.splits)
    then show ?thesis using DecodeUTF16_text by auto
  next
    case 3
    then obtain e where "simple_escape ?c = Some e" and "sb' = sb_Append e (sb_Convert inp sb)"
      using assms by (auto simp: ConsumeEscape_def Let_def split: if_splits option.splits)
    then show ?thesis using character_text_ascii simple_escape_ascii by auto
  qed
qed

text \<open>The text holds no backslash, x and minus sign in a row.\<close>

definition no_signed_escape :: "json_input \<Rightarrow> bool" where
  "no_signed_escape inp \<longleftrightarrow> (\<forall>i. i + 3 \<le> end_pos inp \<longrightarrow> bytes_at inp i 3 \<noteq> [92, 120, 45])"

lemma string_turn_content:
  assumes t: "string_turn inp p sb = StringGoesOn p' sb'" and e: "piece_ends_at (jp_index p) sb"
  shows "piece_ends_at (jp_index p') sb'
    \<and> (\<exists>t. sb_AsString inp sb' = sb_AsString inp sb @ t \<and> (no_signed_escape inp \<longrightarrow> character_text t))"
proof -
  obtain j c where n: "CBU8_NEXT (byte_at inp) (jp_index p) (end_pos inp) = (j, c)" by fastforce
  have v: "IsValidCharacter c" using t n by (auto simp: string_turn_def Let_def split: if_splits)
  note nv = next_valid [OF n v]
  show ?thesis
  proof (cases "c = 92")
    case False
    then have "sb' = append_point inp c sb \<and> jp_index p' = j"
      using t n by (auto simp: string_turn_def Let_def append_point_def split: if_splits)
    moreover note append_point_content [OF e v conjunct2 [OF nv] conjunct1 [OF nv]]
    ultimately show ?thesis using character_text_char [OF v] by auto
  next
    case True
    then have "CBU8_APPEND_UNSAFE c = [92]" using APPEND_ascii [of c] by simp
    then have b: "byte_at inp (jp_index p) = 92" using nv by auto
    have "ConsumeEscape inp (p\<lparr>jp_pos := jp_index p, jp_index := j\<rparr>) sb = (Some sb', p')"
      using t n True by (auto simp: string_turn_def Let_def split: if_splits option.splits prod.splits)
    from ConsumeEscape_content [OF this] obtain t where t: "sb_string sb' = Some (sb_AsString inp sb @ t)"
      and c: "byte_at inp (jp_index p + 1) = 120 \<and> byte_at inp (jp_index p + 2) = 45 \<and> jp_index p + 3 \<le> end_pos inp
        \<or> character_text t" by auto
    have "bytes_at inp (jp_index p) 3 = [92, byte_at inp (jp_index p + 1), byte_at inp (jp_index p + 2)]"
      using b by (simp add: bytes_at_def numeral_3_eq_3)
    then have "no_signed_escape inp \<longrightarrow> character_text t" using c unfolding no_signed_escape_def by fastforce
    then show ?thesis using t by (auto simp: piece_ends_at_def sb_AsString_def)
  qed
qed

lemma string_loop_content:
  "string_loop inp p sb = (Some sb', p') \<Longrightarrow> piece_ends_at (jp_index p) sb \<Longrightarrow>
    \<exists>t. sb_AsString inp sb' = sb_AsString inp sb @ t \<and> (no_signed_escape inp \<longrightarrow> character_text t)"
proof (induction inp p sb rule: string_loop.induct)
  case (1 inp p sb)
  from 1(2) have c: "CanConsume inp p 1" by (subst (asm) string_loop.simps) (auto split: if_splits)
  show ?case
  proof (cases "string_turn inp p sb")
    case (StringGoesOn p1 sb1)
    with 1(2) c have l: "string_loop inp p1 sb1 = (Some sb', p')" by (subst (asm) string_loop.simps) simp
    from string_turn_content [OF StringGoesOn 1(3)] obtain t where e: "piece_ends_at (jp_index p1) sb1"
      and t: "sb_AsString inp sb1 = sb_AsString inp sb @ t" "no_signed_escape inp \<longrightarrow> character_text t" by blast
    from 1(1) [OF c StringGoesOn l e] t show ?thesis
      by (metis append.assoc character_text_append)
  next
    case (StringEnds p1 sb1)
    with 1(2) c have "sb' = sb1" by (subst (asm) string_loop.simps) simp
    then show ?thesis using string_turn_ends [OF StringEnds] by (intro exI [of _ "[]"]) simp
  next
    case (StringFails p1)
    with 1(2) c show ?thesis by (subst (asm) string_loop.simps) simp
  qed
qed

lemma ConsumeStringRaw_content:
  assumes "ConsumeStringRaw inp p = (Some sb, p')" and "in_step p" and "no_signed_escape inp"
  shows "character_text (sb_AsString inp sb)"
proof -
  have "string_loop inp (NextChar p) (StringBuilder (jp_pos (NextChar p))) = (Some sb, p')"
    using assms(1) by (auto simp: ConsumeStringRaw_def Let_def split: if_splits)
  moreover have "piece_ends_at (jp_index (NextChar p)) (StringBuilder (jp_pos (NextChar p)))"
    using assms(2) by (simp add: piece_ends_at_def StringBuilder_def in_step_def)
  ultimately obtain t where "sb_AsString inp sb = sb_AsString inp (StringBuilder (jp_pos (NextChar p))) @ t"
    "character_text t" using string_loop_content assms(3) by blast
  then show ?thesis by (simp add: sb_AsString_def StringBuilder_def bytes_at_def)
qed

section \<open>Values\<close>

text \<open>
  A JSON value nested at most n deep, whose strings and keys satisfy one predicate and whose doubles
  another.
\<close>

fun json_value :: "(u8 list \<Rightarrow> bool) \<Rightarrow> (u64 \<Rightarrow> bool) \<Rightarrow> nat \<Rightarrow> base_value \<Rightarrow> bool" where
  "json_value S D n (DictionaryValue d) \<longleftrightarrow>
     0 < n \<and> ascending d \<and> list_all (\<lambda>e. S (fst e) \<and> json_value S D (n - 1) (snd e)) d"
| "json_value S D n (ListValue l) \<longleftrightarrow> 0 < n \<and> list_all (json_value S D (n - 1)) l"
| "json_value S D n (StringValue s) \<longleftrightarrow> S s"
| "json_value S D n (DoubleValue d) \<longleftrightarrow> D d"
| "json_value S D n (BinaryValue b) \<longleftrightarrow> False"
| "json_value S D n _ \<longleftrightarrow> True"

lemma set_map_insert_entries: "set (map_insert k v d) \<subseteq> insert (k, v) (set d)"
  by (induction k v d rule: map_insert.induct) auto

lemma json_value_set:
  assumes "ascending d" and "list_all (\<lambda>e. S (fst e) \<and> json_value S D n (snd e)) d" and "S k" and "json_value S D n v"
  shows "ascending (SetWithoutPathExpansion k v d)
    \<and> list_all (\<lambda>e. S (fst e) \<and> json_value S D n (snd e)) (SetWithoutPathExpansion k v d)"
  using assms set_map_insert_entries [of k v d] dm.keys_ins [of d k v]
  by (fastforce simp: SetWithoutPathExpansion_def list_all_iff)

lemma number_value_typed: "number_value inp s = Some v \<Longrightarrow> json_value S double_is_finite n v"
  by (auto simp: number_value_def finite_new_double split: prod.splits bool.splits if_splits)

lemma ConsumeNumber_value: "ConsumeNumber inp p = (Some v, p') \<Longrightarrow> \<exists>s. number_value inp s = Some v"
  by (auto simp: ConsumeNumber_def Let_def split: prod.splits bool.splits if_splits)

lemma ConsumeLiteral_typed: "ConsumeLiteral inp p = (Some v, p') \<Longrightarrow> json_value S D n v"
  by (auto simp: ConsumeLiteral_def consume_word_def Let_def split: if_splits)

text \<open>How much deeper values may be nested.\<close>

definition room :: "json_parser \<Rightarrow> nat" where
  "room p = kStackMaxDepth - 1 - jp_depth p"

lemma room_moved: "moved n p q \<Longrightarrow> room q = room p"
  by (simp add: moved_def room_def)

lemma room_enter: "\<not> IsTooDeep (stack_enter p) \<Longrightarrow> moved n (stack_enter p) q \<Longrightarrow> 0 < room p \<and> room q = room p - 1"
  by (auto simp: IsTooDeep_def room_def moved_def stack_enter_def kStackMaxDepth_def)

lemma in_step_moved: "in_step p \<Longrightarrow> moved n p q \<Longrightarrow> in_step q"
  by (simp add: moved_def)

lemma in_step_enter: "in_step p \<Longrightarrow> moved n (stack_enter p) q \<Longrightarrow> in_step q"
  by (simp add: moved_def in_step_def stack_enter_def)

definition strings_satisfy :: "(u8 list \<Rightarrow> bool) \<Rightarrow> json_input \<Rightarrow> bool" where
  "strings_satisfy S inp \<longleftrightarrow>
     (\<forall>p sb q. ConsumeStringRaw inp p = (Some sb, q) \<longrightarrow> in_step p \<longrightarrow> S (sb_AsString inp sb))"

lemma values_typed:
  assumes "strings_satisfy S inp"
  shows "(\<forall>t p v q. ParseToken inp fuel t p = Some (Some v, q) \<longrightarrow> in_step p \<longrightarrow> json_value S double_is_finite (room p) v)
    \<and> (\<forall>t l p v q. list_loop inp fuel t l p = Some (Some v, q) \<longrightarrow> in_step p \<longrightarrow>
        list_all (json_value S double_is_finite (room p)) l \<longrightarrow> json_value S double_is_finite (Suc (room p)) v)
    \<and> (\<forall>t d p v q. dictionary_loop inp fuel t d p = Some (Some v, q) \<longrightarrow> in_step p \<longrightarrow> ascending d \<longrightarrow>
        list_all (\<lambda>e. S (fst e) \<and> json_value S double_is_finite (room p) (snd e)) d \<longrightarrow>
        json_value S double_is_finite (Suc (room p)) v)"
proof (induction fuel)
  case (Suc fuel)
  have S: "ConsumeStringRaw inp p = (Some sb, q) \<Longrightarrow> in_step p \<Longrightarrow> S (sb_AsString inp sb)" for p sb q
    using assms unfolding strings_satisfy_def by blast
  note P = Suc [THEN conjunct1, rule_format] and L = Suc [THEN conjunct2, THEN conjunct1, rule_format]
    and D = Suc [THEN conjunct2, THEN conjunct2, rule_format]
  have "json_value S double_is_finite (room p) v"
    if v: "ParseToken inp (Suc fuel) t p = Some (Some v, q)" and i: "in_step p" for t p v q
  proof -
    note enter = moved_trans [OF moved_Next [of "stack_enter p"] GetNextToken_moved]
    from v show ?thesis
    proof (cases rule: ParseToken_cases)
      case (dictionary t1 p1 p2)
      note m = enter [OF dictionary(3)]
      show ?thesis using D [OF dictionary(4) in_step_enter [OF i m]] room_enter [OF dictionary(2) m] by simp
    next
      case (list t1 p1 p2)
      note m = enter [OF list(3)]
      show ?thesis using L [OF list(4) in_step_enter [OF i m]] room_enter [OF list(2) m] by simp
    next
      case string
      then obtain sb where "ConsumeStringRaw inp p = (Some sb, q)" "v = StringValue (sb_AsString inp sb)"
        by (auto simp: ConsumeString_def split: prod.splits option.splits)
      then show ?thesis using S i by simp
    next
      case number
      then show ?thesis using ConsumeNumber_value number_value_typed by blast
    qed (rule ConsumeLiteral_typed)
  qed
  moreover have "json_value S double_is_finite (Suc (room p)) v"
    if v: "list_loop inp (Suc fuel) t l p = Some (Some v, q)" and i: "in_step p"
      and l: "list_all (json_value S double_is_finite (room p)) l" for t l p v q
    using v
  proof (cases rule: list_loop_cases)
    case finished
    then show ?thesis using l by simp
  next
    case (item w p1 t2 p2)
    have m1: "moved 0 p p1" using values_move item(2) i by blast
    note m = moved_trans [OF m1 conjunct1 [OF next_element_moved [OF item(3)]]]
    have "list_all (json_value S double_is_finite (room p2)) (list_Append w l)"
      using l P [OF item(2) i] room_moved [OF m] by (simp add: list_Append_def)
    from L [OF item(4) in_step_moved [OF i m] this] show ?thesis using room_moved [OF m] by simp
  qed
  moreover have "json_value S double_is_finite (Suc (room p)) v"
    if v: "dictionary_loop inp (Suc fuel) t d p = Some (Some v, q)" and i: "in_step p" and a: "ascending d"
      and l: "list_all (\<lambda>e. S (fst e) \<and> json_value S double_is_finite (room p) (snd e)) d" for t d p v q
    using v
  proof (cases rule: dictionary_loop_cases)
    case finished
    then show ?thesis using l a by simp
  next
    case (entry key p1 p2 t3 p3 w p4 t5 p5)
    note m1 = ConsumeStringRaw_moved [OF entry(2) i]
    note m3 = moved_trans [OF moved_trans [OF m1 moved_trans [OF moved_Next GetNextToken_moved [OF entry(3)]]]
        moved_trans [OF moved_Next GetNextToken_moved [OF entry(4)]]]
    have m4: "moved 0 p3 p4" using values_move entry(5) in_step_moved [OF i m3] by blast
    note m = moved_trans [OF m3 moved_trans [OF m4 conjunct1 [OF next_element_moved [OF entry(6)]]]]
    have w: "json_value S double_is_finite (room p) w"
      using P [OF entry(5) in_step_moved [OF i m3]] room_moved [OF m3] by simp
    from json_value_set [OF a l S [OF entry(2) i] w]
    have "json_value S double_is_finite (Suc (room p5)) v"
      using D [OF entry(7) in_step_moved [OF i m]] room_moved [OF m] by simp
    then show ?thesis using room_moved [OF m] by simp
  qed
  ultimately show ?case by blast
qed simp

lemma Parse_with_typed:
  assumes S: "strings_satisfy S inp"
    and r: "Parse_with fuel inp = Some (Some v, q)"
  shows "json_value S double_is_finite (kStackMaxDepth - 1) v"
proof -
  obtain t p where t: "GetNextToken inp (skip_byte_order_mark inp new_parser) = (t, p)" by force
  have "in_step (skip_byte_order_mark inp new_parser)" "room (skip_byte_order_mark inp new_parser) = kStackMaxDepth - 1"
    by (simp_all add: skip_byte_order_mark_def new_parser_def in_step_def room_def)
  then have i: "in_step p" "room p = kStackMaxDepth - 1"
    using in_step_moved room_moved GetNextToken_moved [OF t] by auto
  obtain p1 where "ParseToken inp fuel t p = Some (Some v, p1)"
    using r t by (auto simp: Parse_with_def split: option.splits prod.splits bool.splits)
  from values_typed [OF S, THEN conjunct1, rule_format, OF this i(1)] i(2) show ?thesis by simp
qed

lemma no_signed_escape_text:
  "\<not> sublist [92, 120, 45] json \<Longrightarrow> no_signed_escape (parser_input options strtod behind json)"
proof -
  assume n: "\<not> sublist [92, 120, 45] json"
  have "bytes_at (parser_input options strtod behind json) i 3 \<noteq> [92, 120, 45]" if "i + 3 \<le> length json" for i
  proof
    assume b: "bytes_at (parser_input options strtod behind json) i 3 = [92, 120, 45]"
    have "take 3 (drop i json) = bytes_at (parser_input options strtod behind json) i 3"
      using that by (intro nth_equalityI)
        (auto simp: bytes_at_def byte_at_def end_pos_def parser_input_def)
    then have "sublist [92, 120, 45] json"
      using b sublist_take [of 3 "drop i json"] sublist_drop [of i json] by (simp add: sublist_order.order_trans)
    with n show False by blast
  qed
  then show ?thesis by (simp add: no_signed_escape_def end_pos_def parser_input_def)
qed

text \<open>C39. What the JSON reader returns is typed: its lists and dictionaries are nested less than
  kStackMaxDepth deep, keys ascend, doubles are finite and there is no binary value; and if the text
  has no backslash, x and minus sign in a row, every string and key is well-formed UTF-8 of characters.\<close>

theorem parsed_values_typed:
  assumes "JSONReader_Read options strtod behind json = Some (Some v)"
  shows "json_value (\<lambda>_. True) double_is_finite (kStackMaxDepth - 1) v
    \<and> (\<not> sublist [92, 120, 45] json \<longrightarrow> json_value character_text double_is_finite (kStackMaxDepth - 1) v)"
proof -
  let ?inp = "parser_input options strtod behind json"
  obtain q where r: "Parse_with (json_fuel ?inp) ?inp = Some (Some v, q)"
    using assms by (auto simp: JSONReader_Read_def JSONParser_Parse_def Let_def)
  have "json_value character_text double_is_finite (kStackMaxDepth - 1) v" if "\<not> sublist [92, 120, 45] json"
    by (rule Parse_with_typed [OF _ r])
      (use ConsumeStringRaw_content no_signed_escape_text [OF that] in \<open>auto simp: strings_satisfy_def\<close>)
  moreover have "json_value (\<lambda>_. True) double_is_finite (kStackMaxDepth - 1) v"
    by (rule Parse_with_typed [OF _ r]) (simp add: strings_satisfy_def)
  ultimately show ?thesis by blast
qed

lemma parsed_values_typed_witness:
  "JSONReader_Read 0 (\<lambda>_. (0, 0)) (\<lambda>_. 0) [91, 34, 97, 34, 93] = Some (Some (ListValue [StringValue [97]]))
    \<and> json_value character_text double_is_finite (kStackMaxDepth - 1) (ListValue [StringValue [97]])"
proof -
  have r: "JSONReader_Read 0 (\<lambda>_. (0, 0)) (\<lambda>_. 0) [91, 34, 97, 34, 93] = Some (Some (ListValue [StringValue [97]]))"
    by code_simp
  have "\<not> sublist [92, 120, 45] [91, 34, 97, 34, 93 :: u8]" by code_simp
  with parsed_values_typed [OF r] r show ?thesis by blast
qed

end
