(* ===== verification/JsonWriter.thy ===== *)
theory JsonWriter
  imports ValuesCorrect UtfConvert
begin

text \<open>
  base/json/string_escape.cc and base/json/json_writer.cc: values as JSON text.  A string longer than an
  int32_t fails a CHECK, which is the result None.  std::to_string of a double and the cast of a double
  out of range are arguments.
\<close>

section \<open>Strings\<close>

definition kReplacementCodePoint :: u32 where "kReplacementCodePoint = 0xFFFD"

text \<open>The format \<open>\u%04X\<close>.\<close>

definition u16_escape :: "u32 \<Rightarrow> u8 list" where
  "u16_escape c =
     [92, 117, hex_char (ucast (drop_bit 12 c AND 0xf)), hex_char (ucast (drop_bit 8 c AND 0xf)),
      hex_char (ucast (drop_bit 4 c AND 0xf)), hex_char (ucast (c AND 0xf))]"

definition EscapeSpecialCodePoint :: "u32 \<Rightarrow> u8 list option" where
  "EscapeSpecialCodePoint code_point =
     (if code_point = 8 then Some [92, 98]
      else if code_point = 12 then Some [92, 102]
      else if code_point = 10 then Some [92, 110]
      else if code_point = 13 then Some [92, 114]
      else if code_point = 9 then Some [92, 116]
      else if code_point = 92 then Some [92, 92]
      else if code_point = 34 then Some [92, 34]
      else if code_point = 60 then Some [92, 117, 48, 48, 51, 67]
      else if code_point = 0x2028 then Some [92, 117, 50, 48, 50, 56]
      else if code_point = 0x2029 then Some [92, 117, 50, 48, 50, 57]
      else None)"

text \<open>The body of the loop: what is appended for a code point.\<close>

definition escape_code_point :: "u32 \<Rightarrow> u8 list" where
  "escape_code_point code_point =
     (case EscapeSpecialCodePoint code_point of
        Some e \<Rightarrow> e
      | None \<Rightarrow> if code_point < 32 then u16_escape code_point else WriteUnicodeCharacter8 code_point [])"

function escape_loop8 :: "u8 list \<Rightarrow> nat \<Rightarrow> nat \<Rightarrow> bool \<Rightarrow> u8 list \<Rightarrow> bool \<times> u8 list" where
  "escape_loop8 str len i ok dest =
     (if i < len then
        let (read, code_point, j) = ReadUnicodeCharacter8 str len i in
        if read then escape_loop8 str len (j + 1) ok (dest @ escape_code_point code_point)
        else escape_loop8 str len (j + 1) False (dest @ escape_code_point kReplacementCodePoint)
      else (ok, dest))"
  by pat_completeness auto
termination
  by (relation "measure (\<lambda>(src, len, i, _). len - i)")
    (simp, (clarsimp, erule read8_decreases, assumption)+)

function escape_loop16 :: "u16 list \<Rightarrow> nat \<Rightarrow> nat \<Rightarrow> bool \<Rightarrow> u8 list \<Rightarrow> bool \<times> u8 list" where
  "escape_loop16 str len i ok dest =
     (if i < len then
        let (read, code_point, j) = ReadUnicodeCharacter16 str len i in
        if read then escape_loop16 str len (j + 1) ok (dest @ escape_code_point code_point)
        else escape_loop16 str len (j + 1) False (dest @ escape_code_point kReplacementCodePoint)
      else (ok, dest))"
  by pat_completeness auto
termination
  by (relation "measure (\<lambda>(src, len, i, _). len - i)")
    (simp, (clarsimp, erule read16_decreases, assumption)+)

declare escape_loop8.simps [simp del] escape_loop16.simps [simp del]

definition json_quote :: "bool \<Rightarrow> u8 list" where
  "json_quote put_in_quotes = (if put_in_quotes then [34] else [])"

text \<open>EscapeJSONStringImpl; None is the failed CHECK.\<close>

definition EscapeJSONString :: "u8 list \<Rightarrow> bool \<Rightarrow> u8 list \<Rightarrow> (bool \<times> u8 list) option" where
  "EscapeJSONString str put_in_quotes dest =
     (if \<not> length str \<le> 2 ^ 31 - 1 then None
      else let (ok, dest) = escape_loop8 str (length str) 0 True (dest @ json_quote put_in_quotes)
           in Some (ok, dest @ json_quote put_in_quotes))"

definition EscapeJSONString16 :: "u16 list \<Rightarrow> bool \<Rightarrow> u8 list \<Rightarrow> (bool \<times> u8 list) option" where
  "EscapeJSONString16 str put_in_quotes dest =
     (if \<not> length str \<le> 2 ^ 31 - 1 then None
      else let (ok, dest) = escape_loop16 str (length str) 0 True (dest @ json_quote put_in_quotes)
           in Some (ok, dest @ json_quote put_in_quotes))"

definition escape_byte :: "u8 \<Rightarrow> u8 list" where
  "escape_byte c =
     (case EscapeSpecialCodePoint (ucast c) of
        Some e \<Rightarrow> e
      | None \<Rightarrow> if c < 32 \<or> c > 126 then u16_escape (ucast c) else [c])"

definition EscapeBytesAsInvalidJSONString :: "u8 list \<Rightarrow> bool \<Rightarrow> u8 list" where
  "EscapeBytesAsInvalidJSONString str put_in_quotes =
     json_quote put_in_quotes @ concat (map escape_byte str) @ json_quote put_in_quotes"

section \<open>Doubles\<close>

text \<open>The value of a finite double: a sign, a significand and a power of two.\<close>

definition double_exponent :: "u64 \<Rightarrow> nat" where
  "double_exponent d = unat (drop_bit 52 d AND 0x7ff)"

definition double_significand :: "u64 \<Rightarrow> int" where
  "double_significand d =
     (let f = uint (d AND 0xfffffffffffff); m = (if double_exponent d = 0 then f else 2 ^ 52 + f)
      in if bit d 63 then - m else m)"

text \<open>The double as an integer, where floor(value) == value.\<close>

definition double_integer :: "u64 \<Rightarrow> int option" where
  "double_integer d =
     (let e = max 1 (double_exponent d); m = double_significand d in
      if \<not> double_is_finite d then None
      else if e \<ge> 1075 then Some (m * 2 ^ (e - 1075))
      else if 2 ^ (1075 - e) dvd m then Some (m div 2 ^ (1075 - e))
      else None)"

section \<open>The writer\<close>

record json_writer =
  omit_binary_values :: bool
  omit_double_type_preservation :: bool
  pretty_print :: bool
  w_to_string :: "u64 \<Rightarrow> u8 list"
  w_cast_overflow :: "u64 \<Rightarrow> u64"

definition OPTIONS_OMIT_BINARY_VALUES :: nat where "OPTIONS_OMIT_BINARY_VALUES = 1"
definition OPTIONS_OMIT_DOUBLE_TYPE_PRESERVATION :: nat where "OPTIONS_OMIT_DOUBLE_TYPE_PRESERVATION = 2"
definition OPTIONS_PRETTY_PRINT :: nat where "OPTIONS_PRETTY_PRINT = 4"

definition JSONWriter :: "nat \<Rightarrow> (u64 \<Rightarrow> u8 list) \<Rightarrow> (u64 \<Rightarrow> u64) \<Rightarrow> json_writer" where
  "JSONWriter options to_string cast =
     \<lparr>omit_binary_values = (options AND OPTIONS_OMIT_BINARY_VALUES \<noteq> 0),
      omit_double_type_preservation = (options AND OPTIONS_OMIT_DOUBLE_TYPE_PRESERVATION \<noteq> 0),
      pretty_print = (options AND OPTIONS_PRETTY_PRINT \<noteq> 0),
      w_to_string = to_string, w_cast_overflow = cast\<rparr>"

definition kPrettyPrintLineEnding :: "u8 list" where "kPrettyPrintLineEnding = [10]"

definition IndentLine :: "nat \<Rightarrow> u8 list" where "IndentLine depth = replicate (depth * 3) 32"

text \<open>
  The limits of int64_t become doubles in the comparison, the upper one \<open>2^63\<close>, which is out of range for the cast.
\<close>

definition write_double :: "json_writer \<Rightarrow> u64 \<Rightarrow> u8 list" where
  "write_double w value =
     (let as_real =
        (let real = DoubleToString (w_to_string w) value;
             real = (if 46 \<notin> set real \<and> 101 \<notin> set real \<and> 69 \<notin> set real then real @ [46, 48] else real)
         in if real ! 0 = 46 then 48 # real
            else if length real > 1 \<and> real ! 0 = 45 \<and> real ! 1 = 46 then 45 # 48 # tl real
            else real)
      in case double_integer value of
           Some n \<Rightarrow>
             if omit_double_type_preservation w \<and> n \<le> 2 ^ 63 \<and> n \<ge> - (2 ^ 63)
             then Int64ToString (if n = 2 ^ 63 then w_cast_overflow w value else of_int n)
             else as_real
         | None \<Rightarrow> as_real)"

text \<open>BuildJSONString: the result and the text.\<close>

fun BuildJSONString :: "json_writer \<Rightarrow> base_value \<Rightarrow> nat \<Rightarrow> u8 list \<Rightarrow> (bool \<times> u8 list) option"
and build_list :: "json_writer \<Rightarrow> base_value list \<Rightarrow> nat \<Rightarrow> bool \<Rightarrow> bool \<times> u8 list \<Rightarrow> (bool \<times> u8 list) option"
and build_dict :: "json_writer \<Rightarrow> dict \<Rightarrow> nat \<Rightarrow> bool \<Rightarrow> bool \<times> u8 list \<Rightarrow> (bool \<times> u8 list) option" where
  "BuildJSONString w NullValue depth json = Some (True, json @ [110, 117, 108, 108])"
| "BuildJSONString w (BooleanValue b) depth json =
     Some (True, json @ (if b then [116, 114, 117, 101] else [102, 97, 108, 115, 101]))"
| "BuildJSONString w (IntegerValue i) depth json = Some (True, json @ IntToString (sint i))"
| "BuildJSONString w (DoubleValue d) depth json = Some (True, json @ write_double w d)"
| "BuildJSONString w (StringValue s) depth json =
     (case EscapeJSONString s True json of None \<Rightarrow> None | Some (_, json) \<Rightarrow> Some (True, json))"
| "BuildJSONString w (ListValue l) depth json =
     (case build_list w l depth False (True, json @ [91] @ (if pretty_print w then [32] else [])) of
        None \<Rightarrow> None
      | Some (result, json) \<Rightarrow> Some (result, json @ (if pretty_print w then [32] else []) @ [93]))"
| "BuildJSONString w (DictionaryValue d) depth json =
     (case build_dict w d depth False (True, json @ [123] @ (if pretty_print w then kPrettyPrintLineEnding else [])) of
        None \<Rightarrow> None
      | Some (result, json) \<Rightarrow>
          Some (result, json @ (if pretty_print w then kPrettyPrintLineEnding @ IndentLine depth else []) @ [125]))"
| "BuildJSONString w (BinaryValue b) depth json = Some (omit_binary_values w, json)"
| "build_list w [] depth first_value_has_been_output (result, json) = Some (result, json)"
| "build_list w (v # l) depth first_value_has_been_output (result, json) =
     (if omit_binary_values w \<and> GetType v = TYPE_BINARY
      then build_list w l depth first_value_has_been_output (result, json)
      else
        case BuildJSONString w v depth
          (json @ (if first_value_has_been_output then 44 # (if pretty_print w then [32] else []) else [])) of
          None \<Rightarrow> None
        | Some (ok, json) \<Rightarrow> build_list w l depth True (if \<not> ok then False else result, json))"
| "build_dict w [] depth first_value_has_been_output (result, json) = Some (result, json)"
| "build_dict w (e # d) depth first_value_has_been_output (result, json) =
     (if omit_binary_values w \<and> GetType (snd e) = TYPE_BINARY
      then build_dict w d depth first_value_has_been_output (result, json)
      else
        case EscapeJSONString (fst e) True
          (json @ (if first_value_has_been_output then 44 # (if pretty_print w then kPrettyPrintLineEnding else []) else [])
             @ (if pretty_print w then IndentLine (depth + 1) else [])) of
          None \<Rightarrow> None
        | Some (_, json) \<Rightarrow>
            (case BuildJSONString w (snd e) (depth + 1) (json @ 58 # (if pretty_print w then [32] else [])) of
               None \<Rightarrow> None
             | Some (ok, json) \<Rightarrow> build_dict w d depth True (if \<not> ok then False else result, json)))"

definition JSONWriter_WriteWithOptions ::
    "nat \<Rightarrow> (u64 \<Rightarrow> u8 list) \<Rightarrow> (u64 \<Rightarrow> u64) \<Rightarrow> base_value \<Rightarrow> (bool \<times> u8 list) option" where
  "JSONWriter_WriteWithOptions options to_string cast node =
     (case BuildJSONString (JSONWriter options to_string cast) node 0 [] of
        None \<Rightarrow> None
      | Some (result, json) \<Rightarrow>
          Some (result, json @ (if options AND OPTIONS_PRETTY_PRINT \<noteq> 0 then kPrettyPrintLineEnding else [])))"

definition JSONWriter_Write :: "(u64 \<Rightarrow> u8 list) \<Rightarrow> (u64 \<Rightarrow> u64) \<Rightarrow> base_value \<Rightarrow> (bool \<times> u8 list) option" where
  "JSONWriter_Write = JSONWriter_WriteWithOptions 0"

interpretation esc8: unicode_converter ReadUnicodeCharacter8 CBU8_APPEND_UNSAFE escape_code_point escape_loop8
proof (unfold_locales, goal_cases)
  case (5 src len i success out)
  show ?case by (subst escape_loop8.simps) (simp only: kReplacementCodePoint_def)
qed (use conv8.read_encoded conv8.read_accepts conv8.read_progress conv8.enc_nonempty in blast)+

interpretation esc16: unicode_converter ReadUnicodeCharacter16 CBU16_APPEND_UNSAFE escape_code_point escape_loop16
proof (unfold_locales, goal_cases)
  case (5 src len i success out)
  show ?case by (subst escape_loop16.simps) (simp only: kReplacementCodePoint_def)
qed (use conv16.read_encoded conv16.read_accepts conv16.read_progress conv16.enc_nonempty in blast)+

end
