(* ===== verification/JsonTokens.thy ===== *)
theory JsonTokens
  imports JsonTyped JsonWriter
begin

text \<open>
  How the parser reads what the writer writes, token by token: whitespace, strings, numbers and literals.
\<close>

section \<open>Text in the input\<close>

fun text_at :: "json_input \<Rightarrow> nat \<Rightarrow> u8 list \<Rightarrow> bool" where
  "text_at inp i [] \<longleftrightarrow> i \<le> end_pos inp"
| "text_at inp i (b # t) \<longleftrightarrow> i < end_pos inp \<and> byte_at inp i = b \<and> text_at inp (Suc i) t"

lemma text_at_end: "text_at inp i t \<Longrightarrow> i + length t \<le> end_pos inp"
  by (induction inp i t rule: text_at.induct) auto

lemma text_at_append [simp]: "text_at inp i (s @ t) \<longleftrightarrow> text_at inp i s \<and> text_at inp (i + length s) t"
proof (induction inp i s rule: text_at.induct)
  case (1 inp i)
  then show ?case using text_at_end [of inp i t] by auto
qed simp

lemma text_at_bytes: "text_at inp i t \<Longrightarrow> bytes_at inp i (length t) = t"
  by (induction inp i t rule: text_at.induct) (auto simp: bytes_at_def upt_rec [of "_ :: nat"])

text \<open>The whole input is the text at its start.\<close>

lemma text_at_all: "text_at (parser_input options strtod behind json) 0 json"
proof -
  have "text_at (parser_input options strtod behind (s @ t)) (length s) t" for s t
  proof (induction t arbitrary: s)
    case (Cons b t)
    from Cons [of "s @ [b]"] show ?case by (simp add: end_pos_def byte_at_def parser_input_def)
  qed (simp add: end_pos_def parser_input_def)
  from this [of "[]"] show ?thesis by simp
qed

text \<open>The parser at a position outside of strings, at a depth.\<close>

definition stands :: "nat \<Rightarrow> nat \<Rightarrow> json_parser \<Rightarrow> bool" where
  "stands i d p \<longleftrightarrow> jp_pos p = i \<and> jp_index p = i \<and> jp_depth p = d"

lemma stands_Next: "stands i d p \<Longrightarrow> stands (Suc i) d (NextChar p)"
  by (simp add: stands_def)

lemma stands_in_step: "stands i d p \<Longrightarrow> in_step p"
  by (simp add: stands_def in_step_def)

section \<open>Whitespace\<close>

definition blank :: "u8 list \<Rightarrow> bool" where
  "blank t \<longleftrightarrow> list_all (\<lambda>b. b = 32 \<or> b = 10) t"

lemma blank_simps [simp]: "blank []" "blank (b # t) \<longleftrightarrow> (b = 32 \<or> b = 10) \<and> blank t" "blank (s @ t) \<longleftrightarrow> blank s \<and> blank t"
  by (simp_all add: blank_def)

definition stops :: "json_input \<Rightarrow> nat \<Rightarrow> bool" where
  "stops inp i \<longleftrightarrow> end_pos inp \<le> i \<or> byte_at inp i \<notin> {9, 10, 13, 32, 47}"

lemma eat_blank:
  "text_at inp i t \<Longrightarrow> blank t \<Longrightarrow> stops inp (i + length t) \<Longrightarrow> stands i d p \<Longrightarrow>
    stands (i + length t) d (EatWhitespaceAndComments inp p)"
proof (induction t arbitrary: i p)
  case Nil
  then show ?case by (subst EatWhitespaceAndComments.simps) (auto simp: stops_def stands_def Let_def)
next
  case (Cons b t)
  let ?p = "p\<lparr>jp_index_last_line := jp_index p\<rparr>"
  have lt: "jp_pos p < end_pos inp" and b: "byte_at inp (jp_pos p) = b"
    using Cons.prems by (simp_all add: stands_def)
  obtain q where q: "EatWhitespaceAndComments inp p = EatWhitespaceAndComments inp (NextChar q)" "stands i d q"
  proof (cases "b = 32")
    case True
    then have "EatWhitespaceAndComments inp p = EatWhitespaceAndComments inp (NextChar p)"
      using lt b by (subst EatWhitespaceAndComments.simps) (simp add: Let_def)
    then show ?thesis using that Cons.prems by blast
  next
    case False
    let ?q = "if \<not> (b = 10 \<and> jp_pos ?p > 0 \<and> byte_at inp (jp_pos ?p - 1) = 13)
      then ?p\<lparr>jp_line_number := jp_line_number ?p + 1\<rparr> else ?p"
    have "EatWhitespaceAndComments inp p = EatWhitespaceAndComments inp (NextChar ?q)"
      using lt b False Cons.prems(2) by (subst EatWhitespaceAndComments.simps) (simp add: Let_def)
    moreover have "stands i d ?q" using Cons.prems(4) by (simp add: stands_def)
    ultimately show ?thesis using that by blast
  qed
  then show ?case using Cons.IH [of "Suc i" "NextChar q"] Cons.prems stands_Next by simp
qed

lemma next_token:
  assumes "text_at inp i (t @ c # r)" and "blank t" and "c \<notin> {9, 10, 13, 32, 47}" and "stands i d p"
  obtains q where "GetNextToken inp p = (token_of c, q)" and "stands (i + length t) d q"
proof -
  have "stands (i + length t) d (EatWhitespaceAndComments inp p)"
    using assms by (intro eat_blank) (simp_all add: stops_def)
  then show ?thesis using that assms(1)
    by (simp add: GetNextToken_def Let_def CanConsume_def stands_def)
qed

lemma next_token_end:
  assumes "text_at inp i t" and "blank t" and "end_pos inp = i + length t" and "stands i d p"
  obtains q where "GetNextToken inp p = (T_END_OF_INPUT, q)" and "stands (i + length t) d q"
proof -
  have "stands (i + length t) d (EatWhitespaceAndComments inp p)"
    using assms by (intro eat_blank) (simp_all add: stops_def)
  then show ?thesis using that assms(3) by (simp add: GetNextToken_def Let_def CanConsume_def stands_def)
qed

section \<open>Strings\<close>

text \<open>A character that is written as it is.\<close>

lemma turn_raw:
  assumes v: "IsValidCharacter c" and c: "c \<noteq> 92" "c \<noteq> 34" and t: "text_at inp (jp_index p) (CBU8_APPEND_UNSAFE c)"
  shows "string_turn inp p sb = StringGoesOn
    (p\<lparr>jp_pos := jp_index p, jp_index := jp_index p + length (CBU8_APPEND_UNSAFE c)\<rparr>) (append_point inp c sb)"
proof -
  have "decodes (byte_at inp) (jp_index p) (end_pos inp) c"
    using v text_at_end [OF t] text_at_bytes [OF t]
    by (simp add: decodes_def encoded_at_def bytes_at_def valid_character_codepoint)
  from decodes_unique [OF this] show ?thesis
    using v c valid_sint [OF v] by (simp add: string_turn_def Let_def append_point_def)
qed

text \<open>A backslash goes on with the escape.\<close>

lemma turn_escape:
  assumes "byte_at inp (jp_index p) = 92"
    and "ConsumeEscape inp (p\<lparr>jp_pos := jp_index p, jp_index := Suc (jp_index p)\<rparr>) sb = (Some sb', p')"
  shows "string_turn inp p sb = StringGoesOn p' sb'"
proof -
  have "CBU8_NEXT (byte_at inp) (jp_index p) (end_pos inp) = (Suc (jp_index p), 92)"
    using next_ascii [of "byte_at inp" "jp_index p"] assms(1) by simp
  moreover have "IsValidCharacter 92" by (simp add: IsValidCharacter_def)
  ultimately show ?thesis using assms(2) by (simp add: string_turn_def Let_def)
qed

lemma simple_escapes:
  "c \<in> {8, 12, 10, 13, 9, 92, 34} \<Longrightarrow>
    \<exists>e. escape_code_point c = [92, e] \<and> e \<noteq> 120 \<and> e \<noteq> 117 \<and> simple_escape e = Some (ucast c)"
  by (auto simp: escape_code_point_def EscapeSpecialCodePoint_def simple_escape_def)

lemma hex_escapes:
  "list_all (\<lambda>c. take 2 (escape_code_point c) = [92, 117] \<and> length (escape_code_point c) = 6
      \<and> HexStringToInt (drop 2 (escape_code_point c)) 0 = (True, uint c))
    ([1, 2, 3, 4, 5, 6, 7, 11, 14, 15, 16, 17, 18, 19, 20, 21, 22, 23, 24, 25, 26, 27, 28, 29, 30, 31, 60, 0x2028, 0x2029] :: u32 list)"
  by code_simp

lemma small_code_points:
  "c < 32 \<Longrightarrow> c \<in> {0, 1, 2, 3, 4, 5, 6, 7, 8, 9, 10, 11, 12, 13, 14, 15, 16, 17, 18, 19, 20, 21, 22, 23, 24, 25, 26, 27, 28, 29, 30, 31}"
  for c :: u32
proof -
  assume "c < 32"
  then have "unat c \<in> set [0 ..< 32]" by (simp add: word_less_nat_alt)
  then have "(of_nat (unat c) :: u32) \<in> of_nat ` set [0 ..< 32 :: nat]" by (rule imageI)
  moreover have "(of_nat (unat c) :: u32) = c" by simp
  ultimately have "c \<in> of_nat ` set [0 ..< 32 :: nat]" by (simp only:)
  moreover have "[0 ..< 32] = [0, 1, 2, 3, 4, 5, 6, 7, 8, 9, 10, 11, 12, 13, 14, 15, 16, 17, 18, 19, 20, 21, 22, 23, 24, 25, 26, 27, 28, 29, 30, 31 :: nat]"
    by code_simp
  ultimately show ?thesis by (simp only: list.set image_insert image_empty of_nat_numeral of_nat_1) simp
qed

lemma escape_cases:
  assumes "c \<noteq> 0"
  obtains (simple) "c \<in> {8, 12, 10, 13, 9, 92, 34}"
  | (hex) h where "escape_code_point c = 92 # 117 # h" "length h = 4" "HexStringToInt h 0 = (True, uint c)" "c < 0x3000"
  | (raw) "escape_code_point c = CBU8_APPEND_UNSAFE c" "c \<noteq> 92" "c \<noteq> 34"
proof -
  consider "c \<in> {8, 12, 10, 13, 9, 92, 34}"
    | "c \<in> set [1, 2, 3, 4, 5, 6, 7, 11, 14, 15, 16, 17, 18, 19, 20, 21, 22, 23, 24, 25, 26, 27, 28, 29, 30, 31, 60, 0x2028, 0x2029]"
    | "\<not> c < 32" "c \<notin> {8, 12, 10, 13, 9, 92, 34, 60, 0x2028, 0x2029}"
    using small_code_points [of c] assms by auto
  then show thesis
  proof cases
    case 2
    note e = hex_escapes [unfolded list_all_iff, rule_format, OF 2]
    then obtain h where "escape_code_point c = 92 # 117 # h" "length h = 4" "HexStringToInt h 0 = (True, uint c)"
      by (cases "escape_code_point c"; cases "tl (escape_code_point c)") auto
    moreover have "c < 0x3000" using 2 by auto
    ultimately show thesis using hex by blast
  next
    case 3
    then have "escape_code_point c = CBU8_APPEND_UNSAFE c"
      by (simp add: escape_code_point_def EscapeSpecialCodePoint_def write8)
    then show thesis using 3 raw by auto
  qed (use simple in blast)
qed

text \<open>One turn reads what was written for one character.\<close>

lemma turn_escaped:
  assumes v: "IsValidCharacter c" "c \<noteq> 0" and t: "text_at inp (jp_index p) (escape_code_point c)"
    and e: "piece_ends_at (jp_index p) sb"
  obtains p' sb' where "string_turn inp p sb = StringGoesOn p' sb'"
    and "jp_index p' = jp_index p + length (escape_code_point c)" and "jp_pos p' < jp_index p'" and "jp_depth p' = jp_depth p"
    and "piece_ends_at (jp_index p') sb'" and "sb_AsString inp sb' = sb_AsString inp sb @ CBU8_APPEND_UNSAFE c"
proof -
  let ?i = "jp_index p"
  let ?q = "p\<lparr>jp_pos := ?i, jp_index := Suc ?i\<rparr>"
  have converted: "piece_ends_at i sb' \<and> sb_AsString inp sb' = s" if "sb_string sb' = Some s" for sb' s i
    using that by (simp add: piece_ends_at_def sb_AsString_def)
  from v(2) show thesis
  proof (cases c rule: escape_cases)
    case simple
    then obtain x where x: "escape_code_point c = [92, x]" "x \<noteq> 120" "x \<noteq> 117" "simple_escape x = Some (ucast c)"
      using simple_escapes by blast
    have "ConsumeEscape inp ?q sb = (Some (sb_Append (ucast c) (sb_Convert inp sb)), NextChar ?q)"
      using t x by (simp add: ConsumeEscape_def Let_def CanConsume_def)
    then have turn: "string_turn inp p sb = StringGoesOn (NextChar ?q) (sb_Append (ucast c) (sb_Convert inp sb))"
      using t x by (intro turn_escape) simp_all
    have "CBU8_APPEND_UNSAFE c = [ucast c]" using simple by (intro APPEND_ascii) auto
    then show thesis using that [OF turn] converted [OF sb_append_converted(1)] x(1) by simp
  next
    case (hex h)
    let ?q2 = "NextChar (NextChar ?q)"
    have at: "hex_at inp (?i + 2) 4 = Some c"
      using text_at_bytes [of inp "?i + 2" h] t hex(1-3) by (simp add: hex_at_def)
    have "unat c < 0x3000" using hex(4) by (simp add: word_less_nat_alt)
    then have "\<not> CBU_IS_SURROGATE c" by (simp add: surrogate_test)
    then have d: "DecodeUTF16 inp ?q2 = (Some (CBU8_APPEND_UNSAFE c), NextNChars 3 ?q2)"
      using text_at_end [OF t] at v hex(1,2) code_unit8_char [OF v]
      by (simp add: DecodeUTF16_def CanConsume_def Let_def)
    have "ConsumeEscape inp ?q sb = (Some (sb_AppendString (CBU8_APPEND_UNSAFE c) (sb_Convert inp sb)), NextNChars 3 ?q2)"
      using text_at_end [OF t] t hex(1,2) d by (simp add: ConsumeEscape_def Let_def CanConsume_def)
    then have turn: "string_turn inp p sb
        = StringGoesOn (NextNChars 3 ?q2) (sb_AppendString (CBU8_APPEND_UNSAFE c) (sb_Convert inp sb))"
      using t hex(1) by (intro turn_escape) simp_all
    show thesis using that [OF turn] converted [OF sb_append_converted(2)] hex(1,2) by simp
  next
    case raw
    note turn = turn_raw [OF v(1) raw(2,3), of inp p sb]
    have b: "map (byte_at inp) [?i ..< ?i + length (CBU8_APPEND_UNSAFE c)] = CBU8_APPEND_UNSAFE c"
      using text_at_bytes [of inp ?i "CBU8_APPEND_UNSAFE c"] t raw(1) by (simp add: bytes_at_def)
    show thesis
      using that turn t raw(1) append_point_content [OF e v(1) b refl] APPEND_nonempty [of c] by simp
  qed
qed

lemma turn_quote:
  "byte_at inp (jp_index p) = 34 \<Longrightarrow> string_turn inp p sb = StringEnds (p\<lparr>jp_pos := jp_index p\<rparr>) sb"
  using next_ascii [of "byte_at inp" "jp_index p" "end_pos inp"]
  by (simp add: string_turn_def Let_def IsValidCharacter_def)

lemma loop_escaped:
  "list_all (\<lambda>c. IsValidCharacter c \<and> c \<noteq> 0) cs \<Longrightarrow>
    text_at inp (jp_index p) (concat (map escape_code_point cs) @ [34]) \<Longrightarrow> piece_ends_at (jp_index p) sb \<Longrightarrow>
    jp_pos p < end_pos inp \<Longrightarrow>
    \<exists>sb' p'. string_loop inp p sb = (Some sb', p') \<and> sb_AsString inp sb' = sb_AsString inp sb @ concat (map CBU8_APPEND_UNSAFE cs)
      \<and> stands (jp_index p + length (concat (map escape_code_point cs))) (jp_depth p) p'"
proof (induction cs arbitrary: p sb)
  case Nil
  then show ?case by (subst string_loop.simps) (simp add: turn_quote CanConsume_def stands_def)
next
  case (Cons c cs)
  then have pre: "IsValidCharacter c" "c \<noteq> 0" "text_at inp (jp_index p) (escape_code_point c)" by simp_all
  obtain p1 sb1 where turn: "string_turn inp p sb = StringGoesOn p1 sb1"
    and p1: "jp_index p1 = jp_index p + length (escape_code_point c)" "jp_pos p1 < jp_index p1" "jp_depth p1 = jp_depth p"
    and e: "piece_ends_at (jp_index p1) sb1" and s: "sb_AsString inp sb1 = sb_AsString inp sb @ CBU8_APPEND_UNSAFE c"
    by (rule turn_escaped [OF pre Cons.prems(3)])
  have t: "text_at inp (jp_index p1) (concat (map escape_code_point cs) @ [34])" using Cons.prems(2) p1(1) by (simp add: add.assoc)
  have "jp_pos p1 < end_pos inp" using text_at_end [OF t] p1(2) by simp
  from Cons.IH [OF _ t e this] Cons.prems(1) obtain sb' p' where
    "string_loop inp p1 sb1 = (Some sb', p')" "sb_AsString inp sb' = sb_AsString inp sb1 @ concat (map CBU8_APPEND_UNSAFE cs)"
    "stands (jp_index p1 + length (concat (map escape_code_point cs))) (jp_depth p1) p'" by auto
  moreover have "string_loop inp p sb = string_loop inp p1 sb1"
    using turn Cons.prems(4) by (subst string_loop.simps) (simp add: CanConsume_def)
  ultimately show ?case using s p1(1,3) by (simp add: add.assoc)
qed

text \<open>Strings that can be written and read back.\<close>

definition writable_string :: "u8 list \<Rightarrow> bool" where
  "writable_string s \<longleftrightarrow> character_text s \<and> 0 \<notin> set s \<and> length s < 2 ^ 31"

definition quoted :: "u8 list \<Rightarrow> u8 list" where
  "quoted s = (case EscapeJSONString s True [] of Some (_, t) \<Rightarrow> t | None \<Rightarrow> [])"

lemma EscapeJSONString_characters:
  assumes "list_all IsValidCharacter cs" and "s = concat (map CBU8_APPEND_UNSAFE cs)" and "length s < 2 ^ 31"
  shows "EscapeJSONString s True out = Some (True, out @ 34 # concat (map escape_code_point cs) @ [34])"
proof -
  have "list_all IsValidCodepoint cs" using assms(1) by (auto simp: list_all_iff valid_character_codepoint)
  from esc8.converts_text [OF this, of 0 s] assms(2)
  have "escape_loop8 s (length s) 0 ok out = (ok, out @ concat (map escape_code_point cs))" for ok out
    by (simp add: esc8.text_in_def esc8.text_out_def)
  then show ?thesis using assms(3) by (simp add: EscapeJSONString_def json_quote_def)
qed

lemma writable_characters:
  assumes "writable_string s"
  obtains cs where "list_all (\<lambda>c. IsValidCharacter c \<and> c \<noteq> 0) cs" and "s = concat (map CBU8_APPEND_UNSAFE cs)"
    and "quoted s = 34 # concat (map escape_code_point cs) @ [34]"
    and "\<And>out. EscapeJSONString s True out = Some (True, out @ quoted s)"
proof -
  obtain cs where cs: "list_all IsValidCharacter cs" "s = concat (map CBU8_APPEND_UNSAFE cs)"
    using assms character_text_words by (auto simp: writable_string_def)
  have z: "c \<noteq> 0" if "c \<in> set cs" for c
  proof
    assume "c = 0"
    then have "0 \<in> set s" using that cs(2) APPEND_ascii [of c] by force
    then show False using assms by (simp add: writable_string_def)
  qed
  have e: "EscapeJSONString s True out = Some (True, out @ 34 # concat (map escape_code_point cs) @ [34])" for out
    using EscapeJSONString_characters [OF cs] assms by (simp add: writable_string_def)
  then have "quoted s = 34 # concat (map escape_code_point cs) @ [34]" by (simp add: quoted_def)
  then show thesis using that [of cs] e cs z by (simp add: list_all_iff)
qed

lemma ConsumeStringRaw_quoted:
  assumes w: "writable_string s" and t: "text_at inp i (quoted s)" and p: "stands i d p"
  obtains sb q where "ConsumeStringRaw inp p = (Some sb, q)" and "sb_AsString inp sb = s"
    and "stands (i + length (quoted s) - 1) d q"
proof -
  obtain cs where cs: "list_all (\<lambda>c. IsValidCharacter c \<and> c \<noteq> 0) cs" "s = concat (map CBU8_APPEND_UNSAFE cs)"
    "quoted s = 34 # concat (map escape_code_point cs) @ [34]" using writable_characters [OF w] by blast
  have p1: "jp_index (NextChar p) = Suc i" "jp_pos (NextChar p) = Suc i" "jp_depth (NextChar p) = d"
    using p by (simp_all add: stands_def)
  have t1: "text_at inp (jp_index (NextChar p)) (concat (map escape_code_point cs) @ [34])" using t cs(3) p1 by simp
  have "piece_ends_at (jp_index (NextChar p)) (StringBuilder (jp_pos (NextChar p)))"
    using p1 by (simp add: piece_ends_at_def StringBuilder_def)
  from loop_escaped [OF cs(1) t1 this] text_at_end [OF t1] p1 obtain sb q where
    "string_loop inp (NextChar p) (StringBuilder (jp_pos (NextChar p))) = (Some sb, q)"
    "sb_AsString inp sb = sb_AsString inp (StringBuilder (jp_pos (NextChar p))) @ s"
    "stands (Suc i + length (concat (map escape_code_point cs))) d q" using cs(2) by auto
  then show thesis using that t cs(3) p
    by (simp add: ConsumeStringRaw_def Let_def stands_def sb_AsString_def StringBuilder_def bytes_at_def)
qed

section \<open>Numbers\<close>

definition number_token :: "u8 list \<Rightarrow> bool" where
  "number_token t \<longleftrightarrow> (\<exists>sg ds fs. sg \<in> {[], [45]} \<and> ds \<noteq> [] \<and> list_all IsAsciiDigit (ds @ fs) \<and> (hd ds = 48 \<longrightarrow> length ds = 1)
     \<and> t = sg @ ds @ (if fs = [] then [] else 46 # fs))"

text \<open>Behind a value comes a separator, a closing bracket or the end.\<close>

definition follows :: "json_input \<Rightarrow> nat \<Rightarrow> bool" where
  "follows inp j \<longleftrightarrow> (\<exists>t. text_at inp j t \<and> blank t \<and>
     (if j + length t < end_pos inp then byte_at inp (j + length t) \<in> {44, 93, 125} else byte_at inp (end_pos inp) = 0))"

lemma follows_byte: "follows inp j \<Longrightarrow> byte_at inp j \<in> {0, 10, 32, 44, 93, 125}"
proof -
  assume "follows inp j"
  then obtain t where t: "text_at inp j t" "blank t"
    "if j + length t < end_pos inp then byte_at inp (j + length t) \<in> {44, 93, 125} else byte_at inp (end_pos inp) = 0"
    by (auto simp: follows_def)
  then show ?thesis using text_at_end [OF t(1)] by (cases t) (auto split: if_splits)
qed

lemma follows_token:
  assumes "follows inp j" and "stands j d p"
  obtains tk q where "GetNextToken inp p = (tk, q)" and "tk \<in> {T_OBJECT_END, T_ARRAY_END, T_LIST_SEPARATOR, T_END_OF_INPUT}"
proof -
  obtain t where t: "text_at inp j t" "blank t"
    "if j + length t < end_pos inp then byte_at inp (j + length t) \<in> {44, 93, 125} else byte_at inp (end_pos inp) = 0"
    using assms(1) by (auto simp: follows_def)
  show thesis
  proof (cases "j + length t < end_pos inp")
    case True
    let ?c = "byte_at inp (j + length t)"
    have c: "?c \<in> {44, 93, 125}" using t(3) True by simp
    have tc: "text_at inp j (t @ ?c # [])" and nc: "?c \<notin> {9, 10, 13, 32, 47}" using t(1) True c by auto
    obtain q where "GetNextToken inp p = (token_of ?c, q)" by (rule next_token [OF tc t(2) nc assms(2)])
    moreover have "token_of ?c \<in> {T_OBJECT_END, T_ARRAY_END, T_LIST_SEPARATOR, T_END_OF_INPUT}"
      using c by (auto simp: token_of_def)
    ultimately show thesis using that by blast
  next
    case False
    then have "end_pos inp = j + length t" using text_at_end [OF t(1)] by simp
    then obtain q where "GetNextToken inp p = (T_END_OF_INPUT, q)"
      by (rule next_token_end [OF t(1,2) _ assms(2)])
    then show thesis using that by blast
  qed
qed

lemma read_digits:
  "text_at inp i ds \<Longrightarrow> list_all IsAsciiDigit ds \<Longrightarrow> \<not> IsAsciiDigit (byte_at inp (i + length ds)) \<Longrightarrow> stands i d p \<Longrightarrow>
    \<exists>q. read_int_loop inp p (byte_at inp i) n = (n + length ds, q) \<and> stands (i + length ds) d q"
proof (induction ds arbitrary: i p n)
  case Nil
  then show ?case by (subst read_int_loop.simps) simp
next
  case (Cons b ds)
  then have "read_int_loop inp p (byte_at inp i) n = read_int_loop inp (NextChar p) (byte_at inp (Suc i)) (Suc n)"
    by (subst read_int_loop.simps) (simp add: CanConsume_def stands_def)
  then show ?case using Cons.IH [of "Suc i" "NextChar p" "Suc n"] Cons.prems stands_Next by simp
qed

lemma ReadDigits_reads:
  assumes "text_at inp i ds" and "list_all IsAsciiDigit ds" and "ds \<noteq> []" and "\<not> IsAsciiDigit (byte_at inp (i + length ds))"
    and "stands i d p" and "allow \<or> (hd ds = 48 \<longrightarrow> length ds = 1)"
  obtains q where "ReadDigits inp allow p = (True, q)" and "stands (i + length ds) d q"
proof -
  obtain q where q: "read_int_loop inp p (byte_at inp i) 0 = (length ds, q)" "stands (i + length ds) d q"
    using read_digits [OF assms(1,2,4,5), of 0] by auto
  have "byte_at inp i = hd ds" using assms(1,3) by (cases ds) simp_all
  then have "ReadDigits inp allow p = (True, q)"
    using q(1) assms(3,5,6) by (auto simp: ReadDigits_def stands_def Let_def)
  then show thesis using that q(2) by blast
qed

lemma ConsumeNumber_reads:
  assumes n: "number_token t" and t: "text_at inp i t" and f: "follows inp (i + length t)" and p: "stands i d p"
  obtains q where "ConsumeNumber inp p = (number_value inp t, q)" and "stands (i + length t - 1) d q"
proof -
  obtain sg ds fs where s: "sg \<in> {[], [45]}" and ds: "ds \<noteq> []" "list_all IsAsciiDigit ds" "hd ds = 48 \<longrightarrow> length ds = 1"
    and fs: "list_all IsAsciiDigit fs" and te: "t = sg @ ds @ (if fs = [] then [] else 46 # fs)"
    using n by (auto simp: number_token_def)
  have dot: "\<not> IsAsciiDigit 45" "\<not> IsAsciiDigit 46" by (simp_all add: IsAsciiDigit_def)
  have b: "byte_at inp (i + length t) \<notin> {45, 46, 101, 69}" "\<not> IsAsciiDigit (byte_at inp (i + length t))"
    using follows_byte [OF f] by (auto simp: IsAsciiDigit_def)
  let ?k = "i + length sg + length ds"
  let ?p = "if byte_at inp (jp_pos p) = 45 then NextChar p else p"
  have "hd ds \<noteq> 45" using ds(1,2) dot by (cases ds) auto
  then have p1: "stands (i + length sg) d ?p" using s t te p ds(1) by (cases ds) (auto simp: stands_def)
  have "text_at inp (i + length sg) ds" using t te by simp
  moreover have "byte_at inp ?k = (if fs = [] then byte_at inp (i + length t) else 46)"
    using t te by (cases "fs = []") (simp_all add: add.assoc)
  moreover from this have "\<not> IsAsciiDigit (byte_at inp ?k)" using b dot by simp
  ultimately obtain q1 where q1: "ReadDigits inp False ?p = (True, q1)" "stands ?k d q1"
    using ReadDigits_reads [OF _ ds(2,1) _ p1, where allow = False] ds(3) by blast
  obtain q2 where q2: "read_fraction inp q1 (jp_index q1) = (True, q2, i + length t)" "stands (i + length t) d q2"
  proof (cases "fs = []")
    case True
    then have "read_fraction inp q1 (jp_index q1) = (True, q1, i + length t)" "stands (i + length t) d q1"
      using q1(2) b te by (simp_all add: read_fraction_def stands_def add.assoc)
    then show thesis using that by blast
  next
    case False
    have f1: "text_at inp (Suc ?k) fs" "byte_at inp ?k = 46" "?k < end_pos inp"
      using t te False by (simp_all add: add.assoc)
    have e: "Suc ?k + length fs = i + length t" using te False by simp
    then have "\<not> IsAsciiDigit (byte_at inp (Suc ?k + length fs))" using b by metis
    from ReadDigits_reads [OF f1(1) fs False this stands_Next [OF q1(2)], where allow = True] obtain q2
      where "ReadDigits inp True (NextChar q1) = (True, q2)" "stands (i + length t) d q2" unfolding e by blast
    then show thesis using that f1(2,3) q1(2) by (simp add: read_fraction_def stands_def CanConsume_def)
  qed
  have q3: "read_exponent inp q2 (i + length t) = (True, q2, i + length t)"
    using q2(2) b by (simp add: read_exponent_def stands_def)
  obtain tk q4 where q4: "GetNextToken inp q2 = (tk, q4)" "tk \<in> {T_OBJECT_END, T_ARRAY_END, T_LIST_SEPARATOR, T_END_OF_INPUT}"
    using follows_token [OF f q2(2)] by blast
  have "jp_depth q4 = d" using GetNextToken_moved [OF q4(1)] q2(2) by (simp add: moved_def stands_def)
  moreover have "ConsumeNumber inp p = (number_value inp t, q4\<lparr>jp_pos := i + length t - 1, jp_index := i + length t - 1\<rparr>)"
    using q1 q2 q3 q4 text_at_bytes [OF t] p by (auto simp: ConsumeNumber_def Let_def stands_def)
  ultimately show thesis using that by (simp add: stands_def)
qed

lemma digit_text_digits: "list_all (\<lambda>d. d < 10) ds \<Longrightarrow> list_all IsAsciiDigit (digit_text ds)"
  unfolding list_all_iff [of IsAsciiDigit]
proof
  fix c
  assume "list_all (\<lambda>d. d < 10) ds" "c \<in> set (digit_text ds)"
  then have "48 \<le> unat c \<and> unat c < 58" by (intro digit_text_char)
  then show "IsAsciiDigit c" by (simp add: IsAsciiDigit_def word_le_nat_alt)
qed

lemma IntToString_token: "number_token (IntToString v)"
proof -
  obtain ds where ds: "IntToString v = (if v < 0 then 45 # digit_text ds else digit_text ds)" "plain_digits ds (nat \<bar>v\<bar>)"
    using IntToString_decimal by blast
  have "hd ds < 10" using ds(2) by (cases ds) (auto simp: plain_digits_def)
  then have "hd (digit_text ds) = 48 \<longrightarrow> length (digit_text ds) = 1"
    using ds(2) unat_digit [of "hd ds"] by (cases ds) (auto simp: plain_digits_def digit_text_def)
  moreover have "digit_text ds \<noteq> []" using ds(2) by (simp add: plain_digits_def digit_text_def)
  ultimately show ?thesis
    unfolding number_token_def using ds digit_text_digits [of ds]
    by (intro exI [of _ "if v < 0 then [45] else []"] exI [of _ "digit_text ds"] exI [of _ "[]"]) (auto simp: plain_digits_def)
qed

lemma number_value_int: "number_value inp (IntToString (sint i)) = Some (IntegerValue i)" for i :: u32
proof -
  have "StringToInt (IntToString (sint i)) 0 = (True, sint i)"
    using sint_greater_eq [of i] sint_less [of i]
    unfolding StringToInt_def by (intro IntToString_read) (simp_all add: is_int_type_def type_int_def)
  then show ?thesis by (simp add: number_value_def)
qed

section \<open>Literals\<close>

lemma consume_word_reads:
  assumes "text_at inp i w" and "stands i d p" and "w \<noteq> []"
  obtains q where "consume_word inp w v p = (Some v, q)" and "stands (i + length w - 1) d q"
proof -
  have "consume_word inp w v p = (Some v, NextNChars (length w - 1) p)"
    using assms text_at_bytes [OF assms(1)] text_at_end [OF assms(1)]
    by (simp add: consume_word_def CanConsume_def StringsAreEqual_def stands_def)
  moreover have "stands (i + length w - 1) d (NextNChars (length w - 1) p)"
    using assms(2,3) by (cases w) (simp_all add: stands_def)
  ultimately show thesis using that by blast
qed

end
