(* ===== verification/JsonRoundtrip.thy ===== *)
theory JsonRoundtrip
  imports JsonTokens
begin

text \<open>
  What the JSON writer writes for a value is read back as that value, with or without pretty printing.
\<close>

section \<open>The text of a value\<close>

definition space :: "json_writer \<Rightarrow> u8 list" where "space w = (if pretty_print w then [32] else [])"
definition newline :: "json_writer \<Rightarrow> u8 list" where "newline w = (if pretty_print w then [10] else [])"
definition indent :: "json_writer \<Rightarrow> nat \<Rightarrow> u8 list" where "indent w depth = (if pretty_print w then IndentLine depth else [])"

lemma blank_space [simp]: "blank (space w)" "blank (newline w)" "blank (indent w depth)"
  by (simp_all add: space_def newline_def indent_def IndentLine_def blank_def list_all_iff)

fun json_text :: "json_writer \<Rightarrow> nat \<Rightarrow> base_value \<Rightarrow> u8 list"
and list_text :: "json_writer \<Rightarrow> nat \<Rightarrow> bool \<Rightarrow> base_value list \<Rightarrow> u8 list"
and dict_text :: "json_writer \<Rightarrow> nat \<Rightarrow> bool \<Rightarrow> dict \<Rightarrow> u8 list" where
  "json_text w depth NullValue = [110, 117, 108, 108]"
| "json_text w depth (BooleanValue b) = (if b then [116, 114, 117, 101] else [102, 97, 108, 115, 101])"
| "json_text w depth (IntegerValue i) = IntToString (sint i)"
| "json_text w depth (DoubleValue d) = write_double w d"
| "json_text w depth (StringValue s) = quoted s"
| "json_text w depth (ListValue l) = 91 # space w @ list_text w depth False l @ space w @ [93]"
| "json_text w depth (DictionaryValue d) = 123 # newline w @ dict_text w depth False d @ newline w @ indent w depth @ [125]"
| "json_text w depth (BinaryValue b) = []"
| "list_text w depth later [] = []"
| "list_text w depth later (v # l) = (if later then 44 # space w else []) @ json_text w depth v @ list_text w depth True l"
| "dict_text w depth later [] = []"
| "dict_text w depth later (e # d) =
     (if later then 44 # newline w else []) @ indent w (depth + 1) @ quoted (fst e) @ 58 # space w
       @ json_text w (depth + 1) (snd e) @ dict_text w depth True d"

lemma writes_text:
  "json_value writable_string D n v \<Longrightarrow> BuildJSONString w v depth json = Some (True, json @ json_text w depth v)"
  "list_all (json_value writable_string D n) l \<Longrightarrow>
    build_list w l depth later (True, json) = Some (True, json @ list_text w depth later l)"
  "list_all (\<lambda>e. writable_string (fst e) \<and> json_value writable_string D n (snd e)) d \<Longrightarrow>
    build_dict w d depth later (True, json) = Some (True, json @ dict_text w depth later d)"
proof (induction w depth v and w depth later l and w depth later d arbitrary: n json and n json and n json
    rule: json_text_list_text_dict_text.induct, goal_cases)
  case (5 w depth s)
  then obtain cs where "\<And>out. EscapeJSONString s True out = Some (True, out @ quoted s)"
    using writable_characters by (metis json_value.simps(3))
  then show ?case by simp
next
  case (6 w depth l)
  then show ?case by (auto simp: space_def)
next
  case (7 w depth d)
  then show ?case by (auto simp: newline_def indent_def kPrettyPrintLineEnding_def)
next
  case (10 w depth later v l)
  have "GetType v \<noteq> TYPE_BINARY" using 10(3) by (cases v) auto
  with 10 show ?case by (auto simp: space_def)
next
  case (12 w depth later e d)
  have "GetType (snd e) \<noteq> TYPE_BINARY" using 12(3) by (cases "snd e") auto
  moreover have "writable_string (fst e)" using 12(3) by simp
  then have "EscapeJSONString (fst e) True out = Some (True, out @ quoted (fst e))" for out
    using writable_characters by metis
  ultimately show ?case using 12 by (auto simp: space_def newline_def indent_def kPrettyPrintLineEnding_def)
qed simp_all

section \<open>Doubles\<close>

text \<open>
  A double whose text is a number with a decimal point that strtod takes for the double: what the
  writer relies on for std::to_string and strtod.
\<close>

definition reads_back :: "(u8 list \<Rightarrow> u64 \<times> nat) \<Rightarrow> json_writer \<Rightarrow> u64 \<Rightarrow> bool" where
  "reads_back strtod w d \<longleftrightarrow> double_is_finite d \<and> number_token (write_double w d) \<and> 46 \<in> set (write_double w d)
     \<and> strtod (write_double w d) = (d, length (write_double w d))"

lemma number_token_chars:
  assumes "number_token t"
  shows "t \<noteq> []" and "b \<in> set t \<Longrightarrow> IsAsciiDigit b \<or> b = 45 \<or> b = 46" and "IsAsciiDigit (hd t) \<or> hd t = 45"
proof -
  obtain sg ds fs where t: "sg \<in> {[], [45]}" "ds \<noteq> []" "list_all IsAsciiDigit (ds @ fs)"
    "t = sg @ ds @ (if fs = [] then [] else 46 # fs)" using assms by (auto simp: number_token_def)
  then show "t \<noteq> []" and "b \<in> set t \<Longrightarrow> IsAsciiDigit b \<or> b = 45 \<or> b = 46" and "IsAsciiDigit (hd t) \<or> hd t = 45"
    by (auto simp: list_all_iff hd_append split: if_splits)
qed

lemma not_decimal: "46 \<in> set s \<Longrightarrow> \<not> fst (StringToInt s 0)" for s :: "u8 list"
proof
  assume dot: "46 \<in> set s" and "fst (StringToInt s 0)"
  then obtain v where "range_to_number type_int 10 s 0 = (True, v)" by (metis StringToInt_def prod.collapse)
  from accepted_decimal [OF _ this] obtain sg ds where d: "decimal sg type_int s ds" by (auto simp: is_int_type_def)
  then have "list_all (\<lambda>d. d < 10) ds" "46 \<in> set (digit_text ds)" using dot by (cases sg; auto)+
  then show False using digit_text_char [of 46 ds] by simp
qed

lemma number_value_double:
  assumes "reads_back (ji_strtod inp) w d"
  shows "number_value inp (write_double w d) = Some (DoubleValue d)"
proof -
  let ?t = "write_double w d"
  have t: "number_token ?t" "double_is_finite d" "46 \<in> set ?t" "ji_strtod inp ?t = (d, length ?t)"
    using assms by (simp_all add: reads_back_def)
  have digit: "IsAsciiDigit b \<Longrightarrow> b \<noteq> 0 \<and> \<not> LocalIsWhitespace b" for b
    by (auto simp: IsAsciiDigit_def LocalIsWhitespace_def word_le_nat_alt)
  have tw: "takeWhile (\<lambda>c. c \<noteq> 0) ?t = ?t"
    using number_token_chars(2) [OF t(1)] digit by (fastforce simp: takeWhile_eq_all_conv)
  have "\<not> LocalIsWhitespace (?t ! 0)"
    using number_token_chars(1,3) [OF t(1)] digit by (auto simp: hd_conv_nth LocalIsWhitespace_def)
  then have "StringToDouble (ji_strtod inp) ?t = (True, d)"
    using t number_token_chars(1) [OF t(1)] unfolding StringToDouble_def tw by (simp add: double_is_infinite_def)
  then show ?thesis using not_decimal [OF t(3)] t(2)
    by (cases "StringToInt ?t 0") (simp add: number_value_def finite_new_double)
qed

section \<open>Elements\<close>

text \<open>From behind the opening bracket, or from the last byte of an element, to the next element or the end.\<close>

definition element_start :: "json_input \<Rightarrow> json_token \<Rightarrow> int \<Rightarrow> bool \<Rightarrow> json_parser \<Rightarrow> json_token option \<times> json_parser" where
  "element_start inp closing adj later p =
     (if later then next_element inp closing adj p else (case GetNextToken inp p of (t, q) \<Rightarrow> (Some t, q)))"

definition before :: "bool \<Rightarrow> nat \<Rightarrow> nat \<Rightarrow> json_parser \<Rightarrow> bool" where
  "before later j d p \<longleftrightarrow> (if later then stands j d (NextChar p) else stands j d p)"

lemma element_start_closing:
  assumes t: "text_at inp j (b @ c # r)" "blank b" and c: "c = 93 \<or> c = 125" and p: "before later j d p"
  obtains q where "element_start inp (token_of c) adj later p = (Some (token_of c), q)" and "stands (j + length b) d q"
proof -
  have nc: "c \<notin> {9, 10, 13, 32, 47}" "token_of c \<noteq> T_LIST_SEPARATOR" using c by (auto simp: token_of_def)
  have "stands j d (if later then NextChar p else p)" using p by (simp add: before_def)
  then obtain q where "GetNextToken inp (if later then NextChar p else p) = (token_of c, q)" "stands (j + length b) d q"
    by (rule next_token [OF t nc(1)])
  then show thesis using that nc(2) by (cases later) (auto simp: element_start_def next_element_def)
qed

lemma element_start_item:
  assumes t: "text_at inp j ((if later then [44] else []) @ b @ c # r)" "blank b" and c: "c \<notin> {9, 10, 13, 32, 47}"
    and closing: "token_of c \<noteq> closing" and p: "before later j d p"
  obtains q where "element_start inp closing adj later p = (Some (token_of c), q)"
    and "stands (j + (if later then 1 else 0) + length b) d q"
proof (cases later)
  case False
  then have t': "text_at inp j (b @ c # r)" and p': "stands j d p" using t(1) p by (simp_all add: before_def)
  obtain q where "GetNextToken inp p = (token_of c, q)" "stands (j + length b) d q"
    by (rule next_token [OF t' t(2) c p'])
  then show thesis using that False by (simp add: element_start_def)
next
  case True
  then have t0: "text_at inp j ([] @ 44 # b @ c # r)" and t': "text_at inp (Suc j) (b @ c # r)"
    and p': "stands j d (NextChar p)" using t(1) p by (simp_all add: before_def)
  obtain q1 where q1: "GetNextToken inp (NextChar p) = (token_of 44, q1)" "stands (j + length ([] :: u8 list)) d q1"
    by (rule next_token [OF t0 _ _ p']) simp_all
  then have q1': "stands (Suc j) d (NextChar q1)" using stands_Next by simp
  obtain q where "GetNextToken inp (NextChar q1) = (token_of c, q)" "stands (Suc j + length b) d q"
    by (rule next_token [OF t' t(2) c q1'])
  then show thesis using that True q1(1) closing by (simp add: element_start_def next_element_def token_of_def)
qed

text \<open>A value is parsed, on enough fuel, and its last byte is where the parser then stands.\<close>

definition parses :: "json_input \<Rightarrow> nat \<Rightarrow> base_value \<Rightarrow> nat \<Rightarrow> nat \<Rightarrow> bool" where
  "parses inp d v i j \<longleftrightarrow> (\<forall>p. stands i d p \<longrightarrow>
     (\<exists>fuel q. ParseToken inp fuel (token_of (byte_at inp i)) p = Some (Some v, q) \<and> stands j d q))"

definition list_goes_on :: "json_input \<Rightarrow> nat \<Rightarrow> bool \<Rightarrow> base_value list \<Rightarrow> nat \<Rightarrow> base_value list \<Rightarrow> nat \<Rightarrow> bool" where
  "list_goes_on inp d later acc j l e \<longleftrightarrow> (\<forall>p. before later j d p \<longrightarrow>
     (\<exists>fuel t p' q. element_start inp T_ARRAY_END 1 later p = (Some t, p')
       \<and> list_loop inp fuel t acc p' = Some (Some (ListValue l), q) \<and> stands e d q))"

definition dict_goes_on :: "json_input \<Rightarrow> nat \<Rightarrow> bool \<Rightarrow> dict \<Rightarrow> nat \<Rightarrow> dict \<Rightarrow> nat \<Rightarrow> bool" where
  "dict_goes_on inp d later acc j l e \<longleftrightarrow> (\<forall>p. before later j d p \<longrightarrow>
     (\<exists>fuel t p' q. element_start inp T_OBJECT_END 0 later p = (Some t, p')
       \<and> dictionary_loop inp fuel t acc p' = Some (Some (DictionaryValue l), q) \<and> stands e d q))"

lemma stands_last: "stands (k - 1) d q \<Longrightarrow> 0 < k \<Longrightarrow> before True k d q"
  by (simp add: before_def stands_def)

lemma list_ends:
  assumes "text_at inp j (b @ [93])" and "blank b"
  shows "list_goes_on inp d later acc j acc (j + length b)"
  unfolding list_goes_on_def
proof (intro allI impI)
  fix p
  assume p: "before later j d p"
  obtain q where "element_start inp (token_of 93) 1 later p = (Some (token_of 93), q)" "stands (j + length b) d q"
    by (rule element_start_closing [OF assms(1) assms(2) _ p]) simp_all
  moreover have closing: "token_of 93 = T_ARRAY_END" by (simp add: token_of_def)
  moreover have "list_loop inp (Suc 0) T_ARRAY_END acc q = Some (Some (ListValue acc), q)" by simp
  ultimately show "\<exists>fuel t p' q. element_start inp T_ARRAY_END 1 later p = (Some t, p')
      \<and> list_loop inp fuel t acc p' = Some (Some (ListValue acc), q) \<and> stands (j + length b) d q"
    by metis
qed

lemma list_takes:
  assumes t: "text_at inp j ((if later then [44] else []) @ b @ c # r)" "blank b" "c \<notin> {9, 10, 13, 32, 47}"
    and c: "token_of c \<noteq> T_ARRAY_END" and i: "i = j + (if later then 1 else 0) + length b" and k: "0 < k"
    and v: "parses inp d v i (k - 1)" and l: "list_goes_on inp d True (acc @ [v]) k l e"
  shows "list_goes_on inp d later acc j l e"
  unfolding list_goes_on_def
proof (intro allI impI)
  fix p
  assume p: "before later j d p"
  obtain p1 where 1: "element_start inp T_ARRAY_END 1 later p = (Some (token_of c), p1)" "stands i d p1"
    using element_start_item [OF t c p] i by blast
  have "byte_at inp i = c" using t(1) i by (cases later) simp_all
  then obtain f1 p2 where 2: "ParseToken inp f1 (token_of c) p1 = Some (Some v, p2)" "stands (k - 1) d p2"
    using v 1(2) unfolding parses_def by blast
  obtain f2 t3 p3 q where 3: "next_element inp T_ARRAY_END 1 p2 = (Some t3, p3)"
      "list_loop inp f2 t3 (acc @ [v]) p3 = Some (Some (ListValue l), q)" "stands e d q"
    using l stands_last [OF 2(2) k] unfolding list_goes_on_def element_start_def by auto
  have "ParseToken inp (f1 + f2) (token_of c) p1 = Some (Some v, p2)"
    "list_loop inp (f1 + f2) t3 (acc @ [v]) p3 = Some (Some (ListValue l), q)"
    using fuel_mono 2(1) 3(2) by (blast, metis add.commute)
  then have "list_loop inp (Suc (f1 + f2)) (token_of c) acc p1 = Some (Some (ListValue l), q)"
    using c 3(1) by (simp add: list_Append_def)
  then show "\<exists>fuel t p' q. element_start inp T_ARRAY_END 1 later p = (Some t, p')
      \<and> list_loop inp fuel t acc p' = Some (Some (ListValue l), q) \<and> stands e d q"
    using 1(1) 3(3) by blast
qed

lemma dict_ends:
  assumes "text_at inp j (b @ [125])" and "blank b"
  shows "dict_goes_on inp d later acc j acc (j + length b)"
  unfolding dict_goes_on_def
proof (intro allI impI)
  fix p
  assume p: "before later j d p"
  obtain q where "element_start inp (token_of 125) 0 later p = (Some (token_of 125), q)" "stands (j + length b) d q"
    by (rule element_start_closing [OF assms(1) assms(2) _ p]) simp_all
  moreover have closing: "token_of 125 = T_OBJECT_END" by (simp add: token_of_def)
  moreover have "dictionary_loop inp (Suc 0) T_OBJECT_END acc q = Some (Some (DictionaryValue acc), q)" by simp
  ultimately show "\<exists>fuel t p' q. element_start inp T_OBJECT_END 0 later p = (Some t, p')
      \<and> dictionary_loop inp fuel t acc p' = Some (Some (DictionaryValue acc), q) \<and> stands (j + length b) d q"
    by metis
qed

lemma dict_takes:
  assumes t: "text_at inp j ((if later then [44] else []) @ b @ quoted s @ 58 # b' @ c # r)" "blank b" "blank b'" "c \<notin> {9, 10, 13, 32, 47}"
    and s: "writable_string s" and h: "h = j + (if later then 1 else 0) + length b"
    and i: "i = h + length (quoted s) + 1 + length b'" and k: "0 < k"
    and v: "parses inp d v i (k - 1)" and l: "dict_goes_on inp d True (SetWithoutPathExpansion s v acc) k l e"
  shows "dict_goes_on inp d later acc j l e"
  unfolding dict_goes_on_def
proof (intro allI impI)
  fix p
  assume p: "before later j d p"
  obtain r' where q: "quoted s = 34 # r'" using writable_characters [OF s] by metis
  have th: "text_at inp h (quoted s @ 58 # b' @ c # r)" using t(1) h by (cases later) simp_all
  have tok: "token_of 34 = T_STRING" by (simp add: token_of_def)
  have "text_at inp j ((if later then [44] else []) @ b @ 34 # r' @ 58 # b' @ c # r)" using t(1) q by simp
  then obtain p1 where 1: "element_start inp T_OBJECT_END 0 later p = (Some T_STRING, p1)" "stands h d p1"
    using element_start_item [of inp j later b 34 _ T_OBJECT_END d p] t(2) p h tok by auto
  obtain sb p2 where 2: "ConsumeStringRaw inp p1 = (Some sb, p2)" "sb_AsString inp sb = s" "stands (h + length (quoted s) - 1) d p2"
    using ConsumeStringRaw_quoted [OF s _ 1(2)] th by auto
  let ?m = "h + length (quoted s)"
  have n2: "stands ?m d (NextChar p2)" using 2(3) q by (simp add: stands_def)
  have tm: "text_at inp ?m ([] @ 58 # b' @ c # r)" and tm': "text_at inp (Suc ?m) (b' @ c # r)" using th by simp_all
  obtain p3 where 3: "GetNextToken inp (NextChar p2) = (token_of 58, p3)" "stands (?m + length ([] :: u8 list)) d p3"
    by (rule next_token [OF tm _ _ n2]) simp_all
  have n3: "stands (Suc ?m) d (NextChar p3)" using 3(2) stands_Next by simp
  obtain p4 where 4: "GetNextToken inp (NextChar p3) = (token_of c, p4)" "stands (Suc ?m + length b') d p4"
    by (rule next_token [OF tm' t(3,4) n3])
  have "byte_at inp i = c" "stands i d p4" using tm' 4(2) i by simp_all
  then obtain f1 p5 where 5: "ParseToken inp f1 (token_of c) p4 = Some (Some v, p5)" "stands (k - 1) d p5"
    using v unfolding parses_def by blast
  obtain f2 t6 p6 q where 6: "next_element inp T_OBJECT_END 0 p5 = (Some t6, p6)"
      "dictionary_loop inp f2 t6 (SetWithoutPathExpansion s v acc) p6 = Some (Some (DictionaryValue l), q)" "stands e d q"
    using l stands_last [OF 5(2) k] unfolding dict_goes_on_def element_start_def by auto
  have "ParseToken inp (f1 + f2) (token_of c) p4 = Some (Some v, p5)"
    "dictionary_loop inp (f1 + f2) t6 (SetWithoutPathExpansion s v acc) p6 = Some (Some (DictionaryValue l), q)"
    using fuel_mono 5(1) 6(2) by (blast, metis add.commute)
  moreover have "token_of 58 = T_OBJECT_PAIR_SEPARATOR" by (simp add: token_of_def)
  ultimately have "dictionary_loop inp (Suc (f1 + f2)) T_STRING acc p1 = Some (Some (DictionaryValue l), q)"
    using 2(1,2) 3(1) 4(1) 6(1) by (simp add: Let_def)
  then show "\<exists>fuel t p' q. element_start inp T_OBJECT_END 0 later p = (Some t, p')
      \<and> dictionary_loop inp fuel t acc p' = Some (Some (DictionaryValue l), q) \<and> stands e d q"
    using 1(1) 6(3) by blast
qed

text \<open>A container is parsed where its elements are and the depth allows it.\<close>

lemma enters:
  assumes "stands i d p" and "d < kStackMaxDepth - 1"
  shows "stands (Suc i) (Suc d) (NextChar (stack_enter p))" and "\<not> IsTooDeep (stack_enter p)"
  using assms by (simp_all add: stands_def stack_enter_def IsTooDeep_def)

lemma leaves: "stands e (Suc d) q \<Longrightarrow> stands e d (stack_leave q)"
  by (simp add: stands_def stack_leave_def)

lemma parses_list:
  assumes b: "byte_at inp i = 91" and d: "d < kStackMaxDepth - 1" and l: "list_goes_on inp (Suc d) False [] (Suc i) l e"
  shows "parses inp d (ListValue l) i e"
  unfolding parses_def
proof (intro allI impI)
  fix p
  assume p: "stands i d p"
  note en = enters [OF p d]
  obtain t p1 where 0: "GetNextToken inp (NextChar (stack_enter p)) = (t, p1)" by force
  then obtain fuel q where 1: "list_loop inp fuel t [] p1 = Some (Some (ListValue l), q)" "stands e (Suc d) q"
    using l en(1) unfolding list_goes_on_def before_def element_start_def by auto
  moreover have "token_of 91 = T_ARRAY_BEGIN" by (simp add: token_of_def)
  ultimately have "ParseToken inp (Suc fuel) (token_of (byte_at inp i)) p = Some (Some (ListValue l), stack_leave q)"
    using b p en(2) 0 by (simp add: stands_def Let_def)
  then show "\<exists>fuel q. ParseToken inp fuel (token_of (byte_at inp i)) p = Some (Some (ListValue l), q) \<and> stands e d q"
    using leaves [OF 1(2)] by blast
qed

lemma parses_dict:
  assumes b: "byte_at inp i = 123" and d: "d < kStackMaxDepth - 1" and l: "dict_goes_on inp (Suc d) False [] (Suc i) l e"
  shows "parses inp d (DictionaryValue l) i e"
  unfolding parses_def
proof (intro allI impI)
  fix p
  assume p: "stands i d p"
  note en = enters [OF p d]
  obtain t p1 where 0: "GetNextToken inp (NextChar (stack_enter p)) = (t, p1)" by force
  then obtain fuel q where 1: "dictionary_loop inp fuel t [] p1 = Some (Some (DictionaryValue l), q)" "stands e (Suc d) q"
    using l en(1) unfolding dict_goes_on_def before_def element_start_def by auto
  moreover have "token_of 123 = T_OBJECT_BEGIN" by (simp add: token_of_def)
  ultimately have "ParseToken inp (Suc fuel) (token_of (byte_at inp i)) p = Some (Some (DictionaryValue l), stack_leave q)"
    using b p en(2) 0 by (simp add: stands_def Let_def)
  then show "\<exists>fuel q. ParseToken inp fuel (token_of (byte_at inp i)) p = Some (Some (DictionaryValue l), q) \<and> stands e d q"
    using leaves [OF 1(2)] by blast
qed

section \<open>Values\<close>

lemma digit_token: "IsAsciiDigit b \<or> b = 45 \<Longrightarrow> token_of b = T_NUMBER \<and> b \<notin> {9, 10, 13, 32, 47}"
  by (auto simp: IsAsciiDigit_def token_of_def word_le_nat_alt)

lemma number_token_first: "number_token t \<Longrightarrow> \<exists>c r. t = c # r \<and> token_of c = T_NUMBER \<and> c \<notin> {9, 10, 13, 32, 47}"
  using number_token_chars [of t] digit_token by (cases t) auto

lemma json_text_first:
  "json_value writable_string (reads_back strtod w) n v \<Longrightarrow>
    \<exists>c r. json_text w depth v = c # r \<and> c \<notin> {9, 10, 13, 32, 47} \<and> token_of c \<notin> {T_ARRAY_END, T_OBJECT_END, T_INVALID_TOKEN}"
proof (cases v)
  case (StringValue s)
  assume "json_value writable_string (reads_back strtod w) n v"
  then obtain r where "quoted s = 34 # r" using StringValue writable_characters by (metis json_value.simps(3))
  then show ?thesis using StringValue by (simp add: token_of_def)
next
  case (IntegerValue i)
  then show ?thesis using number_token_first [OF IntToString_token] by fastforce
next
  case (DoubleValue d)
  assume "json_value writable_string (reads_back strtod w) n v"
  then show ?thesis using DoubleValue number_token_first [of "write_double w d"] by (fastforce simp: reads_back_def)
qed (auto simp: token_of_def)

lemma parses_once:
  assumes "\<And>p. stands i d p \<Longrightarrow> \<exists>q. ParseToken inp (Suc 0) (token_of (byte_at inp i)) p = Some (Some v, q) \<and> stands j d q"
  shows "parses inp d v i j"
  using assms unfolding parses_def by blast

lemma parses_literal:
  assumes t: "text_at inp i (b # w)" and c: "\<And>p. stands i d p \<Longrightarrow> ConsumeLiteral inp p = consume_word inp (b # w) v p"
    and b: "token_of b \<in> {T_NULL, T_BOOL_TRUE, T_BOOL_FALSE}"
  shows "parses inp d v i (i + length (b # w) - 1)"
proof (rule parses_once)
  fix p
  assume p: "stands i d p"
  obtain q where "consume_word inp (b # w) v p = (Some v, q)" "stands (i + length (b # w) - 1) d q"
    by (rule consume_word_reads [OF t p]) simp_all
  then show "\<exists>q. ParseToken inp (Suc 0) (token_of (byte_at inp i)) p = Some (Some v, q) \<and> stands (i + length (b # w) - 1) d q"
    using t b c [OF p] by auto
qed

lemma parses_number:
  assumes n: "number_token t" and t: "text_at inp i t" and f: "follows inp (i + length t)" and v: "number_value inp t = Some v"
  shows "parses inp d v i (i + length t - 1)"
proof (rule parses_once)
  fix p
  assume p: "stands i d p"
  have "token_of (byte_at inp i) = T_NUMBER" using number_token_first [OF n] t by auto
  moreover obtain q where "ConsumeNumber inp p = (Some v, q)" "stands (i + length t - 1) d q"
    using ConsumeNumber_reads [OF n t f p] v by metis
  ultimately show "\<exists>q. ParseToken inp (Suc 0) (token_of (byte_at inp i)) p = Some (Some v, q) \<and> stands (i + length t - 1) d q"
    by simp
qed

lemma parses_string:
  assumes s: "writable_string s" and t: "text_at inp i (quoted s)"
  shows "parses inp d (StringValue s) i (i + length (quoted s) - 1)"
proof (rule parses_once)
  fix p
  assume p: "stands i d p"
  obtain r where "quoted s = 34 # r" using writable_characters [OF s] by metis
  then have "token_of (byte_at inp i) = T_STRING" using t by (simp add: token_of_def)
  moreover obtain sb q where "ConsumeStringRaw inp p = (Some sb, q)" "sb_AsString inp sb = s"
      "stands (i + length (quoted s) - 1) d q" by (rule ConsumeStringRaw_quoted [OF s t p])
  ultimately show "\<exists>q. ParseToken inp (Suc 0) (token_of (byte_at inp i)) p = Some (Some (StringValue s), q)
      \<and> stands (i + length (quoted s) - 1) d q"
    by (simp add: ConsumeString_def)
qed

lemma followed:
  assumes "text_at inp k (b @ c # r)" and "blank b" and "c \<in> {44, 93, 125}"
  shows "follows inp k"
  using assms unfolding follows_def by (intro exI [of _ b]) auto

lemma list_follows: "text_at inp k (list_text w depth True l @ space w @ [93]) \<Longrightarrow> follows inp k"
  using followed [of inp k "space w" 93 "[]"]
    followed [of inp k "[]" 44 "space w @ json_text w depth (hd l) @ list_text w depth True (tl l) @ space w @ [93]"]
  by (cases l) (simp_all add: add.assoc)

lemma dict_follows: "text_at inp k (dict_text w depth True d @ newline w @ indent w depth @ [125]) \<Longrightarrow> follows inp k"
  using followed [of inp k "newline w @ indent w depth" 125 "[]"]
    followed [of inp k "[]" 44 "newline w @ indent w (Suc depth) @ quoted (fst (hd d)) @ 58 # space w
      @ json_text w (Suc depth) (snd (hd d)) @ dict_text w depth True (tl d) @ newline w @ indent w depth @ [125]"]
  by (cases d) (simp_all add: add.assoc)

lemma map_insert_last: "ascending (acc @ (k, v) # d) \<Longrightarrow> map_insert k v acc = acc @ [(k, v)]"
  by (induction acc) (auto simp: not_less_iff_gr_or_eq)

lemma parses_text:
  fixes inp :: json_input
  shows "json_value writable_string (reads_back (ji_strtod inp) w) n v \<Longrightarrow> n + d < kStackMaxDepth \<Longrightarrow>
      text_at inp i (json_text w depth v) \<Longrightarrow> follows inp (i + length (json_text w depth v)) \<Longrightarrow>
      parses inp d v i (i + length (json_text w depth v) - 1)"
    and "list_all (json_value writable_string (reads_back (ji_strtod inp) w) n) l \<Longrightarrow> n + d < kStackMaxDepth \<Longrightarrow>
      text_at inp j ((if later then [] else space w) @ list_text w depth later l @ space w @ [93]) \<Longrightarrow>
      list_goes_on inp d later acc j (acc @ l) (j + length ((if later then [] else space w) @ list_text w depth later l @ space w))"
    and "list_all (\<lambda>e. writable_string (fst e) \<and> json_value writable_string (reads_back (ji_strtod inp) w) n (snd e)) m \<Longrightarrow> n + d < kStackMaxDepth \<Longrightarrow>
      ascending (acc' @ m) \<Longrightarrow>
      text_at inp j ((if later then [] else newline w) @ dict_text w depth later m @ newline w @ indent w depth @ [125]) \<Longrightarrow>
      dict_goes_on inp d later acc' j (acc' @ m)
        (j + length ((if later then [] else newline w) @ dict_text w depth later m @ newline w @ indent w depth))"
proof (induction w depth v and w depth later l and w depth later m
    arbitrary: n d i and n d j acc and n d j acc' rule: json_text_list_text_dict_text.induct, goal_cases)
  case (1 w depth n d i)
  then show ?case using parses_literal [of inp i 110 "[117, 108, 108]" d NullValue]
    by (simp add: ConsumeLiteral_def Let_def stands_def token_of_def)
next
  case (2 w depth b n d i)
  then show ?case
    using parses_literal [of inp i 116 "[114, 117, 101]" d "BooleanValue b"]
      parses_literal [of inp i 102 "[97, 108, 115, 101]" d "BooleanValue b"]
    by (simp add: ConsumeLiteral_def Let_def stands_def token_of_def split: if_splits)
next
  case (3 w depth k n d i)
  then show ?case using parses_number [OF IntToString_token _ _ number_value_int] by simp
next
  case (4 w depth x n d i)
  then show ?case using parses_number [OF _ _ _ number_value_double] by (simp add: reads_back_def)
next
  case (5 w depth s n d i)
  then show ?case using parses_string by simp
next
  case (6 w depth l n d i)
  from 6(2) have n: "0 < n" "list_all (json_value writable_string (reads_back (ji_strtod inp) w) (n - 1)) l" by simp_all
  have d: "d < kStackMaxDepth - 1" "n - 1 + Suc d < kStackMaxDepth" using 6(3) n(1) by simp_all
  have t: "text_at inp (Suc i) ((if False then [] else space w) @ list_text w depth False l @ space w @ [93])" "byte_at inp i = 91"
    using 6(4) by simp_all
  from parses_list [OF t(2) d(1) 6(1) [OF n(2) d(2) t(1), of "[]", simplified append_Nil]]
  show ?case by simp
next
  case (7 w depth m n d i)
  from 7(2) have n: "0 < n" "ascending ([] @ m)"
    "list_all (\<lambda>e. writable_string (fst e) \<and> json_value writable_string (reads_back (ji_strtod inp) w) (n - 1) (snd e)) m" by simp_all
  have d: "d < kStackMaxDepth - 1" "n - 1 + Suc d < kStackMaxDepth" using 7(3) n(1) by simp_all
  have t: "text_at inp (Suc i) ((if False then [] else newline w) @ dict_text w depth False m @ newline w @ indent w depth @ [125])"
    "byte_at inp i = 123" using 7(4) by simp_all
  from parses_dict [OF t(2) d(1) 7(1) [OF n(3) d(2) n(2) t(1), simplified append_Nil]]
  show ?case by (simp add: add.assoc)
next
  case (8 w depth b n d i)
  then show ?case by simp
next
  case (9 w depth later n d j acc)
  then show ?case using list_ends [of inp j "(if later then [] else space w) @ space w" d later acc] by simp
next
  case (10 w depth later v l n d j acc)
  let ?i = "j + (if later then 1 else 0) + length (space w)"
  let ?k = "?i + length (json_text w depth v)"
  have v: "json_value writable_string (reads_back (ji_strtod inp) w) n v"
    and l: "list_all (json_value writable_string (reads_back (ji_strtod inp) w) n) l" using 10(3) by simp_all
  obtain c r where c: "json_text w depth v = c # r" "c \<notin> {9, 10, 13, 32, 47}" "token_of c \<noteq> T_ARRAY_END"
    using json_text_first [OF v, of depth] by auto
  have t: "text_at inp j ((if later then [44] else []) @ space w @ json_text w depth v @ list_text w depth True l @ space w @ [93])"
    using 10(5) by (cases later) (simp_all add: add.assoc)
  then have t': "text_at inp j ((if later then [44] else []) @ space w @ c # r @ list_text w depth True l @ space w @ [93])"
    using c(1) by simp
  have tv: "text_at inp ?i (json_text w depth v)" and tl: "text_at inp ?k (list_text w depth True l @ space w @ [93])"
    using t by (cases later; simp add: add.assoc)+
  have pv: "parses inp d v ?i (?k - 1)" by (rule 10(1) [OF v 10(4) tv list_follows [OF tl]])
  have pl: "list_goes_on inp d True (acc @ [v]) ?k (acc @ v # l) (?k + length (list_text w depth True l @ space w))"
    using 10(2) [OF l 10(4), of ?k "acc @ [v]"] tl by simp
  have k: "0 < ?k" using c(1) by simp
  from list_takes [OF t' blank_space(1) c(2,3) refl k pv pl]
  show ?case by (cases later) (simp_all add: add.assoc)
next
  case (11 w depth later n d j acc)
  then show ?case
    using dict_ends [of inp j "(if later then [] else newline w) @ newline w @ indent w depth" d later acc] by (simp add: add.assoc)
next
  case (12 w depth later e m n d j acc)
  let ?b = "newline w @ indent w (Suc depth)"
  let ?h = "j + (if later then 1 else 0) + length ?b"
  let ?i = "?h + length (quoted (fst e)) + 1 + length (space w)"
  let ?k = "?i + length (json_text w (Suc depth) (snd e))"
  let ?rest = "dict_text w depth True m @ newline w @ indent w depth @ [125]"
  have s: "writable_string (fst e)" and v: "json_value writable_string (reads_back (ji_strtod inp) w) n (snd e)"
    and m: "list_all (\<lambda>e. writable_string (fst e) \<and> json_value writable_string (reads_back (ji_strtod inp) w) n (snd e)) m"
    using 12(3) by simp_all
  obtain c r where c: "json_text w (Suc depth) (snd e) = c # r" "c \<notin> {9, 10, 13, 32, 47}"
    using json_text_first [OF v, of "Suc depth"] by auto
  have t: "text_at inp j ((if later then [44] else []) @ ?b @ quoted (fst e) @ 58 # space w @ json_text w (Suc depth) (snd e) @ ?rest)"
    using 12(6) by (cases later) (simp_all add: add.assoc)
  then have t': "text_at inp j ((if later then [44] else []) @ ?b @ quoted (fst e) @ 58 # space w @ c # r @ ?rest)"
    using c(1) by simp
  have tv: "text_at inp ?i (json_text w (Suc depth) (snd e))" and tm: "text_at inp ?k ?rest"
    using t by (cases later; simp add: add.assoc)+
  have set: "SetWithoutPathExpansion (fst e) (snd e) acc = acc @ [e]"
    using map_insert_last [of acc "fst e" "snd e" m] 12(5) by (simp add: SetWithoutPathExpansion_def)
  have pv: "parses inp d (snd e) ?i (?k - 1)"
    using 12(1) [OF v 12(4), of ?i] tv dict_follows [OF tm] by simp
  have pm: "dict_goes_on inp d True (SetWithoutPathExpansion (fst e) (snd e) acc) ?k (acc @ e # m)
      (?k + length (dict_text w depth True m @ newline w @ indent w depth))"
    using 12(2) [OF m 12(4), of "acc @ [e]" ?k] 12(5) tm unfolding set by simp
  have k: "0 < ?k" using c(1) by simp
  from dict_takes [OF t' _ blank_space(1) c(2) s refl refl k pv pm]
  show ?case by (cases later) (simp_all add: add.assoc)
qed

section \<open>The whole text\<close>

lemma json_text_last:
  assumes "json_value writable_string (reads_back strtod w) n v"
  shows "last (json_text w depth v) \<notin> {9, 10, 13, 32, 47}"
proof -
  have number: "last t \<notin> {9, 10, 13, 32, 47}" if "number_token t" for t
    using number_token_chars(1) [OF that] number_token_chars(2) [OF that last_in_set] digit_token by auto
  show ?thesis
  proof (cases v)
    case (StringValue s)
    then obtain t where "quoted s = 34 # t @ [34]" using assms writable_characters by (metis json_value.simps(3))
    then show ?thesis using StringValue by simp
  next
    case (DoubleValue d)
    then show ?thesis using assms number by (simp add: reads_back_def)
  qed (use assms number IntToString_token in auto)
qed

lemma at_end_reached:
  assumes t: "text_at inp 0 (t @ b)" "blank b" "end_pos inp = length t + length b"
    and l: "t \<noteq> []" "last t \<notin> {9, 10, 13, 32, 47}" and p: "stands (length t - 1) d p"
  obtains q where "at_end inp p = (True, q)"
proof -
  have s: "text_at inp (length t - 1) ([] @ last t # b)" and tb: "text_at inp (length t) b"
    using t(1) l(1) by (cases t rule: rev_cases; simp)+
  obtain q1 where q1: "GetNextToken inp p = (token_of (last t), q1)" "stands (length t - 1 + length ([] :: u8 list)) d q1"
    by (rule next_token [OF s _ l(2) p]) simp_all
  have n: "stands (length t) d (NextChar q1)" using q1(2) l(1) by (simp add: stands_def)
  obtain q where "GetNextToken inp (NextChar q1) = (T_END_OF_INPUT, q)"
    by (rule next_token_end [OF tb t(2) t(3) n])
  moreover have "token_of (last t) \<noteq> T_END_OF_INPUT" by (simp add: token_of_def)
  moreover have "CanConsume inp q1 1" using q1(2) t(3) l(1) by (simp add: CanConsume_def stands_def Suc_le_eq)
  ultimately show thesis using that q1(1) by (simp add: at_end_def Let_def)
qed

lemma Parse_text:
  assumes v: "json_value writable_string (reads_back (ji_strtod inp) w) (kStackMaxDepth - 1) v"
    and t: "text_at inp 0 (json_text w 0 v @ b)" "blank b" "end_pos inp = length (json_text w 0 v @ b)" and z: "byte_at inp (end_pos inp) = 0"
  obtains q where "Parse_with (json_fuel inp) inp = Some (Some v, q)"
proof -
  let ?t = "json_text w 0 v"
  obtain c r where c: "?t = c # r" "c \<notin> {9, 10, 13, 32, 47}" "token_of c \<noteq> T_INVALID_TOKEN"
    using json_text_first [OF v, of 0] by auto
  have b0: "byte_at inp 0 = c" using t(1) c(1) by simp
  have "c \<noteq> 0xEF" using c(3) by (auto simp: token_of_def)
  then have bom: "skip_byte_order_mark inp new_parser = new_parser"
    using b0 by (simp add: skip_byte_order_mark_def bytes_at_def numeral_3_eq_3 new_parser_def)
  have p0: "stands 0 0 new_parser" by (simp add: stands_def new_parser_def)
  have tc: "text_at inp 0 ([] @ c # r @ b)" using t(1) c(1) by simp
  obtain p where p: "GetNextToken inp new_parser = (token_of c, p)" "stands (0 + length ([] :: u8 list)) 0 p"
    by (rule next_token [OF tc _ c(2) p0]) simp_all
  have "follows inp (0 + length ?t)"
    unfolding follows_def using t z by (intro exI [of _ b]) simp
  moreover have "kStackMaxDepth - 1 + 0 < kStackMaxDepth" by (simp add: kStackMaxDepth_def)
  ultimately have "parses inp 0 v 0 (0 + length ?t - 1)" using parses_text(1) [OF v, of 0 0] t(1) by simp
  then obtain f q where q: "ParseToken inp f (token_of c) p = Some (Some v, q)" "stands (length ?t - 1) 0 q"
    using p(2) b0 unfolding parses_def by auto
  obtain q' where e: "at_end inp q = (True, q')"
    using at_end_reached [OF t(1,2) _ _ json_text_last [OF v] q(2)] t(3) c(1) by auto
  have "ParseToken inp (json_fuel inp + f) (token_of c) p = Some (Some v, q)"
    using fuel_mono q(1) by (metis add.commute)
  then have "Parse_with (json_fuel inp + f) inp = Some (Some v, q')"
    using bom p(1) e by (simp add: Parse_with_def)
  then show thesis using that Parse_with_fuel [of inp f] by auto
qed

lemma ascii_text: "list_all (\<lambda>b. unat b < 128) s \<Longrightarrow> character_text s"
proof (induction s)
  case (Cons b s)
  then show ?case using character_text_append [of "[b]" s] character_text_ascii [of b] by simp
qed simp

text \<open>C40. A value of which every string and key is UTF-8 text without NUL, whose doubles are written as
  numbers that strtod takes back, whose keys ascend and which is nested less than kStackMaxDepth deep is
  written successfully with any options, and the reader makes that value of the text again.\<close>

theorem json_roundtrip:
  assumes "json_value writable_string (reads_back strtod (JSONWriter options to_string cast)) (kStackMaxDepth - 1) v"
    and "read_options AND JSON_DETACHABLE_CHILDREN = 0 \<or> behind 0 = 0"
  shows "\<exists>json. JSONWriter_WriteWithOptions options to_string cast v = Some (True, json)
    \<and> (length json < 2 ^ 31 \<longrightarrow> JSONReader_Read read_options strtod behind json = Some (Some v))"
proof -
  let ?w = "JSONWriter options to_string cast"
  let ?json = "json_text ?w 0 v @ newline ?w"
  let ?inp = "parser_input read_options strtod behind ?json"
  have "JSONWriter_WriteWithOptions options to_string cast v = Some (True, ?json)"
    using writes_text(1) [OF assms(1), of ?w 0 "[]"]
    by (simp add: JSONWriter_WriteWithOptions_def newline_def JSONWriter_def kPrettyPrintLineEnding_def)
  moreover have "JSONReader_Read read_options strtod behind ?json = Some (Some v)"
  proof -
    have "byte_at ?inp (end_pos ?inp) = 0" "end_pos ?inp = length ?json" "ji_strtod ?inp = strtod"
      using assms(2) by (auto simp: byte_at_def end_pos_def parser_input_def)
    then obtain q where "Parse_with (json_fuel ?inp) ?inp = Some (Some v, q)"
      using Parse_text [of ?inp ?w v "newline ?w"] text_at_all assms(1) by (metis blank_space(2))
    then show ?thesis by (simp add: JSONReader_Read_def JSONParser_Parse_def Let_def)
  qed
  ultimately show ?thesis by blast
qed

lemma json_roundtrip_witness:
  "JSONWriter_WriteWithOptions 4 (\<lambda>_. [49, 46, 53, 48, 48, 48]) (\<lambda>d. d)
      (DictionaryValue [([107], ListValue [IntegerValue (- 5), StringValue [34, 60], DoubleValue 0x3FF8000000000000])])
    = (Some (True, [123, 10, 32, 32, 32, 34, 107, 34, 58, 32, 91, 32, 45, 53, 44, 32, 34, 92, 34, 92, 117, 48, 48, 51, 67, 34, 44, 32,
        49, 46, 53, 32, 93, 10, 125, 10]))
    \<and> JSONReader_Read 0 (\<lambda>t. (0x3FF8000000000000, length t)) (\<lambda>_. 0)
      [123, 10, 32, 32, 32, 34, 107, 34, 58, 32, 91, 32, 45, 53, 44, 32, 34, 92, 34, 92, 117, 48, 48, 51, 67, 34, 44, 32,
        49, 46, 53, 32, 93, 10, 125, 10]
    = Some (Some (DictionaryValue [([107], ListValue [IntegerValue (- 5), StringValue [34, 60], DoubleValue 0x3FF8000000000000])]))"
  (is "?written = Some (True, ?json) \<and> ?read = _")
proof -
  let ?d = "0x3FF8000000000000 :: u64" and ?strtod = "\<lambda>t :: u8 list. (0x3FF8000000000000 :: u64, length t)"
  let ?w = "JSONWriter 4 (\<lambda>_. [49, 46, 53, 48, 48, 48]) (\<lambda>d. d)"
  have d: "write_double ?w ?d = [49, 46, 53]" "double_is_finite ?d" by code_simp+
  have "IntToString (sint (- 5 :: u32)) = [45, 53]" by code_simp
  moreover have "EscapeJSONString [107] True out = Some (True, out @ [34, 107, 34])" for out
    using EscapeJSONString_characters [of "[107]" "[107]" out]
    by (simp add: valid_ascii APPEND_ascii escape_code_point_def EscapeSpecialCodePoint_def write8)
  moreover have "EscapeJSONString [34, 60] True out = Some (True, out @ [34, 92, 34, 92, 117, 48, 48, 51, 67, 34])" for out
    using EscapeJSONString_characters [of "[34, 60]" "[34, 60]" out]
    by (simp add: valid_ascii APPEND_ascii escape_code_point_def EscapeSpecialCodePoint_def)
  ultimately have wr: "?written = Some (True, ?json)"
    using d(1) by (simp add: JSONWriter_WriteWithOptions_def kPrettyPrintLineEnding_def IndentLine_def JSONWriter_def
        OPTIONS_PRETTY_PRINT_def OPTIONS_OMIT_BINARY_VALUES_def OPTIONS_OMIT_DOUBLE_TYPE_PRESERVATION_def numeral_3_eq_3)
  have "number_token [49, 46, 53]"
    unfolding number_token_def by (intro exI [of _ "[]"] exI [of _ "[49]"] exI [of _ "[53]"]) (simp add: IsAsciiDigit_def)
  then have "reads_back ?strtod ?w ?d" using d by (simp add: reads_back_def)
  moreover have "writable_string [107]" "writable_string [34, 60]" by (simp_all add: writable_string_def ascii_text)
  ultimately have "json_value writable_string (reads_back ?strtod ?w) (kStackMaxDepth - 1)
      (DictionaryValue [([107], ListValue [IntegerValue (- 5), StringValue [34, 60], DoubleValue ?d])])"
    by (simp add: kStackMaxDepth_def)
  from json_roundtrip [OF this, of 0 "\<lambda>_. 0"] wr show ?thesis by simp
qed

end
