(* ===== verification/WaitableEvent.thy ===== *)
theory WaitableEvent
  imports Prelude
begin

text \<open>
  base/synchronization/waitable_event_posix.cc: events with a list of waiters, under threads that run in
  any order.  Events and threads are numbers (an event's is its address); a thread's SyncWaiter lives on
  its stack, so a waiter is its thread.  A step of a thread is what it does between taking and releasing
  a lock, but for Signal and EnqueueMany, which keep the lock of an event over several steps: there each
  call of Fire, which takes the waiter's lock, and each further lock is a step of its own.  Time is
  a choice: a wait with a time limit may find it reached at every turn.
\<close>

section \<open>The state\<close>

text \<open>Where a thread is.  Gathering is EnqueueMany, with the events whose locks it holds and those left.\<close>

datatype thread_state =
    Ready
  | SignallingOne nat
  | SignallingAll nat "nat list"
  | Blocked nat bool
  | Dequeueing nat bool
  | Gathering "nat list" "nat list" "(nat \<times> nat) list"
  | BlockedMany "nat list"
  | DequeueingMany "nat list" "nat list" nat

text \<open>What the calls made of the events: a Signal that found its event unset, a waiter fired by an event,
  a wait that returned for an event or without, an IsSignaled and a Reset that cleared an event.\<close>

datatype happening =
    Signalled nat
  | Fired nat nat
  | Woken nat nat
  | TimedOut nat nat
  | Tested nat
  | Cleared nat

record events =
  signaled :: "nat \<Rightarrow> bool"
  waiters :: "nat \<Rightarrow> nat list"
  owner :: "nat \<Rightarrow> nat option"
  sw_fired :: "nat \<Rightarrow> bool"
  sw_event :: "nat \<Rightarrow> nat option"
  at :: "nat \<Rightarrow> thread_state"
  history :: "happening list"

definition new_events :: "(nat \<Rightarrow> bool) \<Rightarrow> events" where
  "new_events initially_signaled =
     \<lparr>signaled = initially_signaled, waiters = (\<lambda>_. []), owner = (\<lambda>_. None), sw_fired = (\<lambda>_. False),
      sw_event = (\<lambda>_. None), at = (\<lambda>_. Ready), history = []\<rparr>"

definition happens :: "happening list \<Rightarrow> events \<Rightarrow> events" where
  "happens hs s = s\<lparr>history := hs @ history s\<rparr>"

definition goes_to :: "nat \<Rightarrow> thread_state \<Rightarrow> events \<Rightarrow> events" where
  "goes_to t p s = s\<lparr>at := (at s)(t := p)\<rparr>"

definition set_signaled :: "nat \<Rightarrow> bool \<Rightarrow> events \<Rightarrow> events" where
  "set_signaled e b s = s\<lparr>signaled := (signaled s)(e := b)\<rparr>"

definition set_waiters :: "nat \<Rightarrow> nat list \<Rightarrow> events \<Rightarrow> events" where
  "set_waiters e ws s = s\<lparr>waiters := (waiters s)(e := ws)\<rparr>"

definition Acquire :: "nat \<Rightarrow> nat \<Rightarrow> events \<Rightarrow> events" where
  "Acquire t e s = s\<lparr>owner := (owner s)(e := Some t)\<rparr>"

definition Release :: "nat list \<Rightarrow> events \<Rightarrow> events" where
  "Release es s = s\<lparr>owner := (\<lambda>e. if e \<in> set es then None else owner s e)\<rparr>"

text \<open>SyncWaiter.\<close>

definition new_waiter :: "nat \<Rightarrow> events \<Rightarrow> events" where
  "new_waiter w s = s\<lparr>sw_fired := (sw_fired s)(w := False), sw_event := (sw_event s)(w := None)\<rparr>"

definition Fire :: "nat \<Rightarrow> nat \<Rightarrow> events \<Rightarrow> bool \<times> events" where
  "Fire w e s =
     (if sw_fired s w then (False, s)
      else (True, happens [Fired w e]
        (s\<lparr>sw_fired := (sw_fired s)(w := True), sw_event := (sw_event s)(w := Some e)\<rparr>)))"

definition Disable :: "nat \<Rightarrow> events \<Rightarrow> events" where
  "Disable w s = s\<lparr>sw_fired := (sw_fired s)(w := True)\<rparr>"

definition Enqueue :: "nat \<Rightarrow> nat list \<Rightarrow> events \<Rightarrow> events" where
  "Enqueue w es s = s\<lparr>waiters := (\<lambda>e. if e \<in> set es then waiters s e @ [w] else waiters s e)\<rparr>"

definition Dequeue :: "nat \<Rightarrow> nat \<Rightarrow> events \<Rightarrow> bool \<times> events" where
  "Dequeue e w s = (w \<in> set (waiters s e), set_waiters e (remove1 w (waiters s e)) s)"

section \<open>The calls\<close>

datatype event_call =
    CallReset nat
  | CallSignal nat
  | CallIsSignaled nat
  | CallTimedWait nat bool
  | CallWaitMany "nat list"

text \<open>A wait that finds its event signaled: an auto-reset event is reset.\<close>

definition take_signal :: "(nat \<Rightarrow> bool) \<Rightarrow> nat \<Rightarrow> nat \<Rightarrow> events \<Rightarrow> events" where
  "take_signal manual t e s =
     happens [Woken t e, Fired t e] (if manual e then s else set_signaled e False s)"

definition Reset :: "nat \<Rightarrow> events \<Rightarrow> events" where
  "Reset e s = happens (if signaled s e then [Cleared e] else []) (set_signaled e False s)"

definition Signal :: "(nat \<Rightarrow> bool) \<Rightarrow> nat \<Rightarrow> nat \<Rightarrow> events \<Rightarrow> events" where
  "Signal manual t e s =
     (if signaled s e then s
      else happens [Signalled e] (Acquire t e
        (goes_to t (if manual e then SignallingAll e (waiters s e) else SignallingOne e) s)))"

definition IsSignaled :: "(nat \<Rightarrow> bool) \<Rightarrow> nat \<Rightarrow> events \<Rightarrow> bool \<times> events" where
  "IsSignaled manual e s =
     (let result = signaled s e
      in (result, if result \<and> \<not> manual e then happens [Tested e] (set_signaled e False s) else s))"

definition TimedWait :: "(nat \<Rightarrow> bool) \<Rightarrow> nat \<Rightarrow> nat \<Rightarrow> bool \<Rightarrow> events \<Rightarrow> events" where
  "TimedWait manual t e finite_time s =
     (if signaled s e then take_signal manual t e s
      else goes_to t (Blocked e finite_time) (Enqueue t [e] (new_waiter t s)))"

definition sorted_waitables :: "nat list \<Rightarrow> (nat \<times> nat) list" where
  "sorted_waitables raw = sort_key fst (zip raw [0 ..< length raw])"

text \<open>
  Whether the call is admissible and its first lock is free, and the state after its first step.  The
  waitables must be distinct and not none.
\<close>

fun begins :: "(nat \<Rightarrow> bool) \<Rightarrow> nat \<Rightarrow> event_call \<Rightarrow> events \<Rightarrow> events option" where
  "begins manual t (CallReset e) s = (if owner s e \<noteq> None then None else Some (Reset e s))"
| "begins manual t (CallSignal e) s = (if owner s e \<noteq> None then None else Some (Signal manual t e s))"
| "begins manual t (CallIsSignaled e) s = (if owner s e \<noteq> None then None else Some (snd (IsSignaled manual e s)))"
| "begins manual t (CallTimedWait e finite_time) s =
     (if owner s e \<noteq> None then None else Some (TimedWait manual t e finite_time s))"
| "begins manual t (CallWaitMany raw) s =
     (if raw = [] \<or> \<not> distinct raw then None else Some (goes_to t (Gathering raw [] (sorted_waitables raw)) s))"

section \<open>The steps\<close>

definition SignalOne :: "nat \<Rightarrow> nat \<Rightarrow> events \<Rightarrow> events" where
  "SignalOne t e s =
     (case waiters s e of
        [] \<Rightarrow> goes_to t Ready (Release [e] (set_signaled e True s))
      | w # ws \<Rightarrow>
          let (r, s) = Fire w e s; s = set_waiters e ws s
          in if r then goes_to t Ready (Release [e] s) else s)"

definition SignalAll :: "nat \<Rightarrow> nat \<Rightarrow> nat list \<Rightarrow> events \<Rightarrow> events" where
  "SignalAll t e left s =
     (case left of
        [] \<Rightarrow> goes_to t Ready (Release [e] (set_signaled e True (set_waiters e [] s)))
      | w # ws \<Rightarrow> goes_to t (SignallingAll e ws) (snd (Fire w e s)))"

text \<open>A turn of the loop of TimedWait, and what follows it.\<close>

definition wait_turn :: "nat \<Rightarrow> nat \<Rightarrow> bool \<Rightarrow> events \<Rightarrow> events option" where
  "wait_turn t e timed_out s =
     (if sw_fired s t \<or> timed_out then Some (goes_to t (Dequeueing e (sw_fired s t)) (Disable t s)) else None)"

definition wait_end :: "nat \<Rightarrow> nat \<Rightarrow> bool \<Rightarrow> events \<Rightarrow> events" where
  "wait_end t e return_value s =
     goes_to t Ready (happens [if return_value then Woken t e else TimedOut t e] (snd (Dequeue e t s)))"

text \<open>EnqueueMany takes the next lock, or has them all.\<close>

definition EnqueueMany :: "(nat \<Rightarrow> bool) \<Rightarrow> nat \<Rightarrow> nat list \<Rightarrow> nat list \<Rightarrow> (nat \<times> nat) list \<Rightarrow> events \<Rightarrow> events option" where
  "EnqueueMany manual t raw held left s =
     (case left of
        [] \<Rightarrow> Some (goes_to t (BlockedMany raw) (Release held (Enqueue t held (new_waiter t s))))
      | (e, i) # left \<Rightarrow>
          if owner s e \<noteq> None then None
          else if signaled s e then Some (goes_to t Ready (Release held (take_signal manual t (raw ! i) s)))
          else Some (goes_to t (Gathering raw (held @ [e]) left) (Acquire t e s)))"

text \<open>The last index at which the event stands that fired, 0 if there is none.\<close>

definition signaled_index :: "nat list \<Rightarrow> nat \<Rightarrow> nat" where
  "signaled_index raw e = foldl (\<lambda>r i. if raw ! i = e then i else r) 0 [0 ..< length raw]"

definition many_turn :: "nat \<Rightarrow> nat list \<Rightarrow> events \<Rightarrow> events option" where
  "many_turn t raw s =
     (if sw_fired s t then Some (goes_to t (DequeueingMany raw raw (the (sw_event s t))) s) else None)"

definition many_end :: "nat \<Rightarrow> nat list \<Rightarrow> nat list \<Rightarrow> nat \<Rightarrow> events \<Rightarrow> events option" where
  "many_end t raw left e s =
     (case left of
        [] \<Rightarrow> Some (goes_to t Ready (happens [Woken t (raw ! signaled_index raw e)] s))
      | e' # left \<Rightarrow>
          if owner s e' \<noteq> None then None
          else Some (goes_to t (DequeueingMany raw left e) (if e' \<noteq> e then snd (Dequeue e' t s) else s)))"

fun continues :: "(nat \<Rightarrow> bool) \<Rightarrow> nat \<Rightarrow> bool \<Rightarrow> events \<Rightarrow> events option" where
  "continues manual t time_is_up s =
     (case at s t of
        Ready \<Rightarrow> None
      | SignallingOne e \<Rightarrow> Some (SignalOne t e s)
      | SignallingAll e left \<Rightarrow> Some (SignalAll t e left s)
      | Blocked e finite_time \<Rightarrow> wait_turn t e (finite_time \<and> time_is_up) s
      | Dequeueing e return_value \<Rightarrow> if owner s e \<noteq> None then None else Some (wait_end t e return_value s)
      | Gathering raw held left \<Rightarrow> EnqueueMany manual t raw held left s
      | BlockedMany raw \<Rightarrow> many_turn t raw s
      | DequeueingMany raw left e \<Rightarrow> many_end t raw left e s)"

inductive event_step :: "(nat \<Rightarrow> bool) \<Rightarrow> events \<Rightarrow> events \<Rightarrow> bool" for manual where
  begin_call: "at s t = Ready \<Longrightarrow> begins manual t c s = Some s' \<Longrightarrow> event_step manual s s'"
| continue_call: "continues manual t time_is_up s = Some s' \<Longrightarrow> event_step manual s s'"

inductive reachable_events :: "(nat \<Rightarrow> bool) \<Rightarrow> (nat \<Rightarrow> bool) \<Rightarrow> events \<Rightarrow> bool" for manual initial where
  start: "reachable_events manual initial (new_events initial)"
| after: "reachable_events manual initial s \<Longrightarrow> event_step manual s s' \<Longrightarrow> reachable_events manual initial s'"

end
