(* ===== verification/WaitableEventInvariant.thy ===== *)
theory WaitableEventInvariant
  imports WaitableEvent
begin

text \<open>
  The invariant of waitable events under all interleavings: the locks, the lists of waiters, what a thread
  knows at each place of a call, and the accounts of signals and wakes.
\<close>

section \<open>The invariant\<close>

text \<open>The locks a thread holds, and the events in whose lists its waiter may be.\<close>

fun holds :: "thread_state \<Rightarrow> nat set" where
  "holds (SignallingOne e) = {e}"
| "holds (SignallingAll e left) = {e}"
| "holds (Gathering raw held left) = set held"
| "holds _ = {}"

fun places :: "thread_state \<Rightarrow> nat set" where
  "places (Blocked e finite_time) = {e}"
| "places (Dequeueing e return_value) = {e}"
| "places (BlockedMany raw) = set raw"
| "places (DequeueingMany raw left e) = set left"
| "places _ = {}"

fun waits :: "thread_state \<Rightarrow> bool" where
  "waits (Blocked e finite_time) = True"
| "waits (Dequeueing e return_value) = True"
| "waits (BlockedMany raw) = True"
| "waits (DequeueingMany raw left e) = True"
| "waits _ = False"

fun thread_ok :: "(nat \<Rightarrow> bool) \<Rightarrow> events \<Rightarrow> nat \<Rightarrow> thread_state \<Rightarrow> bool" where
  "thread_ok manual s t Ready \<longleftrightarrow> True"
| "thread_ok manual s t (SignallingOne e) \<longleftrightarrow> \<not> manual e"
| "thread_ok manual s t (SignallingAll e left) \<longleftrightarrow>
     manual e \<and> (\<exists>fired. waiters s e = fired @ left \<and> (\<forall>w \<in> set fired. sw_fired s w))"
| "thread_ok manual s t (Blocked e finite_time) \<longleftrightarrow> sw_event s t = (if sw_fired s t then Some e else None)"
| "thread_ok manual s t (Dequeueing e return_value) \<longleftrightarrow>
     sw_fired s t \<and> sw_event s t = (if return_value then Some e else None)"
| "thread_ok manual s t (Gathering raw held left) \<longleftrightarrow>
     raw \<noteq> [] \<and> distinct raw \<and> set (held @ map fst left) = set raw \<and> sorted_wrt (<) (held @ map fst left)
     \<and> (\<forall>(e, i) \<in> set left. i < length raw \<and> raw ! i = e)"
| "thread_ok manual s t (BlockedMany raw) \<longleftrightarrow>
     distinct raw \<and> (if sw_fired s t then sw_event s t \<in> Some ` set raw else sw_event s t = None)"
| "thread_ok manual s t (DequeueingMany raw left e) \<longleftrightarrow>
     distinct raw \<and> distinct left \<and> set left \<subseteq> set raw \<and> e \<in> set raw \<and> sw_fired s t \<and> sw_event s t = Some e"

definition locks_ok :: "events \<Rightarrow> bool" where
  "locks_ok s \<longleftrightarrow> (\<forall>e t. owner s e = Some t \<longleftrightarrow> e \<in> holds (at s t)) \<and> (\<forall>e t. e \<in> holds (at s t) \<longrightarrow> \<not> signaled s e)"

definition lists_ok :: "events \<Rightarrow> bool" where
  "lists_ok s \<longleftrightarrow> (\<forall>e. distinct (waiters s e)) \<and> (\<forall>e. signaled s e \<longrightarrow> waiters s e = [])
     \<and> (\<forall>e w. w \<in> set (waiters s e) \<longrightarrow> e \<in> places (at s w))
     \<and> (\<forall>e w. w \<in> set (waiters s e) \<longrightarrow> sw_event s w = Some e \<longrightarrow> (\<exists>t left. at s t = SignallingAll e left))"

definition threads_ok :: "(nat \<Rightarrow> bool) \<Rightarrow> events \<Rightarrow> bool" where
  "threads_ok manual s \<longleftrightarrow> (\<forall>t. thread_ok manual s t (at s t))"

definition tally :: "(happening \<Rightarrow> bool) \<Rightarrow> events \<Rightarrow> nat" where
  "tally P s = length (filter P (history s))"

definition fired_by :: "nat \<Rightarrow> happening \<Rightarrow> bool" where
  "fired_by e h \<longleftrightarrow> (\<exists>w. h = Fired w e)"

text \<open>Every signal of an auto-reset event is used once, or still there.\<close>

definition signal_left :: "events \<Rightarrow> nat \<Rightarrow> bool" where
  "signal_left s e \<longleftrightarrow> signaled s e \<or> (case owner s e of None \<Rightarrow> False | Some t \<Rightarrow> at s t = SignallingOne e)"

definition signals_ok :: "(nat \<Rightarrow> bool) \<Rightarrow> (nat \<Rightarrow> bool) \<Rightarrow> events \<Rightarrow> bool" where
  "signals_ok manual initial s \<longleftrightarrow> (\<forall>e. \<not> manual e \<longrightarrow>
     of_bool (initial e) + tally ((=) (Signalled e)) s =
       tally (fired_by e) s + tally ((=) (Tested e)) s + tally ((=) (Cleared e)) s + of_bool (signal_left s e))"

text \<open>A waiter that was fired wakes its thread once.\<close>

definition wakes_ok :: "events \<Rightarrow> bool" where
  "wakes_ok s \<longleftrightarrow> (\<forall>t e. tally ((=) (Fired t e)) s =
     tally ((=) (Woken t e)) s + of_bool (waits (at s t) \<and> sw_event s t = Some e))"

definition events_ok :: "(nat \<Rightarrow> bool) \<Rightarrow> (nat \<Rightarrow> bool) \<Rightarrow> events \<Rightarrow> bool" where
  "events_ok manual initial s \<longleftrightarrow>
     locks_ok s \<and> lists_ok s \<and> threads_ok manual s \<and> signals_ok manual initial s \<and> wakes_ok s"

text \<open>What each step changes.\<close>

lemma happens_simps [simp]:
  "signaled (happens hs s) = signaled s" "waiters (happens hs s) = waiters s"
  "owner (happens hs s) = owner s" "sw_fired (happens hs s) = sw_fired s"
  "sw_event (happens hs s) = sw_event s" "at (happens hs s) = at s"
  "history (happens hs s) = hs @ history s"
  by (simp_all add: happens_def)

lemma goes_to_simps [simp]:
  "signaled (goes_to t p s) = signaled s" "waiters (goes_to t p s) = waiters s"
  "owner (goes_to t p s) = owner s" "sw_fired (goes_to t p s) = sw_fired s"
  "sw_event (goes_to t p s) = sw_event s" "at (goes_to t p s) = (at s)(t := p)"
  "history (goes_to t p s) = history s"
  by (simp_all add: goes_to_def)

lemma set_signaled_simps [simp]:
  "signaled (set_signaled e b s) = (signaled s)(e := b)" "waiters (set_signaled e b s) = waiters s"
  "owner (set_signaled e b s) = owner s" "sw_fired (set_signaled e b s) = sw_fired s"
  "sw_event (set_signaled e b s) = sw_event s" "at (set_signaled e b s) = at s"
  "history (set_signaled e b s) = history s"
  by (simp_all add: set_signaled_def)

lemma set_waiters_simps [simp]:
  "signaled (set_waiters e ws s) = signaled s" "waiters (set_waiters e ws s) = (waiters s)(e := ws)"
  "owner (set_waiters e ws s) = owner s" "sw_fired (set_waiters e ws s) = sw_fired s"
  "sw_event (set_waiters e ws s) = sw_event s" "at (set_waiters e ws s) = at s"
  "history (set_waiters e ws s) = history s"
  by (simp_all add: set_waiters_def)

lemma Acquire_simps [simp]:
  "signaled (Acquire t e s) = signaled s" "waiters (Acquire t e s) = waiters s"
  "owner (Acquire t e s) = (owner s)(e := Some t)" "sw_fired (Acquire t e s) = sw_fired s"
  "sw_event (Acquire t e s) = sw_event s" "at (Acquire t e s) = at s"
  "history (Acquire t e s) = history s"
  by (simp_all add: Acquire_def)

lemma Release_simps [simp]:
  "signaled (Release es s) = signaled s" "waiters (Release es s) = waiters s"
  "owner (Release es s) = (\<lambda>e. if e \<in> set es then None else owner s e)" "sw_fired (Release es s) = sw_fired s"
  "sw_event (Release es s) = sw_event s" "at (Release es s) = at s"
  "history (Release es s) = history s"
  by (simp_all add: Release_def)

lemma new_waiter_simps [simp]:
  "signaled (new_waiter w s) = signaled s" "waiters (new_waiter w s) = waiters s"
  "owner (new_waiter w s) = owner s" "sw_fired (new_waiter w s) = (sw_fired s)(w := False)"
  "sw_event (new_waiter w s) = (sw_event s)(w := None)" "at (new_waiter w s) = at s"
  "history (new_waiter w s) = history s"
  by (simp_all add: new_waiter_def)

lemma Disable_simps [simp]:
  "signaled (Disable w s) = signaled s" "waiters (Disable w s) = waiters s"
  "owner (Disable w s) = owner s" "sw_fired (Disable w s) = (sw_fired s)(w := True)"
  "sw_event (Disable w s) = sw_event s" "at (Disable w s) = at s"
  "history (Disable w s) = history s"
  by (simp_all add: Disable_def)

lemma Enqueue_simps [simp]:
  "signaled (Enqueue w es s) = signaled s" "waiters (Enqueue w es s) = (\<lambda>e. if e \<in> set es then waiters s e @ [w] else waiters s e)"
  "owner (Enqueue w es s) = owner s" "sw_fired (Enqueue w es s) = sw_fired s"
  "sw_event (Enqueue w es s) = sw_event s" "at (Enqueue w es s) = at s"
  "history (Enqueue w es s) = history s"
  by (simp_all add: Enqueue_def)

lemma Fire_simps [simp]:
  "fst (Fire w e s) \<longleftrightarrow> \<not> sw_fired s w"
  "signaled (snd (Fire w e s)) = signaled s" "waiters (snd (Fire w e s)) = waiters s"
  "owner (snd (Fire w e s)) = owner s" "at (snd (Fire w e s)) = at s"
  "sw_fired (snd (Fire w e s)) = (sw_fired s)(w := True)"
  "sw_event (snd (Fire w e s)) = (if sw_fired s w then sw_event s else (sw_event s)(w := Some e))"
  "history (snd (Fire w e s)) = (if sw_fired s w then history s else Fired w e # history s)"
  by (simp_all add: Fire_def fun_eq_iff)

lemma take_signal_simps [simp]:
  "signaled (take_signal manual t e s) = (if manual e then signaled s else (signaled s)(e := False))"
  "waiters (take_signal manual t e s) = waiters s" "owner (take_signal manual t e s) = owner s"
  "at (take_signal manual t e s) = at s" "sw_fired (take_signal manual t e s) = sw_fired s"
  "sw_event (take_signal manual t e s) = sw_event s"
  "history (take_signal manual t e s) = Woken t e # Fired t e # history s"
  by (simp_all add: take_signal_def)

lemma events_ok_new: "events_ok manual initial (new_events initial)"
  by (simp add: events_ok_def locks_ok_def lists_ok_def threads_ok_def signals_ok_def signal_left_def wakes_ok_def new_events_def tally_def)

section \<open>Locks\<close>

lemma lockD: "locks_ok s \<Longrightarrow> owner s e = Some t \<longleftrightarrow> e \<in> holds (at s t)"
  by (simp add: locks_ok_def)

lemma unlocked: "locks_ok s \<Longrightarrow> owner s e = None \<Longrightarrow> e \<notin> holds (at s t)"
  using lockD [of s e t] by simp

lemma locked_unset: "locks_ok s \<Longrightarrow> e \<in> holds (at s t) \<Longrightarrow> \<not> signaled s e"
  unfolding locks_ok_def by blast

lemma locked_by: "locks_ok s \<Longrightarrow> e \<in> holds (at s t) \<Longrightarrow> e \<in> holds (at s u) \<Longrightarrow> t = u"
  using lockD by (metis option.inject)

text \<open>A thread that moves on and takes or gives up locks.\<close>

lemma locks_move:
  assumes l: "locks_ok s" and m: "at s' = (at s)(t := p)"
    and o: "\<And>e. owner s' e = (if e \<in> holds p then Some t else if e \<in> holds (at s t) then None else owner s e)"
    and free: "\<And>e. e \<in> holds p \<Longrightarrow> (e \<in> holds (at s t) \<or> owner s e = None) \<and> \<not> signaled s' e"
    and set: "\<And>e. signaled s' e \<Longrightarrow> signaled s e \<or> e \<in> holds (at s t) \<or> owner s e = None"
  shows "locks_ok s'"
  unfolding locks_ok_def
proof (intro conjI allI impI)
  fix e u
  show "owner s' e = Some u \<longleftrightarrow> e \<in> holds (at s' u)"
    using o [of e] free [of e] locked_by [OF l, of e] lockD [OF l, of e u] unlocked [OF l, of e u] unfolding m
    by (cases "u = t") (auto split: if_splits)
  assume "e \<in> holds (at s' u)"
  then show "\<not> signaled s' e"
    using free [of e] set [of e] locked_by [OF l, of e] locked_unset [OF l, of e u] unlocked [OF l, of e u] unfolding m
    by (cases "u = t") auto
qed

lemma locks_begin:
  assumes l: "locks_ok s" and r: "at s t = Ready" and c: "begins manual t c s = Some s'"
  shows "locks_ok s'"
proof (rule locks_move [OF l, of _ t "at s' t"])
  show "at s' = (at s)(t := at s' t)"
    using c r by (cases c) (auto simp: Reset_def Signal_def IsSignaled_def TimedWait_def Let_def split: if_splits)
  show "owner s' e = (if e \<in> holds (at s' t) then Some t else if e \<in> holds (at s t) then None else owner s e)" for e
    using c r unlocked [OF l, of e t]
    by (cases c) (auto simp: Reset_def Signal_def IsSignaled_def TimedWait_def Let_def split: if_splits)
  show "(e \<in> holds (at s t) \<or> owner s e = None) \<and> \<not> signaled s' e" if "e \<in> holds (at s' t)" for e
    using c r that by (cases c) (auto simp: Reset_def Signal_def IsSignaled_def TimedWait_def Let_def split: if_splits)
  show "signaled s e \<or> e \<in> holds (at s t) \<or> owner s e = None" if "signaled s' e" for e
    using c r that by (cases c) (auto simp: Reset_def Signal_def IsSignaled_def TimedWait_def Let_def split: if_splits)
qed

lemmas call_defs = Reset_def Signal_def IsSignaled_def TimedWait_def Let_def
lemmas turn_defs = SignalOne_def SignalAll_def wait_turn_def wait_end_def Dequeue_def EnqueueMany_def many_turn_def many_end_def
  Let_def split_beta

lemma locks_continue:
  assumes l: "locks_ok s" and c: "continues manual t b s = Some s'"
  shows "locks_ok s'"
proof (rule locks_move [OF l, of _ t "at s' t"])
  note h = unlocked [OF l, of _ t] locked_unset [OF l, of _ t] lockD [OF l, of _ t]
  show "at s' = (at s)(t := at s' t)"
    using c by (cases "at s t") (auto simp: turn_defs split: if_splits list.splits)
  show "owner s' e = (if e \<in> holds (at s' t) then Some t else if e \<in> holds (at s t) then None else owner s e)" for e
    using c h by (cases "at s t") (auto simp: turn_defs split: if_splits list.splits)
  show "(e \<in> holds (at s t) \<or> owner s e = None) \<and> \<not> signaled s' e" if "e \<in> holds (at s' t)" for e
    using c h that by (cases "at s t") (auto simp: turn_defs split: if_splits list.splits)
  show "signaled s e \<or> e \<in> holds (at s t) \<or> owner s e = None" if "signaled s' e" for e
    using c that by (cases "at s t") (auto simp: turn_defs split: if_splits list.splits)
qed

section \<open>Lists\<close>

lemma listsD:
  assumes "lists_ok s"
  shows "distinct (waiters s e)" and "signaled s e \<Longrightarrow> waiters s e = []"
    and "w \<in> set (waiters s e) \<Longrightarrow> e \<in> places (at s w)"
    and "w \<in> set (waiters s e) \<Longrightarrow> sw_event s w = Some e \<Longrightarrow> \<exists>t left. at s t = SignallingAll e left"
  using assms unfolding lists_ok_def by blast+

lemma lists_begin:
  assumes l: "lists_ok s" and r: "at s t = Ready" and c: "begins manual t c s = Some s'"
  shows "lists_ok s'"
proof -
  note d = listsD [OF l]
  have t: "t \<notin> set (waiters s e)" for e using d(3) [of t e] r by auto
  have at: "at s' u = at s u" "sw_event s' u = sw_event s u" if "u \<noteq> t" for u
    using c that by (cases c; auto simp: call_defs split: if_splits)+
  have ws: "waiters s' e = waiters s e \<or> waiters s' e = waiters s e @ [t] \<and> e \<in> places (at s' t) \<and> sw_event s' t = None" for e
    using c r by (cases c) (auto simp: call_defs split: if_splits)
  have sg: "signaled s' e \<Longrightarrow> signaled s e \<and> waiters s' e = waiters s e" for e
    using c r by (cases c) (auto simp: call_defs split: if_splits)
  show ?thesis
    unfolding lists_ok_def
  proof (intro conjI allI impI)
    fix e w
    show "distinct (waiters s' e)" using ws [of e] d(1) t by auto
    show "waiters s' e = []" if "signaled s' e" using sg [OF that] d(2) by simp
    assume w: "w \<in> set (waiters s' e)"
    then have old: "w \<in> set (waiters s e) \<and> w \<noteq> t \<or> w = t \<and> e \<in> places (at s' t) \<and> sw_event s' t = None"
      using ws [of e] t by auto
    then show "e \<in> places (at s' w)" using at d(3) by auto
    show "\<exists>u left. at s' u = SignallingAll e left" if "sw_event s' w = Some e"
      using old that at d(4) r by (metis option.distinct(1) thread_state.distinct(3))
  qed
qed

text \<open>A thread that moves on: what it does to the lists.\<close>

lemma lists_move:
  assumes l: "lists_ok s" and m: "at s' = (at s)(t := p)"
    and d: "\<And>e. distinct (waiters s' e)" and n: "\<And>e. signaled s' e \<Longrightarrow> waiters s' e = []"
    and old: "\<And>e w. w \<in> set (waiters s' e) \<Longrightarrow> w \<in> set (waiters s e) \<and> w \<noteq> t \<or> w = t \<and> e \<in> places p"
    and ev: "\<And>e w. w \<in> set (waiters s' e) \<Longrightarrow> sw_event s' w = Some e \<Longrightarrow>
      (w \<in> set (waiters s e) \<and> sw_event s w = Some e \<and> (\<forall>left. at s t \<noteq> SignallingAll e left)) \<or> (\<exists>left. p = SignallingAll e left)"
  shows "lists_ok s'"
  unfolding lists_ok_def
proof (intro conjI allI impI)
  fix e w
  show "distinct (waiters s' e)" by (rule d)
  show "waiters s' e = []" if "signaled s' e" using that by (rule n)
  assume w: "w \<in> set (waiters s' e)"
  then show "e \<in> places (at s' w)" using old listsD(3) [OF l] m by fastforce
  assume "sw_event s' w = Some e"
  from ev [OF w this] show "\<exists>u left. at s' u = SignallingAll e left"
  proof
    assume a: "w \<in> set (waiters s e) \<and> sw_event s w = Some e \<and> (\<forall>left. at s t \<noteq> SignallingAll e left)"
    then obtain u left where "at s u = SignallingAll e left" using listsD(4) [OF l] by blast
    then show ?thesis using a m by (intro exI [of _ u] exI [of _ left]) auto
  qed (use m in auto)
qed

lemma lists_continue:
  assumes l: "lists_ok s" and k: "locks_ok s" and o: "threads_ok manual s" and c: "continues manual t b s = Some s'"
  shows "lists_ok s'"
proof -
  note d = listsD [OF l]
  have ok: "thread_ok manual s t (at s t)" using o by (simp add: threads_ok_def)
  have m: "at s' = (at s)(t := at s' t)"
    using c by (cases "at s t") (auto simp: turn_defs split: if_splits list.splits)
  have t: "t \<in> set (waiters s e) \<Longrightarrow> e \<in> places (at s t)" for e using d(3) .
  have free: "w \<in> set (waiters s e) \<Longrightarrow> sw_event s w = Some e \<Longrightarrow> owner s e \<noteq> None" for e w
  proof -
    assume "w \<in> set (waiters s e)" "sw_event s w = Some e"
    then obtain u left where "at s u = SignallingAll e left" using d(4) by blast
    then have "owner s e = Some u" using lockD [OF k] by simp
    then show ?thesis by simp
  qed
  show ?thesis
  proof (rule lists_move [OF l m])
    fix e
    show "distinct (waiters s' e)"
      using c d(1) [of e] t [of e] by (cases "at s t") (auto simp: turn_defs split: if_splits list.splits)
    show "waiters s' e = []" if "signaled s' e"
      using c that d(2) [of e] locked_unset [OF k, of e t] ok
      by (cases "at s t") (auto simp: turn_defs split: if_splits list.splits)
    fix w
    assume w: "w \<in> set (waiters s' e)"
    show "w \<in> set (waiters s e) \<and> w \<noteq> t \<or> w = t \<and> e \<in> places (at s' t)"
      using c w t [of e] d(1) [of e] ok free [of t e]
      by (cases "at s t") (auto simp: turn_defs split: if_splits list.splits)
    assume v: "sw_event s' w = Some e"
    show "w \<in> set (waiters s e) \<and> sw_event s w = Some e \<and> (\<forall>left. at s t \<noteq> SignallingAll e left) \<or> (\<exists>left. at s' t = SignallingAll e left)"
      using c w v t [of e] d(1) [of e] ok
      by (cases "at s t") (auto simp: turn_defs split: if_splits list.splits)
  qed
qed

section \<open>Threads\<close>

text \<open>What thread_ok of another thread reads is not changed for it.\<close>

lemma thread_ok_cong:
  assumes "thread_ok manual s u p" and "waits p \<Longrightarrow> sw_fired s' u = sw_fired s u \<and> sw_event s' u = sw_event s u"
    and "\<And>e left. p = SignallingAll e left \<Longrightarrow> waiters s' e = waiters s e"
    and "\<And>e left w. p = SignallingAll e left \<Longrightarrow> w \<in> set (waiters s e) \<Longrightarrow> sw_fired s w \<Longrightarrow> sw_fired s' w"
  shows "thread_ok manual s' u p"
  using assms by (cases p) (auto 0 3)

lemma sorted_waitables_sorted: "distinct raw \<Longrightarrow> sorted_wrt (<) (map fst (sorted_waitables raw))"
proof -
  assume d: "distinct raw"
  have "inj_on fst (set (zip raw [0 ..< length raw]))"
    using d by (auto simp: inj_on_def set_zip nth_eq_iff_index_eq)
  moreover have "distinct (zip raw [0 ..< length raw])" using d by (rule distinct_zipI1)
  ultimately have "distinct (map fst (sorted_waitables raw))" by (simp add: sorted_waitables_def distinct_map)
  then show ?thesis by (simp add: strict_sorted_iff sorted_waitables_def)
qed

text \<open>A thread whose waiter an event of its list fires.\<close>

lemma thread_ok_fired:
  assumes "thread_ok manual s u p" and "waits p" and "e \<in> places p" and "\<not> sw_fired s u"
    and "sw_fired s' u" and "sw_event s' u = Some e"
  shows "thread_ok manual s' u p"
  using assms by (cases p) auto

lemma threads_begin:
  assumes o: "threads_ok manual s" and k: "locks_ok s" and l: "lists_ok s" and r: "at s t = Ready" and c: "begins manual t c s = Some s'"
  shows "threads_ok manual s'"
  unfolding threads_ok_def
proof
  fix u
  have ok: "thread_ok manual s u (at s u)" using o by (simp add: threads_ok_def)
  show "thread_ok manual s' u (at s' u)"
  proof (cases "u = t")
    case False
    have "at s' u = at s u" using c False by (cases c) (auto simp: call_defs split: if_splits)
    moreover have "thread_ok manual s' u (at s u)"
    proof (rule thread_ok_cong [OF ok])
      show "sw_fired s' u = sw_fired s u \<and> sw_event s' u = sw_event s u"
        using c False by (cases c) (auto simp: call_defs split: if_splits)
      fix e left
      assume e: "at s u = SignallingAll e left"
      then have "owner s e = Some u" using lockD [OF k, of e u] by simp
      then show "waiters s' e = waiters s e" using c by (cases c) (auto simp: call_defs split: if_splits)
      fix w
      assume "w \<in> set (waiters s e)"
      then have "w \<noteq> t" using listsD(3) [OF l, of w e] r by auto
      then show "sw_fired s w \<Longrightarrow> sw_fired s' w" using c by (cases c) (auto simp: call_defs split: if_splits)
    qed
    ultimately show ?thesis by simp
  next
    case True
    show ?thesis
    proof (cases c)
      case (CallWaitMany raw)
      have "map fst (zip raw [0..<length raw]) = raw" by simp
      then have fst: "fst ` set (zip raw [0..<length raw]) = set raw" by (metis set_map)
      have "distinct raw" "raw \<noteq> []" "at s' t = Gathering raw [] (sorted_waitables raw)"
        using c CallWaitMany by (auto split: if_splits)
      moreover have "set (map fst (sorted_waitables raw)) = set raw"
        by (simp add: sorted_waitables_def fst)
      moreover have "sorted_wrt (<) (map fst (sorted_waitables raw))"
        using \<open>distinct raw\<close> by (rule sorted_waitables_sorted)
      moreover have "i < length raw \<and> raw ! i = e" if "(e, i) \<in> set (sorted_waitables raw)" for e i
        using that by (auto simp: sorted_waitables_def set_zip)
      ultimately show ?thesis using True by auto
    qed (use c True r in \<open>auto simp: call_defs split: if_splits\<close>)
  qed
qed

text \<open>What a turn does to the waiters of other threads and to the lists whose locks they hold.\<close>

lemma turn_fires:
  assumes o: "threads_ok manual s" and l: "lists_ok s" and c: "continues manual t b s = Some s'" and u: "u \<noteq> t"
  shows "sw_fired s' u = sw_fired s u \<and> sw_event s' u = sw_event s u
    \<or> (\<exists>e. u \<in> set (waiters s e) \<and> \<not> sw_fired s u \<and> sw_fired s' u \<and> sw_event s' u = Some e)"
proof -
  have ok: "thread_ok manual s t (at s t)" using o by (simp add: threads_ok_def)
  show ?thesis
  proof (cases "at s t")
    case (SignallingOne e)
    have "sw_fired s' u = sw_fired s u \<and> sw_event s' u = sw_event s u
        \<or> u \<in> set (waiters s e) \<and> \<not> sw_fired s u \<and> sw_fired s' u \<and> sw_event s' u = Some e"
      using c u SignallingOne by (auto simp: turn_defs split: if_splits list.splits)
    then show ?thesis by blast
  next
    case (SignallingAll e left)
    have "set left \<subseteq> set (waiters s e)" using ok SignallingAll by auto
    then have "sw_fired s' u = sw_fired s u \<and> sw_event s' u = sw_event s u
        \<or> u \<in> set (waiters s e) \<and> \<not> sw_fired s u \<and> sw_fired s' u \<and> sw_event s' u = Some e"
      using c u SignallingAll by (auto simp: turn_defs split: if_splits list.splits)
    then show ?thesis by blast
  qed (use c u in \<open>auto simp: turn_defs split: if_splits list.splits\<close>)
qed

lemma turn_lists:
  assumes k: "locks_ok s" and c: "continues manual t b s = Some s'" and h: "e \<in> holds (at s u)" and u: "u \<noteq> t"
  shows "waiters s' e = waiters s e"
proof -
  have "owner s e \<noteq> None" using lockD [OF k, of e u] h by auto
  moreover have "e \<notin> holds (at s t)" using locked_by [OF k h] u by blast
  ultimately show ?thesis
    using c by (cases "at s t") (auto simp: turn_defs split: if_splits list.splits)
qed

lemma threads_continue:
  assumes o: "threads_ok manual s" and k: "locks_ok s" and l: "lists_ok s" and c: "continues manual t b s = Some s'"
  shows "threads_ok manual s'"
  unfolding threads_ok_def
proof
  fix u
  have ok: "thread_ok manual s u (at s u)" for u using o by (simp add: threads_ok_def)
  have m: "at s' = (at s)(t := at s' t)"
    using c by (cases "at s t") (auto simp: turn_defs split: if_splits list.splits)
  have w: "waits (at s w) \<and> e \<in> places (at s w)" if "w \<in> set (waiters s e)" for e w
    using listsD(3) [OF l that] by (cases "at s w") auto
  show "thread_ok manual s' u (at s' u)"
  proof (cases "u = t")
    case False
    have at: "at s' u = at s u" using m False by (metis fun_upd_other)
    show ?thesis
    proof (cases "sw_fired s' u = sw_fired s u \<and> sw_event s' u = sw_event s u")
      case True
      have "thread_ok manual s' u (at s u)"
      proof (rule thread_ok_cong [OF ok])
        fix e left
        assume e: "at s u = SignallingAll e left"
        then show "waiters s' e = waiters s e" using turn_lists [OF k c _ False, of e] by simp
        fix v
        assume v: "v \<in> set (waiters s e)" "sw_fired s v"
        show "sw_fired s' v"
        proof (cases "v = t")
          case False
          then show ?thesis using turn_fires [OF o l c] v by blast
        next
          case True
          have "e \<notin> places (at s t) \<or> at s t \<noteq> Ready" using w [OF v(1)] True by auto
          then show ?thesis using w [OF v(1)] c v True
            by (cases "at s t") (auto simp: turn_defs split: if_splits list.splits)
        qed
      qed (use True in simp)
      then show ?thesis using at by simp
    next
      case False': False
      then obtain e where e: "u \<in> set (waiters s e)" "\<not> sw_fired s u" "sw_fired s' u" "sw_event s' u = Some e"
        using turn_fires [OF o l c False] by blast
      show ?thesis unfolding at
        using thread_ok_fired [OF ok [of u], of e s'] w [OF e(1)] e by blast
    qed
  next
    case True
    show ?thesis
      using c ok [of t] True w [of t]
      by (cases "at s t") (auto simp: turn_defs split: if_splits list.splits)
  qed
qed

section \<open>Accounts\<close>

lemma fired_by_simps [simp]:
  "fired_by e (Fired w e') \<longleftrightarrow> e' = e" "\<not> fired_by e (Signalled e')" "\<not> fired_by e (Woken w e')"
  "\<not> fired_by e (TimedOut w e')" "\<not> fired_by e (Tested e')" "\<not> fired_by e (Cleared e')"
  by (auto simp: fired_by_def)

lemma signals_begin:
  assumes g: "signals_ok manual initial s" and k: "locks_ok s" and r: "at s t = Ready" and c: "begins manual t c s = Some s'"
  shows "signals_ok manual initial s'"
  unfolding signals_ok_def
proof (intro allI impI)
  fix e
  assume n: "\<not> manual e"
  note d = g [unfolded signals_ok_def signal_left_def tally_def, rule_format, OF n]
  have o: "owner s e = Some u \<Longrightarrow> \<not> signaled s e \<and> u \<noteq> t" for u
    using lockD [OF k, of e u] locked_unset [OF k, of e u] r by auto
  show "of_bool (initial e) + tally ((=) (Signalled e)) s' =
      tally (fired_by e) s' + tally ((=) (Tested e)) s' + tally ((=) (Cleared e)) s' + of_bool (signal_left s' e)"
    using c d n o unfolding signal_left_def tally_def
    by (cases c) (auto simp: call_defs split: if_splits option.splits)
qed

lemma signals_continue:
  assumes g: "signals_ok manual initial s" and k: "locks_ok s" and o: "threads_ok manual s" and c: "continues manual t b s = Some s'"
  shows "signals_ok manual initial s'"
  unfolding signals_ok_def
proof (intro allI impI)
  fix e
  assume n: "\<not> manual e"
  have ok: "thread_ok manual s t (at s t)" using o by (simp add: threads_ok_def)
  note d = g [unfolded signals_ok_def signal_left_def tally_def, rule_format, OF n]
  have u: "owner s e = Some u \<Longrightarrow> \<not> signaled s e" for u
    using lockD [OF k, of e u] locked_unset [OF k, of e u] by auto
  have v: "owner s e = Some t \<longleftrightarrow> e \<in> holds (at s t)" using lockD [OF k] .
  show "of_bool (initial e) + tally ((=) (Signalled e)) s' =
      tally (fired_by e) s' + tally ((=) (Tested e)) s' + tally ((=) (Cleared e)) s' + of_bool (signal_left s' e)"
  proof (cases "at s t")
    case (SignallingOne x)
    show ?thesis
      using c d n u v SignallingOne unfolding signal_left_def tally_def
      by (cases "owner s e"; cases "x = e") (auto simp: turn_defs split: if_splits list.splits)
  next
    case (SignallingAll x left)
    then have "x \<noteq> e" using ok n by auto
    then show ?thesis
      using c d u v SignallingAll unfolding signal_left_def tally_def
      by (cases "owner s e") (auto simp: turn_defs split: if_splits list.splits)
  next
    case (Gathering raw held left)
    then have i: "(x, i) \<in> set left \<Longrightarrow> raw ! i = x" for x i using ok by auto
    have s: "case owner s e of None \<Rightarrow> True | Some a \<Rightarrow> \<not> signaled s e" using u by (auto split: option.splits)
    show ?thesis
    proof (cases left)
      case Nil
      then have "s' = goes_to t (BlockedMany raw) (Release held (Enqueue t held (new_waiter t s)))"
        using c Gathering by (simp add: EnqueueMany_def)
      then show ?thesis
        using d v s Gathering by (auto simp: signal_left_def tally_def split: option.splits)
    next
      case (Cons xi rest)
      obtain x j where xi: "xi = (x, j)" by force
      then have "raw ! j = x" "owner s x = None" using i c Gathering Cons by (auto simp: EnqueueMany_def split: if_splits)
      then show ?thesis
        using c d n v s Gathering Cons xi by (auto simp: EnqueueMany_def signal_left_def tally_def split: if_splits option.splits)
    qed
  next
    case (Blocked x f)
    then have "owner s e \<noteq> Some t" using v by simp
    then show ?thesis
      using c d Blocked unfolding signal_left_def tally_def
      by (auto simp: turn_defs split: if_splits list.splits option.splits)
  next
    case (Dequeueing x r)
    then have "owner s e \<noteq> Some t" using v by simp
    then show ?thesis
      using c d Dequeueing unfolding signal_left_def tally_def
      by (auto simp: turn_defs split: if_splits list.splits option.splits)
  next
    case (BlockedMany raw)
    then have "owner s e \<noteq> Some t" using v by simp
    then show ?thesis
      using c d BlockedMany unfolding signal_left_def tally_def
      by (auto simp: turn_defs split: if_splits list.splits option.splits)
  next
    case (DequeueingMany raw left x)
    then have "owner s e \<noteq> Some t" using v by simp
    then show ?thesis
      using c d DequeueingMany unfolding signal_left_def tally_def
      by (auto simp: turn_defs split: if_splits list.splits option.splits)
  qed (use c in auto)
qed

text \<open>The index WaitMany returns is that of the event that fired.\<close>

lemma signaled_index_fold:
  "distinct raw \<Longrightarrow> k < length raw \<Longrightarrow> n \<le> length raw \<Longrightarrow>
    foldl (\<lambda>r i. if raw ! i = raw ! k then i else r) 0 [0 ..< n] = (if k < n then k else 0)"
  by (induction n) (auto simp: nth_eq_iff_index_eq)

lemma signaled_index_nth: "distinct raw \<Longrightarrow> k < length raw \<Longrightarrow> signaled_index raw (raw ! k) = k"
  unfolding signaled_index_def using signaled_index_fold [of raw k "length raw"] by simp

lemma signaled_index_right: "distinct raw \<Longrightarrow> e \<in> set raw \<Longrightarrow> signaled_index raw e < length raw \<and> raw ! signaled_index raw e = e"
  using signaled_index_nth by (metis in_set_conv_nth)

lemma wakes_begin:
  assumes g: "wakes_ok s" and r: "at s t = Ready" and c: "begins manual t c s = Some s'"
  shows "wakes_ok s'"
  unfolding wakes_ok_def
proof (intro allI)
  fix u e
  note d = g [unfolded wakes_ok_def tally_def, rule_format, of u e]
  show "tally ((=) (Fired u e)) s' = tally ((=) (Woken u e)) s' + of_bool (waits (at s' u) \<and> sw_event s' u = Some e)"
    using c d r unfolding tally_def
    by (cases c; cases "u = t") (auto simp: call_defs split: if_splits)
qed

lemma wakes_continue:
  assumes g: "wakes_ok s" and l: "lists_ok s" and o: "threads_ok manual s" and c: "continues manual t b s = Some s'"
  shows "wakes_ok s'"
  unfolding wakes_ok_def
proof (intro allI)
  fix u e
  have ok: "thread_ok manual s w (at s w)" for w using o by (simp add: threads_ok_def)
  note d = g [unfolded wakes_ok_def tally_def, rule_format, of u e]
  have w: "waits (at s w)" if "w \<in> set (waiters s x)" for w x
    using listsD(3) [OF l that] by (cases "at s w") auto
  have v: "sw_event s w = None" if "waits (at s w)" "\<not> sw_fired s w" for w
    using ok [of w] that by (cases "at s w") auto
  show "tally ((=) (Fired u e)) s' = tally ((=) (Woken u e)) s' + of_bool (waits (at s' u) \<and> sw_event s' u = Some e)"
  proof (cases "at s t")
    case (SignallingOne x)
    then have "t \<notin> set (waiters s x)" using w [of t x] by auto
    then show ?thesis
      using c d w [of _ x] v [of u] SignallingOne unfolding tally_def by (auto simp: turn_defs split: if_splits list.splits)
  next
    case (SignallingAll x left)
    then have "t \<notin> set (waiters s x)" "set left \<subseteq> set (waiters s x)" using w [of t x] ok [of t] by auto
    then show ?thesis
      using c d w [of _ x] v [of u] SignallingAll unfolding tally_def by (auto simp: turn_defs split: if_splits list.splits)
  next
    case (DequeueingMany raw left x)
    then show ?thesis
      using c d ok [of t] signaled_index_right [of raw x] unfolding tally_def by (auto simp: turn_defs split: if_splits list.splits)
  qed (use c d ok [of t] in \<open>auto simp: tally_def turn_defs split: if_splits list.splits\<close>)
qed

section \<open>Reachable states\<close>

lemma events_ok_step:
  assumes "events_ok manual initial s" and "event_step manual s s'"
  shows "events_ok manual initial s'"
  using assms(2)
proof cases
  case (begin_call t c)
  then show ?thesis
    using assms(1) unfolding events_ok_def
    by (auto intro: locks_begin lists_begin threads_begin signals_begin wakes_begin)
next
  case (continue_call t b)
  then show ?thesis
    using assms(1) unfolding events_ok_def
    by (auto intro: locks_continue lists_continue threads_continue signals_continue wakes_continue simp del: continues.simps)
qed

lemma reachable_events_ok: "reachable_events manual initial s \<Longrightarrow> events_ok manual initial s"
  by (induction rule: reachable_events.induct) (auto simp: events_ok_new intro: events_ok_step)

end
