(* ===== verification/WaitableEventCorrect.thy ===== *)
theory WaitableEventCorrect
  imports WaitableEventInvariant
begin

text \<open>
  Waitable events: no deadlock, every signal wakes at most one wait, and nothing points at a waiter
  whose thread has left.
\<close>

section \<open>Progress\<close>

text \<open>Only finitely many threads are inside a call.\<close>

lemma finite_busy: "reachable_events manual initial s \<Longrightarrow> finite {t. at s t \<noteq> Ready}"
proof (induction rule: reachable_events.induct)
  case start
  show ?case by (simp add: new_events_def)
next
  case (after s s')
  obtain t p where m: "at s' = (at s)(t := p)"
    using after(2)
  proof cases
    case (begin_call t c)
    then have "at s' = (at s)(t := at s' t)" by (cases c) (auto simp: call_defs split: if_splits)
    then show ?thesis using that by blast
  next
    case (continue_call t b)
    then have "at s' = (at s)(t := at s' t)" by (cases "at s t") (auto simp: turn_defs split: if_splits list.splits)
    then show ?thesis using that by blast
  qed
  then have "{u. at s' u \<noteq> Ready} \<subseteq> insert t {u. at s u \<noteq> Ready}" by auto
  then show ?case using after.IH by (meson finite.insertI finite_subset)
qed

definition locked :: "events \<Rightarrow> nat set" where
  "locked s = {e. owner s e \<noteq> None}"

lemma finite_locked:
  assumes "reachable_events manual initial s"
  shows "finite (locked s)"
proof -
  have "locks_ok s" using reachable_events_ok [OF assms] by (simp add: events_ok_def)
  then have "locked s \<subseteq> (\<Union>t \<in> {t. at s t \<noteq> Ready}. holds (at s t))"
    using lockD [of s] by (auto simp: locked_def) (metis empty_iff holds.simps(4))
  moreover have "finite (holds p)" for p by (cases p) auto
  ultimately show ?thesis using finite_busy [OF assms] by (meson finite_UN finite_subset)
qed

definition can_go_on :: "(nat \<Rightarrow> bool) \<Rightarrow> events \<Rightarrow> nat \<Rightarrow> bool" where
  "can_go_on manual s t \<longleftrightarrow> continues manual t False s \<noteq> None"

text \<open>The holder of the last lock can go on: what it wants lies behind all that is held.\<close>

lemma last_holder:
  assumes l: "locks_ok s" and o: "threads_ok manual s" and e: "owner s e = Some t" and m: "\<And>e'. e' \<in> locked s \<Longrightarrow> e' \<le> e"
  shows "can_go_on manual s t"
proof -
  have h: "e \<in> holds (at s t)" using lockD [OF l] e by simp
  have ok: "thread_ok manual s t (at s t)" using o by (simp add: threads_ok_def)
  show ?thesis
  proof (cases "at s t")
    case (Gathering raw held left)
    show ?thesis
    proof (cases left)
      case (Cons xi rest)
      obtain x i where xi: "xi = (x, i)" by force
      have "e < x" using ok h Gathering Cons xi by (auto simp: sorted_wrt_append)
      then have "x \<notin> locked s" using m by fastforce
      then show ?thesis using Gathering Cons xi by (auto simp: can_go_on_def EnqueueMany_def locked_def)
    qed (use Gathering in \<open>simp add: can_go_on_def EnqueueMany_def\<close>)
  qed (use h in \<open>auto simp: can_go_on_def\<close>)
qed

lemma some_holder:
  assumes r: "reachable_events manual initial s" and e: "owner s e = Some t"
  shows "\<exists>u. holds (at s u) \<noteq> {} \<and> can_go_on manual s u"
proof -
  have ok: "locks_ok s" "threads_ok manual s" using reachable_events_ok [OF r] by (simp_all add: events_ok_def)
  have f: "finite (locked s)" "locked s \<noteq> {}" using finite_locked [OF r] e by (auto simp: locked_def)
  then obtain u where u: "owner s (Max (locked s)) = Some u" using Max_in [OF f] by (auto simp: locked_def)
  moreover have "\<And>e'. e' \<in> locked s \<Longrightarrow> e' \<le> Max (locked s)" using f by simp
  ultimately have "can_go_on manual s u" using last_holder [OF ok] by blast
  moreover have "holds (at s u) \<noteq> {}" using lockD [OF ok(1)] u by auto
  ultimately show ?thesis by blast
qed

text \<open>A thread inside a call that does not sleep.\<close>

definition awake :: "events \<Rightarrow> nat \<Rightarrow> bool" where
  "awake s t \<longleftrightarrow>
     (case at s t of Ready \<Rightarrow> False | Blocked e finite_time \<Rightarrow> sw_fired s t | BlockedMany raw \<Rightarrow> sw_fired s t | _ \<Rightarrow> True)"

lemma unlocked_awake:
  assumes "locked s = {}" and "awake s t"
  shows "can_go_on manual s t"
  using assms by (cases "at s t")
    (auto simp: awake_def can_go_on_def locked_def wait_turn_def many_turn_def many_end_def EnqueueMany_def split: list.splits)

section \<open>Signals and wakes\<close>

definition woken_by :: "nat \<Rightarrow> happening \<Rightarrow> bool" where
  "woken_by e h \<longleftrightarrow> (\<exists>w. h = Woken w e)"

definition waking :: "events \<Rightarrow> nat \<Rightarrow> nat set" where
  "waking s e = {t. waits (at s t) \<and> sw_event s t = Some e}"

lemma tally_split:
  assumes "finite W" and "\<And>h. P h \<Longrightarrow> h \<in> set hs \<Longrightarrow> \<exists>w \<in> W. h = f w" and "inj f" and "\<And>w. P (f w)"
  shows "length (filter P hs) = (\<Sum>w \<in> W. length (filter ((=) (f w)) hs))"
  using assms(2)
proof (induction hs)
  case (Cons h hs)
  have IH: "length (filter P hs) = (\<Sum>w \<in> W. length (filter ((=) (f w)) hs))" using Cons by simp
  have "(\<Sum>w \<in> W. length (filter ((=) (f w)) (h # hs))) = (\<Sum>w \<in> W. of_bool (f w = h) + length (filter ((=) (f w)) hs))"
    by (rule sum.cong) auto
  also have "\<dots> = card {w \<in> W. f w = h} + length (filter P hs)"
    using assms(1) by (simp add: sum.distrib IH sum.If_cases of_bool_def Int_def)
  also have "card {w \<in> W. f w = h} = of_bool (P h)"
  proof (cases "P h")
    case True
    then obtain w where "w \<in> W" "h = f w" using Cons(2) [of h] by auto
    then have "{w \<in> W. f w = h} = {w}" using assms(3) by (auto dest: injD)
    then show ?thesis using True by simp
  next
    case False
    then have "{w \<in> W. f w = h} = {}" using assms(4) by auto
    then show ?thesis using False by (simp only: card.empty) simp
  qed
  finally show ?case by simp
qed simp

lemma fired_is_woken_or_waking:
  assumes r: "reachable_events manual initial s"
  shows "tally (fired_by e) s = tally (woken_by e) s + card (waking s e)"
proof -
  have w: "wakes_ok s" using reachable_events_ok [OF r] by (simp add: events_ok_def)
  have fin: "finite (waking s e)"
  proof (rule finite_subset [OF _ finite_busy [OF r]])
    show "waking s e \<subseteq> {t. at s t \<noteq> Ready}" by (auto simp: waking_def)
  qed
  define who where "who h = (case h of Fired w e \<Rightarrow> w | Woken w e \<Rightarrow> w | _ \<Rightarrow> 0)" for h
  define W where "W = who ` set (history s) \<union> waking s e"
  have W: "finite W" using fin by (simp add: W_def)
  have "tally (fired_by e) s = (\<Sum>w \<in> W. tally ((=) (Fired w e)) s)"
    unfolding tally_def by (rule tally_split [OF W]) (force simp: fired_by_def W_def who_def inj_def)+
  also have "\<dots> = (\<Sum>w \<in> W. tally ((=) (Woken w e)) s + of_bool (w \<in> waking s e))"
    using w by (intro sum.cong) (simp_all add: wakes_ok_def waking_def)
  also have "\<dots> = (\<Sum>w \<in> W. tally ((=) (Woken w e)) s) + card (waking s e)"
  proof -
    have "W \<inter> {w. w \<in> waking s e} = waking s e" by (auto simp: W_def)
    then show ?thesis using W by (simp add: sum.distrib of_bool_def sum.If_cases)
  qed
  also have "(\<Sum>w \<in> W. tally ((=) (Woken w e)) s) = tally (woken_by e) s"
    unfolding tally_def by (rule tally_split [OF W, symmetric]) (force simp: woken_by_def W_def who_def inj_def)+
  finally show ?thesis .
qed

section \<open>Schedules\<close>

text \<open>A run of given steps: a thread begins a call, or goes on.\<close>

fun run_schedule :: "(nat \<Rightarrow> bool) \<Rightarrow> (nat \<times> event_call option) list \<Rightarrow> events \<Rightarrow> events option" where
  "run_schedule manual [] s = Some s"
| "run_schedule manual ((t, None) # xs) s = Option.bind (continues manual t True s) (run_schedule manual xs)"
| "run_schedule manual ((t, Some c) # xs) s =
     (if at s t \<noteq> Ready then None else Option.bind (begins manual t c s) (run_schedule manual xs))"

lemma run_schedule_reachable:
  "reachable_events manual initial s \<Longrightarrow> run_schedule manual xs s = Some s' \<Longrightarrow> reachable_events manual initial s'"
  by (induction manual xs s rule: run_schedule.induct)
    (auto split: Option.bind_splits if_splits simp del: continues.simps begins.simps
      intro: reachable_events.after event_step.intros)

text \<open>
  Thread 1 waits on the auto-reset event 5 with a time limit, thread 0 on the events 7 and 5.  Thread 1
  gives up; a signal of 5 passes it over and wakes thread 0, which leaves the list of 7.
\<close>

definition sample_schedule :: "(nat \<times> event_call option) list" where
  "sample_schedule =
     [(1, Some (CallTimedWait 5 True)), (0, Some (CallWaitMany [7, 5])), (0, None), (0, None), (0, None), (1, None),
      (2, Some (CallSignal 5)), (2, None), (2, None), (0, None), (0, None)]"

definition sample_events :: "events option" where
  "sample_events = run_schedule (\<lambda>_. False) sample_schedule (new_events (\<lambda>_. False))"

lemma sample_events_values:
  "map_option (\<lambda>s. (at s 0, at s 1, at s 2, waiters s 5, waiters s 7, owner s 5, sw_fired s 0)) sample_events =
    Some (DequeueingMany [7, 5] [5] 5, Dequeueing 5 False, Ready, [], [], None, True)"
  by code_simp

lemma sample_reachable:
  assumes "sample_events = Some s"
  shows "reachable_events (\<lambda>_. False) (\<lambda>_. False) s"
  using run_schedule_reachable [OF reachable_events.start] assms unfolding sample_events_def by blast

text \<open>
  C3.  No event keeps a pointer to a waiter that is gone: a SyncWaiter, which lives on the stack of its
  thread, is in the list of an event only while the thread is inside a wait, before the turn that takes it
  out of this very list; it is there once, and never in the list of an event that is signaled.  A waiter
  that its event has fired is in the list no longer once the signal is complete.
\<close>

theorem no_dangling_waiter:
  assumes "reachable_events manual initial s"
  shows "(w \<in> set (waiters s e) \<longrightarrow> waits (at s w) \<and> e \<in> places (at s w))
    \<and> distinct (waiters s e)
    \<and> (signaled s e \<longrightarrow> waiters s e = [] \<and> owner s e = None)
    \<and> (w \<in> set (waiters s e) \<and> owner s e = None \<longrightarrow> sw_event s w \<noteq> Some e)"
proof -
  have k: "locks_ok s" and l: "lists_ok s" using reachable_events_ok [OF assms] by (simp_all add: events_ok_def)
  have "e \<in> places p \<Longrightarrow> waits p" for p by (cases p) auto
  moreover have "signaled s e \<Longrightarrow> owner s e = None"
    using lockD [OF k, of e] locked_unset [OF k, of e] by (cases "owner s e") auto
  moreover have "owner s e \<noteq> None" if "at s t = SignallingAll e left" for t left using lockD [OF k, of e t] that by simp
  ultimately show ?thesis using listsD [OF l] by metis
qed

theorem no_dangling_waiter_witness: "\<exists>s. sample_events = Some s \<and> 1 \<notin> set (waiters s 7) \<and> distinct (waiters s 5)"
proof -
  obtain s where s: "sample_events = Some s" "at s 1 = Dequeueing 5 False" using sample_events_values by auto
  from no_dangling_waiter [OF sample_reachable [OF s(1)], of 1 7] no_dangling_waiter [OF sample_reachable [OF s(1)], of 1 5]
  show ?thesis using s by (intro exI [of _ s]) auto
qed

text \<open>
  C4.  No deadlock, with any number of events, waits on many of them in any order, and signals: while a
  lock is held, one of the holders can go on, and while a thread is inside a call and does not sleep for
  want of a signal, some thread can go on.
\<close>

theorem events_never_deadlock:
  assumes "reachable_events manual initial s"
  shows "(owner s e \<noteq> None \<longrightarrow> (\<exists>u. holds (at s u) \<noteq> {} \<and> (\<exists>s'. continues manual u False s = Some s')))
    \<and> (awake s t \<longrightarrow> (\<exists>u s'. continues manual u False s = Some s'))"
proof -
  have 1: "\<exists>u. holds (at s u) \<noteq> {} \<and> can_go_on manual s u" if "e \<in> locked s" for e
    using some_holder [OF assms] that unfolding locked_def by blast
  have 2: "\<exists>u. can_go_on manual s u" if "awake s t"
    using 1 unlocked_awake [OF _ that] by blast
  show ?thesis using 1 [of e] 2 unfolding can_go_on_def locked_def by (auto simp del: continues.simps)
qed

theorem events_never_deadlock_witness:
  "\<exists>s u s'. sample_events = Some s \<and> continues (\<lambda>_. False) u False s = Some s'"
proof -
  obtain s where s: "sample_events = Some s" "at s 0 = DequeueingMany [7, 5] [5] 5" using sample_events_values by auto
  have "awake s 0" by (simp add: awake_def s)
  with events_never_deadlock [OF sample_reachable [OF s(1)], of 5 0] s show ?thesis by blast
qed

text \<open>
  C6.  Every signal of an auto-reset event counts once: the signals that found it unset, and its initial
  state, are the waits it woke, the waits it is waking, the calls of IsSignaled and Reset that took it,
  and the one that is left.  A wait that ran out of time took none.
\<close>

theorem signals_count_once:
  assumes "reachable_events manual initial s" and "\<not> manual e"
  shows "of_bool (initial e) + tally ((=) (Signalled e)) s =
    tally (woken_by e) s + card (waking s e) + tally ((=) (Tested e)) s + tally ((=) (Cleared e)) s
    + of_bool (signal_left s e)"
proof -
  have "signals_ok manual initial s" using reachable_events_ok [OF assms(1)] by (simp add: events_ok_def)
  then show ?thesis using fired_is_woken_or_waking [OF assms(1), of e] assms(2) by (simp add: signals_ok_def)
qed

theorem signals_count_once_witness:
  "\<exists>s. sample_events = Some s \<and> tally (woken_by 5) s + card (waking s 5) + of_bool (signal_left s 5) = 1"
proof -
  obtain s where s: "sample_events = Some s" using sample_events_values by auto
  have "map_option history sample_events = Some [Fired 0 5, Signalled 5]" by code_simp
  then have h: "history s = [Fired 0 5, Signalled 5]" unfolding s by simp
  then have t: "tally ((=) (Signalled 5)) s = 1" "tally ((=) (Tested 5)) s = 0" "tally ((=) (Cleared 5)) s = 0"
    unfolding tally_def by simp_all
  have "tally (woken_by 5) s + card (waking s 5) + of_bool (signal_left s 5) = 1"
    using signals_count_once [OF sample_reachable [OF s], of 5] unfolding t by simp
  with s show ?thesis by blast
qed

end
