(* ===== verification/FilePath.thy ===== *)
theory FilePath
  imports Pickle Utf "HOL-Library.Sublist"
begin

text \<open>
  base/files/file_path.cc as it is compiled for Linux: paths are bytes, the one separator is a slash and
  there are no drive letters.  A FilePath is its path_; a position that is npos is None.
\<close>

section \<open>Characters and positions\<close>

type_synonym file_path = "u8 list"

definition kSeparators :: file_path where "kSeparators = [47]"
definition kCurrentDirectory :: file_path where "kCurrentDirectory = [46]"
definition kParentDirectory :: file_path where "kParentDirectory = [46, 46]"
definition kExtensionSeparator :: u8 where "kExtensionSeparator = 46"

definition IsSeparator :: "u8 \<Rightarrow> bool" where
  "IsSeparator c \<longleftrightarrow> c \<in> set kSeparators"

text \<open>FindDriveLetter returns npos, which is -1: the position behind the drive letter, its successor, is 0.\<close>

definition FindDriveLetter_next :: "file_path \<Rightarrow> nat" where
  "FindDriveLetter_next p = 0"

definition IsPathAbsolute :: "file_path \<Rightarrow> bool" where
  "IsPathAbsolute p \<longleftrightarrow> length p > 0 \<and> IsSeparator (p ! 0)"

definition AreAllSeparators :: "file_path \<Rightarrow> bool" where
  "AreAllSeparators p \<longleftrightarrow> list_all IsSeparator p"

text \<open>The last position below a bound with a character of a kind: string::rfind and find_last_of.\<close>

fun last_below :: "('a \<Rightarrow> bool) \<Rightarrow> 'a list \<Rightarrow> nat \<Rightarrow> nat option" where
  "last_below P s 0 = None"
| "last_below P s (Suc n) = (if n < length s \<and> P (s ! n) then Some n else last_below P s n)"

text \<open>FilePath::FilePath: a path ends at the first NUL.\<close>

definition new_path :: "u8 list \<Rightarrow> file_path" where
  "new_path p = takeWhile (\<lambda>c. c \<noteq> 0) p"

section \<open>Separators\<close>

fun strip_loop :: "nat \<Rightarrow> nat \<Rightarrow> nat option \<Rightarrow> file_path \<Rightarrow> file_path" where
  "strip_loop start 0 last_stripped p = p"
| "strip_loop start (Suc i) last_stripped p =
     (let pos = Suc i in
      if pos > start \<and> IsSeparator (p ! (pos - 1)) then
        if pos \<noteq> start + 1 \<or> last_stripped = Some (start + 2) \<or> \<not> IsSeparator (p ! (start - 1))
        then strip_loop start i (Some pos) (take (pos - 1) p)
        else strip_loop start i last_stripped p
      else p)"

definition StripTrailingSeparatorsInternal :: "file_path \<Rightarrow> file_path" where
  "StripTrailingSeparatorsInternal p = strip_loop (FindDriveLetter_next p + 1) (length p) None p"

definition StripTrailingSeparators :: "file_path \<Rightarrow> file_path" where
  "StripTrailingSeparators p = StripTrailingSeparatorsInternal (new_path p)"

definition IsAbsolute :: "file_path \<Rightarrow> bool" where
  "IsAbsolute p \<longleftrightarrow> IsPathAbsolute p"

definition EndsWithSeparator :: "file_path \<Rightarrow> bool" where
  "EndsWithSeparator p \<longleftrightarrow> p \<noteq> [] \<and> IsSeparator (p ! (length p - 1))"

definition AsEndingWithSeparator :: "file_path \<Rightarrow> file_path" where
  "AsEndingWithSeparator p =
     (if EndsWithSeparator p \<or> p = [] then p else new_path (p @ [kSeparators ! 0]))"

definition NormalizePathSeparators :: "file_path \<Rightarrow> file_path" where
  "NormalizePathSeparators p = p"

section \<open>Components\<close>

definition DirName :: "file_path \<Rightarrow> file_path" where
  "DirName p =
     (let q = StripTrailingSeparatorsInternal (new_path p);
          letter_next = FindDriveLetter_next q;
          q = (case last_below IsSeparator q (length q) of
                 None \<Rightarrow> take letter_next q
               | Some last_separator \<Rightarrow>
                   if last_separator = letter_next then take (letter_next + 1) q
                   else if last_separator = letter_next + 1 \<and> IsSeparator (q ! letter_next) then take (letter_next + 2) q
                   else if last_separator \<noteq> 0 then take last_separator q
                   else q);
          q = StripTrailingSeparatorsInternal q
      in if length q = 0 then kCurrentDirectory else q)"

definition BaseName :: "file_path \<Rightarrow> file_path" where
  "BaseName p =
     (let q = StripTrailingSeparatorsInternal (new_path p);
          q = drop (FindDriveLetter_next q) q
      in case last_below IsSeparator q (length q) of
           None \<Rightarrow> q
         | Some last_separator \<Rightarrow> if last_separator < length q - 1 then drop (last_separator + 1) q else q)"

text \<open>
  The loop of GetComponents, with the components in the order it finds them, the path it ends with first;
  the size of the path falls but for a single name, whose directory is ".".
\<close>

lemma strip_loop_prefix: "prefix (strip_loop start pos ls p) p"
  by (induction start pos ls p rule: strip_loop.induct)
    (auto simp: Let_def intro: prefix_order.trans [OF _ take_is_prefix])

lemma strip_prefix: "prefix (StripTrailingSeparatorsInternal p) p"
  unfolding StripTrailingSeparatorsInternal_def by (rule strip_loop_prefix)

lemma new_path_prefix: "prefix (new_path p) p"
  unfolding new_path_def by (metis takeWhile_dropWhile_id prefixI)

lemma DirName_prefix: "DirName p = kCurrentDirectory \<or> prefix (DirName p) p"
proof -
  let ?q = "StripTrailingSeparatorsInternal (new_path p)"
  have q: "prefix ?q p" using strip_prefix new_path_prefix prefix_order.trans by blast
  have "prefix (StripTrailingSeparatorsInternal (take j ?q)) p" for j
    using strip_prefix [of "take j ?q"] take_is_prefix [of j ?q] q prefix_order.trans by blast
  moreover have "prefix (StripTrailingSeparatorsInternal ?q) p" using strip_prefix q prefix_order.trans by blast
  ultimately show ?thesis
    unfolding DirName_def Let_def by (auto split: option.splits)
qed

definition path_measure :: "file_path \<Rightarrow> nat" where
  "path_measure p = (if p = [] then 3 else if p = kCurrentDirectory then 2 else 2 * length p + 1)"

lemma DirName_shorter:
  assumes "p \<noteq> DirName p"
  shows "path_measure (DirName p) < path_measure p"
proof (cases "DirName p = kCurrentDirectory")
  case True
  then show ?thesis using assms by (cases p) (auto simp: path_measure_def kCurrentDirectory_def)
next
  case False
  then have "strict_prefix (DirName p) p" using DirName_prefix [of p] assms by (auto simp: strict_prefix_def)
  then have "length (DirName p) < length p" by (rule prefix_length_less)
  moreover have "DirName p \<noteq> []" unfolding DirName_def Let_def by (auto simp: kCurrentDirectory_def)
  ultimately show ?thesis using False by (cases "p = kCurrentDirectory") (auto simp: path_measure_def kCurrentDirectory_def)
qed

function components_loop :: "file_path \<Rightarrow> file_path list \<Rightarrow> file_path \<times> file_path list" where
  "components_loop current ret_val =
     (if current \<noteq> DirName current then
        let base = BaseName current
        in components_loop (DirName current) (if AreAllSeparators base then ret_val else ret_val @ [base])
      else (current, ret_val))"
  by pat_completeness auto
termination by (relation "measure (\<lambda>(current, _). path_measure current)") (auto simp: DirName_shorter)

declare components_loop.simps [simp del]

definition GetComponents :: "file_path \<Rightarrow> file_path list" where
  "GetComponents p =
     (if p = [] then []
      else
        let (current, ret_val) = components_loop p [];
            base = BaseName current;
            ret_val = (if base \<noteq> [] \<and> base \<noteq> kCurrentDirectory then ret_val @ [base] else ret_val);
            dir = DirName current;
            ret_val = (if FindDriveLetter_next dir \<noteq> 0 then ret_val @ [take (FindDriveLetter_next dir) dir] else ret_val)
        in rev ret_val)"

definition fp_Append :: "file_path \<Rightarrow> u8 list \<Rightarrow> file_path" where
  "fp_Append p component =
     (let appended = takeWhile (\<lambda>c. c \<noteq> 0) component in
      if p = kCurrentDirectory then new_path appended
      else
        let q = StripTrailingSeparatorsInternal (new_path p);
            q = (if length appended > 0 \<and> length q > 0 \<and> \<not> IsSeparator (q ! (length q - 1))
                   \<and> FindDriveLetter_next q \<noteq> length q
                 then q @ [kSeparators ! 0] else q)
        in q @ appended)"

text \<open>The loop that compares the components: whether all of the parent's agree, and what is left of the child's.\<close>

fun match_components :: "file_path list \<Rightarrow> file_path list \<Rightarrow> file_path list option" where
  "match_components [] cs = Some cs"
| "match_components (p # ps) [] = None"
| "match_components (p # ps) (c # cs) = (if p \<noteq> c then None else match_components ps cs)"

text \<open>Whether it returns true, and path afterwards, which may be NULL.\<close>

definition AppendRelativePath :: "file_path \<Rightarrow> file_path \<Rightarrow> file_path option \<Rightarrow> bool \<times> file_path option" where
  "AppendRelativePath p child path =
     (let parent_components = GetComponents p; child_components = GetComponents child in
      if parent_components = [] \<or> length parent_components \<ge> length child_components then (False, path)
      else
        (case match_components parent_components child_components of
           None \<Rightarrow> (False, path)
         | Some rest \<Rightarrow> (True, map_option (\<lambda>path. foldl fp_Append path rest) path)))"

definition IsParent :: "file_path \<Rightarrow> file_path \<Rightarrow> bool" where
  "IsParent p child = fst (AppendRelativePath p child None)"

text \<open>Whether a component holds ".." and nothing but dots and white space.\<close>

definition references_parent :: "file_path \<Rightarrow> bool" where
  "references_parent c \<longleftrightarrow>
     list_all (\<lambda>b. b \<in> {46, 32, 10, 13, 9}) c \<and> list_ex (\<lambda>i. take 2 (drop i c) = kParentDirectory) [0 ..< length c]"

definition ReferencesParent :: "file_path \<Rightarrow> bool" where
  "ReferencesParent p \<longleftrightarrow> list_ex references_parent (GetComponents p)"

section \<open>Extensions\<close>

definition FinalExtensionSeparatorPosition :: "file_path \<Rightarrow> nat option" where
  "FinalExtensionSeparatorPosition p =
     (if p = kCurrentDirectory \<or> p = kParentDirectory then None
      else last_below (\<lambda>c. c = kExtensionSeparator) p (length p))"

text \<open>"user.js"; "gz", "z", "bz2", "bz".\<close>

definition kCommonDoubleExtensions :: "u8 list list" where
  "kCommonDoubleExtensions = [[0x75, 0x73, 0x65, 0x72, 0x2E, 0x6A, 0x73]]"

definition kCommonDoubleExtensionSuffixes :: "u8 list list" where
  "kCommonDoubleExtensionSuffixes = [[0x67, 0x7A], [0x7A], [0x62, 0x7A, 0x32], [0x62, 0x7A]]"

definition ToLowerASCII :: "u8 \<Rightarrow> u8" where
  "ToLowerASCII c = (if 0x41 \<le> c \<and> c \<le> 0x5A then c + (0x61 - 0x41) else c)"

definition LowerCaseEqualsASCII :: "u8 list \<Rightarrow> u8 list \<Rightarrow> bool" where
  "LowerCaseEqualsASCII s lowercase \<longleftrightarrow> length s = length lowercase \<and> list_all2 (\<lambda>c l. ToLowerASCII c = l) s lowercase"

definition ExtensionSeparatorPosition :: "file_path \<Rightarrow> nat option" where
  "ExtensionSeparatorPosition p =
     (case FinalExtensionSeparatorPosition p of
        None \<Rightarrow> None
      | Some last_dot \<Rightarrow>
          if last_dot = 0 then Some last_dot
          else
            let last_separator = last_below IsSeparator p last_dot in
            (case last_below (\<lambda>c. c = kExtensionSeparator) p last_dot of
              None \<Rightarrow> Some last_dot
            | Some penultimate_dot \<Rightarrow>
                if (case last_separator of None \<Rightarrow> False | Some s \<Rightarrow> penultimate_dot < s) then Some last_dot
                else if list_ex (LowerCaseEqualsASCII (drop (penultimate_dot + 1) p)) kCommonDoubleExtensions
                then Some penultimate_dot
                else if list_ex (LowerCaseEqualsASCII (drop (last_dot + 1) p)) kCommonDoubleExtensionSuffixes
                  \<and> last_dot - penultimate_dot \<le> 5 \<and> last_dot - penultimate_dot > 1
                then Some penultimate_dot
                else Some last_dot))"

definition IsEmptyOrSpecialCase :: "file_path \<Rightarrow> bool" where
  "IsEmptyOrSpecialCase p \<longleftrightarrow> p = [] \<or> p = kCurrentDirectory \<or> p = kParentDirectory"

definition Extension :: "file_path \<Rightarrow> u8 list" where
  "Extension p =
     (let base = BaseName p in case ExtensionSeparatorPosition base of None \<Rightarrow> [] | Some d \<Rightarrow> drop d base)"

definition FinalExtension :: "file_path \<Rightarrow> u8 list" where
  "FinalExtension p =
     (let base = BaseName p in case FinalExtensionSeparatorPosition base of None \<Rightarrow> [] | Some d \<Rightarrow> drop d base)"

definition RemoveExtension :: "file_path \<Rightarrow> file_path" where
  "RemoveExtension p =
     (if Extension p = [] then p
      else case ExtensionSeparatorPosition p of None \<Rightarrow> p | Some d \<Rightarrow> new_path (take d p))"

definition RemoveFinalExtension :: "file_path \<Rightarrow> file_path" where
  "RemoveFinalExtension p =
     (if FinalExtension p = [] then p
      else case FinalExtensionSeparatorPosition p of None \<Rightarrow> p | Some d \<Rightarrow> new_path (take d p))"

definition InsertBeforeExtension :: "file_path \<Rightarrow> u8 list \<Rightarrow> file_path" where
  "InsertBeforeExtension p suff =
     (if suff = [] then new_path p
      else if IsEmptyOrSpecialCase (BaseName p) then []
      else new_path (RemoveExtension p @ suff @ Extension p))"

definition AddExtension :: "file_path \<Rightarrow> u8 list \<Rightarrow> file_path" where
  "AddExtension p ext =
     (if IsEmptyOrSpecialCase (BaseName p) then []
      else if ext = [] \<or> ext = [kExtensionSeparator] then p
      else new_path (p @ (if ext ! 0 \<noteq> kExtensionSeparator \<and> p ! (length p - 1) \<noteq> kExtensionSeparator
                          then [kExtensionSeparator] else []) @ ext))"

definition ReplaceExtension :: "file_path \<Rightarrow> u8 list \<Rightarrow> file_path" where
  "ReplaceExtension p ext =
     (if IsEmptyOrSpecialCase (BaseName p) then []
      else
        let no_ext = RemoveExtension p in
        if ext = [] \<or> ext = [kExtensionSeparator] then no_ext
        else new_path (no_ext @ (if ext ! 0 \<noteq> kExtensionSeparator then [kExtensionSeparator] else []) @ ext))"

text \<open>strcasecmp in the locale of POSIX, up to the NUL of each string.\<close>

fun strcasecmp :: "u8 list \<Rightarrow> u8 list \<Rightarrow> int" where
  "strcasecmp [] [] = 0"
| "strcasecmp [] (b # bs) = - uint (ToLowerASCII b)"
| "strcasecmp (a # as) [] = uint (ToLowerASCII a)"
| "strcasecmp (a # as) (b # bs) =
     (if ToLowerASCII a \<noteq> ToLowerASCII b then uint (ToLowerASCII a) - uint (ToLowerASCII b) else strcasecmp as bs)"

definition CompareIgnoreCase :: "u8 list \<Rightarrow> u8 list \<Rightarrow> int" where
  "CompareIgnoreCase s t =
     (let comparison = strcasecmp (takeWhile (\<lambda>c. c \<noteq> 0) s) (takeWhile (\<lambda>c. c \<noteq> 0) t)
      in if comparison < 0 then - 1 else if comparison > 0 then 1 else 0)"

definition MatchesExtension :: "file_path \<Rightarrow> u8 list \<Rightarrow> bool" where
  "MatchesExtension p ext \<longleftrightarrow>
     (let current_extension = Extension p
      in length current_extension = length ext \<and> CompareIgnoreCase ext current_extension = 0)"

section \<open>Texts and messages\<close>

definition MaybeAsASCII :: "nat \<Rightarrow> file_path \<Rightarrow> u8 list" where
  "MaybeAsASCII addr p = (if IsStringASCII8 addr p = Some True then p else [])"

definition WriteToPickle :: "file_path \<Rightarrow> pickle \<Rightarrow> pickle_error + pickle" where
  "WriteToPickle p = WriteString p"

definition ReadFromPickle :: "file_path reader" where
  "ReadFromPickle iter =
     (case ReadString iter of
        (None, iter) \<Rightarrow> (None, iter)
      | (Some p, iter) \<Rightarrow> (if 0 \<in> set p then None else Some p, iter))"

end
