(* ===== verification/FilePathCorrect.thy ===== *)
theory FilePathCorrect
  imports FilePath BrokerPaths
begin

text \<open>
  What the operations of FilePath do to the components of a path: DirName, BaseName and GetComponents
  on every form of a path, Append and AppendRelativePath, and the extensions.
\<close>

section \<open>Forms of a path\<close>

definition slashes :: "nat \<Rightarrow> file_path" where
  "slashes n = replicate n slash"

definition plain_name :: "file_path \<Rightarrow> bool" where
  "plain_name c \<longleftrightarrow> c \<noteq> [] \<and> slash \<notin> set c"

text \<open>Nothing, or a path that does not end with a separator.\<close>

definition ends_named :: "file_path \<Rightarrow> bool" where
  "ends_named d \<longleftrightarrow> d \<noteq> [] \<and> last d \<noteq> slash"

lemma IsSeparator_slash: "IsSeparator c \<longleftrightarrow> c = slash"
  by (simp add: IsSeparator_def kSeparators_def slash_def)

lemma kSeparators_slash [simp]: "kSeparators = [slash]"
  by (simp add: kSeparators_def slash_def)

lemma special_paths: "kCurrentDirectory = [dot]" "kParentDirectory = [dot, dot]" "kExtensionSeparator = dot"
  by (simp_all add: kCurrentDirectory_def kParentDirectory_def kExtensionSeparator_def dot_def)

lemma drive_letter [simp]: "FindDriveLetter_next p = 0"
  by (simp add: FindDriveLetter_next_def)

lemma zero_slash [simp]: "0 \<noteq> slash" "0 \<noteq> dot"
  by (simp_all add: slash_def dot_def)

lemma new_path_id: "0 \<notin> set p \<Longrightarrow> new_path p = p"
  unfolding new_path_def by (simp add: takeWhile_eq_all_conv) blast

lemma slashes_simps [simp]:
  "slashes 0 = []" "slashes (Suc n) = slash # slashes n" "length (slashes n) = n" "set (slashes n) = (if n = 0 then {} else {slash})"
  by (simp_all add: slashes_def)

lemma slashes_snoc: "slashes (Suc n) = slashes n @ [slash]"
  by (simp add: slashes_def replicate_append_same)

lemma slashes_nth: "i < n \<Longrightarrow> slashes n ! i = slash"
  by (simp add: slashes_def)

lemma slashes_take: "take n (slashes m) = slashes (min n m)"
  by (simp add: slashes_def)

text \<open>Every path is separators only, or a name with separators behind it and something before it.\<close>

lemma trailing_slashes: "\<exists>d k. p = d @ slashes k \<and> (d = [] \<or> ends_named d)"
proof (induction p rule: rev_induct)
  case (snoc c p)
  show ?case
  proof (cases "c = slash")
    case True
    from snoc obtain d k where "p = d @ slashes k" "d = [] \<or> ends_named d" by blast
    with True have "p @ [c] = d @ slashes (Suc k)" by (simp add: slashes_snoc del: slashes_simps)
    then show ?thesis using \<open>d = [] \<or> ends_named d\<close> by blast
  next
    case False
    then have "ends_named (p @ [c])" by (simp add: ends_named_def)
    then show ?thesis by (intro exI [of _ "p @ [c]"] exI [of _ 0]) simp
  qed
qed (auto intro: exI [of _ "[]"] exI [of _ 0])

lemma last_name: "ends_named d \<Longrightarrow> \<exists>e n. d = e @ n \<and> plain_name n \<and> (e = [] \<or> last e = slash)"
proof -
  assume d: "ends_named d"
  let ?n = "rev (takeWhile (\<lambda>c. c \<noteq> slash) (rev d))" and ?e = "rev (dropWhile (\<lambda>c. c \<noteq> slash) (rev d))"
  have "d = ?e @ ?n" by (metis rev_append rev_rev_ident takeWhile_dropWhile_id)
  moreover have "plain_name ?n"
    using d by (cases "rev d") (auto simp: plain_name_def ends_named_def dest: set_takeWhileD)
  moreover have "?e = [] \<or> last ?e = slash"
    using hd_dropWhile [of "\<lambda>c. c \<noteq> slash" "rev d"] by (auto simp: last_rev)
  ultimately show ?thesis by blast
qed

lemma path_forms:
  obtains (root) n where "p = slashes n"
  | (name) c k where "p = c @ slashes k" "plain_name c"
  | (top) m c k where "p = slashes (Suc m) @ c @ slashes k" "plain_name c"
  | (below) d m c k where "p = d @ slashes (Suc m) @ c @ slashes k" "plain_name c" "ends_named d"
proof -
  obtain d k where p: "p = d @ slashes k" "d = [] \<or> ends_named d" using trailing_slashes by blast
  show ?thesis
  proof (cases "d = []")
    case True
    then show ?thesis using p root by simp
  next
    case False
    then obtain e n where e: "d = e @ n" "plain_name n" "e = [] \<or> last e = slash" using p(2) last_name by blast
    obtain f j where f: "e = f @ slashes j" "f = [] \<or> ends_named f" using trailing_slashes by blast
    show ?thesis
    proof (cases j)
      case 0
      then have "e = []" using e(3) f by (auto simp: ends_named_def)
      then show ?thesis using e p name by simp
    next
      case (Suc m)
      then show ?thesis using p e f top [of m n k] below [of f m n k] by (cases "f = []") auto
    qed
  qed
qed

section \<open>Separators at the end\<close>

lemma strip_many:
  assumes "ends_named d"
  shows "strip_loop 1 (length d + k) ls (d @ slashes k) = d"
  using assms
proof (induction k arbitrary: ls)
  case 0
  obtain i where i: "length d = Suc i" using 0 by (cases d) (auto simp: ends_named_def)
  then have "d ! i \<noteq> slash" using 0 by (auto simp: ends_named_def last_conv_nth)
  then show ?case using i by (simp add: IsSeparator_slash)
next
  case (Suc k)
  have "d \<noteq> []" using Suc by (simp add: ends_named_def)
  have nth: "(d @ slashes (Suc k)) ! (length d + k) = slash" by (simp add: nth_append slashes_snoc del: slashes_simps) (simp add: nth_append)
  have tk: "take (length d + k) (d @ slashes (Suc k)) = d @ slashes k" by (simp add: slashes_snoc del: slashes_simps) (simp add: slashes_def)
  show ?case
    using Suc.IH [OF Suc.prems] nth tk Suc.prems unfolding ends_named_def
    by (cases d) (auto simp: Let_def IsSeparator_slash nth_append split: if_splits)
qed

lemma strip_named: "ends_named d \<Longrightarrow> StripTrailingSeparatorsInternal (d @ slashes k) = d"
  using strip_many [of d k None] by (simp add: StripTrailingSeparatorsInternal_def)

lemma strip_named_0: "ends_named d \<Longrightarrow> StripTrailingSeparatorsInternal d = d"
  using strip_named [of d 0] by simp

lemma strip_three: "strip_loop 1 (Suc (Suc (Suc m))) ls (slashes (Suc (Suc (Suc m)))) = [slash]"
proof (induction m arbitrary: ls)
  case 0
  show ?case by (simp add: IsSeparator_slash)
next
  case (Suc m)
  have "slashes (Suc (Suc (Suc (Suc m)))) ! Suc (Suc (Suc m)) = slash"
    "take (Suc (Suc (Suc m))) (slashes (Suc (Suc (Suc (Suc m))))) = slashes (Suc (Suc (Suc m)))"
    by (simp_all only: slashes_nth slashes_take lessI) (simp del: slashes_simps)
  then show ?case using Suc by (simp add: IsSeparator_slash Let_def del: slashes_simps)
qed

lemma strip_root: "StripTrailingSeparatorsInternal (slashes n) = (if n = 2 then [slash, slash] else if n = 0 then [] else [slash])"
proof (cases "n \<le> 2")
  case True
  then have "n = 0 \<or> n = 1 \<or> n = 2" by auto
  then show ?thesis
    by (auto simp: StripTrailingSeparatorsInternal_def eval_nat_numeral IsSeparator_slash Let_def)
next
  case False
  then obtain m where "n = Suc (2 + m)" using less_imp_Suc_add [of 2 n] by auto
  then show ?thesis using strip_three [of m None] False by (simp add: StripTrailingSeparatorsInternal_def del: slashes_simps(2) strip_loop.simps)
qed

section \<open>DirName and BaseName\<close>

lemma last_below_append:
  "n \<le> length c \<Longrightarrow> last_below P (d @ c) (length d + n) =
     (case last_below P c n of Some i \<Rightarrow> Some (length d + i) | None \<Rightarrow> last_below P d (length d))"
proof (induction n)
  case 0
  have "m \<le> length d \<Longrightarrow> last_below P (d @ c) m = last_below P d m" for m
    by (induction m) (auto simp: nth_append)
  then show ?case by simp
next
  case (Suc n)
  then show ?case by (simp add: nth_append)
qed

lemma last_below_none: "(\<And>x. x \<in> set c \<Longrightarrow> \<not> P x) \<Longrightarrow> last_below P c n = None"
  by (induction n) auto

lemma last_below_le: "last_below P c n = Some i \<Longrightarrow> i < n \<and> i < length c \<and> P (c ! i)"
  by (induction n) (auto split: if_splits simp: less_Suc_eq)

lemma last_separator_name: "plain_name c \<Longrightarrow> last_below IsSeparator c n = None"
  by (rule last_below_none) (auto simp: plain_name_def IsSeparator_slash)

lemma last_separator_named: "plain_name c \<Longrightarrow> last_below IsSeparator (d @ slash # c) (length d + Suc (length c)) = Some (length d)"
  using last_below_append [of "length c" c IsSeparator "d @ [slash]"] last_separator_name [of c "length c"]
  by (simp add: IsSeparator_slash nth_append)

lemma plain_ends: "plain_name c \<Longrightarrow> ends_named (d @ c)"
  by (simp add: plain_name_def ends_named_def) (metis last_in_set)

lemma DirName_root: "DirName (slashes n) = (if n = 2 then [slash, slash] else if n = 0 then [dot] else [slash])"
proof -
  have z: "new_path (slashes n) = slashes n" by (rule new_path_id) auto
  have s: "StripTrailingSeparatorsInternal [slash] = [slash]" "StripTrailingSeparatorsInternal [slash, slash] = [slash, slash]"
    "StripTrailingSeparatorsInternal [] = []"
    using strip_root [of 1] strip_root [of 2] strip_root [of 0] by (simp_all add: eval_nat_numeral)
  show ?thesis
    unfolding DirName_def z strip_root by (auto simp: s IsSeparator_slash special_paths Let_def)
qed

lemma BaseName_root: "BaseName (slashes n) = (if n = 2 then [slash, slash] else if n = 0 then [] else [slash])"
proof -
  have z: "new_path (slashes n) = slashes n" by (rule new_path_id) auto
  show ?thesis
    unfolding BaseName_def z strip_root by (auto simp: IsSeparator_slash Let_def)
qed

lemma new_path_named: "0 \<notin> set d \<Longrightarrow> new_path (d @ slashes k) = d @ slashes k"
  by (rule new_path_id) auto

lemma DirName_name: "plain_name c \<Longrightarrow> 0 \<notin> set c \<Longrightarrow> DirName (c @ slashes k) = [dot]"
  using strip_named [OF plain_ends [of c "[]"], of k] strip_root [of 0]
  by (simp add: DirName_def new_path_named last_separator_name Let_def special_paths)

lemma BaseName_name:
  assumes "plain_name c" and "0 \<notin> set c"
  shows "BaseName (c @ slashes k) = c"
  using strip_named [OF plain_ends [of c "[]"], of k] assms
  by (simp add: BaseName_def new_path_named last_separator_name Let_def)

lemma BaseName_below:
  assumes "plain_name c" and "0 \<notin> set d" and "0 \<notin> set c"
  shows "BaseName (d @ slash # c @ slashes k) = c"
proof -
  have z: "new_path (d @ slash # c @ slashes k) = (d @ slash # c) @ slashes k"
    using new_path_named [of "d @ slash # c" k] assms by auto
  have "StripTrailingSeparatorsInternal ((d @ slash # c) @ slashes k) = d @ slash # c"
    using strip_named [of "d @ slash # c" k] plain_ends [OF assms(1), of "d @ [slash]"] by simp
  then show ?thesis
    using last_separator_named [OF assms(1), of d] assms(1) unfolding BaseName_def z by (auto simp: plain_name_def simp del: last_below.simps)
qed

lemma DirName_top:
  assumes "plain_name c" and "0 \<notin> set c"
  shows "DirName (slashes (Suc m) @ c @ slashes k) = (if m = 1 \<or> m = 2 then [slash, slash] else [slash])"
proof -
  have e: "slashes (Suc m) @ c = slashes m @ slash # c" by (simp only: slashes_snoc) simp
  have z: "new_path (slashes (Suc m) @ c @ slashes k) = (slashes m @ slash # c) @ slashes k"
    using new_path_named [of "slashes m @ slash # c" k] assms e by simp
  have "StripTrailingSeparatorsInternal ((slashes m @ slash # c) @ slashes k) = slashes m @ slash # c"
    using strip_named [of "slashes m @ slash # c" k] plain_ends [OF assms(1), of "slashes m @ [slash]"] by simp
  moreover have "last_below IsSeparator (slashes m @ slash # c) (length (slashes m @ slash # c)) = Some m"
    using last_separator_named [OF assms(1), of "slashes m"] by (simp del: last_below.simps)
  moreover have "take m (slashes m @ slash # c) = slashes m" by simp
  moreover have "take 1 (slashes m @ slash # c) = [slash]" "m = 1 \<Longrightarrow> take 2 (slashes m @ slash # c) = [slash, slash]" "(slashes m @ slash # c) ! 0 = slash"
    by (cases m; simp)+
  ultimately show ?thesis
    using strip_root [of 1] strip_root [of 2] strip_root [of m]
    unfolding DirName_def z by (auto simp: Let_def IsSeparator_slash eval_nat_numeral simp del: last_below.simps)
qed

lemma DirName_below:
  assumes "plain_name c" and "ends_named d" and "0 \<notin> set d" and "0 \<notin> set c"
  shows "DirName (d @ slashes (Suc m) @ c @ slashes k) = d"
proof -
  let ?e = "d @ slashes m"
  have e: "d @ slashes (Suc m) @ c @ slashes k = (?e @ slash # c) @ slashes k" by (simp only: slashes_snoc append.assoc) simp
  have z: "new_path (d @ slashes (Suc m) @ c @ slashes k) = (?e @ slash # c) @ slashes k"
    unfolding e using new_path_named [of "?e @ slash # c" k] assms by simp
  have s: "StripTrailingSeparatorsInternal ((?e @ slash # c) @ slashes k) = ?e @ slash # c"
    using strip_named [of "?e @ slash # c" k] plain_ends [OF assms(1), of "?e @ [slash]"] by simp
  have l: "last_below IsSeparator (?e @ slash # c) (length (?e @ slash # c)) = Some (length ?e)"
    using last_separator_named [OF assms(1), of ?e] by (simp add: add.assoc del: last_below.simps)
  have n: "length ?e \<noteq> 0" "length ?e = 1 \<Longrightarrow> \<not> IsSeparator ((?e @ slash # c) ! 0)" "d \<noteq> []"
    using assms(2) by (cases d; auto simp: ends_named_def IsSeparator_slash)+
  show ?thesis
    unfolding DirName_def z s using l n strip_named [OF assms(2), of m] by (auto simp: Let_def simp del: last_below.simps)
qed

section \<open>GetComponents\<close>

lemma components_loop_acc:
  "components_loop p ret = (fst (components_loop p []), ret @ snd (components_loop p []))"
proof (induction "path_measure p" arbitrary: p ret rule: less_induct)
  case less
  show ?case
  proof (cases "p = DirName p")
    case True
    then show ?thesis by (simp add: components_loop.simps [of p])
  next
    case False
    let ?b = "if AreAllSeparators (BaseName p) then [] else [BaseName p]"
    note IH = less [OF DirName_shorter [OF False]]
    have "components_loop p ret = components_loop (DirName p) (ret @ ?b)" for ret
      using False by (simp add: components_loop.simps [of p] Let_def)
    then show ?thesis using IH [of "ret @ ?b"] IH [of ?b] by simp
  qed
qed

lemma GetComponents_stop:
  "p = DirName p \<Longrightarrow> GetComponents p = (if p = [] \<or> BaseName p = [] \<or> BaseName p = [dot] then [] else [BaseName p])"
  by (simp add: GetComponents_def components_loop.simps [of p] special_paths Let_def)

lemma GetComponents_step:
  assumes "p \<noteq> DirName p" and "p \<noteq> []"
  shows "GetComponents p = GetComponents (DirName p) @ (if AreAllSeparators (BaseName p) then [] else [BaseName p])"
proof -
  have "DirName p \<noteq> []" by (simp add: DirName_def Let_def special_paths)
  then show ?thesis
    using assms components_loop_acc [of "DirName p" "[BaseName p]"]
    by (simp add: GetComponents_def components_loop.simps [of p] Let_def split_beta)
qed

lemma separators_only: "AreAllSeparators p \<longleftrightarrow> set p \<subseteq> {slash}"
  by (auto simp: AreAllSeparators_def list_all_iff IsSeparator_slash)

lemma plain_not_separators: "plain_name c \<Longrightarrow> \<not> AreAllSeparators c"
  by (auto simp: separators_only plain_name_def subset_singleton_iff)

lemma GetComponents_dot: "GetComponents [dot] = []"
  using DirName_name [of "[dot]" 0] BaseName_name [of "[dot]" 0]
  by (subst GetComponents_stop) (auto simp: plain_name_def)

lemma GetComponents_name:
  assumes "plain_name c" and "0 \<notin> set c"
  shows "GetComponents (c @ slashes k) = (if c @ slashes k = [dot] then [] else [c])"
proof (cases "c @ slashes k = [dot]")
  case False
  then show ?thesis
    using GetComponents_step [of "c @ slashes k"] DirName_name [OF assms, of k] BaseName_name [OF assms, of k] assms(1)
      plain_not_separators [OF assms(1)]
    by (auto simp: GetComponents_dot plain_name_def)
qed (simp add: GetComponents_dot)

definition root_name :: "nat \<Rightarrow> bool \<Rightarrow> file_path" where
  "root_name n named = (if n = 2 \<or> n = 3 \<and> named then [slash, slash] else [slash])"

lemma GetComponents_root: "GetComponents (slashes n) = (if n = 0 then [] else [root_name n False])"
proof -
  have s: "GetComponents [slash] = [[slash]]" "GetComponents [slash, slash] = [[slash, slash]]"
    using GetComponents_stop [of "slashes 1"] DirName_root [of 1] BaseName_root [of 1]
      GetComponents_stop [of "slashes 2"] DirName_root [of 2] BaseName_root [of 2]
    by (auto simp: eval_nat_numeral)
  consider "n = 0" | "n = 1" | "n = 2" | "2 < n" by linarith
  then show ?thesis
  proof cases
    case 4
    then have "slashes n \<noteq> [slash]" "slashes n \<noteq> []" by (metis length_Cons list.size(3) not_numeral_less_one One_nat_def slashes_simps(3)) (use 4 in \<open>auto simp: slashes_def\<close>)
    then show ?thesis
      using 4 GetComponents_step [of "slashes n"] DirName_root [of n] BaseName_root [of n] s
      by (simp add: root_name_def separators_only)
  qed (use s in \<open>auto simp: root_name_def eval_nat_numeral GetComponents_def\<close>)
qed

lemma GetComponents_top:
  assumes "plain_name c" and "0 \<notin> set c"
  shows "GetComponents (slashes (Suc m) @ c @ slashes k) = [root_name (Suc m) True, c]"
proof -
  let ?p = "slashes (Suc m) @ c @ slashes k"
  have b: "BaseName ?p = c"
    using BaseName_below [OF assms(1), of "slashes m" k] assms by (simp only: slashes_snoc append.assoc) simp
  have d: "DirName ?p = root_name (Suc m) True" using DirName_top [OF assms, of m k] by (simp add: root_name_def)
  have "AreAllSeparators (root_name (Suc m) True)" by (simp add: root_name_def separators_only)
  moreover have "\<not> AreAllSeparators ?p" using plain_not_separators [OF assms(1)] by (auto simp: separators_only)
  ultimately have n: "?p \<noteq> root_name (Suc m) True" by metis
  have "GetComponents (root_name (Suc m) True) = [root_name (Suc m) True]"
    using GetComponents_root [of 1] GetComponents_root [of 2] by (auto simp: root_name_def eval_nat_numeral)
  then show ?thesis
    using GetComponents_step [of ?p] b d n plain_not_separators [OF assms(1)] by simp
qed

lemma GetComponents_below:
  assumes "plain_name c" and "ends_named d" and "0 \<notin> set d" and "0 \<notin> set c"
  shows "GetComponents (d @ slashes (Suc m) @ c @ slashes k) = GetComponents d @ [c]"
proof -
  let ?p = "d @ slashes (Suc m) @ c @ slashes k"
  have b: "BaseName ?p = c"
    using BaseName_below [OF assms(1), of "d @ slashes m" k] assms by (simp only: slashes_snoc append.assoc) simp
  show ?thesis
    using GetComponents_step [of ?p] b DirName_below [OF assms, of m k] plain_not_separators [OF assms(1)] by simp
qed

section \<open>Components as the kernel sees them\<close>

text \<open>The names of a path, and how many separators it begins with.\<close>

definition path_names :: "file_path \<Rightarrow> file_path list" where
  "path_names p = filter (\<lambda>c. c \<noteq> []) (components p)"

definition leading :: "file_path \<Rightarrow> nat" where
  "leading p = length (takeWhile (\<lambda>c. c = slash) p)"

lemma path_names_slash: "path_names (xs @ slash # ys) = path_names xs @ path_names ys"
  by (simp add: path_names_def components_append)

lemma path_names_nil [simp]: "path_names [] = []"
  by (simp add: path_names_def)

lemma path_names_slashes [simp]: "path_names (slashes n) = []"
  by (induction n) (simp_all add: path_names_def)

lemma path_names_name [simp]: "plain_name c \<Longrightarrow> path_names c = [c]"
  by (simp add: path_names_def plain_name_def components_single)

lemma path_names_dot [simp]: "path_names [dot] = [[dot]]"
  by (rule path_names_name) (simp add: plain_name_def)

lemma path_names_trailing [simp]: "path_names (d @ slashes k) = path_names d"
  by (cases k) (simp_all add: path_names_slash)

lemma path_names_leading: "path_names (slash # d) = path_names d"
  using path_names_slash [of "[]" d] by (simp add: path_names_def)

lemma path_names_join: "plain_name c \<Longrightarrow> path_names (d @ slashes (Suc m) @ c @ slashes k) = path_names d @ [c]"
proof -
  assume c: "plain_name c"
  have "path_names (slashes m @ c) = [c]" by (induction m) (simp_all add: c path_names_leading)
  then show ?thesis using path_names_trailing [of "d @ slash # slashes m @ c" k] by (simp add: path_names_slash del: path_names_trailing)
qed

lemma named_nonempty:
  assumes "ends_named d"
  shows "path_names d \<noteq> []"
proof -
  obtain e n where d: "d = e @ n" "plain_name n" "e = [] \<or> last e = slash" using last_name [OF assms] by blast
  then show ?thesis by (cases e rule: rev_cases) (auto simp: path_names_slash)
qed

lemma leading_named: "ends_named d \<Longrightarrow> leading (d @ e) = leading d"
proof -
  assume "ends_named d"
  then have "\<exists>x \<in> set d. x \<noteq> slash" by (intro bexI [of _ "last d"]) (auto simp: ends_named_def)
  then show ?thesis by (auto simp: leading_def takeWhile_append)
qed

lemma leading_slashes: "d = [] \<or> hd d \<noteq> slash \<Longrightarrow> leading (slashes n @ d) = n"
  by (induction n) (auto simp: leading_def takeWhile_eq_Nil_iff)

definition components_of :: "file_path \<Rightarrow> file_path list" where
  "components_of p =
     (if leading p > 0 then root_name (leading p) (path_names p \<noteq> []) # path_names p
      else if p = [dot] \<or> (length (path_names p) > 1 \<and> hd (path_names p) = [dot]) then tl (path_names p)
      else path_names p)"

lemma plain_hd: "plain_name c \<Longrightarrow> c @ d \<noteq> [] \<and> hd (c @ d) \<noteq> slash"
  by (cases c) (auto simp: plain_name_def)

lemma single_name:
  assumes "ends_named d" and "leading d = 0" and "path_names d = [c]"
  shows "d = c"
proof (cases d rule: path_forms)
  case (root n)
  then show ?thesis using assms(3) by simp
next
  case (name c' k)
  then have "k = 0" using assms(1) by (cases k) (auto simp: ends_named_def slashes_snoc simp del: slashes_simps(2))
  then show ?thesis using name assms(3) by simp
next
  case (top m c' k)
  then show ?thesis using assms(2) by (simp add: leading_def)
next
  case (below d' m c' k)
  then have "path_names d' = []" using assms(3) path_names_join [of c' d' m k] by simp
  then show ?thesis using named_nonempty below by blast
qed

lemma GetComponents_names:
  assumes "0 \<notin> set p"
  shows "GetComponents p = components_of p"
  using assms
proof (induction "length p" arbitrary: p rule: less_induct)
  case less
  show ?case
  proof (cases p rule: path_forms)
    case (root n)
    then show ?thesis using GetComponents_root [of n] leading_slashes [of "[]" n] by (auto simp: components_of_def)
  next
    case (name c k)
    then show ?thesis
      using GetComponents_name [of c k] less.prems plain_hd [of c "slashes k"] leading_slashes [of "c @ slashes k" 0]
      by (auto simp: components_of_def)
  next
    case (top m c k)
    then show ?thesis
      using GetComponents_top [of c m k] less.prems plain_hd [of c "slashes k"] leading_slashes [of "c @ slashes k" "Suc m"]
        path_names_join [of c "[]" m k]
      by (auto simp: components_of_def path_names_def)
  next
    case (below d m c k)
    have "GetComponents p = components_of d @ [c]"
      using GetComponents_below [of c d m k] less below by simp
    moreover have "leading p = leading d" "path_names p = path_names d @ [c]"
      using below leading_named path_names_join by simp_all
    moreover have "path_names d \<noteq> []" using named_nonempty below by blast
    moreover have "p \<noteq> [dot]" using below by (cases d) (auto simp: ends_named_def)
    moreover have "path_names d = [[dot]] \<Longrightarrow> leading d = 0 \<Longrightarrow> d = [dot]" using single_name below by blast
    ultimately show ?thesis
      by (cases "path_names d") (auto simp: components_of_def)
  qed
qed

section \<open>Append\<close>

lemma names_plain: "c \<in> set (path_names p) \<Longrightarrow> plain_name c"
proof (induction "length p" arbitrary: p rule: less_induct)
  case less
  then show ?case
  proof (cases p rule: path_forms)
    case (below d m c' k)
    then show ?thesis using less.hyps [of d] less.prems path_names_join [of c' d m k] by auto
  next
    case (top m c' k)
    then show ?thesis using less path_names_join [of c' "[]" m k] by auto
  qed auto
qed

lemma components_subset: "c \<in> set (components p) \<Longrightarrow> set c \<subseteq> set p"
  using components_at [of c p] by (auto simp: component_at_def)

lemma names_subset: "c \<in> set (path_names p) \<Longrightarrow> set c \<subseteq> set p"
  using components_subset by (auto simp: path_names_def)

lemma set_tl: "set (tl xs) \<subseteq> set xs"
  by (cases xs) auto

text \<open>The components behind the first are names.\<close>

lemma tl_components: "c \<in> set (tl (components_of p)) \<Longrightarrow> c \<in> set (path_names p)"
  using set_tl [of "path_names p"] set_tl [of "tl (path_names p)"] by (auto simp: components_of_def split: if_splits)

definition appendable :: "file_path \<Rightarrow> bool" where
  "appendable p \<longleftrightarrow> p \<noteq> [] \<and> StripTrailingSeparatorsInternal p \<noteq> [dot] \<and> 0 \<notin> set p"

lemma Append_name:
  assumes p: "appendable p" and c: "plain_name c" "0 \<notin> set c"
  shows "appendable (fp_Append p c) \<and> components_of (fp_Append p c) = components_of p @ [c]"
proof -
  obtain d k where d: "p = d @ slashes k" "d = [] \<or> ends_named d" using trailing_slashes by blast
  have z: "takeWhile (\<lambda>x. x \<noteq> 0) c = c" "new_path p = p" "0 \<notin> set p"
    using c p new_path_id [of c] new_path_id [of p] by (simp_all add: new_path_def appendable_def)
  show ?thesis
  proof (cases "d = []")
    case True
    let ?r = "root_name k False"
    have k: "p = slashes k" "0 < k" using d True p by (cases k; auto simp: appendable_def)+
    have r: "StripTrailingSeparatorsInternal p = ?r" "?r \<noteq> []" "?r ! (length ?r - 1) = slash" "p \<noteq> [dot]"
      using strip_root [of k] k by (cases k; auto simp: root_name_def)+
    then have a: "fp_Append p c = ?r @ c"
      by (simp add: fp_Append_def z special_paths IsSeparator_slash Let_def)
    obtain m where m: "?r = slashes (Suc m)" "m = (if k = 2 then 1 else 0)" by (simp add: root_name_def)
    have "leading (?r @ c) = Suc m" using leading_slashes [of c "Suc m"] plain_hd [OF c(1), of "[]"] m(1) by simp
    moreover have "path_names (?r @ c) = [c]" using path_names_join [OF c(1), of "[]" m 0] m(1) by simp
    moreover have "leading p = k" using leading_slashes [of "[]" k] k by simp
    ultimately have "components_of (?r @ c) = components_of p @ [c]"
      using k m(2) by (simp add: components_of_def root_name_def)
    moreover have "StripTrailingSeparatorsInternal (?r @ c) = ?r @ c" using strip_named_0 plain_ends [OF c(1)] by blast
    ultimately show ?thesis using a c m(1) by (auto simp: appendable_def)
  next
    case False
    then have n: "ends_named d" using d by simp
    have s: "StripTrailingSeparatorsInternal p = d" using strip_named [OF n] d by simp
    then have e: "d \<noteq> [dot]" "d \<noteq> []" "last d \<noteq> slash" "p \<noteq> [dot]" using p n d strip_named_0 [of "[dot]"] by (auto simp: appendable_def ends_named_def)
    have a: "fp_Append p c = d @ slash # c"
      using e c by (simp add: fp_Append_def z s special_paths IsSeparator_slash last_conv_nth plain_name_def Let_def)
    have "path_names (d @ slash # c) = path_names p @ [c]" "leading (d @ slash # c) = leading p"
      using path_names_join [OF c(1), of d 0 0] leading_named [OF n] d by simp_all
    moreover have "path_names p \<noteq> []" using named_nonempty [OF n] d by simp
    moreover have "d @ slash # c \<noteq> [dot]" using e(2) by (cases d) auto
    moreover have "path_names p = [[dot]] \<Longrightarrow> leading p = 0 \<Longrightarrow> False"
      using single_name [OF n] e d leading_named [OF n] by simp
    ultimately have "components_of (d @ slash # c) = components_of p @ [c]"
      using e(4) by (cases "path_names p") (auto simp: components_of_def)
    moreover have "StripTrailingSeparatorsInternal (d @ slash # c) = d @ slash # c"
      using strip_named_0 plain_ends [OF c(1), of "d @ [slash]"] by simp
    ultimately show ?thesis using a z c d e(2) by (auto simp: appendable_def) (cases d; simp)+
  qed
qed

lemma Append_names:
  "appendable p \<Longrightarrow> \<forall>c \<in> set cs. plain_name c \<and> 0 \<notin> set c \<Longrightarrow>
    components_of (foldl fp_Append p cs) = components_of p @ cs"
  by (induction cs arbitrary: p) (auto simp: Append_name)

lemma appendable_foldl:
  "appendable p \<Longrightarrow> \<forall>c \<in> set cs. plain_name c \<and> 0 \<notin> set c \<Longrightarrow> appendable (foldl fp_Append p cs)"
  by (induction cs arbitrary: p) (auto simp: Append_name)

lemma match_components_prefix: "match_components ps cs = (if prefix ps cs then Some (drop (length ps) cs) else None)"
  by (induction ps cs rule: match_components.induct) auto

section \<open>Extensions\<close>

text \<open>Where the extension begins is found in the last name, whatever stands before it.\<close>

lemma final_position_below:
  assumes "d = [] \<or> last d = slash" and "FinalExtensionSeparatorPosition c = Some i"
  shows "FinalExtensionSeparatorPosition (d @ c) = Some (length d + i)"
proof (cases "d = []")
  case False
  then have "slash \<in> set d" using assms(1) last_in_set by metis
  then have "d @ c \<noteq> [dot] \<and> d @ c \<noteq> [dot, dot]" by (auto simp: append_eq_Cons_conv)
  then show ?thesis
    using assms last_below_append [of "length c" c "\<lambda>x. x = dot" d]
    by (auto simp: FinalExtensionSeparatorPosition_def special_paths split: if_splits)
qed (use assms in simp)

lemma final_position_dot: "FinalExtensionSeparatorPosition c = Some i \<Longrightarrow> i < length c \<and> c ! i = dot"
  using last_below_le [of "\<lambda>x. x = dot" c "length c" i]
  by (auto simp: FinalExtensionSeparatorPosition_def special_paths split: if_splits)

lemma dot_before:
  assumes "d \<noteq> []" and "last d = slash" and "last_below (\<lambda>x. x = dot) d (length d) = Some j"
  shows "j < length d - 1"
proof -
  have "j < length d" "d ! j = dot" using last_below_le [OF assms(3)] by simp_all
  moreover have "j \<noteq> length d - 1" using calculation assms(1,2) by (auto simp: last_conv_nth)
  ultimately show ?thesis by linarith
qed

lemma last_separator_below:
  assumes "plain_name c" and "d = [] \<or> last d = slash" and "n \<le> length c"
  shows "last_below IsSeparator (d @ c) (length d + n) = (if d = [] then None else Some (length d - 1))"
proof (cases d rule: rev_cases)
  case (snoc e x)
  then show ?thesis
    using assms last_below_append [of n c IsSeparator d] last_separator_name [of c n] by (simp add: IsSeparator_slash nth_append)
qed (use assms last_separator_name in simp)

lemma position_below:
  assumes c: "plain_name c" and d: "d = [] \<or> last d = slash" and i: "ExtensionSeparatorPosition c = Some i"
  shows "ExtensionSeparatorPosition (d @ c) = Some (length d + i)"
proof (cases "d = []")
  case False
  then have l: "last d = slash" using d by simp
  obtain j where j: "FinalExtensionSeparatorPosition c = Some j"
    using i by (cases "FinalExtensionSeparatorPosition c") (auto simp: ExtensionSeparatorPosition_def)
  have jc: "j < length c" using final_position_dot [OF j] by simp
  have f: "FinalExtensionSeparatorPosition (d @ c) = Some (length d + j)" using final_position_below [OF d j] .
  have s: "last_below IsSeparator (d @ c) (length d + j) = Some (length d - 1)"
    using last_separator_below [OF c d, of j] jc False by simp
  have sc: "last_below IsSeparator c j = None" using last_separator_name [OF c] .
  have p: "last_below (\<lambda>x. x = kExtensionSeparator) (d @ c) (length d + j) =
      (case last_below (\<lambda>x. x = kExtensionSeparator) c j of Some k \<Rightarrow> Some (length d + k)
       | None \<Rightarrow> last_below (\<lambda>x. x = kExtensionSeparator) d (length d))"
    using last_below_append [of j c _ d] jc by simp
  show ?thesis
  proof (cases "last_below (\<lambda>x. x = kExtensionSeparator) c j")
    case None
    then have "i = j" using i j by (auto simp: ExtensionSeparatorPosition_def Let_def split: if_splits)
    then show ?thesis
      using f s p None dot_before [OF False l] False
      by (auto simp: ExtensionSeparatorPosition_def special_paths Let_def split: option.splits)
  next
    case (Some k)
    have "0 < j" using Some by (cases j) auto
    then show ?thesis
      using f s p Some i j sc False by (auto simp: ExtensionSeparatorPosition_def Let_def split: if_splits)
  qed
qed (use i in simp)

lemma position_dot: "ExtensionSeparatorPosition c = Some i \<Longrightarrow> i < length c \<and> c ! i = dot"
proof -
  assume i: "ExtensionSeparatorPosition c = Some i"
  then obtain j where j: "FinalExtensionSeparatorPosition c = Some j"
    by (cases "FinalExtensionSeparatorPosition c") (auto simp: ExtensionSeparatorPosition_def)
  show ?thesis
    using i j final_position_dot [OF j] last_below_le [of "\<lambda>x. x = dot" c j]
    by (auto simp: ExtensionSeparatorPosition_def special_paths Let_def split: if_splits option.splits)
qed

text \<open>A path with an extension, and what stands before its last name.\<close>

lemma BaseName_dot:
  assumes "0 \<notin> set p" and "dot \<in> set (BaseName p)"
  shows "\<exists>d k. p = d @ BaseName p @ slashes k \<and> plain_name (BaseName p) \<and> (d = [] \<or> last d = slash)"
proof (cases p rule: path_forms)
  case (root n)
  then show ?thesis using assms BaseName_root [of n] by (auto split: if_splits)
next
  case (name c k)
  then show ?thesis using assms BaseName_name [of c k] by auto
next
  case (top m c k)
  then have p: "p = slashes m @ slash # c @ slashes k" by (simp only: slashes_snoc append.assoc) simp
  then have "BaseName p = c" using BaseName_below [of c "slashes m" k] assms(1) top by simp
  then show ?thesis using p top by (intro exI [of _ "slashes m @ [slash]"] exI [of _ k]) simp
next
  case (below d m c k)
  then have p: "p = (d @ slashes m) @ slash # c @ slashes k" by (simp only: slashes_snoc append.assoc) simp
  then have "BaseName p = c" using BaseName_below [of c "d @ slashes m" k] assms(1) below by simp
  then show ?thesis using p below by (intro exI [of _ "d @ slashes m @ [slash]"] exI [of _ k]) simp
qed

lemma extension_split:
  assumes z: "0 \<notin> set p" and i: "pos (BaseName p) = Some i"
    and dot: "\<And>c i. pos c = Some i \<Longrightarrow> i < length c \<and> c ! i = dot"
    and below: "\<And>c d i. plain_name c \<Longrightarrow> d = [] \<or> last d = slash \<Longrightarrow> pos c = Some i \<Longrightarrow> pos (d @ c) = Some (length d + i)"
  shows "EndsWithSeparator p \<longleftrightarrow> (case pos p of None \<Rightarrow> p | Some j \<Rightarrow> new_path (take j p)) @ drop i (BaseName p) \<noteq> p"
proof -
  have "dot \<in> set (BaseName p)" using dot [OF i] by (metis nth_mem)
  from BaseName_dot [OF z this] obtain d k where p: "p = d @ BaseName p @ slashes k"
    and n: "plain_name (BaseName p)" "d = [] \<or> last d = slash" by blast
  have last: "last (drop i (BaseName p)) \<noteq> slash" "drop i (BaseName p) \<noteq> []"
    using n(1) dot [OF i] by (auto simp: plain_name_def last_drop) (metis last_in_set)
  show ?thesis
  proof (cases "k = 0")
    case True
    then have q: "p = d @ BaseName p" using p by simp
    have "pos p = Some (length d + i)" using below [OF n i] q by simp
    moreover have "take (length d + i) p @ drop i (BaseName p) = p" by (subst (1 3) q) simp
    moreover have "new_path (take (length d + i) p) = take (length d + i) p"
      using z by (intro new_path_id) (meson in_set_takeD)
    moreover have "\<not> EndsWithSeparator p"
    proof -
      have "last p \<noteq> slash" using n(1) q by (metis ends_named_def plain_ends)
      then show ?thesis by (auto simp: EndsWithSeparator_def IsSeparator_slash last_conv_nth)
    qed
    ultimately show ?thesis by simp
  next
    case False
    then obtain j where "k = Suc j" by (cases k) auto
    then have e: "last p = slash" "p \<noteq> []" by (subst p; simp add: slashes_snoc del: slashes_simps(2))+
    then have "EndsWithSeparator p" by (simp add: EndsWithSeparator_def IsSeparator_slash last_conv_nth)
    moreover have "x @ drop i (BaseName p) \<noteq> p" for x using last e(1) by (metis last_appendR)
    ultimately show ?thesis by blast
  qed
qed

lemma Extension_split:
  assumes "0 \<notin> set p"
  shows "RemoveExtension p @ Extension p = p \<longleftrightarrow> Extension p = [] \<or> \<not> EndsWithSeparator p"
proof (cases "Extension p = []")
  case False
  then obtain i where i: "ExtensionSeparatorPosition (BaseName p) = Some i" "Extension p = drop i (BaseName p)"
    by (auto simp: Extension_def Let_def split: option.splits)
  have e: "EndsWithSeparator p \<longleftrightarrow>
      (case ExtensionSeparatorPosition p of None \<Rightarrow> p | Some j \<Rightarrow> new_path (take j p)) @ drop i (BaseName p) \<noteq> p"
    by (rule extension_split [where pos = ExtensionSeparatorPosition and i = i, OF assms i(1)])
      (erule position_dot, (rule position_below; assumption))
  show ?thesis unfolding e using False i(2) by (simp only: RemoveExtension_def if_False) blast
qed (simp add: RemoveExtension_def)

lemma FinalExtension_split:
  assumes "0 \<notin> set p"
  shows "RemoveFinalExtension p @ FinalExtension p = p \<longleftrightarrow> FinalExtension p = [] \<or> \<not> EndsWithSeparator p"
proof (cases "FinalExtension p = []")
  case False
  then obtain i where i: "FinalExtensionSeparatorPosition (BaseName p) = Some i" "FinalExtension p = drop i (BaseName p)"
    by (auto simp: FinalExtension_def Let_def split: option.splits)
  have e: "EndsWithSeparator p \<longleftrightarrow>
      (case FinalExtensionSeparatorPosition p of None \<Rightarrow> p | Some j \<Rightarrow> new_path (take j p)) @ drop i (BaseName p) \<noteq> p"
    by (rule extension_split [where pos = FinalExtensionSeparatorPosition and i = i, OF assms i(1)])
      (erule final_position_dot, (rule final_position_below; assumption))
  show ?thesis unfolding e using False i(2) by (simp only: RemoveFinalExtension_def if_False) blast
qed (simp add: RemoveFinalExtension_def)

text \<open>The form of an extension: a dot, no separator.\<close>

lemma Extension_form:
  assumes "0 \<notin> set p" and "Extension p \<noteq> []"
  shows "hd (Extension p) = dot \<and> slash \<notin> set (Extension p)"
proof -
  obtain i where i: "ExtensionSeparatorPosition (BaseName p) = Some i" "Extension p = drop i (BaseName p)"
    using assms(2) by (auto simp: Extension_def Let_def split: option.splits)
  have n: "i < length (BaseName p)" "BaseName p ! i = dot" using position_dot [OF i(1)] by simp_all
  then have "dot \<in> set (BaseName p)" by (metis nth_mem)
  then have "plain_name (BaseName p)" using BaseName_dot [OF assms(1)] by blast
  then show ?thesis using i n by (auto simp: hd_drop_conv_nth plain_name_def dest: in_set_dropD)
qed

section \<open>Properties\<close>

text \<open>
  C8.  GetComponents, whose loop over DirName ends for every path, returns the root and the nonempty names
  between the slashes, as the kernel walks them, but for a "." at the beginning of a longer relative
  path.  The root of a path that begins with two slashes is "//", with three and more it is "/"; yet
  three slashes before a name give "//" too.
\<close>

theorem GetComponents_exact:
  assumes "0 \<notin> set p"
  shows "GetComponents p =
    (let names = filter (\<lambda>c. c \<noteq> []) (components p); n = leading p in
     if n > 0 then (if n = 2 \<or> n = 3 \<and> names \<noteq> [] then [slash, slash] else [slash]) # names
     else if p = [dot] \<or> length names > 1 \<and> hd names = [dot] then tl names
     else names)"
  using GetComponents_names [OF assms] by (simp add: components_of_def root_name_def path_names_def Let_def)

theorem GetComponents_exact_witness:
  "GetComponents [slash, slash, slash, 97, slash, slash, 98, slash] = [[slash, slash], [97], [98]]
   \<and> GetComponents [slash, slash, slash, slash, 97] = [[slash], [97]]"
  using GetComponents_exact [of "[slash, slash, slash, 97, slash, slash, 98, slash]"]
    GetComponents_exact [of "[slash, slash, slash, slash, 97]"]
  by (simp add: leading_def Let_def slash_def)

text \<open>
  AppendRelativePath succeeds exactly if the components of the parent are a proper prefix of those of
  the child, and then it adds the components in which the child goes on to those of the path it is given,
  which must not be empty or ".".
\<close>

theorem AppendRelativePath_exact:
  assumes "0 \<notin> set child"
  shows "(IsParent p child \<longleftrightarrow> GetComponents p \<noteq> [] \<and> strict_prefix (GetComponents p) (GetComponents child))
    \<and> (\<not> IsParent p child \<longrightarrow> AppendRelativePath p child (Some q) = (False, Some q))
    \<and> (IsParent p child \<and> 0 \<notin> set q \<and> q \<noteq> [] \<and> StripTrailingSeparatorsInternal q \<noteq> kCurrentDirectory \<longrightarrow>
         (\<exists>r. AppendRelativePath p child (Some q) = (True, Some r) \<and>
           GetComponents r = GetComponents q @ drop (length (GetComponents p)) (GetComponents child)))"
proof -
  let ?P = "GetComponents p" and ?C = "GetComponents child"
  have sp: "strict_prefix ?P ?C \<longleftrightarrow> prefix ?P ?C \<and> length ?P < length ?C"
    by (metis not_le prefix_length_le prefix_length_less prefix_order.le_imp_less_or_eq prefix_order.less_imp_le less_irrefl)
  have a: "AppendRelativePath p child path =
      (if ?P \<noteq> [] \<and> strict_prefix ?P ?C then (True, map_option (\<lambda>q. foldl fp_Append q (drop (length ?P) ?C)) path)
       else (False, path))" for path
    by (auto simp: AppendRelativePath_def match_components_prefix sp Let_def)
  have n: "plain_name c \<and> 0 \<notin> set c" if "?P \<noteq> []" "c \<in> set (drop (length ?P) ?C)" for c
  proof -
    have "drop (length ?P) ?C = drop (length ?P - 1) (tl ?C)" using that(1) by (cases ?P) (simp_all add: drop_Suc)
    then have "c \<in> set (tl (components_of child))"
      using that(2) GetComponents_names [OF assms] by (metis in_set_dropD)
    then show ?thesis using tl_components names_plain names_subset assms by blast
  qed
  have q: "GetComponents (foldl fp_Append q (drop (length ?P) ?C)) = GetComponents q @ drop (length ?P) ?C"
    if "?P \<noteq> []" "0 \<notin> set q" "q \<noteq> []" "StripTrailingSeparatorsInternal q \<noteq> [dot]"
  proof -
    have "appendable q" using that by (simp add: appendable_def)
    moreover have "\<forall>c \<in> set (drop (length ?P) ?C). plain_name c \<and> 0 \<notin> set c" using n [OF that(1)] by blast
    ultimately have f: "components_of (foldl fp_Append q (drop (length ?P) ?C)) = components_of q @ drop (length ?P) ?C"
      and r: "appendable (foldl fp_Append q (drop (length ?P) ?C))"
      by (rule Append_names, rule appendable_foldl)
    from r have "0 \<notin> set (foldl fp_Append q (drop (length ?P) ?C))" by (simp add: appendable_def)
    note g = GetComponents_names [OF this]
    show ?thesis unfolding g f GetComponents_names [OF that(2)] by (rule refl)
  qed
  have i: "IsParent p child \<longleftrightarrow> ?P \<noteq> [] \<and> strict_prefix ?P ?C" by (simp add: IsParent_def a)
  show ?thesis
    unfolding i a special_paths by (intro conjI impI refl) (simp_all add: q)
qed

theorem AppendRelativePath_exact_witness:
  "\<exists>r. AppendRelativePath [slash, 97] [slash, 97, slash, 98] (Some [99]) = (True, Some r) \<and> GetComponents r = [[99], [98]]"
proof -
  have c: "GetComponents [slash, 97] = [[slash], [97]]" "GetComponents [slash, 97, slash, 98] = [[slash], [97], [98]]"
    "GetComponents [99] = [[99]]" "StripTrailingSeparatorsInternal [99] \<noteq> kCurrentDirectory"
    by code_simp+
  have "0 \<notin> set [slash, 97, slash, 98]" by (simp add: slash_def)
  from AppendRelativePath_exact [OF this, of "[slash, 97]" "[99]"] show ?thesis by (auto simp: c strict_prefix_def)
qed

text \<open>
  What the header promises of the extensions, that RemoveExtension and Extension together give the
  path, holds for every path that does not end with a separator or has no extension, and for no other.
  An extension begins with a dot and has no separator.  The same is true of the final extension.
\<close>

theorem extensions_split_path:
  assumes "0 \<notin> set p"
  shows "(RemoveExtension p @ Extension p = p \<longleftrightarrow> Extension p = [] \<or> \<not> EndsWithSeparator p)
    \<and> (RemoveFinalExtension p @ FinalExtension p = p \<longleftrightarrow> FinalExtension p = [] \<or> \<not> EndsWithSeparator p)
    \<and> (Extension p \<noteq> [] \<longrightarrow> hd (Extension p) = dot \<and> slash \<notin> set (Extension p))"
  using Extension_split [OF assms] FinalExtension_split [OF assms] Extension_form [OF assms] by blast

theorem extensions_split_path_witness:
  "RemoveExtension [97, dot, 98] @ Extension [97, dot, 98] = [97, dot, 98]
   \<and> RemoveExtension [97, dot, 98, slash] @ Extension [97, dot, 98, slash] \<noteq> [97, dot, 98, slash]"
proof -
  have e: "\<not> EndsWithSeparator [97, dot, 98]" "EndsWithSeparator [97, dot, 98, slash]" "Extension [97, dot, 98, slash] \<noteq> []"
    by code_simp+
  show ?thesis
    using extensions_split_path [of "[97, dot, 98]"] extensions_split_path [of "[97, dot, 98, slash]"] e
    by (auto simp: slash_def dot_def)
qed

end
