(* ===== verification/Spec2Isabelle.thy ===== *)
theory Spec2Isabelle
  imports CompiledPolicy BaselineCorrect Curve25519Correct BrokerCorrect StringNumbersCorrect UtfConvert ValuesCorrect JsonRoundtrip
    WaitableEventCorrect FilePathCorrect
begin

text \<open>
  A verification development of libchrome (the Chromium base, sandbox and crypto libraries): its Linux
  system call sandbox with the file broker, the messages and sockets it uses, Curve25519, the text
  and value layer of base up to JSON, file paths and the waitable events of base.

  A sandbox policy is an expression of the policy language of sandbox/linux/bpf_dsl.  The policy
  compiler turns it into a BPF program by way of a code generator; the kernel runs the program on
  every system call, and a SECCOMP_RET_TRAP result comes back as a SIGSYS signal, which the trap
  registry's handler dispatches to the registered function.  The baseline policy of
  seccomp-bpf-helpers is such a policy; what it forbids about files a process asks of the broker, which
  decides by its own list of permissions, over messages that are pickles on Unix domain sockets.

  Theories, in the order of their dependencies, with the state they keep and what their lemmas show:
  \<^item> Prelude: machine integers, the error monad, the two halves of a 64-bit value.
  \<^item> BPF: bpf_dsl/verifier.cc (the BPF interpreter), system_headers/linux_filter.h,
    system_headers/linux_seccomp.h, bpf_dsl/seccomp_macros.h.
  \<^item> CodeGen: bpf_dsl/codegen.cc, whose state is the program so far; the contract of MakeInstruction is
    that no node changes its meaning.
  \<^item> SyscallSet: bpf_dsl/syscall_set.cc and bpf_dsl/linux_syscall_ranges.h.  SyscallNumbers: the
    headers of system calls by architecture.
  \<^item> TrapRegistry: bpf_dsl/trap_registry.h (the locale \<open>trap_registry\<close>) and seccomp-bpf/trap.cc,
    whose state is the table of handlers.
  \<^item> BpfDsl: bpf_dsl/bpf_dsl.cc, with the meaning of expressions.
  \<^item> PolicyCompiler: bpf_dsl/policy_compiler.cc, with its specification \<open>policy_verdict\<close>;
    PolicyCompilerCorrect: the contracts of the compiler's operations, up to Compile;
    CompiledPolicy: the compiler on the registry of trap.cc, and a sample policy.
  \<^item> SyscallSets, Restrictions, BaselinePolicy: seccomp-bpf-helpers/syscall_sets.cc,
    syscall_parameters_restrictions.cc, baseline_policy.cc and sigsys_handlers.cc for x86-64;
    BaselineCorrect: which calls the policy permits, and what its handlers report and repeat.
  \<^item> Bytes: little-endian numbers.  Bits: base/bits.h.
  \<^item> Pickle: base/pickle.cc; the state is the buffer with its capacity and offsets.  PickleRoundtrip:
    a kind of field as a locale, with every kind an interpretation; PickleCorrect: sequences of fields,
    reads of arbitrary bytes, copies, streams.
  \<^item> UnixSocket: base/posix/unix_domain_socket_linux.cc.  Broker: linux/syscall_broker, with its
    policy, client and host; BrokerPaths: paths as the kernel walks them; BrokerCorrect: the broker
    stays inside its policy and alive, and a call through it is the call that the policy makes of it.
  \<^item> FieldArith, Curve25519: crypto/curve25519-donna.c; FieldBounds: no limb leaves its range;
    Curve25519Bytes: limbs and bytes; Curve25519Correct: the ladder refines RFC 7748 modulo p.
  \<^item> StringNumbers: base/strings/string_number_conversions.cc, and StringNumbersCorrect: which texts
    are numbers.
  \<^item> Utf: base/third_party/icu/icu_utf.cc and the conversions of base/strings; UtfCorrect: the macros
    in arithmetic; UtfConvert: the conversions, by way of the locale \<open>unicode_converter\<close>.
  \<^item> Values: base/values.cc; the state is the tree.  ValuesCorrect: paths, equality, well-formed trees,
    by way of the locale \<open>ordered_map\<close>.
  \<^item> JsonWriter: base/json/string_escape.cc and json_writer.cc.  JsonParser: json_parser.cc and
    json_reader.cc; JsonParserTotal: parsing ends; JsonTyped: what a parsed value looks like;
    JsonTokens and JsonRoundtrip: what was written is read back.
  \<^item> WaitableEvent: base/synchronization/waitable_event_posix.cc under all interleavings of threads, as an
    inductive step relation whose steps are what happens between two operations on locks; the state is the
    events with their lists, the waiters and where each thread is.  WaitableEventInvariant: its invariant;
    WaitableEventCorrect: no deadlock, no dangling waiter, every signal counts once.
  \<^item> FilePath: base/files/file_path.cc on POSIX; a path is its bytes.  FilePathCorrect: the components of
    every form of a path, what Append and AppendRelativePath do to them, and which paths their
    extension splits.

  Fuel and bounds.  The interpreter's loop has one turn per instruction and one more, and never
  uses them up (\<open>evaluate_loop_enough\<close>).  The iteration over system call numbers is a terminating
  function; \<open>for_each\<close>, the source's loop over iterator states, needs at most 2^32 turns.
  Unexpected64bitArgument recurses when the panic expression itself tests a 32-bit argument: the
  model gives it one level, which is all a panic expression needs whose compilation returns at all.
  Waitable events need no fuel: what is proved of them holds of every reachable state.
  The loops of Curve25519 that depend on the data get three turns (freduce_coefficients) and two
  (fcontract), and the JSON parser twice the length of its input and two (\<open>json_fuel\<close>); that this is
  enough is proved.  Lengths that the source keeps in 32 bits are bounded by hypotheses.

  Not modelled: DCHECKs (compiled out of release builds) but for the NOTREACHED() that a message can make
  the broker run into, logging, and the MIPS build.  The lock and the condition variable of a waiter are
  not modelled either: a section under the waiter's lock is one step, and a waiter that was fired may go
  on.  Where C++ leaves the order of evaluation of two arguments open the model takes the order of the text.  What the
  kernel and the C library return (openat, sendmsg, strtod, std::to_string) is an argument.
  Most of the remaining code is glue to the platform, whose behaviour is that of the platform: files,
  processes, threads, message loops, timers, tracing and metrics of base, the NSS and OpenSSL bindings
  of crypto, dbus, the Windows and Mac sandboxes, the credentials and namespaces of
  sandbox/linux/services, and the suid sandbox.  The manifest lists these parts with their reasons.
\<close>

section \<open>The policy compiler\<close>

definition sample_input :: "u32 \<Rightarrow> arch_seccomp_data" where
  "sample_input nr = \<lparr>sd_nr = nr, sd_arch = 0xC00000B7, sd_ip = 0x1000, sd_args = (\<lambda>_. 0)\<rparr>"

text \<open>
  C1.  The program the policy compiler emits implements the policy: for every system call the
  interpreter runs it to a return, and the return code is that of the verdict the policy gives.
  The policy's and the panic function's expressions must return only codes the kernel knows.
\<close>

theorem compiled_policy_correct:
  assumes "trap_inv r" and "known_policy cfg"
    and "pc_Compile trap_ops cfg r = Inr (prog, r')"
  shows "\<exists>w c. policy_verdict cfg d = Some w \<and> EvaluateBPF prog d = Some (Inr c) \<and>
    verdict_code cfg (trap_ids r') w c"
proof -
  obtain w where w: "policy_verdict cfg d = Some w" using pc_Compile_answers [OF assms(3)] by blast
  with trap.pc_Compile_yields(2) [OF assms(1) assms(3) [unfolded trap_ops_def] w]
    policy_verdict_known [OF assms(2) w]
  show ?thesis by blast
qed

theorem compiled_policy_correct_witness:
  "\<exists>r' w c. pc_Compile trap_ops sample_config (new_trap None) = Inr (sample_program, r') \<and>
    policy_verdict sample_config (sample_input 39) = Some w \<and>
    EvaluateBPF sample_program (sample_input 39) = Some (Inr c) \<and>
    verdict_code sample_config (trap_ids r') w c"
proof -
  obtain r' where "pc_Compile trap_ops sample_config (new_trap None) = Inr (sample_program, r')"
    using sample_compiles by blast
  with compiled_policy_correct [OF trap_inv_new known_sample this, of "sample_input 39"]
  show ?thesis by blast
qed

text \<open>
  C2.  A trap verdict reaches the function the policy names: the kernel passes the low 16 bits of
  the program's return code to the SIGSYS handler, and the handler calls the registered function
  with its auxiliary data, unless unsafe traps are enabled and SIGBUS is blocked, which is how the
  handler recognises a call from inside an unsafe trap.
\<close>

theorem trap_reaches_handler:
  assumes inv: "trap_inv r" and comp: "pc_Compile trap_ops cfg r = Inr (prog, r')"
    and verdict: "policy_verdict cfg d = Some (VTrap func aux safe)"
    and run: "EvaluateBPF prog d = Some (Inr c)"
    and info: "si_code info = SYS_SECCOMP" "si_errno info = int (unat (c AND SECCOMP_RET_DATA))"
      "sigsys_ip info = ctx_ip ctx" "sigsys_nr info = ucast (ctx_syscall ctx)" "sigsys_arch info = arch"
    and outside: "\<not> (trap_has_unsafe r' \<and> ctx_sigbus_blocked ctx)"
  shows "\<exists>data. SigSys arch nr_clone r' LINUX_SIGSYS info (Some ctx) =
    CallHandler \<lparr>key_fnc = func, key_aux = aux, key_safe = safe\<rparr> data (\<not> safe)"
proof -
  note y = trap.pc_Compile_yields [OF inv comp [unfolded trap_ops_def]]
  have "good_verdict (VTrap func aux safe)" by (simp add: good_verdict_def)
  with y(2) [OF verdict] run obtain tid
    where ids: "trap_ids r' \<lparr>key_fnc = func, key_aux = aux, key_safe = safe\<rparr> = Some tid"
      and c: "c = SECCOMP_RET_TRAP + ucast tid"
    by (auto simp: trap_code_def)
  obtain m where m: "unat tid = m" by simp
  have err: "si_errno info = int m"
    using info(2) unfolding c trap_code_data unat_ucast_u16 m .
  from ids y(1) have "0 < m" "m \<le> trap_array_size r'"
    "trap_array r' ! (m - 1) = \<lparr>key_fnc = func, key_aux = aux, key_safe = safe\<rparr>"
    by (auto simp: trap_inv_def simp flip: m)
  moreover from this have "nat (int m - 1) = m - 1" by simp
  ultimately show ?thesis
    using info outside by (auto simp: SigSys_def Let_def err)
qed

theorem trap_reaches_handler_witness:
  "\<exists>r' data. SigSys 0xC00000B7 220 r' LINUX_SIGSYS
      \<lparr>si_code = 1, si_errno = 1, sigsys_ip = 0x1000, sigsys_nr = 500, sigsys_arch = 0xC00000B7\<rparr>
      (Some \<lparr>ctx_syscall = 500, ctx_ip = 0x1000, ctx_parm = (\<lambda>_. 0), ctx_sigbus_blocked = False\<rparr>)
    = CallHandler \<lparr>key_fnc = CrashSIGSYS_Handler, key_aux = 0, key_safe = True\<rparr> data False"
proof -
  obtain r' where comp: "pc_Compile trap_ops sample_config (new_trap None) = Inr (sample_program, r')"
    using sample_compiles by blast
  have v: "policy_verdict sample_config (sample_input 500) = Some (VTrap CrashSIGSYS_Handler 0 True)"
    by (simp add: policy_verdict_def resolve_def policy_expr_def sample_input_def IsValid_simps
        kIsIntel_def EM_AARCH64_def AUDIT_ARCH_64BIT_def AUDIT_ARCH_LE_def)
  have run: "EvaluateBPF sample_program (sample_input 500) = Some (Inr 0x30001)" by code_simp
  from trap_reaches_handler [OF trap_inv_new comp v run, where arch = "0xC00000B7" and nr_clone = 220 and
      info = "\<lparr>si_code = 1, si_errno = 1, sigsys_ip = 0x1000, sigsys_nr = 500, sigsys_arch = 0xC00000B7\<rparr>" and
      ctx = "\<lparr>ctx_syscall = 500, ctx_ip = 0x1000, ctx_parm = (\<lambda>_. 0), ctx_sigbus_blocked = False\<rparr>"]
  show ?thesis by (auto simp: SYS_SECCOMP_def bpf_consts)
qed

text \<open>
  On an x32 build no policy is ever asked about a system call: the ABI check wants bit 30 of the
  number set, while the valid range of linux_syscall_ranges.h ends at 1024, so every number the ABI
  check lets through counts as invalid.
\<close>

theorem x32_never_evaluates:
  assumes "pc_arch cfg = X32" and "\<not> (pc_has_unsafe cfg \<and> sd_ip d = pc_escapepc cfg)"
  shows "policy_expr cfg d \<in> {pc_panic cfg ''Invalid audit architecture in BPF filter'',
    pc_panic cfg ''Illegal mixing of system call ABIs'', InvalidSyscall (pc_policy cfg)}"
proof (cases "sd_nr d AND 0x40000000 = 0")
  case True
  with assms show ?thesis by (auto simp: policy_expr_def kIsIntel_def kIsX32_def)
next
  case False
  then have "sd_nr d AND 2 ^ 30 \<noteq> 0" by simp
  then have "bit (sd_nr d) 30" by (simp only: and_exp_eq_0_iff_not_bit not_not)
  then have "2 ^ 30 \<le> unat (sd_nr d)" by (rule bit_le_unat)
  with assms show ?thesis by (auto simp: policy_expr_def IsValid_simps)
qed

section \<open>The code generator and the interpreter\<close>

text \<open>
  C5.  The contract of MakeInstruction: it yields a node, new or memoized, that means the requested
  instruction over the meanings of its targets, and no node handed out before changes its meaning,
  whatever jumps were inserted to bring far targets into range.  Of all the CHECKs in the code generator
  only the limit on the program size can fail: branch offsets always fit their 8 bits and the
  instruction after a load is always in place.
\<close>

theorem MakeInstruction_contract:
  assumes "cg_inv g" and "cg_args g code jt jf"
  shows "case MakeInstruction g code k jt jf of
      Inr (n, g') \<Rightarrow> cg_inv g' \<and>
        node_exec (cg_program g') d n =
          dag_sem d code k (dnode (cg_program g') d jt) (dnode (cg_program g') d jf) \<and>
        (\<forall>m < length (cg_program g). node_exec (cg_program g') d m = node_exec (cg_program g) d m)
    | Inl e \<Rightarrow> e = ProgramTooLong \<and> BPF_MAXINSNS \<le> length (cg_program g) + 2"
proof (cases "MakeInstruction g code k jt jf")
  case (Inl e)
  then show ?thesis using MakeInstruction_Inl [OF assms Inl] by simp
next
  case (Inr x)
  then obtain n g' where m: "MakeInstruction g code k jt jf = Inr (n, g')" by (cases x) simp
  show ?thesis
    using MakeInstruction_correct [OF assms m] cg_extends_exec [OF MakeInstruction_correct(2) [OF assms m]]
    by (simp add: m node_means_def)
qed

definition full_codegen :: codegen where
  "full_codegen = \<lparr>cg_program = replicate BPF_MAXINSNS (ret_insn 0), cg_equivalent = [0..<BPF_MAXINSNS],
     cg_memos = (\<lambda>_. None)\<rparr>"

theorem MakeInstruction_contract_witness:
  "(\<exists>n g'. MakeInstruction new_codegen (BPF_RET + BPF_K) 7 kNullNode kNullNode = Inr (n, g') \<and> cg_inv g') \<and>
   MakeInstruction full_codegen (BPF_RET + BPF_K) 7 kNullNode kNullNode = Inl ProgramTooLong"
proof
  have args: "cg_args new_codegen (BPF_RET + BPF_K) kNullNode kNullNode"
    unfolding cg_args_def ret_code by (simp add: bpf_consts)
  obtain n g' where mk: "MakeInstruction new_codegen (BPF_RET + BPF_K) 7 kNullNode kNullNode = Inr (n, g')"
    by (simp add: MakeInstruction_def AppendInstruction_def Append_def Let_def new_codegen_def)
      (simp add: pc_decode Append_def)
  then show "\<exists>n g'. MakeInstruction new_codegen (BPF_RET + BPF_K) 7 kNullNode kNullNode = Inr (n, g') \<and> cg_inv g'"
    using MakeInstruction_contract [OF cg_inv_new args, where k = 7] by auto
  have inv: "cg_inv full_codegen" by (simp add: cg_inv_def full_codegen_def)
  have args: "cg_args full_codegen (BPF_RET + BPF_K) kNullNode kNullNode"
    unfolding cg_args_def ret_code by (simp add: bpf_consts)
  have "AppendInstruction full_codegen (BPF_RET + BPF_K) 7 kNullNode kNullNode = Inl ProgramTooLong"
    unfolding AppendInstruction_def Append_def ret_code by (simp add: full_codegen_def bpf_consts)
  then obtain e where "MakeInstruction full_codegen (BPF_RET + BPF_K) 7 kNullNode kNullNode = Inl e"
    by (simp add: MakeInstruction_def full_codegen_def)
  with MakeInstruction_contract [OF inv args, where k = 7]
  show "MakeInstruction full_codegen (BPF_RET + BPF_K) 7 kNullNode kNullNode = Inl ProgramTooLong" by simp
qed

text \<open>
  C7.  The verifier's interpreter stops on every program and every input, whatever the bytes of the
  program: no jump goes backwards, so the loop runs at most once per instruction.
\<close>

theorem EvaluateBPF_stops: "\<exists>result. EvaluateBPF program d = Some result"
  using EvaluateBPF_total [of program d] by blast

end
